(* ===== verification/Prelude.thy ===== *)
theory Prelude
  imports Main "HOL-Library.AList" "HOL-Library.Word"
begin

text \<open>
  The shared vocabulary of the development: Python exceptions as values of a sum type, the error
  monad that sequences fallible calls, Python dictionaries as association lists in insertion
  order, and the integer helpers the sources share.
\<close>

section \<open>Exceptions as values\<close>

text \<open>
  A Python function that may raise is modelled by a function into \<open>py_error + 'a\<close>: \<open>Inl\<close> is
  the exception, \<open>Inr\<close> the result. The message of an exception is not kept.
\<close>

datatype py_error =
    ValueError
  | RuntimeError
  | AssertionError
  | KeyError
  | IndexError
  | OverflowError
  | ZeroDivisionError
  | StopIteration
  | TypeError
  | NotImplementedError
  | AttributeError

type_synonym 'a result = "py_error + 'a"

definition res_bind :: "'a result \<Rightarrow> ('a \<Rightarrow> 'b result) \<Rightarrow> 'b result" where
  "res_bind m f = (case m of Inl e \<Rightarrow> Inl e | Inr x \<Rightarrow> f x)"

definition res_guard :: "bool \<Rightarrow> py_error \<Rightarrow> unit result" where
  "res_guard b e = (if b then Inr () else Inl e)"

text \<open>The loop \<^verbatim>\<open>for x in xs: s = f(x, s)\<close>, left at the first exception.\<close>

fun res_fold :: "('a \<Rightarrow> 's \<Rightarrow> 's result) \<Rightarrow> 'a list \<Rightarrow> 's \<Rightarrow> 's result" where
  "res_fold f [] s = Inr s"
| "res_fold f (x # xs) s = res_bind (f x s) (res_fold f xs)"

named_theorems res_simps \<open>evaluation of the error monad\<close>

lemma res_bind_simps [simp, res_simps]:
  "res_bind (Inl e) f = Inl e"
  "res_bind (Inr x) f = f x"
  by (simp_all add: res_bind_def)

lemma res_bind_Inr_iff [res_simps]:
  "res_bind m f = Inr y \<longleftrightarrow> (\<exists>x. m = Inr x \<and> f x = Inr y)"
  by (auto simp: res_bind_def split: sum.splits)

lemma res_bind_InrE: "res_bind m f = Inr y \<Longrightarrow> (\<And>x. m = Inr x \<Longrightarrow> f x = Inr y \<Longrightarrow> P) \<Longrightarrow> P"
  by (auto simp: res_bind_Inr_iff)

lemma res_bind_Inl_iff:
  "res_bind m f = Inl e \<longleftrightarrow> m = Inl e \<or> (\<exists>x. m = Inr x \<and> f x = Inl e)"
  by (auto simp: res_bind_def split: sum.splits)

lemma res_guard_simps [simp, res_simps]:
  "res_guard True e = Inr ()"
  "res_guard False e = Inl e"
  by (simp_all add: res_guard_def)

lemma res_guard_Inr_iff [res_simps]: "res_guard b e = Inr u \<longleftrightarrow> b"
  by (simp add: res_guard_def)

lemma res_fold_append:
  "res_fold f (xs @ ys) s = res_bind (res_fold f xs s) (res_fold f ys)"
  by (induction xs arbitrary: s) (auto simp: res_bind_def split: sum.splits)

lemma res_fold_invariant:
  assumes "res_fold f xs s = Inr t" and "P s"
    and "\<And>x s s'. x \<in> set xs \<Longrightarrow> P s \<Longrightarrow> f x s = Inr s' \<Longrightarrow> P s'"
  shows "P t"
  using assms
proof (induction xs arbitrary: s)
  case Nil
  then show ?case by simp
next
  case (Cons x xs)
  from Cons.prems(1) obtain s' where s': "f x s = Inr s'" and t: "res_fold f xs s' = Inr t"
    by (auto simp: res_bind_Inr_iff)
  have "P s'" using Cons.prems(3) [OF _ Cons.prems(2) s'] by simp
  then show ?case using Cons.IH [OF t] Cons.prems(3) by (metis list.set_intros(2))
qed

text \<open>The list \<^verbatim>\<open>[f(x) for x in xs]\<close> of a fallible \<^verbatim>\<open>f\<close>.\<close>

fun res_map :: "('a \<Rightarrow> 'b result) \<Rightarrow> 'a list \<Rightarrow> 'b list result" where
  "res_map f [] = Inr []"
| "res_map f (x # xs) = res_bind (f x) (\<lambda>y. res_bind (res_map f xs) (\<lambda>ys. Inr (y # ys)))"

lemma res_map_cong [fundef_cong]:
  "xs = ys \<Longrightarrow> (\<And>x. x \<in> set ys \<Longrightarrow> f x = g x) \<Longrightarrow> res_map f xs = res_map g ys"
  by (induction ys arbitrary: xs) auto

lemma res_map_Inr_iff:
  "res_map f xs = Inr ys \<longleftrightarrow> list_all2 (\<lambda>x y. f x = Inr y) xs ys"
  by (induction xs arbitrary: ys) (auto simp: res_bind_Inr_iff list_all2_Cons1)

lemma res_map_total: "(\<And>x. x \<in> set xs \<Longrightarrow> f x = Inr (g x)) \<Longrightarrow> res_map f xs = Inr (map g xs)"
  by (induction xs) auto

section \<open>Dictionaries\<close>

text \<open>
  A Python dictionary is an association list with distinct keys in insertion order:
  \<^const>\<open>map_of\<close> is \<^verbatim>\<open>d.get(k)\<close>, \<^const>\<open>AList.update\<close> is \<^verbatim>\<open>d[k] = v\<close> (it keeps the place of a
  present key and appends an absent one), \<^const>\<open>AList.delete\<close> is \<^verbatim>\<open>d.pop(k, None)\<close>.
\<close>

text \<open>Python's \<^verbatim>\<open>bytes\<close>.\<close>

type_synonym bytes = "8 word list"

type_synonym ('k, 'v) dict = "('k \<times> 'v) list"

abbreviation dict_get :: "('k, 'v) dict \<Rightarrow> 'k \<Rightarrow> 'v option" where
  "dict_get d k \<equiv> map_of d k"

abbreviation dict_set :: "'k \<Rightarrow> 'v \<Rightarrow> ('k, 'v) dict \<Rightarrow> ('k, 'v) dict" where
  "dict_set k v d \<equiv> AList.update k v d"

abbreviation dict_pop :: "'k \<Rightarrow> ('k, 'v) dict \<Rightarrow> ('k, 'v) dict" where
  "dict_pop k d \<equiv> AList.delete k d"

abbreviation dict_ok :: "('k, 'v) dict \<Rightarrow> bool" where
  "dict_ok d \<equiv> distinct (map fst d)"

lemma dict_get_set: "dict_get (dict_set k v d) k' = (if k' = k then Some v else dict_get d k')"
  by (simp add: update_conv')

lemma dict_get_pop: "dict_get (dict_pop k d) k' = (if k' = k then None else dict_get d k')"
  by (simp add: delete_conv')

lemma dict_ok_set: "dict_ok d \<Longrightarrow> dict_ok (dict_set k v d)"
  by (rule distinct_update)

lemma dict_ok_pop: "dict_ok d \<Longrightarrow> dict_ok (dict_pop k d)"
  by (rule distinct_delete)

lemma dict_set_absent: "dict_get d k = None \<Longrightarrow> dict_set k v d = d @ [(k, v)]"
  by (induction d) (auto split: if_splits)

lemma dict_keys_set: "dict_get d k \<noteq> None \<Longrightarrow> map fst (dict_set k v d) = map fst d"
  by (induction d) (auto split: if_splits)

lemma sum_keys_pop:
  "dict_ok d \<Longrightarrow> dict_get d k \<noteq> None \<Longrightarrow> (\<Sum>h\<leftarrow>map fst (dict_pop k d). f h) = (\<Sum>h\<leftarrow>map fst d. f h) - (f k :: int)"
proof (induction d)
  case (Cons e d)
  obtain h v where e: "e = (h, v)" by fastforce
  show ?case
  proof (cases "h = k")
    case True
    then have "dict_pop k d = d" using Cons.prems e by (intro delete_id) auto
    then show ?thesis using e True by simp
  next
    case False
    then show ?thesis using Cons e by simp
  qed
qed simp

lemmas dict_simps [simp] = dict_get_set dict_get_pop dict_ok_set dict_ok_pop

section \<open>Lists\<close>

text \<open>Python's \<^verbatim>\<open>xs[i]\<close>: a negative index counts from the end, an index out of range raises.\<close>

definition py_index :: "'a list \<Rightarrow> int \<Rightarrow> 'a result" where
  "py_index seq k =
     (if 0 \<le> k then (if nat k < length seq then Inr (seq ! nat k) else Inl IndexError)
      else if nat (- k) \<le> length seq then Inr (seq ! (length seq - nat (- k)))
      else Inl IndexError)"

text \<open>Python's \<^verbatim>\<open>xs[i:j]\<close>: a negative bound counts from the end, both are clipped to the list.\<close>

definition py_bound :: "int \<Rightarrow> int \<Rightarrow> int" where
  "py_bound n i = (if i < 0 then max 0 (i + n) else min i n)"

definition py_slice :: "int \<Rightarrow> int \<Rightarrow> 'a list \<Rightarrow> 'a list" where
  "py_slice i j xs =
     (let n = int (length xs); a = nat (py_bound n i); b = nat (py_bound n j)
      in take (b - a) (drop a xs))"

lemma py_index_from_end:
  assumes "0 < i" and "i \<le> int (length xs)"
  shows "py_index xs (- i) = Inr (xs ! (length xs - nat i))"
  using assms by (simp add: py_index_def)

lemma py_index_mem:
  assumes "- int (length xs) \<le> i" and "i < int (length xs)"
  shows "\<exists>x\<in>set xs. py_index xs i = Inr x"
proof (cases "0 \<le> i")
  case True
  with assms have "nat i < length xs" by linarith
  with True show ?thesis by (auto simp: py_index_def)
next
  case False
  with assms have "nat (- i) \<le> length xs" "length xs - nat (- i) < length xs" by linarith+
  with False show ?thesis by (auto simp: py_index_def)
qed

lemma py_slice_nonneg:
  assumes "0 \<le> i" and "i \<le> j"
  shows "py_slice i j xs = take (nat j - nat i) (drop (nat i) xs)"
proof (cases "j \<le> int (length xs)")
  case False
  then have "take (nat j - nat i) (drop (nat i) xs) = drop (nat i) xs" by simp
  with False assms show ?thesis
    by (cases "i \<le> int (length xs)") (auto simp: py_slice_def py_bound_def Let_def)
qed (use assms in \<open>auto simp: py_slice_def py_bound_def Let_def\<close>)

lemma length_py_slice_inside:
  assumes "0 \<le> i" and "i \<le> j" and "j \<le> int (length xs)"
  shows "length (py_slice i j xs) = nat (j - i)"
  using assms by (simp add: py_slice_nonneg nat_diff_distrib)

lemma py_slice_append_inside:
  assumes "0 \<le> i" and "i \<le> j" and "j \<le> int (length xs)"
  shows "py_slice i j (xs @ ys) = py_slice i j xs"
  using assms by (simp add: py_slice_nonneg)

lemma take_append_py_slice:
  assumes "0 \<le> i" and "i \<le> j"
  shows "take (nat i) xs @ py_slice i j xs = take (nat j) xs"
  using assms by (metis le_add_diff_inverse nat_mono py_slice_nonneg take_add)

section \<open>Integer helpers\<close>

text \<open>\<^verbatim>\<open>vllm.utils.math_utils.cdiv\<close>: ceiling division, as the source writes it.\<close>

definition cdiv :: "int \<Rightarrow> int \<Rightarrow> int" where
  "cdiv a b = - (a div - b)"

lemma cdiv_bounds:
  assumes "0 < b"
  shows "a \<le> cdiv a b * b" and "cdiv a b * b < a + b"
proof -
  have "cdiv a b * b = - (b * ((- a) div b))"
    by (simp add: cdiv_def div_minus_right)
  also have "\<dots> = a + (- a) mod b"
    using mult_div_mod_eq [of b "- a"] by linarith
  finally have "cdiv a b * b = a + (- a) mod b" .
  with assms show "a \<le> cdiv a b * b" "cdiv a b * b < a + b"
    by simp_all
qed

lemma cdiv_le_iff:
  assumes "0 < b"
  shows "cdiv a b \<le> c \<longleftrightarrow> a \<le> c * b"
proof
  assume "cdiv a b \<le> c"
  then have "cdiv a b * b \<le> c * b" using assms by simp
  with cdiv_bounds(1) [OF assms, of a] show "a \<le> c * b" by linarith
next
  assume le: "a \<le> c * b"
  show "cdiv a b \<le> c"
  proof (rule ccontr)
    assume "\<not> cdiv a b \<le> c"
    then have "(c + 1) * b \<le> cdiv a b * b" using assms by simp
    with cdiv_bounds(2) [OF assms, of a] le show False by (simp add: algebra_simps)
  qed
qed

lemma cdiv_nonneg:
  assumes "0 < b" and "0 \<le> a"
  shows "0 \<le> cdiv a b"
proof (rule ccontr)
  assume "\<not> 0 \<le> cdiv a b"
  then have "cdiv a b * b < 0" using assms(1) by (simp add: mult_neg_pos)
  with cdiv_bounds(1) [OF assms(1), of a] assms(2) show False by linarith
qed

text \<open>Integer division where the divisor may be zero.\<close>

definition py_div :: "int \<Rightarrow> int \<Rightarrow> int result" where
  "py_div a b = (if b = 0 then Inl ZeroDivisionError else Inr (a div b))"

definition py_cdiv :: "int \<Rightarrow> int \<Rightarrow> int result" where
  "py_cdiv a b = (if b = 0 then Inl ZeroDivisionError else Inr (cdiv a b))"

lemma py_div_nonzero [simp]: "b \<noteq> 0 \<Longrightarrow> py_div a b = Inr (a div b)"
  by (simp add: py_div_def)

lemma py_cdiv_nonzero [simp]: "b \<noteq> 0 \<Longrightarrow> py_cdiv a b = Inr (cdiv a b)"
  by (simp add: py_cdiv_def)

lemma py_cdiv_Inr_iff: "py_cdiv a b = Inr c \<longleftrightarrow> b \<noteq> 0 \<and> c = cdiv a b"
  by (auto simp: py_cdiv_def)

text \<open>\<^verbatim>\<open>max(xs)\<close> of a sequence, which raises on the empty one.\<close>

fun py_max :: "int list \<Rightarrow> int result" where
  "py_max [] = Inl ValueError"
| "py_max (x # xs) = Inr (fold max xs x)"

lemma fold_max_ge: "y \<in> set (x # xs) \<Longrightarrow> y \<le> fold max xs (x::int)"
proof (induction xs arbitrary: x y)
  case (Cons a xs)
  consider "y = x \<or> y = a" | "y \<in> set xs" using Cons.prems by auto
  then show ?case
  proof cases
    case 1
    then have "y \<le> max a x" by auto
    also have "\<dots> \<le> fold max xs (max a x)" using Cons.IH [of "max a x" "max a x"] by simp
    finally show ?thesis by simp
  next
    case 2
    then show ?thesis using Cons.IH by simp
  qed
qed simp

lemma py_max_ge: "py_max xs = Inr m \<Longrightarrow> y \<in> set xs \<Longrightarrow> y \<le> m"
  using fold_max_ge by (cases xs) fastforce+

text \<open>\<^verbatim>\<open>round_up\<close> and \<^verbatim>\<open>round_down\<close> of the same module.\<close>

definition round_up :: "int \<Rightarrow> int \<Rightarrow> int" where
  "round_up x y = ((x + y - 1) div y) * y"

definition round_down :: "int \<Rightarrow> int \<Rightarrow> int" where
  "round_down x y = (x div y) * y"

lemma cdiv_mono: "0 < b \<Longrightarrow> a \<le> c \<Longrightarrow> cdiv a b \<le> cdiv c b"
  using cdiv_le_iff [of b a "cdiv c b"] cdiv_bounds(1) [of b c] by simp

lemma round_up_bounds:
  assumes "0 < y"
  shows "x \<le> round_up x y" and "round_up x y < x + y" and "y dvd round_up x y"
proof -
  have eq: "round_up x y = x + y - 1 - (x + y - 1) mod y"
    by (simp add: round_up_def minus_mod_eq_div_mult)
  have "0 \<le> (x + y - 1) mod y" "(x + y - 1) mod y < y" using assms by simp_all
  then show "x \<le> round_up x y" "round_up x y < x + y" unfolding eq by linarith+
qed (simp add: round_up_def)

end
