(* ===== verification/FreeBlockQueue.thy ===== *)
theory FreeBlockQueue
  imports Prelude
begin

text \<open>
  The free list of the block pool: \<^verbatim>\<open>FreeKVCacheBlockQueue\<close> of
  \<^verbatim>\<open>vllm/v1/core/kv_cache_utils.py\<close>, a doubly linked list threaded through the
  \<^verbatim>\<open>prev_free_block\<close> and \<^verbatim>\<open>next_free_block\<close> fields of the blocks, with a fake head and a fake tail.
  The model keeps the links as two finite-support functions on block references, so every
  assignment of the source is one update. The lemmas show that each operation implements the
  corresponding operation on a plain list, and the locale \<open>free_list\<close> states that interface for
  the block pool.
\<close>

section \<open>State and operations\<close>

text \<open>
  A reference to a \<^verbatim>\<open>KVCacheBlock\<close> object: the two fake blocks the queue creates (both have
  \<^verbatim>\<open>block_id\<close> -1), and the blocks of the pool, whose \<^verbatim>\<open>block_id\<close> is their index.
\<close>

datatype block_ref = FakeHead | FakeTail | Block nat

fun block_id :: "block_ref \<Rightarrow> int" where
  "block_id FakeHead = -1"
| "block_id FakeTail = -1"
| "block_id (Block n) = int n"

record free_queue =
  num_free_blocks :: int
  prev_free_block :: "block_ref \<Rightarrow> block_ref option"
  next_free_block :: "block_ref \<Rightarrow> block_ref option"

definition set_prev :: "block_ref \<Rightarrow> block_ref option \<Rightarrow> free_queue \<Rightarrow> free_queue" where
  "set_prev b v q = q\<lparr>prev_free_block := (prev_free_block q)(b := v)\<rparr>"

definition set_next :: "block_ref \<Rightarrow> block_ref option \<Rightarrow> free_queue \<Rightarrow> free_queue" where
  "set_next b v q = q\<lparr>next_free_block := (next_free_block q)(b := v)\<rparr>"

definition add_free :: "int \<Rightarrow> free_queue \<Rightarrow> free_queue" where
  "add_free n q = q\<lparr>num_free_blocks := num_free_blocks q + n\<rparr>"

text \<open>\<^verbatim>\<open>__init__\<close>: the loop body at index \<open>i\<close>, then the links of the two fake blocks.\<close>

definition init_link_step :: "block_ref list \<Rightarrow> nat \<Rightarrow> free_queue \<Rightarrow> free_queue" where
  "init_link_step blocks i q =
     (let q1 = (if 0 < i then set_prev (blocks ! i) (Some (blocks ! (i - 1))) q else q)
      in if i + 1 < length blocks then set_next (blocks ! i) (Some (blocks ! (i + 1))) q1 else q1)"

definition free_queue_init :: "block_ref list \<Rightarrow> free_queue" where
  "free_queue_init blocks =
     (let n = length blocks;
          q0 = \<lparr>num_free_blocks = int n, prev_free_block = (\<lambda>_. None), next_free_block = (\<lambda>_. None)\<rparr>;
          q1 = fold (init_link_step blocks) [0..<n] q0
      in if 0 < n then
           set_next (blocks ! (n - 1)) (Some FakeTail)
             (set_prev FakeTail (Some (blocks ! (n - 1)))
               (set_prev (blocks ! 0) (Some FakeHead)
                 (set_next FakeHead (Some (blocks ! 0)) q1)))
         else
           set_prev FakeTail (Some FakeHead) (set_next FakeHead (Some FakeTail) q1))"

definition popleft :: "free_queue \<Rightarrow> (block_ref \<times> free_queue) result" where
  "popleft q =
     (case next_free_block q FakeHead of
        None \<Rightarrow> if num_free_blocks q = 0 then Inl ValueError else Inl AssertionError
      | Some first_block \<Rightarrow>
          if first_block = FakeTail then
            if num_free_blocks q = 0 then Inl ValueError else Inl AssertionError
          else
            (case next_free_block q first_block of
               None \<Rightarrow> Inl RuntimeError
             | Some second_block \<Rightarrow>
                 Inr (first_block,
                      add_free (-1)
                        (set_next first_block None
                          (set_prev first_block None
                            (set_prev second_block (Some FakeHead)
                              (set_next FakeHead (Some second_block) q)))))))"

text \<open>The loop of \<^verbatim>\<open>popleft_n\<close>: \<open>cur\<close> is \<^verbatim>\<open>curr_block\<close>, \<open>ret\<close> the list collected so far.\<close>

fun popleft_n_loop :: "nat \<Rightarrow> block_ref option \<Rightarrow> block_ref list \<Rightarrow> free_queue \<Rightarrow>
    (block_ref list \<times> block_ref option \<times> free_queue) result" where
  "popleft_n_loop 0 cur ret q = Inr (ret, cur, q)"
| "popleft_n_loop (Suc n) None ret q = Inl AssertionError"
| "popleft_n_loop (Suc n) (Some b) ret q =
     popleft_n_loop n (next_free_block q b) (ret @ [b]) (set_next b None (set_prev b None q))"

definition popleft_n :: "int \<Rightarrow> free_queue \<Rightarrow> (block_ref list \<times> free_queue) result" where
  "popleft_n n q =
     (if n = 0 then Inr ([], q)
      else if num_free_blocks q < n then Inl AssertionError
      else
        res_bind (popleft_n_loop (nat n) (next_free_block q FakeHead) [] (add_free (- n) q))
          (\<lambda>(ret, cur, q'). case cur of
              None \<Rightarrow> Inr (ret, q')
            | Some b \<Rightarrow> Inr (ret, set_prev b (Some FakeHead) (set_next FakeHead (Some b) q'))))"

definition remove_block :: "block_ref \<Rightarrow> free_queue \<Rightarrow> free_queue result" where
  "remove_block b q =
     (case (prev_free_block q b, next_free_block q b) of
        (Some p, Some n) \<Rightarrow>
          Inr (add_free (-1)
                (set_next b None (set_prev b None
                  (set_prev n (Some p) (set_next p (Some n) q)))))
      | _ \<Rightarrow> Inl RuntimeError)"

definition append_block :: "block_ref \<Rightarrow> free_queue \<Rightarrow> free_queue result" where
  "append_block b q =
     (case prev_free_block q FakeTail of
        None \<Rightarrow> Inl RuntimeError
      | Some last_block \<Rightarrow>
          Inr (add_free 1
                (set_prev FakeTail (Some b)
                  (set_next b (Some FakeTail)
                    (set_prev b (Some last_block) (set_next last_block (Some b) q))))))"

text \<open>
  The loop that \<^verbatim>\<open>prepend_n\<close> and \<^verbatim>\<open>append_n\<close> share: link each block behind the one before it;
  the result names the last block linked.
\<close>

fun link_loop :: "block_ref \<Rightarrow> block_ref list \<Rightarrow> free_queue \<Rightarrow> block_ref \<times> free_queue" where
  "link_loop p [] q = (p, q)"
| "link_loop p (b # bs) q = link_loop b bs (set_next p (Some b) (set_prev b (Some p) q))"

definition prepend_n :: "block_ref list \<Rightarrow> free_queue \<Rightarrow> free_queue result" where
  "prepend_n bs q =
     (if bs = [] then Inr q
      else case next_free_block q FakeHead of
        None \<Rightarrow> Inl AssertionError
      | Some first_block \<Rightarrow>
          (case link_loop FakeHead bs q of (p, q') \<Rightarrow>
             Inr (add_free (int (length bs))
                   (set_prev first_block (Some p) (set_next p (Some first_block) q')))))"

definition append_n :: "block_ref list \<Rightarrow> free_queue \<Rightarrow> free_queue result" where
  "append_n bs q =
     (if bs = [] then Inr q
      else case prev_free_block q FakeTail of
        None \<Rightarrow> Inl AssertionError
      | Some last_block \<Rightarrow>
          (case link_loop last_block bs q of (p, q') \<Rightarrow>
             Inr (add_free (int (length bs))
                   (set_prev FakeTail (Some p) (set_next p (Some FakeTail) q')))))"

text \<open>
  \<^verbatim>\<open>get_all_free_blocks\<close>: the walk may not end on a cyclic list, so not returning is \<open>None\<close>.
\<close>

partial_function (option) walk_free ::
  "free_queue \<Rightarrow> block_ref \<Rightarrow> block_ref list \<Rightarrow> block_ref list option" where
  "walk_free q cur ret =
     (case next_free_block q cur of
        None \<Rightarrow> Some ret
      | Some nxt \<Rightarrow> walk_free q nxt (ret @ [cur]))"

declare walk_free.simps [code]

definition get_all_free_blocks :: "free_queue \<Rightarrow> block_ref list result option" where
  "get_all_free_blocks q =
     (case next_free_block q FakeHead of
        None \<Rightarrow> Some (Inl RuntimeError)
      | Some b \<Rightarrow> map_option Inr (walk_free q b []))"

section \<open>The list a queue represents\<close>

named_theorems link_simps \<open>reading a link after an assignment\<close>

lemma set_links [simp, link_simps]:
  "next_free_block (set_next b v q) = (next_free_block q)(b := v)"
  "prev_free_block (set_next b v q) = prev_free_block q"
  "num_free_blocks (set_next b v q) = num_free_blocks q"
  "next_free_block (set_prev b v q) = next_free_block q"
  "prev_free_block (set_prev b v q) = (prev_free_block q)(b := v)"
  "num_free_blocks (set_prev b v q) = num_free_blocks q"
  "next_free_block (add_free n q) = next_free_block q"
  "prev_free_block (add_free n q) = prev_free_block q"
  "num_free_blocks (add_free n q) = num_free_blocks q + n"
  by (simp_all add: set_next_def set_prev_def add_free_def)

text \<open>
  \<open>seg q a xs b\<close>: following the links from \<open>a\<close> one meets exactly the blocks \<open>xs\<close> and then \<open>b\<close>,
  and the backward links agree.
\<close>

fun seg :: "free_queue \<Rightarrow> block_ref \<Rightarrow> block_ref list \<Rightarrow> block_ref \<Rightarrow> bool" where
  "seg q a [] b \<longleftrightarrow> next_free_block q a = Some b \<and> prev_free_block q b = Some a"
| "seg q a (x # xs) b \<longleftrightarrow>
     next_free_block q a = Some x \<and> prev_free_block q x = Some a \<and> seg q x xs b"

definition queue_rep :: "free_queue \<Rightarrow> block_ref list \<Rightarrow> bool" where
  "queue_rep q xs \<longleftrightarrow>
     seg q FakeHead xs FakeTail \<and> distinct (FakeHead # FakeTail # xs) \<and>
     num_free_blocks q = int (length xs) \<and>
     prev_free_block q FakeHead = None \<and> next_free_block q FakeTail = None \<and>
     (\<forall>b. b \<notin> set (FakeHead # FakeTail # xs) \<longrightarrow>
        prev_free_block q b = None \<and> next_free_block q b = None)"

lemma seg_append: "seg q a (xs @ x # ys) b \<longleftrightarrow> seg q a xs x \<and> seg q x ys b"
  by (induction xs arbitrary: a) auto

lemma seg_cong:
  assumes "\<And>n. n \<in> set (a # xs) \<Longrightarrow> next_free_block q' n = next_free_block q n"
    and "\<And>n. n \<in> set (xs @ [b]) \<Longrightarrow> prev_free_block q' n = prev_free_block q n"
  shows "seg q' a xs b \<longleftrightarrow> seg q a xs b"
  using assms by (induction xs arbitrary: a) auto

lemma seg_first: "seg q a xs b \<Longrightarrow> next_free_block q a = Some (hd (xs @ [b]))"
  by (cases xs) auto

lemma seg_last: "seg q a xs b \<Longrightarrow> prev_free_block q b = Some (last (a # xs))"
  by (induction xs arbitrary: a) auto

lemma seg_unique:
  "seg q a xs b \<Longrightarrow> seg q a ys b \<Longrightarrow> b \<notin> set xs \<Longrightarrow> b \<notin> set ys \<Longrightarrow> xs = ys"
proof (induction xs arbitrary: a ys)
  case Nil
  then show ?case by (cases ys) auto
next
  case (Cons x xs)
  then show ?case by (cases ys) auto
qed

text \<open>A queue represents at most one list.\<close>

lemma queue_rep_unique: "queue_rep q xs \<Longrightarrow> queue_rep q ys \<Longrightarrow> xs = ys"
  by (rule seg_unique [of q FakeHead _ FakeTail]) (auto simp: queue_rep_def)

lemma queue_repD:
  assumes "queue_rep q xs"
  shows "seg q FakeHead xs FakeTail" and "distinct xs"
    and "FakeHead \<notin> set xs" and "FakeTail \<notin> set xs"
    and "num_free_blocks q = int (length xs)"
    and "prev_free_block q FakeHead = None" and "next_free_block q FakeTail = None"
    and "b \<notin> set xs \<Longrightarrow> b \<noteq> FakeHead \<Longrightarrow> b \<noteq> FakeTail \<Longrightarrow>
           prev_free_block q b = None \<and> next_free_block q b = None"
  using assms by (auto simp: queue_rep_def)

section \<open>Each operation implements the operation on the list\<close>

lemma popleft_rep:
  assumes "queue_rep q (x # xs)"
  shows "\<exists>q'. popleft q = Inr (x, q') \<and> queue_rep q' xs"
proof -
  note R = queue_repD [OF assms]
  obtain y where y: "next_free_block q x = Some y" and hy: "y = hd (xs @ [FakeTail])"
    using R(1) seg_first [of q x xs FakeTail] by auto
  let ?q = "add_free (-1) (set_next x None (set_prev x None
              (set_prev y (Some FakeHead) (set_next FakeHead (Some y) q))))"
  have "popleft q = Inr (x, ?q)"
    using R y by (auto simp: popleft_def)
  moreover have "seg ?q FakeHead xs FakeTail"
  proof (cases xs)
    case Nil
    then show ?thesis using R hy by auto
  next
    case (Cons z zs)
    have "seg q z zs FakeTail" using R(1) Cons by simp
    then have "seg ?q z zs FakeTail"
      using R Cons hy by (subst seg_cong [where q = q]) auto
    then show ?thesis using R Cons hy by auto
  qed
  moreover have "queue_rep ?q xs"
    using R calculation(2) hy unfolding queue_rep_def by (cases xs) (auto simp: hd_append)
  ultimately show ?thesis by blast
qed

lemma popleft_empty: "queue_rep q [] \<Longrightarrow> popleft q = Inl ValueError"
  by (auto simp: queue_rep_def popleft_def)

text \<open>The loop of \<^verbatim>\<open>popleft_n\<close> needs only the forward links of the blocks it takes.\<close>

fun forward :: "free_queue \<Rightarrow> block_ref list \<Rightarrow> block_ref \<Rightarrow> bool" where
  "forward q [] b \<longleftrightarrow> True"
| "forward q (x # xs) b \<longleftrightarrow> next_free_block q x = Some (hd (xs @ [b])) \<and> forward q xs b"

definition clear_links :: "block_ref list \<Rightarrow> free_queue \<Rightarrow> free_queue" where
  "clear_links xs q = fold (\<lambda>b q. set_next b None (set_prev b None q)) xs q"

lemma clear_links_sel [simp]:
  "next_free_block (clear_links xs q) = (\<lambda>b. if b \<in> set xs then None else next_free_block q b)"
  "prev_free_block (clear_links xs q) = (\<lambda>b. if b \<in> set xs then None else prev_free_block q b)"
  "num_free_blocks (clear_links xs q) = num_free_blocks q"
  unfolding clear_links_def by (induction xs arbitrary: q) (auto simp: fun_eq_iff)

lemma forward_cong:
  "(\<And>n. n \<in> set xs \<Longrightarrow> next_free_block q' n = next_free_block q n) \<Longrightarrow>
     forward q' xs b = forward q xs b"
  by (induction xs) auto

lemma seg_forward: "seg q a xs b \<Longrightarrow> forward q xs b"
  by (induction xs arbitrary: a) (auto dest: seg_first)

lemma forward_append: "forward q (xs @ ys) b \<longleftrightarrow> forward q xs (hd (ys @ [b])) \<and> forward q ys b"
  by (induction xs) (auto simp: hd_append)

lemma popleft_n_loop_forward:
  assumes "forward q xs c" and "distinct xs"
  shows "popleft_n_loop (length xs) (Some (hd (xs @ [c]))) ret q =
           Inr (ret @ xs, Some c, clear_links xs q)"
  using assms
proof (induction xs arbitrary: ret q)
  case Nil
  then show ?case by (simp add: clear_links_def)
next
  case (Cons x xs)
  let ?q = "set_next x None (set_prev x None q)"
  have "forward ?q xs c"
    using Cons.prems by (subst forward_cong [where q = q]) auto
  from Cons.IH [OF this] Cons.prems show ?case
    by (simp add: clear_links_def)
qed

lemma popleft_n_rep:
  assumes rep: "queue_rep q xs" and "0 \<le> n" and "n \<le> int (length xs)"
  shows "\<exists>q'. popleft_n n q = Inr (take (nat n) xs, q') \<and> queue_rep q' (drop (nat n) xs)"
proof (cases "n = 0")
  case True
  with rep show ?thesis by (simp add: popleft_n_def)
next
  case False
  define ys where "ys = take (nat n) xs"
  define zs where "zs = drop (nat n) xs"
  define c where "c = hd (zs @ [FakeTail])"
  let ?qa = "add_free (- n) q"
  let ?qb = "clear_links ys ?qa"
  let ?q = "set_prev c (Some FakeHead) (set_next FakeHead (Some c) ?qb)"
  have xs: "xs = ys @ zs" and len: "length ys = nat n"
    using assms(2,3) by (auto simp: ys_def zs_def)
  note R = queue_repD [OF rep]
  have ne: "ys \<noteq> []" using len False assms(2) by auto
  have "forward q (ys @ zs) FakeTail" using R(1) seg_forward xs by blast
  then have "forward ?qa ys c"
    using forward_cong [of ys ?qa q c] by (auto simp: forward_append c_def)
  moreover have "next_free_block q FakeHead = Some (hd (ys @ [c]))"
    using seg_first [OF R(1)] ne xs by (simp add: hd_append)
  ultimately have "popleft_n n q = Inr (ys, ?q)"
    using popleft_n_loop_forward [of ?qa ys c "[]"] R(2,5) xs len False assms(3)
    by (simp add: popleft_n_def)
  moreover have "queue_rep ?q zs"
  proof -
    have c: "c \<notin> set ys" "c \<noteq> FakeHead"
      using R xs by (cases zs; auto simp: c_def)+
    have "seg ?q FakeHead zs FakeTail"
    proof (cases zs)
      case Nil
      then show ?thesis using R ne xs c by (auto simp: c_def)
    next
      case (Cons z zs')
      have "seg q z zs' FakeTail"
        using R(1) xs Cons by (simp add: seg_append)
      then have "seg ?q z zs' FakeTail"
        using R xs Cons c_def by (subst seg_cong [where q = q]) auto
      then show ?thesis using R xs Cons c by (auto simp: c_def)
    qed
    then show ?thesis
      using R xs len assms(2) c unfolding queue_rep_def
      by (cases zs) (auto simp: c_def)
  qed
  ultimately show ?thesis using ys_def zs_def by blast
qed

lemma popleft_n_short:
  "queue_rep q xs \<Longrightarrow> int (length xs) < n \<Longrightarrow> popleft_n n q = Inl AssertionError"
  by (auto simp: queue_rep_def popleft_n_def)

lemma remove_block_rep:
  assumes rep: "queue_rep q xs" and "b \<in> set xs"
  shows "\<exists>q'. remove_block b q = Inr q' \<and> queue_rep q' (remove1 b xs)"
proof -
  note R = queue_repD [OF rep]
  obtain ys zs where xs: "xs = ys @ b # zs" and nin: "b \<notin> set ys"
    using assms(2) by (meson split_list_first)
  define p where "p = last (FakeHead # ys)"
  define n where "n = hd (zs @ [FakeTail])"
  have s1: "seg q FakeHead ys b" and s2: "seg q b zs FakeTail"
    using R(1) xs by (auto simp: seg_append)
  have pb: "prev_free_block q b = Some p" and nb: "next_free_block q b = Some n"
    using seg_last [OF s1] seg_first [OF s2] by (auto simp: p_def n_def)
  let ?q = "add_free (-1) (set_next b None (set_prev b None
              (set_prev n (Some p) (set_next p (Some n) q))))"
  have eq: "remove_block b q = Inr ?q" using pb nb by (simp add: remove_block_def)
  have dist: "distinct (FakeHead # FakeTail # ys @ b # zs)" using R xs by auto
  have p: "p \<in> set (FakeHead # ys)" unfolding p_def by (rule last_in_set) simp
  have n: "n \<in> set (zs @ [FakeTail])" unfolding n_def by (rule hd_in_set) simp
  have "seg ?q FakeHead (ys @ zs) FakeTail"
  proof -
    have left: "seg ?q FakeHead ys n"
    proof (cases ys rule: rev_cases)
      case Nil
      then show ?thesis using p_def n dist by auto
    next
      case (snoc ys' y)
      have "seg q FakeHead ys' y" using s1 snoc by (simp add: seg_append)
      then have "seg ?q FakeHead ys' y"
        using dist n snoc p_def by (subst seg_cong [where q = q]) auto
      then show ?thesis using snoc dist n p_def by (auto simp: seg_append)
    qed
    show ?thesis
    proof (cases zs)
      case Nil
      then show ?thesis using left by (simp add: n_def)
    next
      case (Cons z zs')
      have "seg q z zs' FakeTail" using s2 Cons by simp
      then have "seg ?q z zs' FakeTail"
        using dist p Cons n_def by (subst seg_cong [where q = q]) auto
      then show ?thesis using left Cons by (simp add: n_def seg_append)
    qed
  qed
  moreover have "remove1 b xs = ys @ zs" using xs nin by (simp add: remove1_append)
  ultimately have "queue_rep ?q (remove1 b xs)"
    using R xs dist p n unfolding queue_rep_def by auto
  with eq show ?thesis by blast
qed

lemma remove_block_absent:
  assumes "queue_rep q xs" and "b \<notin> set xs"
  shows "remove_block b q = Inl RuntimeError"
  using queue_repD [OF assms(1)] assms(2)
  by (cases "b = FakeHead"; cases "b = FakeTail")
     (auto simp: remove_block_def split: option.splits)

text \<open>
  The shared linking loop, closed by the two assignments that follow it in both callers: the
  blocks \<open>xs\<close> stand between \<open>p\<close> and \<open>f\<close>, and no other link has changed.
\<close>

lemma link_loop_seg:
  assumes "distinct (p # xs)" and "f \<notin> set xs"
    and "link_loop p xs q = (l, q')"
    and "q'' = set_prev f (Some l) (set_next l (Some f) q')"
  shows "seg q'' p xs f" and "l = last (p # xs)"
    and "\<And>n. n \<notin> set (p # xs) \<Longrightarrow> next_free_block q'' n = next_free_block q n"
    and "\<And>n. n \<notin> set (xs @ [f]) \<Longrightarrow> prev_free_block q'' n = prev_free_block q n"
    and "num_free_blocks q'' = num_free_blocks q"
proof -
  have "seg q'' p xs f \<and> l = last (p # xs) \<and>
      (\<forall>n. n \<notin> set (p # xs) \<longrightarrow> next_free_block q'' n = next_free_block q n) \<and>
      (\<forall>n. n \<notin> set (xs @ [f]) \<longrightarrow> prev_free_block q'' n = prev_free_block q n) \<and>
      num_free_blocks q'' = num_free_blocks q"
    using assms
  proof (induction xs arbitrary: p q)
    case Nil
    then show ?case by auto
  next
    case (Cons x xs)
    let ?q = "set_next p (Some x) (set_prev x (Some p) q)"
    have IH: "seg q'' x xs f \<and> l = last (x # xs) \<and>
        (\<forall>n. n \<notin> set (x # xs) \<longrightarrow> next_free_block q'' n = next_free_block ?q n) \<and>
        (\<forall>n. n \<notin> set (xs @ [f]) \<longrightarrow> prev_free_block q'' n = prev_free_block ?q n) \<and>
        num_free_blocks q'' = num_free_blocks ?q"
      using Cons.prems by (intro Cons.IH) auto
    have px: "p \<notin> set (x # xs)" "x \<notin> set (xs @ [f])"
      using Cons.prems by auto
    have "next_free_block q'' p = Some x"
      using IH px(1) by simp
    moreover have "prev_free_block q'' x = Some p"
      using IH px(2) by simp
    ultimately show ?case using IH px by auto
  qed
  then show "seg q'' p xs f" and "l = last (p # xs)"
    and "\<And>n. n \<notin> set (p # xs) \<Longrightarrow> next_free_block q'' n = next_free_block q n"
    and "\<And>n. n \<notin> set (xs @ [f]) \<Longrightarrow> prev_free_block q'' n = prev_free_block q n"
    and "num_free_blocks q'' = num_free_blocks q"
    by blast+
qed

lemma prepend_n_rep:
  assumes rep: "queue_rep q xs" and dist: "distinct (FakeHead # FakeTail # bs @ xs)"
  shows "\<exists>q'. prepend_n bs q = Inr q' \<and> queue_rep q' (bs @ xs)"
proof (cases "bs = []")
  case True
  with rep show ?thesis by (simp add: prepend_n_def)
next
  case False
  note R = queue_repD [OF rep]
  define f where "f = hd (xs @ [FakeTail])"
  obtain l q1 where ll: "link_loop FakeHead bs q = (l, q1)" by fastforce
  define q2 where "q2 = set_prev f (Some l) (set_next l (Some f) q1)"
  let ?q = "add_free (int (length bs)) q2"
  have f: "f \<notin> set bs" "f \<noteq> FakeHead"
    using dist by (cases xs; auto simp: f_def)+
  have d: "distinct (FakeHead # bs)" using dist by auto
  note L = link_loop_seg [OF d f(1) ll q2_def]
  have eq: "prepend_n bs q = Inr ?q"
    using False seg_first [OF R(1)] ll by (simp add: prepend_n_def f_def q2_def)
  have "seg ?q FakeHead (bs @ xs) FakeTail"
  proof (cases xs)
    case Nil
    then show ?thesis
      using L(1) seg_cong [of FakeHead bs ?q q2 FakeTail] by (simp add: f_def)
  next
    case (Cons x xs')
    have "seg q x xs' FakeTail" using R(1) Cons by simp
    then have "seg ?q x xs' FakeTail"
      using dist Cons f_def
      by (subst seg_cong [where q = q]) (auto simp: disjoint_iff intro!: L(3,4))
    moreover have "seg ?q FakeHead bs x"
      using L(1) Cons seg_cong [of FakeHead bs ?q q2 x] by (simp add: f_def)
    ultimately show ?thesis using Cons by (simp add: seg_append)
  qed
  moreover have "prev_free_block q2 FakeHead = None"
    using L(4) [of FakeHead] R(6) d f(2) by auto
  moreover have "next_free_block q2 FakeTail = None"
    using L(3) [of FakeTail] R(7) dist by auto
  moreover have "prev_free_block q2 b = None \<and> next_free_block q2 b = None"
    if "b \<notin> set (FakeHead # FakeTail # bs @ xs)" for b
  proof -
    have "b \<noteq> f" using that by (cases xs) (auto simp: f_def)
    then show ?thesis using L(3,4) [of b] R(8) [of b] that by auto
  qed
  ultimately have "queue_rep ?q (bs @ xs)"
    using R(5) dist L(5) by (simp add: queue_rep_def)
  with eq show ?thesis by blast
qed

lemma append_n_rep:
  assumes rep: "queue_rep q xs" and dist: "distinct (FakeHead # FakeTail # xs @ bs)"
  shows "\<exists>q'. append_n bs q = Inr q' \<and> queue_rep q' (xs @ bs)"
proof (cases "bs = []")
  case True
  with rep show ?thesis by (simp add: append_n_def)
next
  case False
  note R = queue_repD [OF rep]
  define p where "p = last (FakeHead # xs)"
  obtain l q1 where ll: "link_loop p bs q = (l, q1)" by fastforce
  define q2 where "q2 = set_prev FakeTail (Some l) (set_next l (Some FakeTail) q1)"
  let ?q = "add_free (int (length bs)) q2"
  have pin: "p \<in> set (FakeHead # xs)" unfolding p_def by (rule last_in_set) simp
  have d: "distinct (p # bs)" "FakeTail \<notin> set bs" and pt: "p \<noteq> FakeTail"
    using dist pin by auto
  note L = link_loop_seg [OF d ll q2_def]
  have eq: "append_n bs q = Inr ?q"
    using False seg_last [OF R(1)] ll by (simp add: append_n_def p_def q2_def)
  have "seg ?q FakeHead (xs @ bs) FakeTail"
  proof (cases xs rule: rev_cases)
    case Nil
    then show ?thesis
      using L(1) seg_cong [of FakeHead bs ?q q2 FakeTail] by (simp add: p_def)
  next
    case (snoc xs' x)
    have "seg q FakeHead xs' x" using R(1) snoc by (simp add: seg_append)
    then have "seg ?q FakeHead xs' x"
      using dist snoc p_def
      by (subst seg_cong [where q = q]) (auto simp: disjoint_iff intro!: L(3,4))
    moreover have "seg ?q x bs FakeTail"
      using L(1) snoc seg_cong [of x bs ?q q2 FakeTail] by (simp add: p_def)
    ultimately show ?thesis using snoc by (simp add: seg_append)
  qed
  moreover have "prev_free_block q2 FakeHead = None"
    using L(4) [of FakeHead] R(6) dist by auto
  moreover have "next_free_block q2 FakeTail = None"
    using L(3) [of FakeTail] R(7) d(2) pt by auto
  moreover have "prev_free_block q2 b = None \<and> next_free_block q2 b = None"
    if "b \<notin> set (FakeHead # FakeTail # xs @ bs)" for b
  proof -
    have "b \<noteq> p" using that pin by auto
    then show ?thesis using L(3,4) [of b] R(8) [of b] that by auto
  qed
  ultimately have "queue_rep ?q (xs @ bs)"
    using R(5) dist L(5) by (simp add: queue_rep_def)
  with eq show ?thesis by blast
qed

text \<open>Appending one block is appending a list of one.\<close>

lemma append_block_eq_append_n:
  "prev_free_block q FakeTail \<noteq> None \<Longrightarrow> b \<noteq> FakeTail \<Longrightarrow>
     next_free_block q b = None \<Longrightarrow> prev_free_block q FakeTail \<noteq> Some b \<Longrightarrow>
     append_block b q = append_n [b] q"
  by (auto simp: append_block_def append_n_def set_next_def set_prev_def add_free_def fun_eq_iff)

lemma append_block_rep:
  assumes rep: "queue_rep q xs" and dist: "distinct (FakeHead # FakeTail # xs @ [b])"
  shows "\<exists>q'. append_block b q = Inr q' \<and> queue_rep q' (xs @ [b])"
proof -
  note R = queue_repD [OF rep]
  have "last (FakeHead # xs) \<in> set (FakeHead # xs)" by (rule last_in_set) simp
  then have "append_block b q = append_n [b] q"
    using seg_last [OF R(1)] R(8) [of b] dist by (intro append_block_eq_append_n) auto
  with append_n_rep [OF rep dist] show ?thesis by simp
qed

text \<open>The constructor links the blocks in the order of the list.\<close>

lemma init_links:
  assumes "distinct bs" and "k \<le> length bs"
    and "q = fold (init_link_step bs) [0..<k]
           \<lparr>num_free_blocks = n, prev_free_block = (\<lambda>_. None), next_free_block = (\<lambda>_. None)\<rparr>"
  shows "num_free_blocks q = n \<and>
    (\<forall>i < length bs. next_free_block q (bs ! i) =
        (if i < k \<and> i + 1 < length bs then Some (bs ! (i + 1)) else None) \<and>
      prev_free_block q (bs ! i) = (if 0 < i \<and> i < k then Some (bs ! (i - 1)) else None)) \<and>
    (\<forall>b. b \<notin> set bs \<longrightarrow> next_free_block q b = None \<and> prev_free_block q b = None)"
  using assms
proof (induction k arbitrary: q)
  case 0
  then show ?case by simp
next
  case (Suc k)
  define q1 where "q1 = fold (init_link_step bs) [0..<k]
      \<lparr>num_free_blocks = n, prev_free_block = (\<lambda>_. None), next_free_block = (\<lambda>_. None)\<rparr>"
  have IH: "num_free_blocks q1 = n \<and>
    (\<forall>i < length bs. next_free_block q1 (bs ! i) =
        (if i < k \<and> i + 1 < length bs then Some (bs ! (i + 1)) else None) \<and>
      prev_free_block q1 (bs ! i) = (if 0 < i \<and> i < k then Some (bs ! (i - 1)) else None)) \<and>
    (\<forall>b. b \<notin> set bs \<longrightarrow> next_free_block q1 b = None \<and> prev_free_block q1 b = None)"
    using Suc.IH [OF Suc.prems(1) _ q1_def] Suc.prems(2) by simp
  have q: "q = init_link_step bs k q1"
    using Suc.prems(3) by (simp add: q1_def)
  have k: "k < length bs" using Suc.prems(2) by simp
  have idx: "bs ! i = bs ! k \<longleftrightarrow> i = k" if "i < length bs" for i
    using nth_eq_iff_index_eq [OF Suc.prems(1) that k] .
  have mem: "bs ! k \<in> set bs" using k by simp
  show ?case
    using IH k mem unfolding q init_link_step_def Let_def
    by (auto simp: idx less_Suc_eq)
qed

lemma seg_nth:
  "seg q a xs b \<longleftrightarrow>
     (\<forall>i \<le> length xs. next_free_block q ((a # xs) ! i) = Some ((xs @ [b]) ! i) \<and>
        prev_free_block q ((xs @ [b]) ! i) = Some ((a # xs) ! i))"
proof (induction xs arbitrary: a)
  case Nil
  then show ?case by auto
next
  case (Cons x xs)
  have "(\<forall>i \<le> length (x # xs). P i) \<longleftrightarrow> P 0 \<and> (\<forall>i \<le> length xs. P (Suc i))" for P
    by (metis Suc_le_mono le0 length_Cons not0_implies_Suc)
  with Cons.IH show ?case by simp
qed

lemma free_queue_init_rep:
  assumes dist: "distinct (FakeHead # FakeTail # bs)"
  shows "queue_rep (free_queue_init bs) bs"
proof (cases "bs = []")
  case True
  then show ?thesis by (auto simp: queue_rep_def free_queue_init_def)
next
  case False
  define q1 where "q1 = fold (init_link_step bs) [0..<length bs]
      \<lparr>num_free_blocks = int (length bs), prev_free_block = (\<lambda>_. None), next_free_block = (\<lambda>_. None)\<rparr>"
  have I: "num_free_blocks q1 = int (length bs)"
    "\<And>i. i < length bs \<Longrightarrow> next_free_block q1 (bs ! i) =
        (if i + 1 < length bs then Some (bs ! (i + 1)) else None)"
    "\<And>i. i < length bs \<Longrightarrow> prev_free_block q1 (bs ! i) = (if 0 < i then Some (bs ! (i - 1)) else None)"
    "\<And>b. b \<notin> set bs \<Longrightarrow> next_free_block q1 b = None \<and> prev_free_block q1 b = None"
    using init_links [OF _ order_refl q1_def] dist by auto
  have ne: "0 < length bs" using False by simp
  define n where "n = length bs - 1"
  have n: "length bs = Suc n" using ne by (simp add: n_def)
  let ?q = "set_next (bs ! n) (Some FakeTail) (set_prev FakeTail (Some (bs ! n))
             (set_prev (bs ! 0) (Some FakeHead) (set_next FakeHead (Some (bs ! 0)) q1)))"
  have q: "free_queue_init bs = ?q"
    using ne by (simp add: free_queue_init_def q1_def n_def Let_def)
  have real: "bs ! i \<noteq> FakeHead" "bs ! i \<noteq> FakeTail" if "i \<le> n" for i
    using dist n that by (metis distinct.simps(2) less_Suc_eq_le list.set_intros(2) nth_mem)+
  have idx: "bs ! i = bs ! j \<longleftrightarrow> i = j" if "i \<le> n" "j \<le> n" for i j
    using nth_eq_iff_index_eq [of bs i j] dist n that by simp
  have "seg ?q FakeHead bs FakeTail"
    unfolding seg_nth
  proof (intro allI impI conjI)
    fix i assume i: "i \<le> length bs"
    show "next_free_block ?q ((FakeHead # bs) ! i) = Some ((bs @ [FakeTail]) ! i)"
      using i n real real [THEN not_sym] idx I(2) by (cases i) (auto simp: nth_append)
    show "prev_free_block ?q ((bs @ [FakeTail]) ! i) = Some ((FakeHead # bs) ! i)"
      using i n real idx I(3) by (cases "i = Suc n") (auto simp: nth_append nth_Cons')
  qed
  moreover have "bs ! 0 \<in> set bs" "bs ! n \<in> set bs" using n by simp_all
  ultimately show ?thesis
    using I(1,4) dist real [of 0] real [of n] unfolding q queue_rep_def by auto
qed

lemma walk_free_seg:
  "seg q a xs FakeTail \<Longrightarrow> next_free_block q FakeTail = None \<Longrightarrow>
     walk_free q (hd (xs @ [FakeTail])) ret = Some (ret @ xs)"
proof (induction xs arbitrary: a ret)
  case Nil
  then show ?case by (subst walk_free.simps) simp
next
  case (Cons x xs)
  have "seg q x xs FakeTail" using Cons.prems(1) by simp
  then have "next_free_block q x = Some (hd (xs @ [FakeTail]))" by (rule seg_first)
  moreover have "walk_free q (hd (xs @ [FakeTail])) (ret @ [x]) = Some ((ret @ [x]) @ xs)"
    using \<open>seg q x xs FakeTail\<close> Cons.prems(2) by (rule Cons.IH)
  ultimately show ?case by (subst walk_free.simps) simp
qed

lemma get_all_free_blocks_rep:
  assumes "queue_rep q xs"
  shows "get_all_free_blocks q = Some (Inr xs)"
  using seg_first [of q FakeHead xs FakeTail] walk_free_seg [of q FakeHead xs "[]"]
    queue_repD [OF assms] by (simp add: get_all_free_blocks_def)

section \<open>The interface of a free list\<close>

text \<open>
  What the block pool relies on: a queue that represents a list, whose four bulk operations act
  on the two ends or in the middle of that list. \<open>usable\<close> are the blocks that may be put in.
\<close>

locale free_list =
  fixes rep :: "'q \<Rightarrow> 'b list \<Rightarrow> bool"
    and usable :: "'b \<Rightarrow> bool"
    and count :: "'q \<Rightarrow> int"
    and pop_n :: "int \<Rightarrow> 'q \<Rightarrow> ('b list \<times> 'q) result"
    and unlink :: "'b \<Rightarrow> 'q \<Rightarrow> 'q result"
    and push_front :: "'b list \<Rightarrow> 'q \<Rightarrow> 'q result"
    and push_back :: "'b list \<Rightarrow> 'q \<Rightarrow> 'q result"
  assumes rep_distinct: "rep q xs \<Longrightarrow> distinct xs"
    and rep_usable: "rep q xs \<Longrightarrow> \<forall>b \<in> set xs. usable b"
    and rep_fun: "rep q xs \<Longrightarrow> rep q ys \<Longrightarrow> xs = ys"
    and count_rep: "rep q xs \<Longrightarrow> count q = int (length xs)"
    and pop_n_rep: "rep q xs \<Longrightarrow> 0 \<le> n \<Longrightarrow> n \<le> int (length xs) \<Longrightarrow>
      \<exists>q'. pop_n n q = Inr (take (nat n) xs, q') \<and> rep q' (drop (nat n) xs)"
    and pop_n_short: "rep q xs \<Longrightarrow> int (length xs) < n \<Longrightarrow> pop_n n q = Inl AssertionError"
    and unlink_rep: "rep q xs \<Longrightarrow> b \<in> set xs \<Longrightarrow>
      \<exists>q'. unlink b q = Inr q' \<and> rep q' (remove1 b xs)"
    and unlink_absent: "rep q xs \<Longrightarrow> b \<notin> set xs \<Longrightarrow> unlink b q = Inl RuntimeError"
    and push_front_rep: "rep q xs \<Longrightarrow> distinct (bs @ xs) \<Longrightarrow> \<forall>b \<in> set bs. usable b \<Longrightarrow>
      \<exists>q'. push_front bs q = Inr q' \<and> rep q' (bs @ xs)"
    and push_back_rep: "rep q xs \<Longrightarrow> distinct (xs @ bs) \<Longrightarrow> \<forall>b \<in> set bs. usable b \<Longrightarrow>
      \<exists>q'. push_back bs q = Inr q' \<and> rep q' (xs @ bs)"
begin

text \<open>What an operation does to the list, read off its result.\<close>

lemma pop_n_elim:
  assumes "rep q xs" and "0 \<le> n" and "pop_n n q = Inr (bs, q')"
  shows "n \<le> int (length xs)" and "bs = take (nat n) xs" and "rep q' (drop (nat n) xs)"
proof -
  show le: "n \<le> int (length xs)"
    using assms(3) pop_n_short [OF assms(1), of n] by (cases "int (length xs) < n") auto
  show "bs = take (nat n) xs" "rep q' (drop (nat n) xs)"
    using pop_n_rep [OF assms(1,2) le] assms(3) by auto
qed

lemma push_both_rep:
  assumes "rep q xs" and "distinct (us @ xs @ hs)" and "\<forall>b \<in> set us \<union> set hs. usable b"
  shows "\<exists>q'. res_bind (push_front us q) (push_back hs) = Inr q' \<and> rep q' (us @ xs @ hs)"
proof -
  obtain q1 where q1: "push_front us q = Inr q1" "rep q1 (us @ xs)"
    using push_front_rep [OF assms(1), of us] assms(2,3) by auto
  obtain q2 where "push_back hs q1 = Inr q2" "rep q2 ((us @ xs) @ hs)"
    using push_back_rep [OF q1(2), of hs] assms(2,3) by auto
  with q1 show ?thesis by auto
qed

text \<open>
  Blocks put at the front are the next ones to leave, blocks put at the back leave only after
  everything that was there: the eviction order of the pool.
\<close>

lemma eviction_order:
  assumes "rep q xs" and "distinct (us @ xs @ hs)" and "\<forall>b \<in> set us \<union> set hs. usable b"
    and "res_bind (push_front us q) (push_back hs) = Inr q1"
    and "0 \<le> n" and "pop_n n q1 = Inr (bs, q2)"
  shows "bs = take (nat n) (us @ xs @ hs)"
proof -
  have "rep q1 (us @ xs @ hs)" using push_both_rep [OF assms(1-3)] assms(4) by auto
  from pop_n_elim(2) [OF this assms(5,6)] show ?thesis .
qed

end

definition real_block :: "block_ref \<Rightarrow> bool" where
  "real_block b \<longleftrightarrow> b \<noteq> FakeHead \<and> b \<noteq> FakeTail"

lemma real_block_simps [simp]:
  "real_block (Block n)" "\<not> real_block FakeHead" "\<not> real_block FakeTail"
  by (simp_all add: real_block_def)

interpretation fq: free_list queue_rep real_block num_free_blocks popleft_n remove_block prepend_n append_n
proof unfold_locales
  show "\<And>q xs. queue_rep q xs \<Longrightarrow> distinct xs" by (rule queue_repD(2))
  show "\<And>q xs. queue_rep q xs \<Longrightarrow> \<forall>b \<in> set xs. real_block b"
    by (auto simp: queue_rep_def real_block_def)
  show "\<And>q xs ys. queue_rep q xs \<Longrightarrow> queue_rep q ys \<Longrightarrow> xs = ys" by (rule queue_rep_unique)
  show "\<And>q xs. queue_rep q xs \<Longrightarrow> num_free_blocks q = int (length xs)" by (rule queue_repD(5))
  show "\<exists>q'. prepend_n bs q = Inr q' \<and> queue_rep q' (bs @ xs)"
    if "queue_rep q xs" "distinct (bs @ xs)" "\<forall>b \<in> set bs. real_block b" for q xs bs
    using that by (intro prepend_n_rep) (auto simp: queue_rep_def real_block_def)
  show "\<exists>q'. append_n bs q = Inr q' \<and> queue_rep q' (xs @ bs)"
    if "queue_rep q xs" "distinct (xs @ bs)" "\<forall>b \<in> set bs. real_block b" for q xs bs
    using that by (intro append_n_rep) (auto simp: queue_rep_def real_block_def)
qed (rule popleft_n_rep popleft_n_short remove_block_rep remove_block_absent; assumption)+

section \<open>Sequences of operations\<close>

datatype queue_op =
    PopLeft
  | PopLeftN int
  | Remove block_ref
  | Append block_ref
  | PrependN "block_ref list"
  | AppendN "block_ref list"

text \<open>A step of the queue: the blocks it returns and the queue after it.\<close>

fun queue_step :: "queue_op \<Rightarrow> free_queue \<Rightarrow> (block_ref list \<times> free_queue) result" where
  "queue_step PopLeft q = res_bind (popleft q) (\<lambda>(b, q'). Inr ([b], q'))"
| "queue_step (PopLeftN n) q = popleft_n n q"
| "queue_step (Remove b) q = res_bind (remove_block b q) (\<lambda>q'. Inr ([], q'))"
| "queue_step (Append b) q = res_bind (append_block b q) (\<lambda>q'. Inr ([], q'))"
| "queue_step (PrependN bs) q = res_bind (prepend_n bs q) (\<lambda>q'. Inr ([], q'))"
| "queue_step (AppendN bs) q = res_bind (append_n bs q) (\<lambda>q'. Inr ([], q'))"

text \<open>
  The specification: a step on a list of blocks. \<^const>\<open>None\<close> marks a call outside the contract (a
  negative count, a block put in that is already there); an exception is a result.
\<close>

fun list_step :: "queue_op \<Rightarrow> block_ref list \<Rightarrow> (block_ref list \<times> block_ref list) result option" where
  "list_step PopLeft xs = Some (case xs of [] \<Rightarrow> Inl ValueError | x # ys \<Rightarrow> Inr ([x], ys))"
| "list_step (PopLeftN n) xs =
     (if n < 0 then None
      else Some (if n \<le> int (length xs) then Inr (take (nat n) xs, drop (nat n) xs)
                 else Inl AssertionError))"
| "list_step (Remove b) xs = Some (if b \<in> set xs then Inr ([], remove1 b xs) else Inl RuntimeError)"
| "list_step (Append b) xs = (if real_block b \<and> b \<notin> set xs then Some (Inr ([], xs @ [b])) else None)"
| "list_step (PrependN bs) xs =
     (if list_all real_block bs \<and> distinct (bs @ xs) then Some (Inr ([], bs @ xs)) else None)"
| "list_step (AppendN bs) xs =
     (if list_all real_block bs \<and> distinct (xs @ bs) then Some (Inr ([], xs @ bs)) else None)"

fun queue_run :: "queue_op list \<Rightarrow> free_queue \<Rightarrow> (block_ref list list \<times> free_queue) result" where
  "queue_run [] q = Inr ([], q)"
| "queue_run (op # ops) q =
     res_bind (queue_step op q) (\<lambda>(out, q').
     res_bind (queue_run ops q') (\<lambda>(outs, q''). Inr (out # outs, q'')))"

fun list_run :: "queue_op list \<Rightarrow> block_ref list \<Rightarrow> (block_ref list list \<times> block_ref list) result option" where
  "list_run [] xs = Some (Inr ([], xs))"
| "list_run (op # ops) xs =
     (case list_step op xs of
        None \<Rightarrow> None
      | Some (Inl e) \<Rightarrow> Some (Inl e)
      | Some (Inr (out, xs')) \<Rightarrow>
          map_option (\<lambda>res. res_bind res (\<lambda>(outs, ys). Inr (out # outs, ys))) (list_run ops xs'))"

text \<open>The queue's result simulates the list's.\<close>

fun simulates :: "('a \<times> free_queue) result \<Rightarrow> ('a \<times> block_ref list) result \<Rightarrow> bool" where
  "simulates (Inl e) (Inl e') \<longleftrightarrow> e = e'"
| "simulates (Inr (out, q)) (Inr (out', xs)) \<longleftrightarrow> out = out' \<and> queue_rep q xs"
| "simulates _ _ \<longleftrightarrow> False"

lemma queue_step_simulates:
  assumes rep: "queue_rep q xs" and step: "list_step op xs = Some res"
  shows "simulates (queue_step op q) res"
proof (cases op)
  case PopLeft
  with rep step popleft_rep [of q] popleft_empty [of q] show ?thesis by (cases xs) fastforce+
next
  case (PopLeftN n)
  with rep step popleft_n_rep [of q xs n] popleft_n_short [of q xs n] show ?thesis
    by (fastforce split: if_splits)
next
  case (Remove b)
  with rep step remove_block_rep [of q xs b] remove_block_absent [of q xs b] show ?thesis
    by (fastforce split: if_splits)
next
  case (Append b)
  then have "distinct (FakeHead # FakeTail # xs @ [b])"
    using rep step by (auto simp: queue_rep_def real_block_def split: if_splits)
  with Append rep step append_block_rep [of q xs b] show ?thesis by (fastforce split: if_splits)
next
  case (PrependN bs)
  with rep step fq.push_front_rep [of q xs bs] show ?thesis
    by (fastforce simp: list_all_iff split: if_splits)
next
  case (AppendN bs)
  with rep step fq.push_back_rep [of q xs bs] show ?thesis
    by (fastforce simp: list_all_iff split: if_splits)
qed

lemma simulates_cases:
  assumes "simulates r s"
  obtains e where "r = Inl e" "s = Inl e"
  | out q xs where "r = Inr (out, q)" "s = Inr (out, xs)" "queue_rep q xs"
  using assms by (cases "(r, s)" rule: simulates.cases) auto

lemma queue_run_simulates:
  "queue_rep q xs \<Longrightarrow> list_run ops xs = Some res \<Longrightarrow> simulates (queue_run ops q) res"
proof (induction ops arbitrary: q xs res)
  case (Cons op ops)
  from Cons.prems obtain r1 where r1: "list_step op xs = Some r1"
    by (auto split: option.splits)
  from queue_step_simulates [OF Cons.prems(1) r1] show ?case
  proof (cases rule: simulates_cases)
    case (1 e)
    with Cons.prems r1 show ?thesis by auto
  next
    case (2 out q' xs')
    then obtain r2 where r2: "list_run ops xs' = Some r2"
      and res: "res = res_bind r2 (\<lambda>(outs, ys). Inr (out # outs, ys))"
      using Cons.prems(2) r1 by auto
    from Cons.IH [OF 2(3) r2] 2 res show ?thesis
      by (cases rule: simulates_cases) simp_all
  qed
qed auto

section \<open>Properties\<close>

text \<open>C30: the intrusive doubly linked free queue is indistinguishable from a plain list. From the
  constructor on, every sequence of pops, removals, appends and prepends within the contract returns
  the same blocks or raises the same exception as on the list, and afterwards the queue's contents
  and its counter are those of the list.\<close>

theorem free_queue_refines_list:
  assumes "distinct bs" and "list_all real_block bs" and "list_run ops bs = Some res"
  shows "case res of
           Inl e \<Rightarrow> queue_run ops (free_queue_init bs) = Inl e
         | Inr (outs, ys) \<Rightarrow> \<exists>q. queue_run ops (free_queue_init bs) = Inr (outs, q)
             \<and> get_all_free_blocks q = Some (Inr ys) \<and> num_free_blocks q = int (length ys)"
proof -
  have "distinct (FakeHead # FakeTail # bs)" using assms(1,2) by (auto simp: list_all_iff)
  from queue_run_simulates [OF free_queue_init_rep [OF this] assms(3)] show ?thesis
  proof (cases rule: simulates_cases)
    case (2 outs q ys)
    then show ?thesis using get_all_free_blocks_rep [OF 2(3)] queue_repD(5) [OF 2(3)] by auto
  qed simp
qed

theorem free_queue_refines_list_witness:
  "\<exists>q. queue_run [PopLeftN 2, AppendN [Block 0], PrependN [Block 1], Remove (Block 3), PopLeft]
         (free_queue_init [Block 0, Block 1, Block 2, Block 3, Block 4]) =
       Inr ([ [Block 0, Block 1], [], [], [], [Block 1]], q)
     \<and> get_all_free_blocks q = Some (Inr [Block 2, Block 4, Block 0])"
proof -
  let ?bs = "[Block 0, Block 1, Block 2, Block 3, Block 4]"
  let ?ops = "[PopLeftN 2, AppendN [Block 0], PrependN [Block 1], Remove (Block 3), PopLeft]"
  have "list_run ?ops ?bs = Some (Inr ([ [Block 0, Block 1], [], [], [], [Block 1]], [Block 2, Block 4, Block 0]))"
    by simp
  from free_queue_refines_list [OF _ _ this] show ?thesis
    by (auto simp del: queue_run.simps)
qed

end
