(* ===== verification/Request.thy ===== *)
theory Request
  imports Prelude "HOL-Library.List_Lexorder" "HOL-Library.Char_ord"
    "HOL-Library.Product_Lexorder" Complex_Main
begin

text \<open>
  Requests: the fields of \<^verbatim>\<open>Request\<close> (\<^verbatim>\<open>vllm/v1/request.py\<close>) that the KV-cache and scheduling
  code reads, the request states, the order of the priority scheduler, and the stop conditions of
  \<^verbatim>\<open>vllm/v1/core/sched/utils.py\<close>. Time stamps (Python floats that are only compared) are rationals.
\<close>

section \<open>States\<close>

datatype request_status =
    WAITING
  | WAITING_FOR_STRUCTURED_OUTPUT_GRAMMAR
  | WAITING_FOR_REMOTE_KVS
  | WAITING_FOR_STREAMING_REQ
  | RUNNING
  | PREEMPTED
  | FINISHED_STOPPED
  | FINISHED_LENGTH_CAPPED
  | FINISHED_ABORTED
  | FINISHED_IGNORED
  | FINISHED_ERROR
  | FINISHED_REPETITION

text \<open>The integer value \<^verbatim>\<open>enum.auto()\<close> gives each member.\<close>

fun status_value :: "request_status \<Rightarrow> int" where
  "status_value WAITING = 1"
| "status_value WAITING_FOR_STRUCTURED_OUTPUT_GRAMMAR = 2"
| "status_value WAITING_FOR_REMOTE_KVS = 3"
| "status_value WAITING_FOR_STREAMING_REQ = 4"
| "status_value RUNNING = 5"
| "status_value PREEMPTED = 6"
| "status_value FINISHED_STOPPED = 7"
| "status_value FINISHED_LENGTH_CAPPED = 8"
| "status_value FINISHED_ABORTED = 9"
| "status_value FINISHED_IGNORED = 10"
| "status_value FINISHED_ERROR = 11"
| "status_value FINISHED_REPETITION = 12"

definition status_is_finished :: "request_status \<Rightarrow> bool" where
  "status_is_finished s \<longleftrightarrow> status_value s > status_value PREEMPTED"

datatype finish_reason =
    Finish_STOP | Finish_LENGTH | Finish_ABORT | Finish_ERROR | Finish_REPETITION

fun status_finished_reason :: "request_status \<Rightarrow> finish_reason option" where
  "status_finished_reason FINISHED_STOPPED = Some Finish_STOP"
| "status_finished_reason FINISHED_LENGTH_CAPPED = Some Finish_LENGTH"
| "status_finished_reason FINISHED_ABORTED = Some Finish_ABORT"
| "status_finished_reason FINISHED_IGNORED = Some Finish_LENGTH"
| "status_finished_reason FINISHED_ERROR = Some Finish_ERROR"
| "status_finished_reason WAITING_FOR_STREAMING_REQ = Some Finish_STOP"
| "status_finished_reason FINISHED_REPETITION = Some Finish_REPETITION"
| "status_finished_reason _ = None"

section \<open>The request\<close>

text \<open>\<^verbatim>\<open>PlaceholderRange\<close> and \<^verbatim>\<open>MultiModalFeatureSpec\<close> of \<^verbatim>\<open>vllm/multimodal/inputs.py\<close>.\<close>

record placeholder_range =
  pr_offset :: int
  pr_length :: int
  is_embed :: "bool list option"

fun cumsum_from :: "int \<Rightarrow> bool list \<Rightarrow> int list" where
  "cumsum_from n [] = []"
| "cumsum_from n (b # bs) = (let m = n + of_bool b in m # cumsum_from m bs)"

definition embeds_cumsum :: "placeholder_range \<Rightarrow> int list option" where
  "embeds_cumsum p = map_option (cumsum_from 0) (is_embed p)"

definition get_num_embeds :: "placeholder_range \<Rightarrow> int" where
  "get_num_embeds p =
     (case embeds_cumsum p of
        None \<Rightarrow> pr_length p
      | Some cs \<Rightarrow> if cs = [] then 0 else last cs)"

record mm_feature =
  mm_identifier :: string
  mm_position :: placeholder_range

record lora_request =
  lora_name :: string
  adapter_id :: int

record repetition_params =
  max_pattern_size :: int
  min_pattern_size :: int
  min_count :: int

record sampling_params =
  sp_max_tokens :: "int option"
  min_tokens :: int
  eos_token_id :: "int option"
  stop_token_ids :: "int list option"
  repetition_detection :: "repetition_params option"
  sp_skip_reading_prefix_cache :: "bool option"
  structured_outputs :: "string option list option"

record pooling_params =
  pp_skip_reading_prefix_cache :: "bool option"

datatype stop_reason = StopToken int | StopText string

text \<open>
  \<^verbatim>\<open>StructuredOutputRequest.from_sampling_params\<close> is not \<^verbatim>\<open>None\<close>. A structured-output parameter block
  is the list of its constraint fields, each possibly \<^verbatim>\<open>None\<close>.
\<close>

definition has_structured_output_request :: "sampling_params option \<Rightarrow> bool" where
  "has_structured_output_request sp =
     (case sp of
        None \<Rightarrow> False
      | Some p \<Rightarrow> (case structured_outputs p of
            None \<Rightarrow> False
          | Some cs \<Rightarrow> \<not> list_all (\<lambda>c. c = None) cs))"

text \<open>
  A prompt-embedding tensor is the list of its rows, each the bytes of its elements; the memo of
  hashes of slices of it is a dictionary of the request. \<open>object_id\<close> is Python's \<^verbatim>\<open>id(self)\<close>.
\<close>

record request =
  request_id :: string
  object_id :: int
  priority :: int
  arrival_time :: rat
  status :: request_status
  req_stop_reason :: "stop_reason option"
  req_sampling_params :: "sampling_params option"
  req_pooling_params :: "pooling_params option"
  req_lora :: "lora_request option"
  max_tokens :: int
  prompt_token_ids :: "int list option"
  prompt_embeds :: "bytes list option"
  embeds_hash_memo :: "(int \<times> int, bytes) dict"
  num_prompt_tokens :: int
  output_token_ids :: "int list"
  all_token_ids :: "int list"
  spec_token_ids :: "int list"
  num_computed_tokens :: int
  cache_salt :: "string option"
  mm_features :: "mm_feature list"
  block_hashes :: "bytes list"
  skip_reading_prefix_cache :: bool

definition length_from_prompt :: "int list option \<Rightarrow> bytes list option \<Rightarrow> int result" where
  "length_from_prompt ids embeds =
     (case ids of
        None \<Rightarrow> (case embeds of
            None \<Rightarrow> Inl ValueError
          | Some es \<Rightarrow> Inr (int (length es)))
      | Some ts \<Rightarrow>
          if (case embeds of Some es \<Rightarrow> length es \<noteq> length ts | None \<Rightarrow> False)
          then Inl ValueError
          else Inr (int (length ts)))"

definition num_tokens :: "request \<Rightarrow> int" where
  "num_tokens r = int (length (all_token_ids r))"

definition num_tokens_with_spec :: "request \<Rightarrow> int" where
  "num_tokens_with_spec r = int (length (all_token_ids r)) + int (length (spec_token_ids r))"

definition num_output_tokens :: "request \<Rightarrow> int" where
  "num_output_tokens r = int (length (output_token_ids r))"

definition num_encoder_inputs :: "request \<Rightarrow> int" where
  "num_encoder_inputs r = int (length (mm_features r))"

definition has_encoder_inputs :: "request \<Rightarrow> bool" where
  "has_encoder_inputs r \<longleftrightarrow> num_encoder_inputs r > 0"

definition get_num_encoder_embeds :: "request \<Rightarrow> int \<Rightarrow> int result" where
  "get_num_encoder_embeds r input_id =
     res_bind (res_guard (input_id < int (length (mm_features r))) AssertionError) (\<lambda>_.
     res_bind (py_index (mm_features r) input_id) (\<lambda>f.
       Inr (get_num_embeds (mm_position f))))"

definition get_skip_reading_prefix_cache ::
  "sampling_params option \<Rightarrow> pooling_params option \<Rightarrow> bool" where
  "get_skip_reading_prefix_cache sp pp =
     (case Option.bind sp sp_skip_reading_prefix_cache of
        Some b \<Rightarrow> b
      | None \<Rightarrow> (case Option.bind pp pp_skip_reading_prefix_cache of
            Some b \<Rightarrow> b
          | None \<Rightarrow> False))"

definition is_finished :: "request \<Rightarrow> bool" where
  "is_finished r = status_is_finished (status r)"

definition get_finished_reason :: "request \<Rightarrow> finish_reason option" where
  "get_finished_reason r = status_finished_reason (status r)"

text \<open>\<^verbatim>\<open>Request.__lt__\<close>.\<close>

definition request_lt :: "request \<Rightarrow> request \<Rightarrow> bool" where
  "request_lt a b =
     (if priority a \<noteq> priority b then priority a < priority b
      else if arrival_time a \<noteq> arrival_time b then arrival_time a < arrival_time b
      else if request_id a \<noteq> request_id b then request_id a < request_id b
      else object_id a < object_id b)"

section \<open>Stop conditions\<close>

text \<open>The two loops of \<^verbatim>\<open>_has_repeating_pattern\<close>, over the values of \<^verbatim>\<open>m\<close> and of \<^verbatim>\<open>n\<close>.\<close>

fun repeat_inner :: "int list \<Rightarrow> int \<Rightarrow> int \<Rightarrow> int \<Rightarrow> int list \<Rightarrow> bool result" where
  "repeat_inner ts pattern_len n target [] = Inr True"
| "repeat_inner ts pattern_len n target (m # ms) =
     res_bind (py_index ts (- (pattern_len * m + n))) (\<lambda>t.
       if t \<noteq> target then Inr False else repeat_inner ts pattern_len n target ms)"

fun repeat_outer :: "int list \<Rightarrow> int \<Rightarrow> int \<Rightarrow> int list \<Rightarrow> bool result" where
  "repeat_outer ts pattern_len count [] = Inr True"
| "repeat_outer ts pattern_len count (n # ns) =
     res_bind (py_index ts (- n)) (\<lambda>target.
     res_bind (repeat_inner ts pattern_len n target [1..count - 1]) (\<lambda>ok.
       if ok then repeat_outer ts pattern_len count ns else Inr False))"

definition has_repeating_pattern :: "int list \<Rightarrow> int \<Rightarrow> int \<Rightarrow> bool result" where
  "has_repeating_pattern ts pattern_len count = repeat_outer ts pattern_len count [1..pattern_len]"

fun repetition_loop :: "int list \<Rightarrow> int \<Rightarrow> int list \<Rightarrow> bool result" where
  "repetition_loop ts count [] = Inr False"
| "repetition_loop ts count (p # ps) =
     (if p * count > int (length ts) then Inr False
      else res_bind (has_repeating_pattern ts p count) (\<lambda>found.
        if found then Inr True else repetition_loop ts count ps))"

definition check_sequence_repetition :: "int list \<Rightarrow> repetition_params \<Rightarrow> bool result" where
  "check_sequence_repetition ts params =
     (let lo = (if min_pattern_size params \<le> 0 then 1 else min_pattern_size params);
          hi = max_pattern_size params; count = min_count params
      in if hi \<le> 0 \<or> count < 2 \<or> lo > hi then Inr False
         else repetition_loop ts count [lo..hi])"

text \<open>
  \<^verbatim>\<open>remove_all\<close>: the caller's list after the call and the returned list. The set of items is the
  list of its elements without repetition.
\<close>

definition remove_all :: "'a list \<Rightarrow> 'a list \<Rightarrow> 'a list \<times> 'a list" where
  "remove_all lst items =
     (case items of
        [] \<Rightarrow> (lst, lst)
      | [item] \<Rightarrow> (remove1 item lst, remove1 item lst)
      | _ \<Rightarrow> (lst, filter (\<lambda>x. x \<notin> set items) lst))"

definition check_stop :: "request \<Rightarrow> int \<Rightarrow> (bool \<times> request) result" where
  "check_stop r max_model_len =
     res_bind (res_guard (req_pooling_params r = None) AssertionError) (\<lambda>_.
     case req_sampling_params r of None \<Rightarrow> Inl AssertionError | Some sp \<Rightarrow>
       if num_output_tokens r < min_tokens sp then Inr (False, r)
       else res_bind (py_index (output_token_ids r) (- 1)) (\<lambda>last_token_id.
         if eos_token_id sp = Some last_token_id
         then Inr (True, r\<lparr>status := FINISHED_STOPPED\<rparr>)
         else if last_token_id \<in> set (case stop_token_ids sp of None \<Rightarrow> [] | Some ts \<Rightarrow> ts)
         then Inr (True, r\<lparr>status := FINISHED_STOPPED,
                          req_stop_reason := Some (StopToken last_token_id)\<rparr>)
         else if num_tokens r \<ge> max_model_len \<or> num_output_tokens r \<ge> max_tokens r
         then Inr (True, r\<lparr>status := FINISHED_LENGTH_CAPPED\<rparr>)
         else (case repetition_detection sp of
             None \<Rightarrow> Inr (False, r)
           | Some rp \<Rightarrow>
               res_bind (check_sequence_repetition (output_token_ids r) rp) (\<lambda>found.
                 if found
                 then Inr (True, r\<lparr>status := FINISHED_REPETITION,
                                  req_stop_reason := Some (StopText ''repetition_detected'')\<rparr>)
                 else Inr (False, r)))))"

section \<open>The order of requests\<close>

definition request_key :: "request \<Rightarrow> int \<times> rat \<times> string \<times> int" where
  "request_key r = (priority r, arrival_time r, request_id r, object_id r)"

lemma request_lt_key: "request_lt a b \<longleftrightarrow> request_key a < request_key b"
  by (auto simp: request_lt_def request_key_def)

lemma request_lt_irrefl: "\<not> request_lt a a"
  by (simp add: request_lt_key)

lemma request_lt_trans: "request_lt a b \<Longrightarrow> request_lt b c \<Longrightarrow> request_lt a c"
  by (simp add: request_lt_key)

lemma request_lt_total: "object_id a \<noteq> object_id b \<Longrightarrow> request_lt a b \<or> request_lt b a"
  by (auto simp: request_lt_key request_key_def)

lemma not_request_lt_trans:
  "\<not> request_lt b a \<Longrightarrow> \<not> request_lt c b \<Longrightarrow> \<not> request_lt c a"
  by (simp add: request_lt_key)

section \<open>Stop conditions: lemmas\<close>

lemma status_finished_reason_iff:
  "status_finished_reason s \<noteq> None \<longleftrightarrow> status_is_finished s \<or> s = WAITING_FOR_STREAMING_REQ"
  by (cases s) (simp_all add: status_is_finished_def)

lemma last_cumsum_from:
  "bs \<noteq> [] \<Longrightarrow> last (cumsum_from n bs) = n + int (length (filter (\<lambda>b. b) bs))"
proof (induction bs arbitrary: n)
  case (Cons b bs)
  have "cumsum_from m bs \<noteq> []" if "bs \<noteq> []" for m
    using that by (cases bs) (simp_all add: Let_def)
  with Cons.IH show ?case by (cases "bs = []") (auto simp: Let_def)
qed simp

lemma cumsum_from_Nil_iff: "cumsum_from n bs = [] \<longleftrightarrow> bs = []"
  by (cases bs) (simp_all add: Let_def)

lemma get_num_embeds_eq:
  "get_num_embeds p =
     (case is_embed p of None \<Rightarrow> pr_length p | Some bs \<Rightarrow> int (length (filter (\<lambda>b. b) bs)))"
  by (auto simp: get_num_embeds_def embeds_cumsum_def cumsum_from_Nil_iff last_cumsum_from
      split: option.splits)

text \<open>The reference notion: the list ends with \<open>c\<close> copies of a pattern of length \<open>p\<close>.\<close>

definition ends_with_repeats :: "'a list \<Rightarrow> nat \<Rightarrow> nat \<Rightarrow> bool" where
  "ends_with_repeats ts p c \<longleftrightarrow>
     (\<exists>u pre. length u = p \<and> ts = pre @ concat (replicate c u))"

lemma length_concat_replicate [simp]: "length (concat (replicate c u)) = c * length u"
  by (induction c) simp_all

lemma concat_replicate_nth:
  "i < c * length u \<Longrightarrow> concat (replicate c u) ! i = u ! (i mod length u)"
proof (induction c arbitrary: i)
  case (Suc c)
  show ?case
  proof (cases "i < length u")
    case True
    then show ?thesis by (simp add: nth_append)
  next
    case False
    with Suc.prems have "i - length u < c * length u" by simp
    with Suc.IH [OF this] False show ?thesis by (simp add: nth_append le_mod_geq)
  qed
qed simp

lemma rev_concat_replicate: "rev (concat (replicate c u)) = concat (replicate c (rev u))"
  by (simp add: rev_concat)

lemma periodic_prefix_iff:
  assumes "p * c \<le> length xs" and "0 < c"
  shows "(\<forall>m<c. \<forall>j<p. xs ! (p * m + j) = xs ! j) \<longleftrightarrow>
         take (p * c) xs = concat (replicate c (take p xs))" (is "?L = ?R")
proof -
  have p: "p \<le> length xs" using assms by (cases c) simp_all
  have len: "length (take p xs) = p" using p by simp
  have nth: "concat (replicate c (take p xs)) ! i = xs ! (i mod p)" if "i < p * c" for i
    using that concat_replicate_nth [of i c "take p xs"] len
    by (cases "p = 0") (simp_all add: mult.commute)
  show ?thesis
  proof
    assume L: ?L
    show ?R
    proof (rule nth_equalityI)
      show "length (take (p * c) xs) = length (concat (replicate c (take p xs)))"
        using assms len by (simp add: mult.commute)
    next
      fix i assume "i < length (take (p * c) xs)"
      then have i: "i < p * c" by simp
      then have "0 < p" by (cases p) simp_all
      then have "i mod p < p" by simp
      moreover have "i div p < c" using i by (simp add: less_mult_imp_div_less mult.commute)
      ultimately have "xs ! (p * (i div p) + i mod p) = xs ! (i mod p)" using L by blast
      then show "take (p * c) xs ! i = concat (replicate c (take p xs)) ! i"
        using i nth by simp
    qed
  next
    assume R: ?R
    show ?L
    proof (intro allI impI)
      fix m j assume "m < c" "j < p"
      then have "p * m + j < p * c"
        using mult_le_mono2 [of "Suc m" c p] by simp
      then show "xs ! (p * m + j) = xs ! j"
        using R nth [of "p * m + j"] \<open>j < p\<close> nth_take [of "p * m + j" "p * c" xs] by simp
    qed
  qed
qed

lemma ends_with_repeats_iff:
  assumes "p * c \<le> length ts" and "0 < c"
  shows "ends_with_repeats ts p c \<longleftrightarrow>
         (\<forall>m<c. \<forall>j<p. rev ts ! (p * m + j) = rev ts ! j)"
proof -
  have "p \<le> length ts" using assms by (cases c) simp_all
  have "ends_with_repeats ts p c \<longleftrightarrow>
        take (p * c) (rev ts) = concat (replicate c (take p (rev ts)))"
  proof
    assume "ends_with_repeats ts p c"
    then obtain u pre where u: "length u = p" "ts = pre @ concat (replicate c u)"
      by (auto simp: ends_with_repeats_def)
    then have r: "rev ts = concat (replicate c (rev u)) @ rev pre"
      by (simp add: rev_concat_replicate)
    have "take p (rev ts) = rev u"
      using u(1) assms(2) by (cases c) (simp_all add: r)
    then show "take (p * c) (rev ts) = concat (replicate c (take p (rev ts)))"
      using u(1) by (simp add: r mult.commute)
  next
    assume eq: "take (p * c) (rev ts) = concat (replicate c (take p (rev ts)))"
    have "ts = rev (drop (p * c) (rev ts)) @ rev (take (p * c) (rev ts))"
      by (metis append_take_drop_id rev_append rev_rev_ident)
    then have "ts = rev (drop (p * c) (rev ts)) @ concat (replicate c (rev (take p (rev ts))))"
      by (simp add: eq rev_concat_replicate)
    then show "ends_with_repeats ts p c"
      unfolding ends_with_repeats_def
      using \<open>p \<le> length ts\<close> by (metis length_rev length_take min.absorb2)
  qed
  also have "\<dots> \<longleftrightarrow> (\<forall>m<c. \<forall>j<p. rev ts ! (p * m + j) = rev ts ! j)"
    using periodic_prefix_iff [of p c "rev ts"] assms by simp
  finally show ?thesis .
qed

lemma py_index_from_end_rev:
  assumes "0 < i" and "i \<le> int (length xs)"
  shows "py_index xs (- i) = Inr (rev xs ! (nat i - 1))"
proof -
  have "length xs - Suc (nat i - 1) = length xs - nat i" using assms by simp
  then show ?thesis
    using assms by (simp add: py_index_from_end rev_nth)
qed

lemma repeat_inner_eq:
  assumes "\<forall>m\<in>set ms. 0 < p * m + n \<and> p * m + n \<le> int (length ts)"
  shows "repeat_inner ts p n target ms =
         Inr (\<forall>m\<in>set ms. rev ts ! (nat (p * m + n) - 1) = target)"
  using assms
proof (induction ms)
  case (Cons m ms)
  have "py_index ts (- (p * m + n)) = Inr (rev ts ! (nat (p * m + n) - 1))"
    using Cons.prems by (intro py_index_from_end_rev) simp_all
  with Cons show ?case by simp
qed simp

lemma repeat_outer_eq:
  assumes "\<forall>n\<in>set ns. 0 < n \<and> n \<le> int (length ts)"
    and "\<forall>n\<in>set ns. \<forall>m\<in>{1..<c}. 0 < p * m + n \<and> p * m + n \<le> int (length ts)"
  shows "repeat_outer ts p c ns =
         Inr (\<forall>n\<in>set ns. \<forall>m\<in>{1..<c}.
               rev ts ! (nat (p * m + n) - 1) = rev ts ! (nat n - 1))"
  using assms
proof (induction ns)
  case (Cons n ns)
  have "repeat_inner ts p n t [1..c - 1] =
        Inr (\<forall>m\<in>{1..<c}. rev ts ! (nat (p * m + n) - 1) = t)" for t
    using Cons.prems(2) by (subst repeat_inner_eq) auto
  with Cons show ?case by (auto simp: py_index_from_end_rev)
qed simp

lemma has_repeating_pattern_spec:
  assumes "1 \<le> p" and "1 \<le> c" and "p * c \<le> int (length ts)"
  shows "has_repeating_pattern ts p c = Inr (ends_with_repeats ts (nat p) (nat c))"
proof -
  have bound: "p * m + n \<le> p * c" if "m < c" "n \<le> p" for m n
  proof -
    have "p * m + n \<le> p * (m + 1)" using that by (simp add: algebra_simps)
    also have "\<dots> \<le> p * c" using that assms(1) by (intro mult_left_mono) auto
    finally show ?thesis .
  qed
  have pos: "0 < p * m + n" if "1 \<le> m" "1 \<le> n" for m n
    using that assms(1) by (intro add_nonneg_pos) simp_all
  have le: "p * m + n \<le> int (length ts)" if "m < c" "n \<le> p" for m n
    using bound [OF that] assms(3) by linarith
  have "p \<le> int (length ts)" using le [of 0 p] assms by simp
  then have "repeat_outer ts p c [1..p] =
      Inr (\<forall>n\<in>{1..p}. \<forall>m\<in>{1..<c}. rev ts ! (nat (p * m + n) - 1) = rev ts ! (nat n - 1))"
    using assms bound le pos by (subst repeat_outer_eq) auto
  moreover have "(\<forall>n\<in>{1..p}. \<forall>m\<in>{1..<c}. rev ts ! (nat (p * m + n) - 1) = rev ts ! (nat n - 1))
      \<longleftrightarrow> (\<forall>m<nat c. \<forall>j<nat p. rev ts ! (nat p * m + j) = rev ts ! j)" (is "?A \<longleftrightarrow> ?B")
  proof
    assume A: ?A
    show ?B
    proof (intro allI impI)
      fix m j assume m: "m < nat c" and j: "j < nat p"
      show "rev ts ! (nat p * m + j) = rev ts ! j"
      proof (cases "m = 0")
        case False
        have "nat (p * int m + int (Suc j)) - 1 = nat p * m + j"
          using assms(1) by (simp add: nat_add_distrib nat_mult_distrib)
        moreover have "nat (int (Suc j)) - 1 = j" by (simp only: nat_int diff_Suc_1)
        moreover have "rev ts ! (nat (p * int m + int (Suc j)) - 1) = rev ts ! (nat (int (Suc j)) - 1)"
          using A m j False by (intro A [rule_format]) auto
        ultimately show ?thesis by metis
      qed simp
    qed
  next
    assume B: ?B
    show ?A
    proof (intro ballI)
      fix n m assume n: "n \<in> {1..p}" and m: "m \<in> {1..<c}"
      have "1 \<le> nat n" using n by auto
      then have "nat (p * m + n) - 1 = nat p * nat m + (nat n - 1)"
        using n m assms(1) by (simp add: nat_add_distrib nat_mult_distrib)
      moreover have "nat m < nat c" "nat n - 1 < nat p" using n m by auto
      ultimately show "rev ts ! (nat (p * m + n) - 1) = rev ts ! (nat n - 1)"
        using B by simp
    qed
  qed
  moreover have "nat p * nat c \<le> length ts"
    using assms by (metis nat_int nat_mono nat_mult_distrib order_trans zero_le_one)
  ultimately show ?thesis
    using assms by (simp add: has_repeating_pattern_def ends_with_repeats_iff)
qed

lemma repetition_loop_spec:
  assumes "1 \<le> c" and "\<forall>p\<in>set ps. 1 \<le> p" and "sorted ps"
  shows "repetition_loop ts c ps =
         Inr (\<exists>p\<in>set ps. ends_with_repeats ts (nat p) (nat c))"
  using assms(2,3)
proof (induction ps)
  case (Cons p ps)
  have long: "\<not> ends_with_repeats ts (nat q) (nat c)"
    if "p \<le> q" and "int (length ts) < p * c" for q
  proof
    assume "ends_with_repeats ts (nat q) (nat c)"
    then have "nat c * nat q \<le> length ts" by (auto simp: ends_with_repeats_def)
    then have "c * q \<le> int (length ts)"
      using assms(1) by (metis nat_int nat_le_iff nat_mult_distrib order_trans zero_le_one)
    moreover have "c * p \<le> c * q" using that assms(1) by simp
    ultimately show False using that by (simp add: mult.commute)
  qed
  show ?case
  proof (cases "p * c > int (length ts)")
    case True
    then show ?thesis using long Cons.prems by auto
  next
    case False
    then show ?thesis
      using Cons assms(1) by (simp add: has_repeating_pattern_spec)
  qed
qed simp

lemma check_sequence_repetition_eq:
  "check_sequence_repetition ts params =
     Inr (2 \<le> min_count params \<and>
       (\<exists>p. max 1 (min_pattern_size params) \<le> p \<and> p \<le> max_pattern_size params
            \<and> ends_with_repeats ts (nat p) (nat (min_count params))))"
proof -
  have "(if min_pattern_size params \<le> 0 then 1 else min_pattern_size params) =
        max 1 (min_pattern_size params)"
    by simp
  then show ?thesis
    by (auto simp: check_sequence_repetition_def Let_def repetition_loop_spec)
qed

section \<open>Properties\<close>

text \<open>C38: \<^verbatim>\<open>check_sequence_repetition\<close> never indexes out of range and returns \<^verbatim>\<open>True\<close> exactly when
  the output ends with \<^verbatim>\<open>min_count\<close> copies of some pattern whose length lies in the configured
  range; leaving the loop at the first pattern that is too long loses nothing.\<close>

theorem check_sequence_repetition_spec:
  "check_sequence_repetition ts params =
     Inr (2 \<le> min_count params \<and>
       (\<exists>p. max 1 (min_pattern_size params) \<le> p \<and> p \<le> max_pattern_size params
            \<and> ends_with_repeats ts (nat p) (nat (min_count params))))"
  by (fact check_sequence_repetition_eq)

text \<open>C39: \<^verbatim>\<open>check_stop\<close> on a generating request with at least one output token never raises; it
  returns \<^verbatim>\<open>True\<close> exactly when the minimum length is reached and one of the four stop conditions
  holds, it then leaves the request in a finished state, and otherwise it leaves it unchanged.\<close>

theorem check_stop_spec:
  assumes "req_pooling_params r = None" and "req_sampling_params r = Some sp"
    and "output_token_ids r \<noteq> []" and "\<not> is_finished r"
  shows "\<exists>b r'. check_stop r n = Inr (b, r') \<and>
    (b \<longleftrightarrow> min_tokens sp \<le> num_output_tokens r \<and>
       (eos_token_id sp = Some (last (output_token_ids r))
        \<or> last (output_token_ids r) \<in> set (case stop_token_ids sp of None \<Rightarrow> [] | Some ts \<Rightarrow> ts)
        \<or> n \<le> num_tokens r \<or> max_tokens r \<le> num_output_tokens r
        \<or> (\<exists>rp. repetition_detection sp = Some rp \<and>
               check_sequence_repetition (output_token_ids r) rp = Inr True))) \<and>
    is_finished r' = b \<and> (\<not> b \<longrightarrow> r' = r)"
proof -
  have last: "py_index (output_token_ids r) (- 1) = Inr (last (output_token_ids r))"
    using assms(3) by (simp add: py_index_def last_conv_nth nat_diff_distrib Suc_le_eq)
  define q where "q rp \<longleftrightarrow> check_sequence_repetition (output_token_ids r) rp = Inr True" for rp
  have q: "check_sequence_repetition (output_token_ids r) rp = Inr (q rp)" for rp
    by (simp add: q_def check_sequence_repetition_eq)
  show ?thesis
    using assms
    by (auto simp: check_stop_def last is_finished_def status_is_finished_def q
        split: option.splits)
qed

definition sample_params :: sampling_params where
  "sample_params = \<lparr>sp_max_tokens = Some 100, min_tokens = 0, eos_token_id = Some 2,
     stop_token_ids = None, repetition_detection =
       Some \<lparr>max_pattern_size = 4, min_pattern_size = 0, min_count = 2\<rparr>,
     sp_skip_reading_prefix_cache = None, structured_outputs = None\<rparr>"

definition sample_request :: request where
  "sample_request = \<lparr>request_id = ''r0'', object_id = 7, priority = 0, arrival_time = 0,
     status = RUNNING, req_stop_reason = None, req_sampling_params = Some sample_params,
     req_pooling_params = None, req_lora = None, max_tokens = 100,
     prompt_token_ids = Some [11, 12, 13], prompt_embeds = None, embeds_hash_memo = [],
     num_prompt_tokens = 3, output_token_ids = [5, 8, 9, 8, 9],
     all_token_ids = [11, 12, 13, 5, 8, 9, 8, 9], spec_token_ids = [], num_computed_tokens = 7,
     cache_salt = None, mm_features = [], block_hashes = [], skip_reading_prefix_cache = False\<rparr>"

theorem check_stop_spec_witness:
  "\<exists>r'. check_stop sample_request 4096 = Inr (True, r') \<and> is_finished r'"
proof -
  have rep: "check_sequence_repetition (output_token_ids sample_request)
      \<lparr>max_pattern_size = 4, min_pattern_size = 0, min_count = 2\<rparr> = Inr True"
    by code_simp
  show ?thesis
    using check_stop_spec [of sample_request sample_params 4096] rep
    by (auto simp: sample_request_def sample_params_def is_finished_def status_is_finished_def
        num_output_tokens_def)
qed

end
