(* ===== verification/BlockHashing.thy ===== *)
theory BlockHashing
  imports Request "HOL-Library.Countable"
begin

text \<open>
  Block hashing for prefix caching (\<^verbatim>\<open>vllm/v1/core/kv_cache_utils.py\<close>): the key that packs a block
  hash with a group id, the extra keys of a block, the chained hashes of a request and their view at a
  coarser block size. The hash function, the seed \<^verbatim>\<open>NONE_HASH\<close> and SHA-256 are parameters.
\<close>

section \<open>Keys\<close>

text \<open>\<^verbatim>\<open>int.to_bytes(4, "big", signed=False)\<close> and \<^verbatim>\<open>int.from_bytes(b, "big", signed=False)\<close>.\<close>

definition to_bytes4 :: "int \<Rightarrow> bytes result" where
  "to_bytes4 n =
     (if 0 \<le> n \<and> n < 2 ^ 32
      then Inr [word_of_int (n div 2 ^ 24), word_of_int (n div 2 ^ 16), word_of_int (n div 2 ^ 8),
                word_of_int n]
      else Inl OverflowError)"

definition from_bytes :: "bytes \<Rightarrow> int" where
  "from_bytes bs = foldl (\<lambda>acc b. acc * 256 + uint b) 0 bs"

definition make_block_hash_with_group_id :: "bytes \<Rightarrow> int \<Rightarrow> bytes result" where
  "make_block_hash_with_group_id block_hash group_id =
     res_bind (to_bytes4 group_id) (\<lambda>g. Inr (block_hash @ g))"

definition get_block_hash :: "bytes \<Rightarrow> bytes" where
  "get_block_hash key = py_slice 0 (- 4) key"

definition get_group_id :: "bytes \<Rightarrow> int" where
  "get_group_id key = from_bytes (py_slice (- 4) (int (length key)) key)"

datatype external_hash = HashBytes bytes | HashInt int

definition maybe_convert_block_hash :: "bool \<Rightarrow> bytes \<Rightarrow> external_hash" where
  "maybe_convert_block_hash use_int_block_hashes hash_bytes =
     (if \<not> use_int_block_hashes then HashBytes hash_bytes
      else HashInt (and (from_bytes hash_bytes) (2 ^ 64 - 1)))"

section \<open>Extra keys\<close>

datatype extra_key = StrKey string | MmKey string int | BytesKey bytes

definition need_extra_keys :: "request \<Rightarrow> bool" where
  "need_extra_keys r \<longleftrightarrow> mm_features r \<noteq> [] \<or> req_lora r \<noteq> None \<or> cache_salt r \<noteq> None"

text \<open>
  The loop of \<^verbatim>\<open>_gen_mm_extra_hash_keys\<close>: the first argument is \<^verbatim>\<open>mm_features[curr_mm_idx:]\<close>.
\<close>

fun mm_keys_loop ::
  "mm_feature list \<Rightarrow> int \<Rightarrow> int \<Rightarrow> int \<Rightarrow> extra_key list \<Rightarrow> extra_key list \<times> int" where
  "mm_keys_loop [] start_token_idx end_token_idx idx keys = (keys, idx)"
| "mm_keys_loop (f # fs) start_token_idx end_token_idx idx keys =
     (let offset = pr_offset (mm_position f); len = pr_length (mm_position f)
      in if end_token_idx > offset then
           if start_token_idx \<ge> offset + len
           then mm_keys_loop fs start_token_idx end_token_idx (idx + 1) keys
           else let keys' = keys @ [MmKey (mm_identifier f) (offset - start_token_idx)]
                in if end_token_idx \<ge> offset + len
                   then mm_keys_loop fs start_token_idx end_token_idx (idx + 1) keys'
                   else (keys', idx)
         else (keys, idx))"

definition gen_mm_extra_hash_keys ::
  "request \<Rightarrow> int \<Rightarrow> int \<Rightarrow> int \<Rightarrow> (extra_key list \<times> int) result" where
  "gen_mm_extra_hash_keys r start_token_idx end_token_idx start_mm_idx =
     (let feats = mm_features r in
      if feats = [] then Inr ([], start_mm_idx)
      else let last_pos = mm_position (last feats) in
      if pr_offset last_pos + pr_length last_pos \<le> start_token_idx then Inr ([], start_mm_idx)
      else
        res_bind (res_guard (\<not> start_mm_idx < 0 \<or> - start_mm_idx \<le> int (length feats))
                    AssertionError) (\<lambda>_.
        let idx = (if start_mm_idx < 0 then int (length feats) + start_mm_idx else start_mm_idx)
        in Inr (mm_keys_loop (drop (nat idx) feats) start_token_idx end_token_idx idx [])))"

definition gen_lora_extra_hash_keys :: "request \<Rightarrow> extra_key list" where
  "gen_lora_extra_hash_keys r =
     (case req_lora r of None \<Rightarrow> [] | Some l \<Rightarrow> [StrKey (lora_name l)])"

definition gen_prompt_embeds_extra_hash_keys ::
  "(bytes \<Rightarrow> bytes) \<Rightarrow> request \<Rightarrow> int \<Rightarrow> int \<Rightarrow> extra_key list \<times> request" where
  "gen_prompt_embeds_extra_hash_keys sha256 r start_token_idx end_token_idx =
     (case prompt_embeds r of
        None \<Rightarrow> ([], r)
      | Some rows \<Rightarrow>
          (case dict_get (embeds_hash_memo r) (start_token_idx, end_token_idx) of
             Some h \<Rightarrow> ([BytesKey h], r)
           | None \<Rightarrow>
               let h = sha256 (concat (py_slice start_token_idx end_token_idx rows))
               in ([BytesKey h],
                   r\<lparr>embeds_hash_memo :=
                       dict_set (start_token_idx, end_token_idx) h (embeds_hash_memo r)\<rparr>)))"

definition salt_keys :: "request \<Rightarrow> int \<Rightarrow> extra_key list" where
  "salt_keys r start_token_idx =
     (case cache_salt r of
        None \<Rightarrow> []
      | Some s \<Rightarrow> if start_token_idx = 0 \<and> s \<noteq> [] then [StrKey s] else [])"

definition generate_block_hash_extra_keys ::
  "(bytes \<Rightarrow> bytes) \<Rightarrow> request \<Rightarrow> int \<Rightarrow> int \<Rightarrow> int \<Rightarrow>
   ((extra_key list option \<times> int) \<times> request) result" where
  "generate_block_hash_extra_keys sha256 r start_token_idx end_token_idx start_mm_idx =
     res_bind (gen_mm_extra_hash_keys r start_token_idx end_token_idx start_mm_idx)
       (\<lambda>(mm_extra_keys, new_start_mm_idx).
     let lora_extra_keys = gen_lora_extra_hash_keys r;
         cache_salt_keys = salt_keys r start_token_idx;
         (prompt_embeds_keys, r') =
           gen_prompt_embeds_extra_hash_keys sha256 r start_token_idx end_token_idx;
         extra_keys = lora_extra_keys @ mm_extra_keys @ cache_salt_keys @ prompt_embeds_keys
     in Inr ((if extra_keys = [] then None else Some extra_keys, new_start_mm_idx), r'))"

section \<open>Hashes of a request\<close>

type_synonym hash_input = "bytes \<times> int list \<times> extra_key list option"

definition hash_block_tokens ::
  "(hash_input \<Rightarrow> bytes) \<Rightarrow> bytes \<Rightarrow> bytes option \<Rightarrow> int list \<Rightarrow> extra_key list option \<Rightarrow> bytes" where
  "hash_block_tokens hash_function none_hash parent_block_hash token_ids extra_keys =
     (let parent = (case parent_block_hash of
                      None \<Rightarrow> none_hash
                    | Some p \<Rightarrow> if p = [] then none_hash else p)
      in hash_function (parent, token_ids, extra_keys))"

text \<open>
  The \<^verbatim>\<open>while True\<close> loop of \<^verbatim>\<open>request_block_hasher\<close>. It does not end when the block size is not
  positive, which is the value \<^const>\<open>None\<close>.
\<close>

partial_function (option) hasher_loop ::
  "(hash_input \<Rightarrow> bytes) \<Rightarrow> bytes \<Rightarrow> (bytes \<Rightarrow> bytes) \<Rightarrow> int \<Rightarrow> int \<Rightarrow>
   request \<Rightarrow> int \<Rightarrow> int \<Rightarrow> bytes option \<Rightarrow> bytes list \<Rightarrow> (bytes list \<times> request) result option" where
  "hasher_loop hash_fn none_hash sha256 hash_block_size n_tokens r start_token_idx mm_idx prev acc =
     (let end_token_idx = start_token_idx + hash_block_size in
      if end_token_idx > n_tokens then Some (Inr (acc, r))
      else case generate_block_hash_extra_keys sha256 r start_token_idx end_token_idx mm_idx of
        Inl e \<Rightarrow> Some (Inl e)
      | Inr ((extra_keys, mm_idx'), r') \<Rightarrow>
          let block_tokens = py_slice start_token_idx end_token_idx (all_token_ids r');
              block_hash = hash_block_tokens hash_fn none_hash prev block_tokens extra_keys
          in hasher_loop hash_fn none_hash sha256 hash_block_size n_tokens r'
               (start_token_idx + hash_block_size) mm_idx' (Some block_hash) (acc @ [block_hash]))"

declare hasher_loop.simps [code]

definition request_block_hasher ::
  "(hash_input \<Rightarrow> bytes) \<Rightarrow> bytes \<Rightarrow> (bytes \<Rightarrow> bytes) \<Rightarrow> int \<Rightarrow> request \<Rightarrow>
   (bytes list \<times> request) result option" where
  "request_block_hasher hash_fn none_hash sha256 hash_block_size r =
     (let start_token_idx = int (length (block_hashes r)) * hash_block_size;
          n_tokens = num_tokens r
      in if start_token_idx + hash_block_size > n_tokens then Some (Inr ([], r))
         else let mm_idx = (if start_token_idx > 0 then - 1 else 0);
                  prev = (if block_hashes r \<noteq> [] then Some (last (block_hashes r)) else None)
              in hasher_loop hash_fn none_hash sha256 hash_block_size n_tokens r
                   start_token_idx mm_idx prev [])"

text \<open>
  \<^verbatim>\<open>Request.update_block_hashes\<close> and \<^verbatim>\<open>Request.append_output_token_ids\<close> for a request whose
  \<^verbatim>\<open>_block_hasher\<close> is the given one (\<^const>\<open>None\<close> when prefix caching is off).
\<close>

type_synonym block_hasher = "request \<Rightarrow> (bytes list \<times> request) result option"

definition update_block_hashes :: "block_hasher option \<Rightarrow> request \<Rightarrow> request result option" where
  "update_block_hashes hasher r =
     (case hasher of
        None \<Rightarrow> Some (Inr r)
      | Some h \<Rightarrow> map_option (\<lambda>res. res_bind res (\<lambda>(hs, r').
          Inr (r'\<lparr>block_hashes := block_hashes r' @ hs\<rparr>))) (h r))"

definition append_output_token_ids ::
  "block_hasher option \<Rightarrow> request \<Rightarrow> int list \<Rightarrow> request result option" where
  "append_output_token_ids hasher r token_ids =
     update_block_hashes hasher
       (r\<lparr>output_token_ids := output_token_ids r @ token_ids,
          all_token_ids := all_token_ids r @ token_ids\<rparr>)"

text \<open>\<^verbatim>\<open>Request.__init__\<close>: the fields the model keeps, in the order the constructor sets them.\<close>

definition request_init ::
  "block_hasher option \<Rightarrow> string \<Rightarrow> int \<Rightarrow> int list option \<Rightarrow> bytes list option \<Rightarrow>
   sampling_params option \<Rightarrow> pooling_params option \<Rightarrow> rat \<Rightarrow> mm_feature list \<Rightarrow>
   lora_request option \<Rightarrow> string option \<Rightarrow> int \<Rightarrow> request result option" where
  "request_init hasher rid obj ids embeds sp pp arrival feats lora salt prio =
     (let structured = has_structured_output_request sp;
          limits =
            (case pp of
               Some _ \<Rightarrow> Inr (1, WAITING)
             | None \<Rightarrow> (case sp of
                 None \<Rightarrow> Inl ValueError
               | Some p \<Rightarrow> (case sp_max_tokens p of
                   None \<Rightarrow> Inl AssertionError
                 | Some n \<Rightarrow> Inr (n, if structured then WAITING_FOR_STRUCTURED_OUTPUT_GRAMMAR
                                    else WAITING))))
      in case res_bind limits (\<lambda>(n, st).
               res_bind (length_from_prompt ids embeds) (\<lambda>len. Inr (n, st, len))) of
           Inl e \<Rightarrow> Some (Inl e)
         | Inr (n, st, len) \<Rightarrow>
             update_block_hashes hasher
               \<lparr>request_id = rid, object_id = obj, priority = prio, arrival_time = arrival,
                status = st, req_stop_reason = None, req_sampling_params = sp,
                req_pooling_params = pp, req_lora = lora, max_tokens = n, prompt_token_ids = ids,
                prompt_embeds = embeds, embeds_hash_memo = [], num_prompt_tokens = len,
                output_token_ids = [],
                all_token_ids = (case ids of Some ts \<Rightarrow> ts | None \<Rightarrow> replicate (nat len) 0),
                spec_token_ids = [], num_computed_tokens = 0, cache_salt = salt,
                mm_features = feats, block_hashes = [],
                skip_reading_prefix_cache = get_skip_reading_prefix_cache sp pp\<rparr>)"

section \<open>Block sizes\<close>

text \<open>\<^verbatim>\<open>resolve_kv_cache_block_sizes\<close>: the configuration fields it reads and one entry per group.\<close>

record block_size_config =
  cfg_block_size :: int
  cfg_hash_block_size :: "int option"
  enable_prefix_caching :: bool
  connector_enabled :: bool
  dcp_world_size :: int
  pcp_world_size :: int

record group_block_size =
  grp_block_size :: int
  grp_is_mamba :: bool

definition math_lcm :: "int list \<Rightarrow> int" where
  "math_lcm xs = fold lcm xs 1"

definition math_gcd :: "int list \<Rightarrow> int" where
  "math_gcd xs = fold gcd xs 0"

definition resolve_kv_cache_block_sizes ::
  "group_block_size list \<Rightarrow> block_size_config \<Rightarrow> (int \<times> int) result" where
  "resolve_kv_cache_block_sizes groups cfg =
     (if length groups \<le> 1
      then let bs = cfg_block_size cfg * dcp_world_size cfg * pcp_world_size cfg in Inr (bs, bs)
      else if dcp_world_size cfg \<noteq> 1 \<or> pcp_world_size cfg \<noteq> 1 then Inl ValueError
      else
        let sizes = map grp_block_size groups; sched = math_lcm sizes in
        if \<not> (enable_prefix_caching cfg \<or> connector_enabled cfg) then Inr (sched, sched)
        else if \<exists>g\<in>set groups. grp_is_mamba g \<and> grp_block_size g \<noteq> cfg_block_size cfg
        then Inr (sched, sched)
        else
          let hash_bs = (case cfg_hash_block_size cfg of Some h \<Rightarrow> h | None \<Rightarrow> math_gcd sizes) in
          if hash_bs = 0 then Inl ZeroDivisionError
          else if \<exists>bs\<in>set sizes. bs mod hash_bs \<noteq> 0 then Inl ValueError
          else Inr (sched, hash_bs))"

text \<open>\<^verbatim>\<open>BlockHashListWithBlockSize\<close>.\<close>

record block_hash_list =
  bhl_hashes :: "bytes list"
  scale_factor :: int

definition block_hash_list_init :: "bytes list \<Rightarrow> int \<Rightarrow> int \<Rightarrow> block_hash_list result" where
  "block_hash_list_init hashes hash_block_size target_block_size =
     (if hash_block_size = 0 then Inl ZeroDivisionError
      else res_bind (res_guard (target_block_size mod hash_block_size = 0) AssertionError) (\<lambda>_.
        Inr \<lparr>bhl_hashes = hashes, scale_factor = target_block_size div hash_block_size\<rparr>))"

definition block_hash_list_len :: "block_hash_list \<Rightarrow> int result" where
  "block_hash_list_len l =
     (if scale_factor l = 0 then Inl ZeroDivisionError
      else Inr (int (length (bhl_hashes l)) div scale_factor l))"

definition get_value_at :: "block_hash_list \<Rightarrow> int \<Rightarrow> bytes result" where
  "get_value_at l idx = py_index (bhl_hashes l) ((idx + 1) * scale_factor l - 1)"

fun get_values_at :: "block_hash_list \<Rightarrow> int list \<Rightarrow> bytes list result" where
  "get_values_at l [] = Inr []"
| "get_values_at l (i # is) =
     res_bind (get_value_at l i) (\<lambda>v. res_bind (get_values_at l is) (\<lambda>vs. Inr (v # vs)))"

text \<open>\<^verbatim>\<open>__getitem__\<close> on a slice \<^verbatim>\<open>[start:stop]\<close> and \<^verbatim>\<open>__iter__\<close>.\<close>

definition get_slice :: "block_hash_list \<Rightarrow> int \<Rightarrow> int \<Rightarrow> bytes list result" where
  "get_slice l start stop =
     res_bind (block_hash_list_len l) (\<lambda>n.
       get_values_at l [py_bound n start..py_bound n stop - 1])"

definition block_hash_list_iter :: "block_hash_list \<Rightarrow> bytes list result" where
  "block_hash_list_iter l = res_bind (block_hash_list_len l) (\<lambda>n. get_values_at l [0..n - 1])"

section \<open>Reference: the chain of hashes\<close>

abbreviation mm_end :: "mm_feature \<Rightarrow> int" where
  "mm_end f \<equiv> pr_offset (mm_position f) + pr_length (mm_position f)"

abbreviation mm_start :: "mm_feature \<Rightarrow> int" where
  "mm_start f \<equiv> pr_offset (mm_position f)"

text \<open>The multimodal inputs in prompt order, none empty and none overlapping the next.\<close>

definition mm_sorted :: "mm_feature list \<Rightarrow> bool" where
  "mm_sorted fs \<longleftrightarrow> sorted_wrt (\<lambda>f g. mm_end f \<le> mm_start g) fs
     \<and> (\<forall>f\<in>set fs. mm_start f < mm_end f)"

text \<open>The keys of the block \<open>[s, e)\<close>: of every input that has a token in it.\<close>

definition mm_block_keys :: "mm_feature list \<Rightarrow> int \<Rightarrow> int \<Rightarrow> extra_key list" where
  "mm_block_keys fs s e =
     map (\<lambda>f. MmKey (mm_identifier f) (mm_start f - s)) (filter (\<lambda>f. mm_start f < e \<and> s < mm_end f) fs)"

definition embeds_block_keys :: "(bytes \<Rightarrow> bytes) \<Rightarrow> request \<Rightarrow> int \<Rightarrow> int \<Rightarrow> extra_key list" where
  "embeds_block_keys sha256 r s e =
     (case prompt_embeds r of None \<Rightarrow> [] | Some rows \<Rightarrow> [BytesKey (sha256 (concat (py_slice s e rows)))])"

definition block_keys :: "(bytes \<Rightarrow> bytes) \<Rightarrow> request \<Rightarrow> int \<Rightarrow> int \<Rightarrow> extra_key list option" where
  "block_keys sha256 r s e =
     (let ks = gen_lora_extra_hash_keys r @ mm_block_keys (mm_features r) s e @ salt_keys r s
               @ embeds_block_keys sha256 r s e
      in if ks = [] then None else Some ks)"

fun hash_chain ::
  "(hash_input \<Rightarrow> bytes) \<Rightarrow> bytes \<Rightarrow> (int list \<times> extra_key list option) list \<Rightarrow> bytes list" where
  "hash_chain h parent [] = []"
| "hash_chain h parent ((ts, ks) # bs) =
     (let x = h (parent, ts, ks) in x # hash_chain h x bs)"

text \<open>The first \<open>n\<close> blocks of a request and their chained hashes.\<close>

definition request_blocks ::
  "(bytes \<Rightarrow> bytes) \<Rightarrow> int \<Rightarrow> request \<Rightarrow> nat \<Rightarrow> (int list \<times> extra_key list option) list" where
  "request_blocks sha256 bs r n =
     map (\<lambda>i. (py_slice (int i * bs) (int (Suc i) * bs) (all_token_ids r),
               block_keys sha256 r (int i * bs) (int (Suc i) * bs))) [0..<n]"

definition request_chain ::
  "(hash_input \<Rightarrow> bytes) \<Rightarrow> bytes \<Rightarrow> (bytes \<Rightarrow> bytes) \<Rightarrow> int \<Rightarrow> request \<Rightarrow> nat \<Rightarrow> bytes list" where
  "request_chain h none_hash sha256 bs r n = hash_chain h none_hash (request_blocks sha256 bs r n)"

definition memo_ok :: "(bytes \<Rightarrow> bytes) \<Rightarrow> request \<Rightarrow> bool" where
  "memo_ok sha256 r \<longleftrightarrow>
     (\<forall>s e d. dict_get (embeds_hash_memo r) (s, e) = Some d \<longrightarrow>
        (\<exists>rows. prompt_embeds r = Some rows \<and> d = sha256 (concat (py_slice s e rows))))"

section \<open>The hasher computes the chain\<close>

lemma mm_block_keys_Nil: "mm_block_keys [] s e = []"
  by (simp add: mm_block_keys_def)

lemma mm_block_keys_append: "mm_block_keys (fs @ gs) s e = mm_block_keys fs s e @ mm_block_keys gs s e"
  by (simp add: mm_block_keys_def)

lemma mm_block_keys_late: "\<forall>f\<in>set fs. e \<le> mm_start f \<Longrightarrow> mm_block_keys fs s e = []"
  by (force simp: mm_block_keys_def filter_empty_conv)

lemma mm_block_keys_early: "\<forall>f\<in>set fs. mm_end f \<le> s \<Longrightarrow> mm_block_keys fs s e = []"
  by (force simp: mm_block_keys_def filter_empty_conv)

lemma mm_block_keys_Cons:
  "mm_block_keys (f # fs) s e =
     (if mm_start f < e \<and> s < mm_end f then [MmKey (mm_identifier f) (mm_start f - s)] else [])
     @ mm_block_keys fs s e"
  by (simp add: mm_block_keys_def)

lemma mm_sorted_Cons:
  "mm_sorted (f # fs) \<longleftrightarrow>
     mm_start f < mm_end f \<and> (\<forall>g\<in>set fs. mm_end f \<le> mm_start g) \<and> mm_sorted fs"
  by (auto simp: mm_sorted_def)

lemma mm_keys_loop_spec:
  assumes "mm_sorted fs" and "s \<le> e"
  shows "\<exists>k\<le>length fs. mm_keys_loop fs s e idx keys = (keys @ mm_block_keys fs s e, idx + int k)
           \<and> (\<forall>f\<in>set (take k fs). mm_end f \<le> e)"
  using assms(1)
proof (induction fs arbitrary: idx keys)
  case Nil
  then show ?case by (simp add: mm_block_keys_Nil)
next
  case (Cons f fs)
  from Cons.prems have f: "mm_start f < mm_end f" "\<forall>g\<in>set fs. mm_end f \<le> mm_start g"
    and fs: "mm_sorted fs"
    by (auto simp: mm_sorted_Cons)
  note IH = Cons.IH [OF fs]
  consider (late) "e \<le> mm_start f" | (passed) "mm_start f < e" "mm_end f \<le> s"
    | (inside) "mm_start f < e" "s < mm_end f" "mm_end f \<le> e"
    | (across) "mm_start f < e" "s < mm_end f" "e < mm_end f"
    by linarith
  then show ?case
  proof cases
    case late
    then have "mm_block_keys (f # fs) s e = []" using f by (intro mm_block_keys_late) auto
    with late show ?thesis by (intro exI [of _ 0]) simp
  next
    case passed
    obtain k where "k \<le> length fs" "mm_keys_loop fs s e (idx + 1) keys =
        (keys @ mm_block_keys fs s e, idx + 1 + int k)" "\<forall>f\<in>set (take k fs). mm_end f \<le> e"
      using IH by blast
    with passed assms(2) show ?thesis
      by (intro exI [of _ "Suc k"]) (simp add: mm_block_keys_Cons Let_def)
  next
    case inside
    let ?keys = "keys @ [MmKey (mm_identifier f) (mm_start f - s)]"
    obtain k where "k \<le> length fs" "mm_keys_loop fs s e (idx + 1) ?keys =
        (?keys @ mm_block_keys fs s e, idx + 1 + int k)" "\<forall>f\<in>set (take k fs). mm_end f \<le> e"
      using IH by blast
    with inside show ?thesis
      by (intro exI [of _ "Suc k"]) (simp add: mm_block_keys_Cons Let_def)
  next
    case across
    then have "mm_block_keys fs s e = []" using f by (intro mm_block_keys_late) auto
    with across show ?thesis
      by (intro exI [of _ 0]) (simp add: mm_block_keys_Cons Let_def)
  qed
qed

text \<open>
  What a start index promises for a block that starts at \<open>s\<close>: every input before it has ended.
  A negative index counts from the end, as in the code.
\<close>

definition mm_index :: "mm_feature list \<Rightarrow> int \<Rightarrow> int" where
  "mm_index fs idx = (if idx < 0 then int (length fs) + idx else idx)"

definition mm_index_ok :: "mm_feature list \<Rightarrow> int \<Rightarrow> int \<Rightarrow> bool" where
  "mm_index_ok fs idx s \<longleftrightarrow> (fs \<noteq> [] \<longrightarrow>
     0 \<le> mm_index fs idx \<and> mm_index fs idx \<le> int (length fs) \<and>
     (\<forall>f\<in>set (take (nat (mm_index fs idx)) fs). mm_end f \<le> s))"

lemma mm_index_ok_mono: "mm_index_ok fs idx s \<Longrightarrow> s \<le> s' \<Longrightarrow> mm_index_ok fs idx s'"
  by (force simp: mm_index_ok_def)

lemma mm_sorted_append:
  "mm_sorted (fs @ gs) \<longleftrightarrow> mm_sorted fs \<and> mm_sorted gs \<and> (\<forall>f\<in>set fs. \<forall>g\<in>set gs. mm_end f \<le> mm_start g)"
  by (auto simp: mm_sorted_def sorted_wrt_append)

lemma mm_sorted_le_last:
  assumes "mm_sorted fs" and "f \<in> set fs"
  shows "mm_end f \<le> mm_end (last fs)"
proof -
  have ne: "fs \<noteq> []" using assms(2) by auto
  then have fs: "butlast fs @ [last fs] = fs" by simp
  then have "f = last fs \<or> f \<in> set (butlast fs)"
    using assms(2) by (metis Un_iff list.set(1) list.set(2) set_append singletonD)
  moreover have "mm_sorted (butlast fs @ [last fs])" using assms(1) fs by simp
  ultimately show ?thesis by (force simp: mm_sorted_append mm_sorted_Cons)
qed

lemma gen_mm_extra_hash_keys_spec:
  assumes sorted: "mm_sorted (mm_features r)" and ok: "mm_index_ok (mm_features r) idx s"
    and "s \<le> e"
  shows "\<exists>idx'. gen_mm_extra_hash_keys r s e idx = Inr (mm_block_keys (mm_features r) s e, idx')
           \<and> mm_index_ok (mm_features r) idx' e"
proof -
  let ?fs = "mm_features r"
  consider (none) "?fs = []" | (past) "?fs \<noteq> []" "mm_end (last ?fs) \<le> s"
    | (run) "?fs \<noteq> []" "\<not> mm_end (last ?fs) \<le> s"
    by blast
  then show ?thesis
  proof cases
    case none
    then show ?thesis by (simp add: gen_mm_extra_hash_keys_def mm_block_keys_def mm_index_ok_def)
  next
    case past
    then have "mm_block_keys ?fs s e = []"
      using mm_sorted_le_last [OF sorted] by (intro mm_block_keys_early) fastforce
    with past show ?thesis
      using mm_index_ok_mono [OF ok \<open>s \<le> e\<close>] by (simp add: gen_mm_extra_hash_keys_def Let_def)
  next
    case run
    let ?i = "mm_index ?fs idx"
    from ok run have i: "0 \<le> ?i" "?i \<le> int (length ?fs)"
      and before: "\<forall>f\<in>set (take (nat ?i) ?fs). mm_end f \<le> s"
      by (auto simp: mm_index_ok_def)
    have split: "mm_sorted (take (nat ?i) ?fs @ drop (nat ?i) ?fs)" using sorted by simp
    obtain k where k: "k \<le> length (drop (nat ?i) ?fs)"
      "mm_keys_loop (drop (nat ?i) ?fs) s e ?i [] = ([] @ mm_block_keys (drop (nat ?i) ?fs) s e, ?i + int k)"
      "\<forall>f\<in>set (take k (drop (nat ?i) ?fs)). mm_end f \<le> e"
      using mm_keys_loop_spec split \<open>s \<le> e\<close> unfolding mm_sorted_append by metis
    have keys: "mm_block_keys ?fs s e = mm_block_keys (drop (nat ?i) ?fs) s e"
      using mm_block_keys_append [of "take (nat ?i) ?fs" "drop (nat ?i) ?fs" s e]
        mm_block_keys_early [OF before] by simp
    have "set (take (nat (?i + int k)) ?fs) =
          set (take (nat ?i) ?fs) \<union> set (take k (drop (nat ?i) ?fs))"
      using i by (simp add: nat_add_distrib take_add)
    then have "mm_index_ok ?fs (?i + int k) e"
      using i k before \<open>s \<le> e\<close> by (fastforce simp: mm_index_ok_def mm_index_def)
    moreover have "gen_mm_extra_hash_keys r s e idx = Inr (mm_block_keys ?fs s e, ?i + int k)"
      using run i k(2) by (simp add: gen_mm_extra_hash_keys_def Let_def keys mm_index_def split: if_splits)
    ultimately show ?thesis by blast
  qed
qed

lemma gen_prompt_embeds_spec:
  assumes "memo_ok sha256 r"
  shows "\<exists>m. gen_prompt_embeds_extra_hash_keys sha256 r s e =
               (embeds_block_keys sha256 r s e, r\<lparr>embeds_hash_memo := m\<rparr>)
             \<and> memo_ok sha256 (r\<lparr>embeds_hash_memo := m\<rparr>)"
proof (cases "prompt_embeds r")
  case None
  with assms show ?thesis
    by (intro exI [of _ "embeds_hash_memo r"])
      (simp add: gen_prompt_embeds_extra_hash_keys_def embeds_block_keys_def)
next
  case (Some rows)
  show ?thesis
  proof (cases "dict_get (embeds_hash_memo r) (s, e)")
    case None
    with Some assms show ?thesis
      by (intro exI [of _ "dict_set (s, e) (sha256 (concat (py_slice s e rows))) (embeds_hash_memo r)"])
        (auto simp: gen_prompt_embeds_extra_hash_keys_def embeds_block_keys_def memo_ok_def Let_def)
  next
    case (Some d)
    with \<open>prompt_embeds r = Some rows\<close> assms show ?thesis
      by (intro exI [of _ "embeds_hash_memo r"])
        (auto simp: gen_prompt_embeds_extra_hash_keys_def embeds_block_keys_def memo_ok_def)
  qed
qed

lemma generate_block_hash_extra_keys_spec:
  assumes "mm_sorted (mm_features r)" and "mm_index_ok (mm_features r) idx s" and "s \<le> e"
    and "memo_ok sha256 r"
  shows "\<exists>idx' m. generate_block_hash_extra_keys sha256 r s e idx =
               Inr ((block_keys sha256 r s e, idx'), r\<lparr>embeds_hash_memo := m\<rparr>)
             \<and> mm_index_ok (mm_features r) idx' e \<and> memo_ok sha256 (r\<lparr>embeds_hash_memo := m\<rparr>)"
proof -
  obtain idx' where "gen_mm_extra_hash_keys r s e idx = Inr (mm_block_keys (mm_features r) s e, idx')"
    "mm_index_ok (mm_features r) idx' e"
    using gen_mm_extra_hash_keys_spec [OF assms(1-3)] by blast
  moreover obtain m where "gen_prompt_embeds_extra_hash_keys sha256 r s e =
      (embeds_block_keys sha256 r s e, r\<lparr>embeds_hash_memo := m\<rparr>)"
    "memo_ok sha256 (r\<lparr>embeds_hash_memo := m\<rparr>)"
    using gen_prompt_embeds_spec [OF assms(4)] by blast
  ultimately show ?thesis
    by (auto simp: generate_block_hash_extra_keys_def block_keys_def Let_def)
qed

lemma block_keys_memo [simp]: "block_keys sha256 (r\<lparr>embeds_hash_memo := m\<rparr>) s e = block_keys sha256 r s e"
  by (simp add: block_keys_def gen_lora_extra_hash_keys_def salt_keys_def embeds_block_keys_def)

lemma request_blocks_memo [simp]:
  "request_blocks sha256 bs (r\<lparr>embeds_hash_memo := m\<rparr>) n = request_blocks sha256 bs r n"
  by (simp add: request_blocks_def)

lemma length_hash_chain [simp]: "length (hash_chain h p bs) = length bs"
  by (induction h p bs rule: hash_chain.induct) (simp_all add: Let_def)

lemma length_request_blocks [simp]: "length (request_blocks sha256 bs r n) = n"
  by (simp add: request_blocks_def)

lemma hash_chain_append:
  "hash_chain h p (xs @ ys) = hash_chain h p xs @ hash_chain h (last (p # hash_chain h p xs)) ys"
  by (induction h p xs rule: hash_chain.induct) (simp_all add: Let_def)

lemma hash_chain_nonempty:
  "x \<in> set (hash_chain h p bs) \<Longrightarrow> x \<in> range h"
  by (induction h p bs rule: hash_chain.induct) (auto simp: Let_def)

lemma drop_request_blocks:
  assumes "k < n"
  shows "drop k (request_blocks sha256 bs r n) =
         (py_slice (int k * bs) (int (Suc k) * bs) (all_token_ids r),
          block_keys sha256 r (int k * bs) (int (Suc k) * bs)) # drop (Suc k) (request_blocks sha256 bs r n)"
  using assms by (subst Cons_nth_drop_Suc [symmetric]) (simp_all add: request_blocks_def)

lemma full_blocks_iff:
  fixes t :: int
  assumes "0 < bs" and "0 \<le> t"
  shows "int (Suc k) * bs \<le> t \<longleftrightarrow> k < nat (t div bs)"
proof -
  have "int (Suc k) * bs \<le> t \<longleftrightarrow> int (Suc k) \<le> t div bs"
  proof
    assume "int (Suc k) * bs \<le> t"
    then have "int (Suc k) * bs div bs \<le> t div bs" using assms(1) by (rule zdiv_mono1)
    then show "int (Suc k) \<le> t div bs" using assms(1) by simp
  next
    assume "int (Suc k) \<le> t div bs"
    then have "int (Suc k) * bs \<le> t div bs * bs" using assms(1) by (intro mult_right_mono) simp_all
    moreover have "t div bs * bs + t mod bs = t" "0 \<le> t mod bs"
      using assms(1) by (simp_all add: div_mult_mod_eq)
    ultimately show "int (Suc k) * bs \<le> t" by linarith
  qed
  then show ?thesis by linarith
qed

definition parent_ok :: "bytes \<Rightarrow> bytes option \<Rightarrow> bytes \<Rightarrow> bool" where
  "parent_ok none_hash prev p \<longleftrightarrow> prev = None \<and> p = none_hash \<or> prev = Some p \<and> p \<noteq> []"

lemma hash_block_tokens_parent:
  "parent_ok none_hash prev p \<Longrightarrow> hash_block_tokens h none_hash prev ts ks = h (p, ts, ks)"
  by (auto simp: parent_ok_def hash_block_tokens_def)

lemma hasher_loop_spec:
  assumes bs: "0 < bs" and h: "\<And>x. h x \<noteq> []" and "mm_sorted (mm_features r)"
    and "n = nat (num_tokens r div bs)" and "k \<le> n" and "memo_ok sha256 r"
    and "mm_index_ok (mm_features r) idx (int k * bs)" and "parent_ok none_hash prev p"
  shows "\<exists>m. hasher_loop h none_hash sha256 bs (num_tokens r) r (int k * bs) idx prev acc =
               Some (Inr (acc @ hash_chain h p (drop k (request_blocks sha256 bs r n)),
                          r\<lparr>embeds_hash_memo := m\<rparr>))
             \<and> memo_ok sha256 (r\<lparr>embeds_hash_memo := m\<rparr>)"
  using assms(3-)
proof (induction "n - k" arbitrary: k r idx prev p acc)
  case 0
  then have "\<not> k < nat (num_tokens r div bs)" by simp
  then have "int k * bs + bs > num_tokens r"
    using full_blocks_iff [OF bs, of "num_tokens r" k] by (simp add: num_tokens_def algebra_simps)
  with 0 show ?case
    by (intro exI [of _ "embeds_hash_memo r"]) (subst hasher_loop.simps, simp add: Let_def)
next
  case (Suc d)
  have k: "k < n" using Suc.hyps(2) by simp
  then have inside: "\<not> int k * bs + bs > num_tokens r"
    using full_blocks_iff [OF bs, of "num_tokens r" k] Suc.prems(2)
    by (simp add: num_tokens_def algebra_simps)
  have step: "int k * bs + bs = int (Suc k) * bs" by (simp add: algebra_simps)
  obtain idx' m where gen: "generate_block_hash_extra_keys sha256 r (int k * bs) (int (Suc k) * bs) idx =
      Inr ((block_keys sha256 r (int k * bs) (int (Suc k) * bs), idx'), r\<lparr>embeds_hash_memo := m\<rparr>)"
    and idx': "mm_index_ok (mm_features r) idx' (int (Suc k) * bs)"
    and m: "memo_ok sha256 (r\<lparr>embeds_hash_memo := m\<rparr>)"
    using generate_block_hash_extra_keys_spec [OF Suc.prems(1,5) _ Suc.prems(4), of "int (Suc k) * bs"] bs
    by (auto simp: algebra_simps)
  let ?r = "r\<lparr>embeds_hash_memo := m\<rparr>"
  let ?x = "h (p, py_slice (int k * bs) (int (Suc k) * bs) (all_token_ids r),
                  block_keys sha256 r (int k * bs) (int (Suc k) * bs))"
  have n': "num_tokens ?r = num_tokens r" by (simp add: num_tokens_def)
  have "\<exists>m'. hasher_loop h none_hash sha256 bs (num_tokens ?r) ?r (int (Suc k) * bs) idx' (Some ?x) (acc @ [?x]) =
      Some (Inr ((acc @ [?x]) @ hash_chain h ?x (drop (Suc k) (request_blocks sha256 bs ?r n)),
                 ?r\<lparr>embeds_hash_memo := m'\<rparr>)) \<and> memo_ok sha256 (?r\<lparr>embeds_hash_memo := m'\<rparr>)"
    using Suc.hyps(2) Suc.prems k m idx' n' h
    by (intro Suc.hyps(1)) (simp_all add: parent_ok_def)
  then obtain m' where rec: "hasher_loop h none_hash sha256 bs (num_tokens r) ?r (int (Suc k) * bs) idx' (Some ?x) (acc @ [?x]) =
      Some (Inr ((acc @ [?x]) @ hash_chain h ?x (drop (Suc k) (request_blocks sha256 bs r n)),
                 r\<lparr>embeds_hash_memo := m'\<rparr>))" and m': "memo_ok sha256 (r\<lparr>embeds_hash_memo := m'\<rparr>)"
    by (auto simp: n')
  have "hasher_loop h none_hash sha256 bs (num_tokens r) r (int k * bs) idx prev acc =
        hasher_loop h none_hash sha256 bs (num_tokens r) ?r (int (Suc k) * bs) idx' (Some ?x) (acc @ [?x])"
    using inside gen hash_block_tokens_parent [OF Suc.prems(6)]
    by (subst hasher_loop.simps) (simp add: Let_def step del: of_nat_Suc)
  with rec m' show ?case
    by (intro exI [of _ m']) (simp add: drop_request_blocks [OF k] Let_def del: of_nat_Suc)
qed

text \<open>A request whose stored hashes are the chain of its first blocks, and its resumption index.\<close>

definition hashes_ok ::
  "(hash_input \<Rightarrow> bytes) \<Rightarrow> bytes \<Rightarrow> (bytes \<Rightarrow> bytes) \<Rightarrow> int \<Rightarrow> request \<Rightarrow> bool" where
  "hashes_ok h none_hash sha256 bs r \<longleftrightarrow>
     memo_ok sha256 r \<and> int (length (block_hashes r)) * bs \<le> num_tokens r \<and>
     block_hashes r = request_chain h none_hash sha256 bs r (length (block_hashes r))"

definition resume_ok :: "int \<Rightarrow> request \<Rightarrow> bool" where
  "resume_ok bs r \<longleftrightarrow> mm_sorted (mm_features r) \<and>
     (block_hashes r \<noteq> [] \<longrightarrow>
       (\<forall>f\<in>set (butlast (mm_features r)). mm_end f \<le> int (length (block_hashes r)) * bs))"

lemma resume_index:
  assumes "resume_ok bs r" and "0 < bs"
  shows "mm_index_ok (mm_features r) (if int (length (block_hashes r)) * bs > 0 then - 1 else 0)
           (int (length (block_hashes r)) * bs)"
proof (cases "block_hashes r = []")
  case True
  then show ?thesis by (simp add: mm_index_ok_def mm_index_def)
next
  case False
  have "take (nat (int (length fs) - 1)) fs = butlast fs" for fs :: "mm_feature list"
    by (cases "length fs") (simp_all add: butlast_conv_take nat_diff_distrib)
  with False assms show ?thesis
    by (auto simp: mm_index_ok_def mm_index_def resume_ok_def Suc_le_eq)
qed

lemma request_chain_drop:
  assumes "k \<le> n"
  shows "request_chain h p sha256 bs r n =
         request_chain h p sha256 bs r k @
         hash_chain h (last (p # request_chain h p sha256 bs r k)) (drop k (request_blocks sha256 bs r n))"
proof -
  have "take k (request_blocks sha256 bs r n) = request_blocks sha256 bs r k"
    using assms by (simp add: request_blocks_def take_map)
  then show ?thesis
    unfolding request_chain_def
    by (metis append_take_drop_id hash_chain_append)
qed

text \<open>A run of the request: its creation, then tokens appended chunk by chunk.\<close>

fun append_chunks :: "block_hasher option \<Rightarrow> request \<Rightarrow> int list list \<Rightarrow> request result option" where
  "append_chunks hasher r [] = Some (Inr r)"
| "append_chunks hasher r (c # cs) =
     Option.bind (append_output_token_ids hasher r c) (\<lambda>res.
       case res of Inl e \<Rightarrow> Some (Inl e) | Inr r' \<Rightarrow> append_chunks hasher r' cs)"

lemma request_block_hasher_eq:
  assumes bs: "0 < bs" and h: "\<And>x. h x \<noteq> []" and resume: "resume_ok bs r"
    and ok: "hashes_ok h none_hash sha256 bs r"
  defines "n \<equiv> nat (num_tokens r div bs)" and "k \<equiv> length (block_hashes r)"
  shows "\<exists>m. request_block_hasher h none_hash sha256 bs r =
               Some (Inr (drop k (request_chain h none_hash sha256 bs r n), r\<lparr>embeds_hash_memo := m\<rparr>))
             \<and> memo_ok sha256 (r\<lparr>embeds_hash_memo := m\<rparr>)"
proof -
  have nonneg: "0 \<le> num_tokens r" by (simp add: num_tokens_def)
  have kn: "k \<le> n"
  proof (cases k)
    case (Suc k')
    then show ?thesis
      using ok full_blocks_iff [OF bs nonneg, of k'] by (simp add: hashes_ok_def k_def n_def)
  qed simp
  show ?thesis
  proof (cases "int k * bs + bs > num_tokens r")
    case True
    then have "\<not> k < n"
      using full_blocks_iff [OF bs nonneg, of k] by (simp add: n_def algebra_simps)
    then have "drop k (request_chain h none_hash sha256 bs r n) = []"
      by (simp add: request_chain_def)
    with True ok show ?thesis
      by (intro exI [of _ "embeds_hash_memo r"])
        (simp add: request_block_hasher_def hashes_ok_def k_def)
  next
    case False
    let ?prev = "if block_hashes r \<noteq> [] then Some (last (block_hashes r)) else None"
    let ?p = "last (none_hash # request_chain h none_hash sha256 bs r k)"
    have chain: "request_chain h none_hash sha256 bs r k = block_hashes r"
      using ok by (simp add: hashes_ok_def k_def)
    have "last (block_hashes r) \<noteq> []" if "block_hashes r \<noteq> []"
      using hash_chain_nonempty last_in_set [OF that] chain h
      unfolding request_chain_def by (metis rangeE)
    then have parent: "parent_ok none_hash ?prev ?p" by (auto simp: parent_ok_def chain)
    have sorted: "mm_sorted (mm_features r)" and memo: "memo_ok sha256 r" and n: "n = nat (num_tokens r div bs)"
      using resume ok by (simp_all add: resume_ok_def hashes_ok_def n_def)
    have idx: "mm_index_ok (mm_features r) (if int k * bs > 0 then - 1 else 0) (int k * bs)"
      using resume_index [OF resume bs] by (simp add: k_def)
    obtain m where "hasher_loop h none_hash sha256 bs (num_tokens r) r (int k * bs)
        (if int k * bs > 0 then - 1 else 0) ?prev [] =
          Some (Inr ([] @ hash_chain h ?p (drop k (request_blocks sha256 bs r n)), r\<lparr>embeds_hash_memo := m\<rparr>))"
      "memo_ok sha256 (r\<lparr>embeds_hash_memo := m\<rparr>)"
      using hasher_loop_spec [where h = h, OF bs h sorted n kn memo idx parent] by blast
    moreover have "drop k (request_chain h none_hash sha256 bs r n) =
        hash_chain h ?p (drop k (request_blocks sha256 bs r n))"
      using request_chain_drop [OF kn] by (simp add: request_chain_def)
    ultimately show ?thesis
      using False by (intro exI [of _ m]) (simp add: request_block_hasher_def Let_def k_def)
  qed
qed

lemma request_chain_update [simp]:
  "request_chain h none_hash sha256 bs (r\<lparr>embeds_hash_memo := m, block_hashes := hs\<rparr>) n =
   request_chain h none_hash sha256 bs r n"
  by (simp add: request_chain_def request_blocks_def block_keys_def gen_lora_extra_hash_keys_def
      salt_keys_def embeds_block_keys_def)

lemma length_request_chain [simp]: "length (request_chain h none_hash sha256 bs r n) = n"
  by (simp add: request_chain_def)

lemma num_tokens_update [simp]:
  "num_tokens (r\<lparr>embeds_hash_memo := m\<rparr>) = num_tokens r"
  "num_tokens (r\<lparr>block_hashes := hs\<rparr>) = num_tokens r"
  by (simp_all add: num_tokens_def)

lemma memo_ok_update [simp]: "memo_ok sha256 (r\<lparr>block_hashes := hs\<rparr>) = memo_ok sha256 r"
  by (simp add: memo_ok_def)

lemma update_block_hashes_ok:
  assumes bs: "0 < bs" and h: "\<And>x. h x \<noteq> []" and resume: "resume_ok bs r"
    and ok: "hashes_ok h none_hash sha256 bs r"
  shows "\<exists>m. let r' = r\<lparr>embeds_hash_memo := m,
                  block_hashes := request_chain h none_hash sha256 bs r (nat (num_tokens r div bs))\<rparr>
             in update_block_hashes (Some (request_block_hasher h none_hash sha256 bs)) r = Some (Inr r')
                \<and> hashes_ok h none_hash sha256 bs r'"
proof -
  let ?n = "nat (num_tokens r div bs)" and ?k = "length (block_hashes r)"
  obtain m where eq: "request_block_hasher h none_hash sha256 bs r =
      Some (Inr (drop ?k (request_chain h none_hash sha256 bs r ?n), r\<lparr>embeds_hash_memo := m\<rparr>))"
    and m: "memo_ok sha256 (r\<lparr>embeds_hash_memo := m\<rparr>)"
    using request_block_hasher_eq [OF bs h resume ok] by blast
  have nonneg: "0 \<le> num_tokens r" by (simp add: num_tokens_def)
  have "?k \<le> ?n"
  proof (cases ?k)
    case (Suc k')
    then show ?thesis
      using ok full_blocks_iff [OF bs nonneg, of k'] by (simp add: hashes_ok_def)
  qed simp
  then have split: "block_hashes r @ drop ?k (request_chain h none_hash sha256 bs r ?n) =
      request_chain h none_hash sha256 bs r ?n"
    using request_chain_drop [of ?k ?n h none_hash sha256 bs r] ok
    by (simp add: hashes_ok_def)
  have "int ?n * bs \<le> num_tokens r"
    using full_blocks_iff [OF bs nonneg, of "?n - 1"] nonneg by (cases ?n) simp_all
  with m show ?thesis
    by (intro exI [of _ m])
      (simp add: update_block_hashes_def eq split Let_def hashes_ok_def)
qed

lemma request_chain_append_tokens:
  assumes "0 < bs" and "int k * bs \<le> num_tokens r"
  shows "request_chain h none_hash sha256 bs
           (r\<lparr>output_token_ids := os, all_token_ids := all_token_ids r @ ts\<rparr>) k =
         request_chain h none_hash sha256 bs r k"
proof -
  have "int (Suc i) * bs \<le> num_tokens r" if "i < k" for i
  proof -
    have "int (Suc i) * bs \<le> int k * bs" using that assms(1) by (intro mult_right_mono) auto
    with assms(2) show ?thesis by linarith
  qed
  then have "py_slice (int i * bs) (int (Suc i) * bs) (all_token_ids r @ ts) =
             py_slice (int i * bs) (int (Suc i) * bs) (all_token_ids r)" if "i < k" for i
    using that assms(1)
    by (intro py_slice_append_inside) (auto simp: num_tokens_def intro!: mult_right_mono)
  then show ?thesis
    by (auto simp: request_chain_def request_blocks_def block_keys_def gen_lora_extra_hash_keys_def
        salt_keys_def embeds_block_keys_def simp del: of_nat_Suc intro!: arg_cong [of _ _ "hash_chain h none_hash"])
qed

text \<open>The invariant of a request over its life: exact hashes, and at most the last input reaches
  beyond the hashed prefix.\<close>

definition request_inv ::
  "(hash_input \<Rightarrow> bytes) \<Rightarrow> bytes \<Rightarrow> (bytes \<Rightarrow> bytes) \<Rightarrow> int \<Rightarrow> request \<Rightarrow> bool" where
  "request_inv h none_hash sha256 bs r \<longleftrightarrow>
     hashes_ok h none_hash sha256 bs r \<and> mm_sorted (mm_features r) \<and>
     length (block_hashes r) = nat (num_tokens r div bs) \<and>
     (\<forall>f\<in>set (butlast (mm_features r)). mm_end f \<le> int (length (block_hashes r)) * bs)"

lemma append_output_inv:
  assumes bs: "0 < bs" and h: "\<And>x. h x \<noteq> []" and inv: "request_inv h none_hash sha256 bs r"
  shows "\<exists>r'. append_output_token_ids (Some (request_block_hasher h none_hash sha256 bs)) r ts = Some (Inr r')
           \<and> all_token_ids r' = all_token_ids r @ ts \<and> request_inv h none_hash sha256 bs r'"
proof -
  let ?q = "r\<lparr>output_token_ids := output_token_ids r @ ts, all_token_ids := all_token_ids r @ ts\<rparr>"
  from inv have ok: "hashes_ok h none_hash sha256 bs r" by (simp add: request_inv_def)
  have "hashes_ok h none_hash sha256 bs ?q"
    using ok request_chain_append_tokens [OF bs, of "length (block_hashes r)" r]
    by (auto simp: hashes_ok_def memo_ok_def num_tokens_def)
  moreover have "resume_ok bs ?q" using inv by (auto simp: request_inv_def resume_ok_def)
  ultimately obtain m where m: "let r' = ?q\<lparr>embeds_hash_memo := m,
        block_hashes := request_chain h none_hash sha256 bs ?q (nat (num_tokens ?q div bs))\<rparr>
      in update_block_hashes (Some (request_block_hasher h none_hash sha256 bs)) ?q = Some (Inr r')
         \<and> hashes_ok h none_hash sha256 bs r'"
    using update_block_hashes_ok [where h = h, OF bs h] by blast
  have "num_tokens r div bs \<le> num_tokens ?q div bs"
    using bs by (intro zdiv_mono1) (simp_all add: num_tokens_def)
  then have grow: "int (length (block_hashes r)) \<le> int (nat (num_tokens ?q div bs))"
    using inv by (simp only: request_inv_def of_nat_le_iff nat_mono)
  have "mm_end f \<le> int (nat (num_tokens ?q div bs)) * bs" if "f \<in> set (butlast (mm_features r))" for f
  proof -
    have "mm_end f \<le> int (length (block_hashes r)) * bs"
      using inv that unfolding request_inv_def by blast
    also have "\<dots> \<le> int (nat (num_tokens ?q div bs)) * bs" using grow bs by (intro mult_right_mono) simp_all
    finally show ?thesis .
  qed
  with m inv show ?thesis
    by (auto simp: Let_def append_output_token_ids_def request_inv_def)
qed

lemma append_chunks_inv:
  assumes bs: "0 < bs" and h: "\<And>x. h x \<noteq> []"
  shows "request_inv h none_hash sha256 bs r \<Longrightarrow>
    \<exists>r'. append_chunks (Some (request_block_hasher h none_hash sha256 bs)) r cs = Some (Inr r')
       \<and> all_token_ids r' = all_token_ids r @ concat cs \<and> request_inv h none_hash sha256 bs r'"
proof (induction cs arbitrary: r)
  case (Cons c cs)
  obtain r' where r': "append_output_token_ids (Some (request_block_hasher h none_hash sha256 bs)) r c =
      Some (Inr r')" "all_token_ids r' = all_token_ids r @ c" "request_inv h none_hash sha256 bs r'"
    using append_output_inv [where h = h, OF bs h Cons.prems] by blast
  from Cons.IH [OF r'(3)] r'(1,2) show ?case by auto
qed simp

lemma request_init_inv:
  assumes bs: "0 < bs" and h: "\<And>x. h x \<noteq> []"
    and init: "request_init (Some (request_block_hasher h none_hash sha256 bs)) rid obj ids embeds sp pp
                 arrival feats lora salt prio = Some (Inr r)"
    and sorted: "mm_sorted feats"
    and tail: "\<forall>f\<in>set (butlast feats). mm_end f \<le> num_prompt_tokens r div bs * bs"
  shows "request_inv h none_hash sha256 bs r \<and> mm_features r = feats
         \<and> int (length (all_token_ids r)) = num_prompt_tokens r"
proof -
  obtain n st len where len: "length_from_prompt ids embeds = Inr len"
    and upd: "update_block_hashes (Some (request_block_hasher h none_hash sha256 bs))
               \<lparr>request_id = rid, object_id = obj, priority = prio, arrival_time = arrival,
                status = st, req_stop_reason = None, req_sampling_params = sp,
                req_pooling_params = pp, req_lora = lora, max_tokens = n, prompt_token_ids = ids,
                prompt_embeds = embeds, embeds_hash_memo = [], num_prompt_tokens = len,
                output_token_ids = [],
                all_token_ids = (case ids of Some ts \<Rightarrow> ts | None \<Rightarrow> replicate (nat len) 0),
                spec_token_ids = [], num_computed_tokens = 0, cache_salt = salt,
                mm_features = feats, block_hashes = [],
                skip_reading_prefix_cache = get_skip_reading_prefix_cache sp pp\<rparr> = Some (Inr r)"
    (is "update_block_hashes _ ?q = _")
    using init unfolding request_init_def Let_def
    by (auto simp: res_bind_Inr_iff split: sum.splits)
  have ntok: "num_tokens ?q = len"
    using len by (auto simp: num_tokens_def length_from_prompt_def split: option.splits if_splits)
  have "hashes_ok h none_hash sha256 bs ?q"
    by (simp add: hashes_ok_def memo_ok_def num_tokens_def request_chain_def request_blocks_def)
  moreover have "resume_ok bs ?q" using sorted by (simp add: resume_ok_def)
  ultimately obtain m where m: "let r' = ?q\<lparr>embeds_hash_memo := m,
        block_hashes := request_chain h none_hash sha256 bs ?q (nat (num_tokens ?q div bs))\<rparr>
      in update_block_hashes (Some (request_block_hasher h none_hash sha256 bs)) ?q = Some (Inr r')
         \<and> hashes_ok h none_hash sha256 bs r'"
    using update_block_hashes_ok [where h = h, OF bs h] by blast
  then have r: "r = ?q\<lparr>embeds_hash_memo := m,
        block_hashes := request_chain h none_hash sha256 bs ?q (nat (num_tokens ?q div bs))\<rparr>"
    and ok: "hashes_ok h none_hash sha256 bs r"
    using upd by (simp_all add: Let_def)
  have "0 \<le> len" using ntok by (auto simp: num_tokens_def)
  then have "int (nat (len div bs)) = len div bs"
    using bs by (simp add: pos_imp_zdiv_nonneg_iff)
  with r ok ntok sorted tail show ?thesis
    by (simp add: request_inv_def) (simp add: num_tokens_def)
qed

section \<open>Chained hashes identify prefixes\<close>

lemma hash_chain_nth:
  assumes "i < length xs"
  shows "hash_chain h p xs ! i = h (if i = 0 then p else hash_chain h p xs ! (i - 1), xs ! i)"
  using assms
proof (induction xs arbitrary: i p)
  case (Cons x xs)
  obtain ts ks where x: "x = (ts, ks)" by fastforce
  show ?case
  proof (cases i)
    case (Suc i')
    with Cons.prems show ?thesis
      using Cons.IH [of i'] by (cases i') (simp_all add: x Let_def)
  qed (simp add: x Let_def)
qed simp

lemma hash_chain_collision:
  assumes "inj h" and "p \<notin> range h"
  shows "i < length xs \<Longrightarrow> j < length ys \<Longrightarrow> hash_chain h p xs ! i = hash_chain h p ys ! j \<Longrightarrow>
         i = j \<and> take (Suc i) xs = take (Suc j) ys"
proof (induction i arbitrary: j)
  case 0
  have eq: "xs ! 0 = ys ! j" "p = (if j = 0 then p else hash_chain h p ys ! (j - 1))"
    using 0 hash_chain_nth [of 0 xs h p] hash_chain_nth [of j ys h p] assms(1)
    by (auto dest: injD)
  moreover have "j = 0"
  proof (rule ccontr)
    assume "j \<noteq> 0"
    then have "hash_chain h p ys ! (j - 1) \<in> range h"
      using 0 by (intro hash_chain_nonempty) (auto intro: nth_mem)
    with eq \<open>j \<noteq> 0\<close> assms(2) show False by auto
  qed
  ultimately show ?case using 0 by (simp add: take_Suc_conv_app_nth)
next
  case (Suc i)
  have eq: "xs ! Suc i = ys ! j" "hash_chain h p xs ! i = (if j = 0 then p else hash_chain h p ys ! (j - 1))"
    using Suc.prems hash_chain_nth [of "Suc i" xs h p] hash_chain_nth [of j ys h p] assms(1)
    by (auto dest: injD)
  have "hash_chain h p xs ! i \<in> range h"
    using Suc.prems by (intro hash_chain_nonempty) (auto intro: nth_mem)
  with eq assms(2) obtain j' where j': "j = Suc j'" by (cases j) auto
  with eq Suc.prems have "i = j' \<and> take (Suc i) xs = take (Suc j') ys" by (intro Suc.IH) simp_all
  with eq j' Suc.prems show ?case
    by (auto simp: take_Suc_conv_app_nth [of "Suc j'"])
qed

lemma concat_request_blocks:
  assumes "0 < bs"
  shows "concat (map fst (request_blocks sha256 bs r n)) = take (n * nat bs) (all_token_ids r)"
proof (induction n)
  case (Suc n)
  have "take (nat (int n * bs)) (all_token_ids r) @ py_slice (int n * bs) (int (Suc n) * bs) (all_token_ids r)
        = take (nat (int (Suc n) * bs)) (all_token_ids r)"
    using assms by (intro take_append_py_slice) simp_all
  with Suc assms show ?case
    by (simp add: request_blocks_def nat_mult_distrib del: of_nat_Suc)
qed (simp add: request_blocks_def)

section \<open>Group ids, block sizes and coarser hashes\<close>

lemma from_bytes_to_bytes4:
  assumes "to_bytes4 n = Inr bs"
  shows "length bs = 4 \<and> from_bytes bs = n"
proof -
  from assms have n: "0 \<le> n" "n < 2 ^ 32"
    and bs: "bs = [word_of_int (n div 2 ^ 24), word_of_int (n div 2 ^ 16), word_of_int (n div 2 ^ 8),
                word_of_int n]"
    by (auto simp: to_bytes4_def split: if_splits)
  have "from_bytes bs = ((n div 2 ^ 24 mod 256 * 256 + n div 2 ^ 16 mod 256) * 256
          + n div 2 ^ 8 mod 256) * 256 + n mod 256"
    by (simp add: bs from_bytes_def unsigned_of_int take_bit_eq_mod)
  also have "n div 2 ^ 24 mod 256 = n div 2 ^ 24"
    using n by (intro mod_pos_pos_trivial) auto
  also have "n div 2 ^ 24 = n div 2 ^ 16 div 256" by (simp add: zdiv_zmult2_eq [symmetric])
  also have "n div 2 ^ 16 div 256 * 256 + n div 2 ^ 16 mod 256 = n div 2 ^ 16" by (rule div_mult_mod_eq)
  also have "n div 2 ^ 16 = n div 2 ^ 8 div 256" by (simp add: zdiv_zmult2_eq [symmetric])
  also have "n div 2 ^ 8 div 256 * 256 + n div 2 ^ 8 mod 256 = n div 2 ^ 8" by (rule div_mult_mod_eq)
  also have "n div 2 ^ 8 * 256 + n mod 256 = n" by simp
  finally show ?thesis by (simp add: bs)
qed

lemma fold_lcm_dvd:
  fixes xs :: "int list"
  shows "a dvd fold lcm xs a" and "x \<in> set xs \<Longrightarrow> x dvd fold lcm xs a"
proof (induction xs arbitrary: a)
  case (Cons y ys)
  { case 1 show ?case using Cons(1) [of "lcm y a"] by (auto intro: dvd_trans) }
  { case 2 then show ?case using Cons(1) [of "lcm y a"] Cons(2) [of "lcm y a"] by (auto intro: dvd_trans) }
qed simp_all

lemma math_lcm_dvd: "x \<in> set xs \<Longrightarrow> x dvd math_lcm xs"
  by (simp add: math_lcm_def fold_lcm_dvd)

lemma block_hash_list_init_scale:
  assumes "block_hash_list_init hs hb t = Inr l" and "0 < hb" and "0 < t"
  shows "bhl_hashes l = hs \<and> 0 < scale_factor l \<and> t = scale_factor l * hb"
proof -
  from assms have l: "l = \<lparr>bhl_hashes = hs, scale_factor = t div hb\<rparr>" and "t mod hb = 0"
    by (auto simp: block_hash_list_init_def res_bind_Inr_iff res_guard_Inr_iff split: if_splits)
  then have t: "t = t div hb * hb" by (metis add.right_neutral div_mult_mod_eq)
  then have "0 < t div hb" using assms(2,3) by (metis zero_less_mult_pos2)
  with l t show ?thesis by simp
qed

lemma request_chain_take:
  "k \<le> n \<Longrightarrow> take k (request_chain h p sha256 bs r n) = request_chain h p sha256 bs r k"
  by (subst request_chain_drop [of k n]) simp_all

lemma request_chain_nth:
  assumes "k < n"
  shows "request_chain h p sha256 bs r n ! k = last (request_chain h p sha256 bs r (Suc k))"
proof -
  have "request_chain h p sha256 bs r (Suc k) = take (Suc k) (request_chain h p sha256 bs r n)"
    using assms by (simp add: request_chain_take)
  then show ?thesis using assms by (simp add: take_Suc_conv_app_nth)
qed

section \<open>Concrete requests\<close>

lemmas hasher_eval =
  request_block_hasher_def num_tokens_def hasher_loop.simps Let_def
  generate_block_hash_extra_keys_def gen_mm_extra_hash_keys_def gen_lora_extra_hash_keys_def
  salt_keys_def gen_prompt_embeds_extra_hash_keys_def hash_block_tokens_def py_slice_def py_bound_def

definition image_request :: request where
  "image_request = \<lparr>request_id = ''r1'', object_id = 9, priority = 0, arrival_time = 0,
     status = WAITING, req_stop_reason = None, req_sampling_params = Some sample_params,
     req_pooling_params = None, req_lora = None, max_tokens = 100,
     prompt_token_ids = Some [11, 12, 13, 5, 8], prompt_embeds = None, embeds_hash_memo = [],
     num_prompt_tokens = 5, output_token_ids = [], all_token_ids = [11, 12, 13, 5, 8],
     spec_token_ids = [], num_computed_tokens = 0, cache_salt = None,
     mm_features = [\<lparr>mm_identifier = ''a'', mm_position =
       \<lparr>pr_offset = 1, pr_length = 2, is_embed = None\<rparr>\<rparr>],
     block_hashes = [[1]], skip_reading_prefix_cache = False\<rparr>"

instance extra_key :: countable
  by countable_datatype

definition unary_hash :: "hash_input \<Rightarrow> bytes" where
  "unary_hash x = replicate (Suc (to_nat x)) 0"

lemma unary_hash_inj: "inj unary_hash"
  by (rule injI) (auto simp: unary_hash_def dest: arg_cong [of _ _ length])

lemma unary_hash_props: "[1] \<notin> range unary_hash" "unary_hash x \<noteq> []"
  by (auto simp: unary_hash_def)

definition short_request :: "int list \<Rightarrow> request" where
  "short_request ts = sample_request\<lparr>all_token_ids := ts\<rparr>"

definition image_at :: "string \<Rightarrow> int \<Rightarrow> mm_feature" where
  "image_at name offset =
     \<lparr>mm_identifier = name, mm_position = \<lparr>pr_offset = offset, pr_length = 1, is_embed = None\<rparr>\<rparr>"

definition two_image_request :: "bytes list \<Rightarrow> string \<Rightarrow> request" where
  "two_image_request hs name = sample_request\<lparr>all_token_ids := [1, 2, 3, 4, 0, 0, 5], output_token_ids := [],
     mm_features := [image_at name 4, image_at ''b'' 5], block_hashes := hs\<rparr>"

section \<open>Properties\<close>

text \<open>C33: over the whole life of a request, from its creation and through any sequence of appended
  output chunks, \<^verbatim>\<open>update_block_hashes\<close> never raises or diverges and the stored hashes are exactly
  the chain of the full blocks, each with the keys of every input in it, provided that at most the
  last multimodal input of the prompt reaches into the prompt's unfilled last block.\<close>

theorem request_hashes_are_chain:
  assumes "0 < bs" and "\<forall>x. h x \<noteq> []" and "hasher = Some (request_block_hasher h none_hash sha256 bs)"
    and "request_init hasher rid obj ids embeds sp pp arrival feats lora salt prio = Some (Inr r)"
    and "mm_sorted feats"
    and "\<forall>f\<in>set (butlast feats). mm_end f \<le> num_prompt_tokens r div bs * bs"
  shows "\<exists>r'. append_chunks hasher r cs = Some (Inr r')
           \<and> all_token_ids r' = all_token_ids r @ concat cs
           \<and> block_hashes r' = request_chain h none_hash sha256 bs r' (nat (num_tokens r' div bs))"
proof -
  have h: "\<And>x. h x \<noteq> []" using assms(2) by blast
  have "request_inv h none_hash sha256 bs r"
    using request_init_inv [where h = h, OF assms(1) h] assms(3-6) by blast
  from append_chunks_inv [where h = h, OF assms(1) h this] assms(3) show ?thesis
    by (fastforce simp: request_inv_def hashes_ok_def)
qed

theorem request_hashes_are_chain_witness:
  "\<exists>r'. append_chunks (Some (request_block_hasher (\<lambda>_. [1]) [0] id 4)) image_request [[6, 7], [8]] = Some (Inr r')
      \<and> block_hashes r' = request_chain (\<lambda>_. [1]) [0] id 4 r' (nat (num_tokens r' div 4))
      \<and> num_tokens r' = 8"
proof -
  let ?hasher = "Some (request_block_hasher (\<lambda>_. [1]) [0] id 4)"
  have init: "request_init ?hasher ''r1'' 9 (Some [11, 12, 13, 5, 8]) None (Some sample_params) None 0
      (mm_features image_request) None None 0 = Some (Inr image_request)"
    by (simp add: request_init_def update_block_hashes_def hasher_eval length_from_prompt_def
        sample_params_def has_structured_output_request_def get_skip_reading_prefix_cache_def
        image_request_def)
  have "mm_sorted (mm_features image_request)"
    by (simp add: image_request_def mm_sorted_def)
  moreover have "\<forall>f\<in>set (butlast (mm_features image_request)). mm_end f \<le> num_prompt_tokens image_request div 4 * 4"
    by (simp add: image_request_def)
  ultimately obtain r' where "append_chunks ?hasher image_request [[6, 7], [8]] = Some (Inr r')"
    "all_token_ids r' = all_token_ids image_request @ concat [[6, 7], [8]]"
    "block_hashes r' = request_chain (\<lambda>_. [1]) [0] id 4 r' (nat (num_tokens r' div 4))"
    using request_hashes_are_chain [OF _ _ refl init] by fastforce
  then show ?thesis by (intro exI [of _ r']) (simp add: num_tokens_def image_request_def)
qed

text \<open>C32: take two new requests (no block hashes yet, nothing memoised, multimodal inputs sorted by
  position). For a collision-free hash function whose range avoids the seed, two of their block hashes
  are equal only at the same block index and only if the token prefixes that end there and
  the extra keys of every block up to there agree: a hash identifies the whole prefix.\<close>

theorem block_hash_identifies_prefix:
  assumes "0 < bs" and "inj h" and "none_hash \<notin> range h" and "\<forall>x. h x \<noteq> []"
    and "mm_sorted (mm_features r1)" and "mm_sorted (mm_features r2)"
    and "block_hashes r1 = []" and "block_hashes r2 = []"
    and "embeds_hash_memo r1 = []" and "embeds_hash_memo r2 = []"
    and "request_block_hasher h none_hash sha256 bs r1 = Some (Inr (hs1, q1))"
    and "request_block_hasher h none_hash sha256 bs r2 = Some (Inr (hs2, q2))"
    and "i < length hs1" and "j < length hs2" and "hs1 ! i = hs2 ! j"
  shows "i = j \<and> take (Suc i * nat bs) (all_token_ids r1) = take (Suc i * nat bs) (all_token_ids r2)
         \<and> (\<forall>k\<le>i. block_keys sha256 r1 (int k * bs) (int (Suc k) * bs) =
                   block_keys sha256 r2 (int k * bs) (int (Suc k) * bs))"
proof -
  have h: "\<And>x. h x \<noteq> []" using assms(4) by blast
  have fresh: "hashes_ok h none_hash sha256 bs q" "resume_ok bs q"
    if "block_hashes q = []" "embeds_hash_memo q = []" "mm_sorted (mm_features q)" for q
    using that by (simp_all add: hashes_ok_def resume_ok_def memo_ok_def num_tokens_def
        request_chain_def request_blocks_def)
  let ?n1 = "nat (num_tokens r1 div bs)" and ?n2 = "nat (num_tokens r2 div bs)"
  have hs: "hs1 = request_chain h none_hash sha256 bs r1 ?n1" "hs2 = request_chain h none_hash sha256 bs r2 ?n2"
    using request_block_hasher_eq [where h = h, OF assms(1) h fresh(2,1), of r1]
      request_block_hasher_eq [where h = h, OF assms(1) h fresh(2,1), of r2] assms(5-12) by auto
  have len: "i < ?n1" "j < ?n2" using assms(13,14) by (simp_all add: hs)
  have eq: "i = j \<and> take (Suc i) (request_blocks sha256 bs r1 ?n1) = take (Suc j) (request_blocks sha256 bs r2 ?n2)"
    using len assms(15) by (intro hash_chain_collision [OF assms(2,3)]) (simp_all add: hs request_chain_def)
  have take: "take m (request_blocks sha256 bs r n) = request_blocks sha256 bs r m" if "m \<le> n" for r m n
    using that by (simp add: request_blocks_def take_map)
  have blocks: "request_blocks sha256 bs r1 (Suc i) = request_blocks sha256 bs r2 (Suc i)"
    using eq len take [of "Suc i" ?n1 r1] take [of "Suc i" ?n2 r2] by auto
  have "block_keys sha256 r1 (int k * bs) (int (Suc k) * bs) =
        block_keys sha256 r2 (int k * bs) (int (Suc k) * bs)" if "k \<le> i" for k
    using blocks that by (simp add: request_blocks_def del: upt_Suc)
  moreover have "take (Suc i * nat bs) (all_token_ids r1) = take (Suc i * nat bs) (all_token_ids r2)"
    using concat_request_blocks [OF assms(1), of sha256 r1 "Suc i"]
      concat_request_blocks [OF assms(1), of sha256 r2 "Suc i"] blocks by metis
  ultimately show ?thesis using eq by blast
qed

theorem block_hash_identifies_prefix_witness:
  "\<exists>hs1 hs2. request_block_hasher unary_hash [1] id 2 (short_request [1, 2, 3]) = Some (Inr (hs1, short_request [1, 2, 3]))
     \<and> request_block_hasher unary_hash [1] id 2 (short_request [1, 2, 4]) = Some (Inr (hs2, short_request [1, 2, 4]))
     \<and> length hs1 = 1 \<and> length hs2 = 1 \<and> hs1 ! 0 = hs2 ! 0
     \<and> take 2 (all_token_ids (short_request [1, 2, 3])) = take 2 (all_token_ids (short_request [1, 2, 4]))"
proof -
  have ev: "request_block_hasher unary_hash [1] id 2 (short_request [1, 2, x]) =
      Some (Inr ([unary_hash ([1], [1, 2], None)], short_request [1, 2, x]))" for x
    by (simp add: short_request_def sample_request_def hasher_eval)
  have "mm_features (short_request ts) = []" "block_hashes (short_request ts) = []"
    "embeds_hash_memo (short_request ts) = []" for ts
    by (simp_all add: short_request_def sample_request_def)
  then have "take 2 (all_token_ids (short_request [1, 2, 3])) = take 2 (all_token_ids (short_request [1, 2, 4]))"
    using block_hash_identifies_prefix [OF _ unary_hash_inj unary_hash_props(1) _ _ _ _ _ _ _ ev ev,
        of 3 4 0 0] unary_hash_props(2)
    by (simp add: mm_sorted_def)
  then show ?thesis using ev [of 3] ev [of 4] by simp
qed

text \<open>C40: packing a block hash with a group id and unpacking it gives both back; packing fails exactly
  for a group id that does not fit in four bytes.\<close>

theorem block_hash_group_id_roundtrip:
  "case make_block_hash_with_group_id bh g of
     Inr key \<Rightarrow> 0 \<le> g \<and> g < 2 ^ 32 \<and> get_block_hash key = bh \<and> get_group_id key = g
   | Inl e \<Rightarrow> e = OverflowError \<and> \<not> (0 \<le> g \<and> g < 2 ^ 32)"
proof (cases "0 \<le> g \<and> g < 2 ^ 32")
  case True
  then obtain bs where bs: "to_bytes4 g = Inr bs" by (simp add: to_bytes4_def)
  then show ?thesis
    using from_bytes_to_bytes4 [OF bs] True
    by (simp add: make_block_hash_with_group_id_def get_block_hash_def get_group_id_def py_slice_def
        py_bound_def Let_def)
next
  case False
  then have "to_bytes4 g = Inl OverflowError" by (simp only: to_bytes4_def if_False)
  with False show ?thesis
    by (simp only: make_block_hash_with_group_id_def res_bind_simps sum.case simp_thms)
qed

text \<open>when block sizes are resolved for several groups of positive block size, every group size
  divides the scheduler block size, the hash block size divides the scheduler block size, and when
  hashes are in use at every group's own granularity it divides every group size.\<close>

theorem resolve_block_sizes_divides:
  assumes "resolve_kv_cache_block_sizes groups cfg = Inr (sched, hash_bs)" and "1 < length groups"
  shows "(\<forall>g\<in>set groups. grp_block_size g dvd sched) \<and> hash_bs dvd sched \<and>
    ((enable_prefix_caching cfg \<or> connector_enabled cfg) \<and>
     (\<forall>g\<in>set groups. grp_is_mamba g \<longrightarrow> grp_block_size g = cfg_block_size cfg) \<longrightarrow>
       (\<forall>g\<in>set groups. hash_bs dvd grp_block_size g))"
proof -
  have sched: "sched = math_lcm (map grp_block_size groups)"
    using assms by (auto simp: resolve_kv_cache_block_sizes_def Let_def split: if_splits)
  have groups: "\<forall>g\<in>set groups. grp_block_size g dvd sched"
    unfolding sched by (auto intro: math_lcm_dvd)
  have "hash_bs = sched \<or> (\<forall>g\<in>set groups. hash_bs dvd grp_block_size g)"
    using assms by (auto simp: resolve_kv_cache_block_sizes_def Let_def dvd_eq_mod_eq_0 split: if_splits)
  moreover obtain g where "g \<in> set groups" using assms(2) by (cases groups) auto
  ultimately have "hash_bs dvd sched" using groups by (metis dvd_refl dvd_trans)
  with groups show ?thesis
    using assms by (auto simp: resolve_kv_cache_block_sizes_def Let_def dvd_eq_mod_eq_0 split: if_splits)
qed

theorem resolve_block_sizes_divides_witness:
  "resolve_kv_cache_block_sizes
     [\<lparr>grp_block_size = 16, grp_is_mamba = False\<rparr>, \<lparr>grp_block_size = 24, grp_is_mamba = False\<rparr>]
     \<lparr>cfg_block_size = 16, cfg_hash_block_size = None, enable_prefix_caching = True,
      connector_enabled = False, dcp_world_size = 1, pcp_world_size = 1\<rparr> = Inr (48, 8) \<and>
   (8::int) dvd 48"
proof -
  let ?g = "[\<lparr>grp_block_size = 16, grp_is_mamba = False\<rparr>, \<lparr>grp_block_size = 24, grp_is_mamba = False\<rparr>]"
  let ?c = "\<lparr>cfg_block_size = 16, cfg_hash_block_size = None, enable_prefix_caching = True,
      connector_enabled = False, dcp_world_size = 1, pcp_world_size = 1\<rparr>"
  have "resolve_kv_cache_block_sizes ?g ?c = Inr (48, 8)"
    by code_simp
  then show ?thesis using resolve_block_sizes_divides [of ?g ?c 48 8] by simp
qed

text \<open>C34: the coarse view of a request's hashes has one entry per full coarse block, entry \<open>i\<close> is the
  chained hash that covers exactly the first \<open>(i + 1)\<close> coarse blocks, and an index past the last full
  coarse block raises.\<close>

theorem coarse_hash_covers_prefix:
  assumes "0 < hb" and "0 < t" and "0 \<le> idx"
    and "block_hash_list_init (request_chain h none_hash sha256 hb r n) hb t = Inr l"
  shows "block_hash_list_len l = Inr (int n * hb div t) \<and>
    get_value_at l idx =
      (if (idx + 1) * t \<le> int n * hb
       then Inr (last (request_chain h none_hash sha256 hb r (nat ((idx + 1) * t div hb))))
       else Inl IndexError)"
proof -
  define s where "s = scale_factor l"
  have l: "bhl_hashes l = request_chain h none_hash sha256 hb r n" "0 < s" "t = s * hb"
    using block_hash_list_init_scale [OF assms(4,1,2)] by (auto simp: s_def)
  have len: "block_hash_list_len l = Inr (int n * hb div t)"
    using l assms(1) by (simp add: block_hash_list_len_def s_def)
  define j where "j = (idx + 1) * s"
  have j: "0 < j" "(idx + 1) * t = j * hb" using l(2,3) assms(3) by (simp_all add: j_def)
  have val: "get_value_at l idx = py_index (request_chain h none_hash sha256 hb r n) (j - 1)"
    using l by (simp add: get_value_at_def j_def s_def)
  show ?thesis
  proof (cases "j \<le> int n")
    case True
    then have "nat (j - 1) < n" "Suc (nat (j - 1)) = nat j" using j(1) by linarith+
    then show ?thesis
      using True j assms(1) len val
      by (simp add: py_index_def Let_def request_chain_nth)
  next
    case False
    then show ?thesis using j assms(1) len val by (simp add: py_index_def Let_def)
  qed
qed

theorem coarse_hash_covers_prefix_witness:
  "get_value_at \<lparr>bhl_hashes = request_chain (\<lambda>_. [1]) [0] id 2 sample_request 4, scale_factor = 2\<rparr> 1
     = Inr (last (request_chain (\<lambda>_. [1]) [0] id 2 sample_request 4))"
  using coarse_hash_covers_prefix [of 2 4 1 "\<lambda>_. [1]" "[0]" id sample_request 4
      "\<lparr>bhl_hashes = request_chain (\<lambda>_. [1]) [0] id 2 sample_request 4, scale_factor = 2\<rparr>"]
  by (simp add: block_hash_list_init_def)

text \<open>Resuming at the last input drops the earlier inputs of an unfilled block. Two requests whose
  first images differ, both images lying in the prompt's unfilled last block, get the same block
  hashes once a generated token fills it, whatever the hash function, although the keys of that block
  differ.\<close>

lemma resumed_hash_ignores_earlier_image:
  "\<exists>ra rb. append_output_token_ids (Some (request_block_hasher h none_hash sha256 4))
             (two_image_request [h (none_hash, [1, 2, 3, 4], None)] ''a'') [6] = Some (Inr ra)
         \<and> append_output_token_ids (Some (request_block_hasher h none_hash sha256 4))
             (two_image_request [h (none_hash, [1, 2, 3, 4], None)] ''c'') [6] = Some (Inr rb)
         \<and> length (block_hashes ra) = 2 \<and> block_hashes ra = block_hashes rb
         \<and> block_keys sha256 ra 4 8 \<noteq> block_keys sha256 rb 4 8
         \<and> request_block_hasher h none_hash sha256 4 (two_image_request [] ''a'') =
             Some (Inr ([h (none_hash, [1, 2, 3, 4], None)], two_image_request [] ''a''))
         \<and> request_block_hasher h none_hash sha256 4 (two_image_request [] ''c'') =
             Some (Inr ([h (none_hash, [1, 2, 3, 4], None)], two_image_request [] ''c''))"
  by (simp add: append_output_token_ids_def update_block_hashes_def request_block_hasher_def
      two_image_request_def sample_request_def num_tokens_def hasher_loop.simps Let_def
      generate_block_hash_extra_keys_def gen_mm_extra_hash_keys_def image_at_def
      gen_lora_extra_hash_keys_def salt_keys_def gen_prompt_embeds_extra_hash_keys_def
      hash_block_tokens_def py_slice_def py_bound_def block_keys_def mm_block_keys_def embeds_block_keys_def)

end
