(* ===== verification/HashIndex.thy ===== *)
theory HashIndex
  imports FreeBlockQueue BlockHashing
begin

text \<open>
  \<^verbatim>\<open>BlockHashToBlockMap\<close> of \<^verbatim>\<open>vllm/v1/core/block_pool.py\<close>: the map from hash keys to cached blocks,
  whose entries are one block or a dictionary of blocks, and the interface the pool uses it through:
  an index from keys to sets of blocks.
\<close>

section \<open>The map from hash keys to blocks\<close>

datatype cached_blocks = OneBlock block_ref | ManyBlocks "(int, block_ref) dict"

type_synonym block_map = "(bytes, cached_blocks) dict"

definition get_one_block :: "block_map \<Rightarrow> bytes \<Rightarrow> block_ref option result" where
  "get_one_block m key =
     (case dict_get m key of
        None \<Rightarrow> Inr None
      | Some (OneBlock b) \<Rightarrow> Inr (Some b)
      | Some (ManyBlocks d) \<Rightarrow> (case d of [] \<Rightarrow> Inl StopIteration | (_, b) # _ \<Rightarrow> Inr (Some b)))"

definition contain :: "block_map \<Rightarrow> bytes \<Rightarrow> int \<Rightarrow> bool" where
  "contain m key bid =
     (case dict_get m key of
        None \<Rightarrow> False
      | Some (OneBlock b) \<Rightarrow> block_id b = bid
      | Some (ManyBlocks d) \<Rightarrow> dict_get d bid \<noteq> None)"

definition map_insert :: "bytes \<Rightarrow> block_ref \<Rightarrow> block_map \<Rightarrow> block_map" where
  "map_insert key b m =
     (case dict_get m key of
        None \<Rightarrow> dict_set key (OneBlock b) m
      | Some (OneBlock b') \<Rightarrow>
          dict_set key (ManyBlocks (dict_set (block_id b) b (dict_set (block_id b') b' []))) m
      | Some (ManyBlocks d) \<Rightarrow> dict_set key (ManyBlocks (dict_set (block_id b) b d)) m)"

definition map_pop :: "bytes \<Rightarrow> int \<Rightarrow> block_map \<Rightarrow> block_ref option \<times> block_map" where
  "map_pop key bid m =
     (let m' = dict_pop key m in
      case dict_get m key of
        None \<Rightarrow> (None, m')
      | Some (OneBlock b) \<Rightarrow>
          if block_id b = bid then (Some b, m') else (None, dict_set key (OneBlock b) m')
      | Some (ManyBlocks d) \<Rightarrow>
          let d' = dict_pop bid d
          in (dict_get d bid, if length d' > 0 then dict_set key (ManyBlocks d') m' else m'))"

section \<open>The interface of the hash index\<close>

text \<open>
  What the pool relies on: an index from keys to sets of blocks, where a block is recognised by its
  id. \<open>entries m k\<close> is the set of blocks under \<open>k\<close>.
\<close>

locale hash_index =
  fixes ok :: "'m \<Rightarrow> bool"
    and entries :: "'m \<Rightarrow> 'k \<Rightarrow> 'b set"
    and ident :: "'b \<Rightarrow> int"
    and usable :: "'b \<Rightarrow> bool"
    and empty :: 'm
    and one :: "'m \<Rightarrow> 'k \<Rightarrow> 'b option result"
    and has :: "'m \<Rightarrow> 'k \<Rightarrow> int \<Rightarrow> bool"
    and ins :: "'k \<Rightarrow> 'b \<Rightarrow> 'm \<Rightarrow> 'm"
    and del :: "'k \<Rightarrow> int \<Rightarrow> 'm \<Rightarrow> 'b option \<times> 'm"
  assumes ident_inj: "usable a \<Longrightarrow> usable b \<Longrightarrow> ident a = ident b \<Longrightarrow> a = b"
    and entries_usable: "ok m \<Longrightarrow> b \<in> entries m k \<Longrightarrow> usable b"
    and ok_empty: "ok empty"
    and entries_empty: "entries empty k = {}"
    and one_hit: "ok m \<Longrightarrow> one m k = Inr (Some b) \<Longrightarrow> b \<in> entries m k"
    and one_total: "ok m \<Longrightarrow> (entries m k = {} \<and> one m k = Inr None) \<or> (\<exists>b. one m k = Inr (Some b))"
    and has_entry: "ok m \<Longrightarrow> usable b \<Longrightarrow> has m k (ident b) \<longleftrightarrow> b \<in> entries m k"
    and ok_ins: "ok m \<Longrightarrow> usable b \<Longrightarrow> ok (ins k b m)"
    and entries_ins: "ok m \<Longrightarrow> usable b \<Longrightarrow>
      entries (ins k b m) k' = (if k' = k then insert b (entries m k) else entries m k')"
    and ok_del: "ok m \<Longrightarrow> usable b \<Longrightarrow> ok (snd (del k (ident b) m))"
    and entries_del: "ok m \<Longrightarrow> usable b \<Longrightarrow>
      entries (snd (del k (ident b) m)) k' = (if k' = k then entries m k - {b} else entries m k')"
    and del_found: "ok m \<Longrightarrow> usable b \<Longrightarrow> fst (del k (ident b) m) \<noteq> None \<longleftrightarrow> b \<in> entries m k"
begin

text \<open>Deleting a list of keys of one block: what is found and what is left.\<close>

primrec del_all :: "'k list \<Rightarrow> int \<Rightarrow> 'm \<Rightarrow> 'k list \<times> 'm" where
  "del_all [] i m = ([], m)"
| "del_all (k # ks) i m =
     (let (found, m') = del k i m; (gone, m'') = del_all ks i m'
      in (if found \<noteq> None then k # gone else gone, m''))"

lemma del_all_spec:
  assumes "usable b"
  shows "ok m \<Longrightarrow>
    ok (snd (del_all ks (ident b) m)) \<and>
    (\<forall>k. entries (snd (del_all ks (ident b) m)) k = (if k \<in> set ks then entries m k - {b} else entries m k)) \<and>
    set (fst (del_all ks (ident b) m)) = {k \<in> set ks. b \<in> entries m k}"
proof (induction ks arbitrary: m)
  case (Cons k ks)
  let ?m = "snd (del k (ident b) m)"
  have m: "ok ?m" using ok_del [OF Cons.prems assms] .
  note IH = Cons.IH [OF m]
  have split: "del_all (k # ks) (ident b) m =
      (if fst (del k (ident b) m) \<noteq> None then k # fst (del_all ks (ident b) ?m) else fst (del_all ks (ident b) ?m),
       snd (del_all ks (ident b) ?m))"
    by (simp add: Let_def case_prod_beta)
  show ?case
    unfolding split using IH entries_del [OF Cons.prems assms, of k] del_found [OF Cons.prems assms, of k]
    by auto
qed simp

lemma hit_iff: "ok m \<Longrightarrow> (\<exists>b. one m k = Inr (Some b)) \<longleftrightarrow> entries m k \<noteq> {}"
  using one_total [of m k] one_hit [of m k] by fastforce

end

fun entry_blocks :: "cached_blocks \<Rightarrow> block_ref set" where
  "entry_blocks (OneBlock b) = {b}"
| "entry_blocks (ManyBlocks d) = snd ` set d"

fun entry_ok :: "cached_blocks \<Rightarrow> bool" where
  "entry_ok (OneBlock b) \<longleftrightarrow> real_block b"
| "entry_ok (ManyBlocks d) \<longleftrightarrow> d \<noteq> [] \<and> dict_ok d \<and> (\<forall>(i, b)\<in>set d. i = block_id b \<and> real_block b)"

definition map_blocks :: "block_map \<Rightarrow> bytes \<Rightarrow> block_ref set" where
  "map_blocks m key = (case dict_get m key of None \<Rightarrow> {} | Some e \<Rightarrow> entry_blocks e)"

definition map_ok :: "block_map \<Rightarrow> bool" where
  "map_ok m \<longleftrightarrow> (\<forall>key e. dict_get m key = Some e \<longrightarrow> entry_ok e)"

lemma block_id_inj: "real_block a \<Longrightarrow> real_block b \<Longrightarrow> block_id a = block_id b \<Longrightarrow> a = b"
  by (cases a; cases b) simp_all

lemma map_okD: "map_ok m \<Longrightarrow> dict_get m key = Some e \<Longrightarrow> entry_ok e"
  by (simp add: map_ok_def)

lemma many_get:
  assumes "entry_ok (ManyBlocks d)" and "real_block b"
  shows "dict_get d (block_id b) = (if b \<in> snd ` set d then Some b else None)"
proof (cases "b \<in> snd ` set d")
  case True
  then obtain i where "(i, b) \<in> set d" by auto
  with assms True show ?thesis by (auto simp: map_of_eq_Some_iff)
next
  case False
  then have "dict_get d (block_id b) = None"
    using assms by (force simp: map_of_eq_None_iff dest: block_id_inj)
  with False show ?thesis by simp
qed

lemma many_set:
  assumes "entry_ok (ManyBlocks d)" and "real_block b"
  shows "entry_ok (ManyBlocks (dict_set (block_id b) b d)) \<and>
         snd ` set (dict_set (block_id b) b d) = insert b (snd ` set d)"
proof -
  let ?d = "dict_set (block_id b) b d"
  have dist: "dict_ok ?d" using assms by (simp add: distinct_update)
  have mem: "(i, c) \<in> set ?d \<longleftrightarrow> (if i = block_id b then c = b else (i, c) \<in> set d)" for i c
  proof -
    have "dict_ok d" using assms(1) by simp
    then show ?thesis
      using map_of_eq_Some_iff [OF dist, of i c] map_of_eq_Some_iff [of d i c] by auto
  qed
  have "?d \<noteq> []" using mem [of "block_id b" b] by auto
  moreover have "snd ` set ?d = insert b (snd ` set d)"
  proof (intro set_eqI iffI)
    fix c assume "c \<in> snd ` set ?d"
    then show "c \<in> insert b (snd ` set d)" using mem by (fastforce split: if_splits)
  next
    fix c assume c: "c \<in> insert b (snd ` set d)"
    show "c \<in> snd ` set ?d"
    proof (cases "c = b")
      case True
      then show ?thesis using mem [of "block_id b" b] by force
    next
      case False
      with c obtain i where i: "(i, c) \<in> set d" by auto
      with assms False have "i \<noteq> block_id b" by (auto dest: block_id_inj)
      with i mem [of i c] show ?thesis by force
    qed
  qed
  ultimately show ?thesis using dist mem assms by (auto split: if_splits)
qed

lemma many_pop:
  assumes "entry_ok (ManyBlocks d)" and "real_block b"
  shows "snd ` set (dict_pop (block_id b) d) = snd ` set d - {b} \<and>
         (dict_pop (block_id b) d \<noteq> [] \<longrightarrow> entry_ok (ManyBlocks (dict_pop (block_id b) d)))"
proof -
  have "set (dict_pop (block_id b) d) = {(i, c) \<in> set d. i \<noteq> block_id b}"
    by (auto simp: AList.delete_eq)
  moreover have "i \<noteq> block_id b \<longleftrightarrow> c \<noteq> b" if "(i, c) \<in> set d" for i c
    using assms that by (auto dest: block_id_inj)
  ultimately have *: "set (dict_pop (block_id b) d) = {(i, c) \<in> set d. c \<noteq> b}" by auto
  then show ?thesis using assms by (auto simp: image_iff distinct_delete)
qed

lemma map_cases:
  assumes "map_ok m"
  obtains (none) "dict_get m k = None"
  | (one) c where "dict_get m k = Some (OneBlock c)" "real_block c"
  | (many) d where "dict_get m k = Some (ManyBlocks d)" "entry_ok (ManyBlocks d)"
  using map_okD [OF assms, of k] by (metis cached_blocks.exhaust entry_ok.simps(1) not_Some_eq)

lemma many_nonempty: "entry_ok (ManyBlocks d) \<Longrightarrow> \<exists>i b d'. d = (i, b) # d' \<and> b \<in> snd ` set d"
  by (cases d) auto

lemma pair_ok:
  "real_block b \<Longrightarrow> real_block c \<Longrightarrow>
   entry_ok (ManyBlocks (dict_set (block_id b) b (dict_set (block_id c) c []))) \<and>
   snd ` set (dict_set (block_id b) b (dict_set (block_id c) c [])) = {b, c}"
  using block_id_inj [of b c] by auto

lemma get_one_block_spec:
  assumes "map_ok m"
  shows "(map_blocks m k = {} \<and> get_one_block m k = Inr None)
       \<or> (\<exists>b. get_one_block m k = Inr (Some b) \<and> b \<in> map_blocks m k)"
  using assms
proof (cases rule: map_cases [of m k])
  case (many d)
  with many_nonempty [of d] show ?thesis by (auto simp: get_one_block_def map_blocks_def)
qed (simp_all add: get_one_block_def map_blocks_def)

lemma contain_spec:
  assumes "map_ok m" and "real_block b"
  shows "contain m k (block_id b) \<longleftrightarrow> b \<in> map_blocks m k"
  using assms(1)
proof (cases rule: map_cases [of m k])
  case (one c)
  with assms(2) show ?thesis by (auto simp: contain_def map_blocks_def dest: block_id_inj)
next
  case (many d)
  with many_get [OF many(2) assms(2)] show ?thesis by (simp add: contain_def map_blocks_def)
qed (simp add: contain_def map_blocks_def)

lemma map_insert_spec:
  assumes "map_ok m" and "real_block b"
  shows "\<exists>e. map_insert k b m = dict_set k e m \<and> entry_ok e \<and> entry_blocks e = insert b (map_blocks m k)"
  using assms(1)
proof (cases rule: map_cases [of m k])
  case none
  with assms(2) show ?thesis by (intro exI [of _ "OneBlock b"]) (simp add: map_insert_def map_blocks_def)
next
  case (one c)
  show ?thesis
    by (rule exI, simp only: map_insert_def one(1) option.case cached_blocks.case, rule conjI, rule refl)
      (use pair_ok [OF assms(2) one(2)] in \<open>simp add: map_blocks_def one(1) del: entry_ok.simps\<close>)
next
  case (many d)
  show ?thesis
    by (rule exI, simp only: map_insert_def many(1) option.case cached_blocks.case, rule conjI, rule refl)
      (use many_set [OF many(2) assms(2)] in \<open>simp add: map_blocks_def many(1) del: entry_ok.simps\<close>)
qed

lemma map_pop_spec:
  assumes "map_ok m" and "real_block b"
  shows "map_ok (snd (map_pop k (block_id b) m)) \<and>
    map_blocks (snd (map_pop k (block_id b) m)) k' = (if k' = k then map_blocks m k - {b} else map_blocks m k') \<and>
    (fst (map_pop k (block_id b) m) \<noteq> None \<longleftrightarrow> b \<in> map_blocks m k)"
  using assms(1)
proof (cases rule: map_cases [of m k])
  case none
  with assms show ?thesis by (auto simp: map_pop_def map_blocks_def map_ok_def)
next
  case (one c)
  show ?thesis
  proof (cases "b = c")
    case True
    with one assms show ?thesis by (auto simp: map_pop_def map_blocks_def map_ok_def)
  next
    case False
    then have "block_id c \<noteq> block_id b" using one assms(2) by (auto dest: block_id_inj)
    with False one assms show ?thesis by (auto simp: map_pop_def map_blocks_def map_ok_def)
  qed
next
  case (many d)
  note pop = many_pop [OF many(2) assms(2)] and get = many_get [OF many(2) assms(2)]
  show ?thesis
  proof (cases "dict_pop (block_id b) d = []")
    case True
    with many pop get assms(1) show ?thesis
      by (auto simp: map_pop_def map_blocks_def map_ok_def simp del: entry_ok.simps)
  next
    case False
    with many pop get assms(1) show ?thesis
      by (auto simp: map_pop_def map_blocks_def map_ok_def simp del: entry_ok.simps)
  qed
qed

interpretation hi: hash_index map_ok map_blocks block_id real_block "[]" get_one_block contain map_insert map_pop
proof unfold_locales
  show "real_block b" if "map_ok m" "b \<in> map_blocks m k" for m b k
    using that(1) by (cases rule: map_cases [of m k]) (use that(2) in \<open>auto simp: map_blocks_def\<close>)
  show "b \<in> map_blocks m k" if "map_ok m" "get_one_block m k = Inr (Some b)" for m b k
    using get_one_block_spec [OF that(1), of k] that(2) by auto
  show "(map_blocks m k = {} \<and> get_one_block m k = Inr None) \<or> (\<exists>b. get_one_block m k = Inr (Some b))"
    if "map_ok m" for m k
    using get_one_block_spec [OF that, of k] by blast
  show "map_ok (map_insert k b m)" if "map_ok m" "real_block b" for m b k
    using map_insert_spec [OF that, of k] that(1) by (auto simp: map_ok_def split: if_splits)
  show "map_blocks (map_insert k b m) k' = (if k' = k then insert b (map_blocks m k) else map_blocks m k')"
    if ok: "map_ok m" and real: "real_block b" for m b k k'
  proof -
    obtain e where "map_insert k b m = dict_set k e m" "entry_blocks e = insert b (map_blocks m k)"
      using map_insert_spec [OF ok real, of k] by blast
    then show ?thesis by (simp add: map_blocks_def [of "dict_set k e m"]) (simp add: map_blocks_def)
  qed
  show "a = b" if "real_block a" "real_block b" "block_id a = block_id b" for a b
    using that by (rule block_id_inj)
  show "map_ok []" "\<And>k. map_blocks [] k = {}" by (simp_all add: map_ok_def map_blocks_def)
qed (rule contain_spec map_pop_spec [THEN conjunct1] map_pop_spec [THEN conjunct2, THEN conjunct1]
       map_pop_spec [THEN conjunct2, THEN conjunct2]; assumption)+

end
