(* ===== verification/BlockPool.thy ===== *)
theory BlockPool
  imports HashIndex
begin

text \<open>
  The block pool (\<^verbatim>\<open>vllm/v1/core/block_pool.py\<close>): reference counts and hashes of blocks, the map from
  hash keys to cached blocks, allocation, eviction, reuse, freeing and reset, with the events they
  emit. Blocks are references into a store; the residency metrics collector, which only observes, is
  left out. A Python set is the list of its elements in insertion order.
\<close>

section \<open>The pool\<close>

record kv_block =
  ref_cnt :: int
  block_hash :: "bytes option"
  block_hash_num_tokens :: "int option"
  is_null :: bool

definition fresh_block :: kv_block where
  "fresh_block = \<lparr>ref_cnt = 0, block_hash = None, block_hash_num_tokens = None, is_null = False\<rparr>"

definition set_block_hash :: "bytes \<Rightarrow> int option \<Rightarrow> kv_block \<Rightarrow> kv_block result" where
  "set_block_hash h n b =
     res_bind (res_guard (block_hash b = None \<and> block_hash_num_tokens b = None) AssertionError) (\<lambda>_.
       Inr (b\<lparr>block_hash := Some h, block_hash_num_tokens := n\<rparr>))"

definition reset_hash :: "kv_block \<Rightarrow> kv_block" where
  "reset_hash b = b\<lparr>block_hash := None, block_hash_num_tokens := None\<rparr>"

datatype kv_event =
    BlockStored "external_hash list" "external_hash option" "int list" int "int option" "string option"
      "extra_key list option list option" int
  | BlockRemoved "external_hash list" int
  | AllBlocksCleared

record block_pool =
  num_gpu_blocks :: int
  enable_caching :: bool
  hash_block_size :: int
  use_int_block_hashes :: bool
  blocks :: "block_ref list"
  blk :: "block_ref \<Rightarrow> kv_block"
  free_block_queue :: free_queue
  cached_block_hash_to_block :: block_map
  cached_block_hashes_by_block :: "(int, bytes list) dict"
  null_block :: block_ref
  enable_kv_cache_events :: bool
  kv_event_queue :: "kv_event list"

definition upd_blk :: "block_ref \<Rightarrow> (kv_block \<Rightarrow> kv_block) \<Rightarrow> block_pool \<Rightarrow> block_pool" where
  "upd_blk b f p = p\<lparr>blk := (blk p)(b := f (blk p b))\<rparr>"

definition block_pool_init :: "int \<Rightarrow> bool \<Rightarrow> int \<Rightarrow> bool \<Rightarrow> bool \<Rightarrow> block_pool result" where
  "block_pool_init n caching hash_bs int_hashes events =
     res_bind (res_guard (n > 0) AssertionError) (\<lambda>_.
     let bs = map Block [0..<nat n]; q = free_queue_init bs in
     res_bind (popleft q) (\<lambda>(nb, q').
       Inr (upd_blk nb (\<lambda>b. b\<lparr>is_null := True\<rparr>)
         \<lparr>num_gpu_blocks = n, enable_caching = caching, hash_block_size = hash_bs,
          use_int_block_hashes = int_hashes, blocks = bs, blk = (\<lambda>_. fresh_block),
          free_block_queue = q', cached_block_hash_to_block = [], cached_block_hashes_by_block = [],
          null_block = nb, enable_kv_cache_events = events, kv_event_queue = []\<rparr>)))"

fun get_cached_block :: "block_pool \<Rightarrow> bytes \<Rightarrow> int list \<Rightarrow> block_ref list option result" where
  "get_cached_block p h [] = Inr (Some [])"
| "get_cached_block p h (g # gs) =
     res_bind (make_block_hash_with_group_id h g) (\<lambda>key.
     res_bind (get_one_block (cached_block_hash_to_block p) key) (\<lambda>found.
       case found of
         None \<Rightarrow> Inr None
       | Some b \<Rightarrow> res_bind (get_cached_block p h gs) (\<lambda>rest. Inr (map_option ((#) b) rest))))"

section \<open>Hashes of blocks\<close>

abbreviation convert :: "block_pool \<Rightarrow> bytes \<Rightarrow> external_hash" where
  "convert p \<equiv> maybe_convert_block_hash (use_int_block_hashes p)"

fun pop_hashes :: "bytes list \<Rightarrow> int \<Rightarrow> block_map \<Rightarrow> bytes list \<times> block_map" where
  "pop_hashes [] bid m = ([], m)"
| "pop_hashes (h # hs) bid m =
     (let (found, m') = map_pop h bid m; (removed, m'') = pop_hashes hs bid m'
      in (if found \<noteq> None then h # removed else removed, m''))"

definition aliases :: "block_pool \<Rightarrow> block_ref \<Rightarrow> bytes list" where
  "aliases p b =
     (case dict_get (cached_block_hashes_by_block p) (block_id b) of None \<Rightarrow> [] | Some hs \<Rightarrow> hs)"

definition remove_cached_block_hashes :: "block_ref \<Rightarrow> block_pool \<Rightarrow> bytes list \<times> block_pool" where
  "remove_cached_block_hashes b p =
     (let hs = (case block_hash (blk p b) of None \<Rightarrow> [] | Some h \<Rightarrow> [h]) @ aliases p b;
          p1 = p\<lparr>cached_block_hashes_by_block :=
                   dict_pop (block_id b) (cached_block_hashes_by_block p)\<rparr>
      in if hs = [] then ([], p1)
         else let (removed, m) = pop_hashes hs (block_id b) (cached_block_hash_to_block p)
              in (removed, upd_blk b reset_hash (p1\<lparr>cached_block_hash_to_block := m\<rparr>)))"

definition emit_event :: "kv_event \<Rightarrow> block_pool \<Rightarrow> block_pool" where
  "emit_event e p = p\<lparr>kv_event_queue := kv_event_queue p @ [e]\<rparr>"

definition emit_block_removed_events :: "bytes list \<Rightarrow> block_pool \<Rightarrow> block_pool" where
  "emit_block_removed_events hs p =
     (if \<not> enable_kv_cache_events p then p
      else fold (\<lambda>h q. emit_event (BlockRemoved [convert q (get_block_hash h)] (get_group_id h)) q) hs p)"

definition insert_block_hash :: "bytes \<Rightarrow> block_ref \<Rightarrow> int option \<Rightarrow> block_pool \<Rightarrow> block_pool result" where
  "insert_block_hash key b n p =
     (if block_hash (blk p b) = Some key then Inr p
      else if contain (cached_block_hash_to_block p) key (block_id b) then Inr p
      else
        res_bind
          (if block_hash (blk p b) = None
           then res_bind (set_block_hash key n (blk p b)) (\<lambda>b'. Inr (upd_blk b (\<lambda>_. b') p))
           else Inr (p\<lparr>cached_block_hashes_by_block :=
                  dict_set (block_id b)
                    (if key \<in> set (aliases p b) then aliases p b else aliases p b @ [key])
                    (cached_block_hashes_by_block p)\<rparr>)) (\<lambda>p'.
        Inr (p'\<lparr>cached_block_hash_to_block := map_insert key b (cached_block_hash_to_block p')\<rparr>)))"

section \<open>Caching blocks\<close>

text \<open>\<^verbatim>\<open>BlockHashList\<close>: the hashes of the request, or their view at a coarser block size.\<close>

datatype hash_list = PlainHashes "bytes list" | CoarseHashes block_hash_list

fun hash_list_len :: "hash_list \<Rightarrow> int result" where
  "hash_list_len (PlainHashes hs) = Inr (int (length hs))"
| "hash_list_len (CoarseHashes l) = block_hash_list_len l"

fun hash_list_get :: "hash_list \<Rightarrow> int \<Rightarrow> bytes result" where
  "hash_list_get (PlainHashes hs) i = py_index hs i"
| "hash_list_get (CoarseHashes l) i = get_value_at l i"

fun hash_list_from :: "hash_list \<Rightarrow> int \<Rightarrow> bytes list result" where
  "hash_list_from (PlainHashes hs) i = Inr (py_slice i (int (length hs)) hs)"
| "hash_list_from (CoarseHashes l) i = res_bind (block_hash_list_len l) (\<lambda>n. get_slice l i n)"

definition request_hash_list :: "request \<Rightarrow> int \<Rightarrow> int \<Rightarrow> hash_list result" where
  "request_hash_list r hash_bs block_size =
     (if block_size = hash_bs then Inr (PlainHashes (block_hashes r))
      else if hash_bs = 0 then Inl ZeroDivisionError
      else res_bind (res_guard (block_size mod hash_bs = 0) AssertionError) (\<lambda>_.
        res_bind (block_hash_list_init (block_hashes r) hash_bs block_size) (\<lambda>l.
          Inr (CoarseHashes l))))"

text \<open>Whether block \<open>i\<close> of the new full blocks is skipped: it is null or masked out.\<close>

definition masked_out :: "bool list option \<Rightarrow> int \<Rightarrow> bool result" where
  "masked_out bmask i = (case bmask of None \<Rightarrow> Inr False | Some ms \<Rightarrow> res_bind (py_index ms i) (\<lambda>m. Inr (\<not> m)))"

text \<open>The body of the first loop of \<^verbatim>\<open>cache_full_blocks\<close>; the state is the pool and \<^verbatim>\<open>new_hashes\<close>.\<close>

definition cache_one_full_block ::
  "bytes list \<Rightarrow> int \<Rightarrow> int \<Rightarrow> int \<Rightarrow> bool list option \<Rightarrow> nat \<times> block_ref \<Rightarrow>
   block_pool \<times> external_hash list \<Rightarrow> (block_pool \<times> external_hash list) result" where
  "cache_one_full_block new_block_hashes num_cached_blocks block_size group_id bmask ib st =
     (let (i, b) = ib; (p, new_hashes) = st in
      if is_null (blk p b) then Inr (p, new_hashes)
      else res_bind (masked_out bmask (int i)) (\<lambda>skip.
        if skip then Inr (p, new_hashes)
        else res_bind (py_index new_block_hashes (int i)) (\<lambda>h.
          let num_hash_tokens = (num_cached_blocks + int i + 1) * block_size in
          res_bind (make_block_hash_with_group_id h group_id) (\<lambda>key.
          res_bind
            (if block_hash (blk p b) \<noteq> None
             then res_bind (res_guard (case block_hash_num_tokens (blk p b) of
                                None \<Rightarrow> False | Some n \<Rightarrow> n < num_hash_tokens) AssertionError) (\<lambda>_.
                    let (removed, p') = remove_cached_block_hashes b p
                    in Inr (emit_block_removed_events removed p'))
             else Inr p) (\<lambda>p1.
          res_bind (insert_block_hash key b (Some num_hash_tokens) p1) (\<lambda>p2.
            Inr (p2, if enable_kv_cache_events p
                     then new_hashes @ [convert p h] else new_hashes)))))))"

text \<open>The body of the loop that collects the extra keys of the stored event.\<close>

definition collect_extra_keys ::
  "(bytes \<Rightarrow> bytes) \<Rightarrow> block_pool \<Rightarrow> block_ref list \<Rightarrow> int \<Rightarrow> int \<Rightarrow> bool list option \<Rightarrow> int \<Rightarrow>
   request \<times> int \<times> extra_key list option list \<Rightarrow> (request \<times> int \<times> extra_key list option list) result" where
  "collect_extra_keys sha256 p bs num_cached_blocks block_size bmask i st =
     (let (r, mm_idx, acc) = st in
      res_bind (py_index bs i) (\<lambda>b.
      if is_null (blk p b) then Inr (r, mm_idx, acc)
      else res_bind (masked_out bmask (i - num_cached_blocks)) (\<lambda>skip.
        if skip then Inr (r, mm_idx, acc)
        else let block_start = i * block_size; block_end = block_start + block_size in
          res_bind (generate_block_hash_extra_keys sha256 r block_start block_end mm_idx)
            (\<lambda>((keys, mm_idx'), r'). Inr (r', mm_idx', acc @ [keys])))))"

text \<open>The part of \<^verbatim>\<open>cache_full_blocks\<close> after the loop: the stored event.\<close>

definition emit_stored_event ::
  "(bytes \<Rightarrow> bytes) \<Rightarrow> request \<Rightarrow> block_ref list \<Rightarrow> int \<Rightarrow> int \<Rightarrow> int \<Rightarrow> int \<Rightarrow> bool list option \<Rightarrow>
   hash_list \<Rightarrow> block_pool \<times> external_hash list \<Rightarrow> (request \<times> block_pool) result" where
  "emit_stored_event sha256 r bs num_cached_blocks num_full_blocks block_size group_id bmask hl st =
     (let (p, new_hashes) = st in
      if \<not> enable_kv_cache_events p then Inr (r, p)
      else
        res_bind (if num_cached_blocks = 0 then Inr None
                  else res_bind (hash_list_get hl (num_cached_blocks - 1)) (\<lambda>h. Inr (Some (convert p h))))
          (\<lambda>parent.
        let start_token_idx = num_cached_blocks * block_size;
            end_token_idx = num_full_blocks * block_size in
        res_bind (res_fold (collect_extra_keys sha256 p bs num_cached_blocks block_size bmask)
                    [num_cached_blocks..num_full_blocks - 1] (r, 0, [])) (\<lambda>(r', _, keys).
          Inr (r', emit_event
            (BlockStored new_hashes parent
               (py_slice start_token_idx end_token_idx (all_token_ids r')) block_size
               (map_option adapter_id (req_lora r')) (map_option lora_name (req_lora r'))
               (if keys = [] then None else Some keys) group_id) p))))"

definition cache_full_blocks ::
  "(bytes \<Rightarrow> bytes) \<Rightarrow> request \<Rightarrow> block_ref list \<Rightarrow> int \<Rightarrow> int \<Rightarrow> int \<Rightarrow> int \<Rightarrow> bool list option \<Rightarrow>
   block_pool \<Rightarrow> (request \<times> block_pool) result" where
  "cache_full_blocks sha256 r bs num_cached_blocks num_full_blocks block_size group_id bmask p =
     (if num_cached_blocks \<ge> num_full_blocks then Inr (r, p)
      else
        let new_full_blocks = py_slice num_cached_blocks num_full_blocks bs in
        res_bind (res_guard (case bmask of None \<Rightarrow> True | Some ms \<Rightarrow> length ms = length new_full_blocks)
                    AssertionError) (\<lambda>_.
        res_bind (request_hash_list r (hash_block_size p) block_size) (\<lambda>hl.
        res_bind (hash_list_len hl) (\<lambda>n.
        res_bind (res_guard (n \<ge> num_full_blocks) AssertionError) (\<lambda>_.
        res_bind (hash_list_from hl num_cached_blocks) (\<lambda>new_block_hashes.
        res_bind (res_fold (cache_one_full_block new_block_hashes num_cached_blocks block_size group_id bmask)
                    (List.enumerate 0 new_full_blocks) (p, []))
          (emit_stored_event sha256 r bs num_cached_blocks num_full_blocks block_size group_id bmask hl)))))))"

definition get_partial_block_hash :: "block_pool \<Rightarrow> request \<Rightarrow> int \<Rightarrow> bytes result" where
  "get_partial_block_hash p r n_tokens =
     (if hash_block_size p = 0 then Inl ZeroDivisionError
      else res_bind (res_guard (n_tokens mod hash_block_size p = 0) AssertionError) (\<lambda>_.
        let n = n_tokens div hash_block_size p in
        res_bind (res_guard (0 < n \<and> n \<le> int (length (block_hashes r))) AssertionError) (\<lambda>_.
          py_index (block_hashes r) (n - 1))))"

definition get_partial_block_parent_hash_and_start ::
  "block_pool \<Rightarrow> request \<Rightarrow> int \<Rightarrow> (bytes option \<times> int) result" where
  "get_partial_block_parent_hash_and_start p r n_tokens =
     (if hash_block_size p = 0 then Inl ZeroDivisionError
      else let n = n_tokens div hash_block_size p in
        res_bind (if n > 1 then res_bind (py_index (block_hashes r) (n - 2)) (\<lambda>h. Inr (Some h))
                  else Inr None) (\<lambda>parent.
          Inr (parent, (n - 1) * hash_block_size p)))"

text \<open>The part of \<^verbatim>\<open>cache_partial_block\<close> that emits the stored event of a new entry.\<close>

definition emit_partial_event ::
  "(bytes \<Rightarrow> bytes) \<Rightarrow> request \<Rightarrow> int \<Rightarrow> int \<Rightarrow> bytes \<Rightarrow> bool \<Rightarrow> block_pool \<Rightarrow> (request \<times> block_pool) result" where
  "emit_partial_event sha256 r n_tokens group_id h already_cached p =
     (if \<not> (enable_kv_cache_events p \<and> \<not> already_cached) then Inr (r, p)
      else
        res_bind (get_partial_block_parent_hash_and_start p r n_tokens) (\<lambda>(parent, block_start).
        let block_end = n_tokens; mm_idx = (if block_start > 0 then - 1 else 0) in
        res_bind (generate_block_hash_extra_keys sha256 r block_start block_end mm_idx)
          (\<lambda>((keys, _), r').
          Inr (r', emit_event
            (BlockStored [convert p h] (map_option (convert p) parent)
               (py_slice block_start block_end (all_token_ids r')) (block_end - block_start)
               (map_option adapter_id (req_lora r')) (map_option lora_name (req_lora r'))
               (Some [keys]) group_id) p))))"

text \<open>A block whose primary hash covers fewer tokens than the new entry loses its entries first.\<close>

definition drop_shorter_entries :: "block_ref \<Rightarrow> bool \<Rightarrow> int \<Rightarrow> block_pool \<Rightarrow> block_pool" where
  "drop_shorter_entries b already_cached num_hash_tokens p =
     (if \<not> already_cached \<and> block_hash (blk p b) \<noteq> None
        \<and> (case block_hash_num_tokens (blk p b) of None \<Rightarrow> False | Some k \<Rightarrow> k < num_hash_tokens)
      then let (removed, p') = remove_cached_block_hashes b p in emit_block_removed_events removed p'
      else p)"

definition cache_partial_block ::
  "(bytes \<Rightarrow> bytes) \<Rightarrow> request \<Rightarrow> block_ref \<Rightarrow> int \<Rightarrow> int \<Rightarrow> int \<Rightarrow> block_pool \<Rightarrow>
   (bytes option \<times> request \<times> block_pool) result" where
  "cache_partial_block sha256 r b n_tokens group_id block_size p =
     (if is_null (blk p b) then Inr (None, r, p)
      else
        res_bind (res_guard (block_size > hash_block_size p) AssertionError) (\<lambda>_.
        if hash_block_size p = 0 then Inl ZeroDivisionError else
        res_bind (res_guard (block_size mod hash_block_size p = 0) AssertionError) (\<lambda>_.
        if block_size = 0 then Inl ZeroDivisionError else
        res_bind (res_guard (n_tokens mod block_size \<noteq> 0) AssertionError) (\<lambda>_.
        res_bind (get_partial_block_hash p r n_tokens) (\<lambda>h.
        let num_hash_tokens = n_tokens div hash_block_size p * hash_block_size p in
        res_bind (make_block_hash_with_group_id h group_id) (\<lambda>key.
        let already_cached = (block_hash (blk p b) = Some key
              \<or> contain (cached_block_hash_to_block p) key (block_id b)) in
        res_bind (insert_block_hash key b (Some num_hash_tokens)
                    (drop_shorter_entries b already_cached num_hash_tokens p)) (\<lambda>p2.
        res_bind (emit_partial_event sha256 r n_tokens group_id h already_cached p2) (\<lambda>(r', p3).
          Inr (Some key, r', p3)))))))))"

section \<open>Allocation, eviction, reuse and freeing\<close>

definition get_num_free_blocks :: "block_pool \<Rightarrow> int" where
  "get_num_free_blocks p = num_free_blocks (free_block_queue p)"

definition maybe_evict_cached_block :: "block_ref \<Rightarrow> block_pool \<Rightarrow> bool \<times> block_pool" where
  "maybe_evict_cached_block b p =
     (let (evicted, p') = remove_cached_block_hashes b p
      in if evicted = [] then (False, p') else (True, emit_block_removed_events evicted p'))"

definition allocate_block :: "block_ref \<Rightarrow> block_pool \<Rightarrow> block_pool result" where
  "allocate_block b p =
     (let p1 = (if enable_caching p then snd (maybe_evict_cached_block b p) else p) in
      res_bind (res_guard (ref_cnt (blk p1 b) = 0) AssertionError) (\<lambda>_.
        Inr (upd_blk b (\<lambda>k. k\<lparr>ref_cnt := ref_cnt k + 1\<rparr>) p1)))"

definition get_new_blocks :: "int \<Rightarrow> block_pool \<Rightarrow> (block_ref list \<times> block_pool) result" where
  "get_new_blocks n p =
     (if n > get_num_free_blocks p then Inl ValueError
      else res_bind (popleft_n n (free_block_queue p)) (\<lambda>(ret, q).
        res_bind (res_fold allocate_block ret (p\<lparr>free_block_queue := q\<rparr>)) (\<lambda>p'. Inr (ret, p'))))"

definition touch_block :: "block_ref \<Rightarrow> block_pool \<Rightarrow> block_pool result" where
  "touch_block b p =
     res_bind (if ref_cnt (blk p b) = 0 \<and> \<not> is_null (blk p b)
               then res_bind (remove_block b (free_block_queue p)) (\<lambda>q. Inr (p\<lparr>free_block_queue := q\<rparr>))
               else Inr p) (\<lambda>p1.
       Inr (upd_blk b (\<lambda>k. k\<lparr>ref_cnt := ref_cnt k + 1\<rparr>) p1))"

definition touch :: "block_ref list \<Rightarrow> block_pool \<Rightarrow> block_pool result" where
  "touch bs p = res_fold touch_block bs p"

text \<open>The loop of \<^verbatim>\<open>free_blocks\<close>: the store, \<^verbatim>\<open>blocks_without_hash\<close> and \<^verbatim>\<open>blocks_with_hash\<close>.\<close>

fun release_loop ::
  "block_ref list \<Rightarrow> (block_ref \<Rightarrow> kv_block) \<Rightarrow> block_ref list \<Rightarrow> block_ref list \<Rightarrow>
   (block_ref \<Rightarrow> kv_block) \<times> block_ref list \<times> block_ref list" where
  "release_loop [] s without_hash with_hash = (s, without_hash, with_hash)"
| "release_loop (b # bs) s without_hash with_hash =
     (let s' = s(b := (s b)\<lparr>ref_cnt := ref_cnt (s b) - 1\<rparr>) in
      if ref_cnt (s' b) = 0 \<and> \<not> is_null (s' b)
      then if block_hash (s' b) = None
           then release_loop bs s' (without_hash @ [b]) with_hash
           else release_loop bs s' without_hash (with_hash @ [b])
      else release_loop bs s' without_hash with_hash)"

definition free_blocks :: "block_ref list \<Rightarrow> block_pool \<Rightarrow> block_pool result" where
  "free_blocks ordered_blocks p =
     (let (s, without_hash, with_hash) = release_loop ordered_blocks (blk p) [] [] in
      res_bind (res_bind (prepend_n without_hash (free_block_queue p)) (append_n with_hash)) (\<lambda>q.
        Inr (p\<lparr>blk := s, free_block_queue := q\<rparr>)))"

definition evict_one :: "int \<Rightarrow> block_pool \<Rightarrow> block_pool result" where
  "evict_one bid p =
     res_bind (res_guard (bid < int (length (blocks p))) AssertionError) (\<lambda>_.
     res_bind (py_index (blocks p) bid) (\<lambda>b. Inr (snd (maybe_evict_cached_block b p))))"

definition evict_blocks :: "int list \<Rightarrow> block_pool \<Rightarrow> block_pool result" where
  "evict_blocks block_ids p = res_fold evict_one block_ids p"

definition reset_prefix_cache :: "block_pool \<Rightarrow> bool \<times> block_pool" where
  "reset_prefix_cache p =
     (let num_used_blocks = num_gpu_blocks p - get_num_free_blocks p in
      if num_used_blocks \<noteq> 1 then (False, p)
      else
        let p1 = p\<lparr>cached_block_hash_to_block := [], cached_block_hashes_by_block := []\<rparr>;
            p2 = fold (\<lambda>b q. upd_blk b reset_hash q) (blocks p1) p1
        in (True, if enable_kv_cache_events p2 then emit_event AllBlocksCleared p2 else p2))"

definition take_events :: "block_pool \<Rightarrow> kv_event list \<times> block_pool" where
  "take_events p =
     (if \<not> enable_kv_cache_events p then ([], p)
      else (kv_event_queue p, p\<lparr>kv_event_queue := []\<rparr>))"

lemma pop_hashes_del_all: "pop_hashes hs i m = hi.del_all hs i m"
  by (induction hs arbitrary: m) (simp_all only: pop_hashes.simps hi.del_all.simps)

end
