(* ===== verification/BlockPoolInv.thy ===== *)
theory BlockPoolInv
  imports BlockPool
begin

text \<open>
  The invariant of the block pool and what every operation does to it. One half says that the free
  queue holds exactly the unreferenced blocks, the other that the hash index lists a block under a key
  exactly when the block owns the key. The properties follow from one lemma per operation.
\<close>

section \<open>The two halves of the invariant\<close>

text \<open>The keys a block owns: its primary hash and its aliases.\<close>

definition owned :: "block_pool \<Rightarrow> block_ref \<Rightarrow> bytes set" where
  "owned p b = set_option (block_hash (blk p b)) \<union> set (aliases p b)"

text \<open>The blocks that may be allocated: not null and referenced by nobody.\<close>

definition free_set :: "block_pool \<Rightarrow> block_ref set" where
  "free_set p = {b \<in> set (blocks p). ref_cnt (blk p b) = 0 \<and> \<not> is_null (blk p b)}"

text \<open>The index lists a block under a key exactly when the block owns the key.\<close>

definition cache_inv :: "block_pool \<Rightarrow> bool" where
  "cache_inv p \<longleftrightarrow>
     map_ok (cached_block_hash_to_block p) \<and>
     (\<forall>b\<in>set (blocks p). real_block b) \<and>
     (\<forall>key b. b \<in> map_blocks (cached_block_hash_to_block p) key \<longleftrightarrow> b \<in> set (blocks p) \<and> key \<in> owned p b) \<and>
     (\<forall>b\<in>set (blocks p). block_hash (blk p b) = None \<longrightarrow>
        block_hash_num_tokens (blk p b) = None \<and> aliases p b = []) \<and>
     (\<forall>b\<in>set (blocks p). is_null (blk p b) \<longrightarrow> owned p b = {})"

text \<open>The free queue holds exactly the allocatable blocks; only block 0 is null.\<close>

definition alloc_inv :: "block_pool \<Rightarrow> bool" where
  "alloc_inv p \<longleftrightarrow>
     0 < num_gpu_blocks p \<and> blocks p = map Block [0..<nat (num_gpu_blocks p)] \<and> null_block p = Block 0 \<and>
     (\<forall>b. is_null (blk p b) \<longleftrightarrow> b = Block 0) \<and>
     (\<forall>b\<in>set (blocks p). b \<noteq> Block 0 \<longrightarrow> 0 \<le> ref_cnt (blk p b)) \<and>
     (\<exists>fs. queue_rep (free_block_queue p) fs \<and> set fs = free_set p)"

definition pool_inv :: "block_pool \<Rightarrow> bool" where
  "pool_inv p \<longleftrightarrow> alloc_inv p \<and> cache_inv p"

text \<open>Two pools that agree on the queue and the configuration, and on the counts as well.\<close>

definition cfg_eq :: "block_pool \<Rightarrow> block_pool \<Rightarrow> bool" where
  "cfg_eq p q \<longleftrightarrow>
     num_gpu_blocks q = num_gpu_blocks p \<and> blocks q = blocks p \<and> null_block q = null_block p \<and>
     free_block_queue q = free_block_queue p \<and> enable_caching q = enable_caching p \<and>
     hash_block_size q = hash_block_size p \<and> use_int_block_hashes q = use_int_block_hashes p \<and>
     enable_kv_cache_events q = enable_kv_cache_events p \<and>
     (\<forall>b. is_null (blk q b) = is_null (blk p b))"

definition alloc_eq :: "block_pool \<Rightarrow> block_pool \<Rightarrow> bool" where
  "alloc_eq p q \<longleftrightarrow> cfg_eq p q \<and> (\<forall>b. ref_cnt (blk q b) = ref_cnt (blk p b))"

lemmas eq_defs = alloc_eq_def cfg_eq_def

lemma alloc_eq_refl [simp]: "alloc_eq p p"
  by (simp add: eq_defs)

lemma alloc_eq_trans: "alloc_eq p q \<Longrightarrow> alloc_eq q r \<Longrightarrow> alloc_eq p r"
  by (simp add: eq_defs)

lemma alloc_inv_eq: "alloc_eq p q \<Longrightarrow> alloc_inv p \<Longrightarrow> alloc_inv q"
  by (auto simp: eq_defs alloc_inv_def free_set_def)

named_theorems pool_simps \<open>projections of updated pools\<close>

lemma upd_blk_sel [simp, pool_simps]:
  "blk (upd_blk b f p) = (blk p)(b := f (blk p b))"
  "num_gpu_blocks (upd_blk b f p) = num_gpu_blocks p"
  "enable_caching (upd_blk b f p) = enable_caching p"
  "hash_block_size (upd_blk b f p) = hash_block_size p"
  "use_int_block_hashes (upd_blk b f p) = use_int_block_hashes p"
  "blocks (upd_blk b f p) = blocks p"
  "free_block_queue (upd_blk b f p) = free_block_queue p"
  "cached_block_hash_to_block (upd_blk b f p) = cached_block_hash_to_block p"
  "cached_block_hashes_by_block (upd_blk b f p) = cached_block_hashes_by_block p"
  "null_block (upd_blk b f p) = null_block p"
  "enable_kv_cache_events (upd_blk b f p) = enable_kv_cache_events p"
  "kv_event_queue (upd_blk b f p) = kv_event_queue p"
  by (simp_all add: upd_blk_def)

lemma reset_hash_sel [simp, pool_simps]:
  "ref_cnt (reset_hash k) = ref_cnt k" "is_null (reset_hash k) = is_null k"
  "block_hash (reset_hash k) = None" "block_hash_num_tokens (reset_hash k) = None"
  by (simp_all add: reset_hash_def)

text \<open>Events change nothing else.\<close>

lemma emit_event_sel [simp, pool_simps]:
  "blk (emit_event e p) = blk p" "blocks (emit_event e p) = blocks p"
  "cached_block_hash_to_block (emit_event e p) = cached_block_hash_to_block p"
  "cached_block_hashes_by_block (emit_event e p) = cached_block_hashes_by_block p"
  "free_block_queue (emit_event e p) = free_block_queue p"
  by (simp_all add: emit_event_def)

lemma emit_event_frame [simp]:
  "alloc_eq p (emit_event e p)" "owned (emit_event e p) = owned p" "cache_inv (emit_event e p) = cache_inv p"
  by (auto simp: eq_defs emit_event_def owned_def aliases_def cache_inv_def fun_eq_iff)

lemma emit_removed_frame:
  "alloc_eq p (emit_block_removed_events hs p) \<and> owned (emit_block_removed_events hs p) = owned p
   \<and> cache_inv (emit_block_removed_events hs p) = cache_inv p
   \<and> blk (emit_block_removed_events hs p) = blk p"
proof -
  have "alloc_eq p (fold (\<lambda>h q. emit_event (e h q) q) hs p) \<and> owned (fold (\<lambda>h q. emit_event (e h q) q) hs p) = owned p
    \<and> cache_inv (fold (\<lambda>h q. emit_event (e h q) q) hs p) = cache_inv p
    \<and> blk (fold (\<lambda>h q. emit_event (e h q) q) hs p) = blk p" for e
  proof (induction hs arbitrary: p)
    case (Cons h hs)
    from Cons [of "emit_event (e h p) p"] show ?case
      using alloc_eq_trans [OF emit_event_frame(1)] by simp blast
  qed simp
  then show ?thesis by (simp add: emit_block_removed_events_def)
qed

section \<open>Removing and inserting hashes\<close>

lemma aliases_upd_blk [simp]: "aliases (upd_blk b f p) = aliases p"
  by (simp add: aliases_def fun_eq_iff)

lemma cache_invD:
  assumes "cache_inv p"
  shows "map_ok (cached_block_hash_to_block p)" and "b \<in> set (blocks p) \<Longrightarrow> real_block b"
    and "b \<in> map_blocks (cached_block_hash_to_block p) key \<longleftrightarrow> b \<in> set (blocks p) \<and> key \<in> owned p b"
    and "b \<in> set (blocks p) \<Longrightarrow> block_hash (blk p b) = None \<Longrightarrow> owned p b = {}"
    and "b \<in> set (blocks p) \<Longrightarrow> block_hash (blk p b) = None \<Longrightarrow> block_hash_num_tokens (blk p b) = None"
    and "b \<in> set (blocks p) \<Longrightarrow> block_hash (blk p b) = None \<Longrightarrow> aliases p b = []"
    and "b \<in> set (blocks p) \<Longrightarrow> is_null (blk p b) \<Longrightarrow> owned p b = {}"
  using assms by (auto simp: cache_inv_def owned_def)

lemma remove_cached_block_hashes_spec:
  assumes inv: "cache_inv p" and b: "b \<in> set (blocks p)"
    and eq: "remove_cached_block_hashes b p = (removed, q)"
  shows "cache_inv q" and "alloc_eq p q" and "owned q b = {}" and "set removed = owned p b"
    and "\<And>c. c \<in> set (blocks p) \<Longrightarrow> c \<noteq> b \<Longrightarrow> owned q c = owned p c \<and> blk q c = blk p c"
    and "block_hash (blk q b) = None"
proof -
  note I = cache_invD [OF inv]
  let ?hs = "(case block_hash (blk p b) of None \<Rightarrow> [] | Some h \<Rightarrow> [h]) @ aliases p b"
  let ?by = "dict_pop (block_id b) (cached_block_hashes_by_block p)"
  let ?r = "hi.del_all ?hs (block_id b) (cached_block_hash_to_block p)"
  have hs: "set ?hs = owned p b" by (auto simp: owned_def split: option.splits)
  have del: "map_ok (snd ?r)"
    "\<And>k. map_blocks (snd ?r) k = (if k \<in> owned p b then map_blocks (cached_block_hash_to_block p) k - {b}
           else map_blocks (cached_block_hash_to_block p) k)"
    "set (fst ?r) = {k \<in> owned p b. b \<in> map_blocks (cached_block_hash_to_block p) k}"
    using hi.del_all_spec [OF I(2) [OF b] I(1), of ?hs] unfolding hs by blast+
  have ids: "block_id c \<noteq> block_id b" if "c \<in> set (blocks p)" "c \<noteq> b" for c
    using that I(2) b block_id_inj by blast
  have q: "removed = fst ?r \<and> blocks q = blocks p \<and> cached_block_hash_to_block q = snd ?r
      \<and> cached_block_hashes_by_block q = ?by \<and> alloc_eq p q \<and> (\<forall>c. c \<noteq> b \<longrightarrow> blk q c = blk p c)
      \<and> block_hash (blk q b) = None \<and> block_hash_num_tokens (blk q b) = None"
  proof (cases "?hs = []")
    case True
    then have h: "block_hash (blk p b) = None" by (simp split: option.splits)
    have "q = p\<lparr>cached_block_hashes_by_block := ?by\<rparr>" "removed = []"
      using eq True by (auto simp: remove_cached_block_hashes_def Let_def)
    then show ?thesis using True h I(5) [OF b h] by (auto simp: eq_defs)
  next
    case False
    have "q = upd_blk b reset_hash (p\<lparr>cached_block_hashes_by_block := ?by, cached_block_hash_to_block := snd ?r\<rparr>)"
      "removed = fst ?r"
      using eq False
      by (auto simp: remove_cached_block_hashes_def Let_def pop_hashes_del_all split: prod.splits)
    then show ?thesis by (auto simp: eq_defs)
  qed
  show "alloc_eq p q" "block_hash (blk q b) = None" using q by blast+
  show "set removed = owned p b" using q del(3) I(3) b by auto
  have al: "aliases q b = []" "\<And>c. c \<in> set (blocks p) \<Longrightarrow> c \<noteq> b \<Longrightarrow> aliases q c = aliases p c"
    using q ids by (auto simp: aliases_def)
  show ob: "owned q b = {}" using q al by (simp add: owned_def)
  show oc: "owned q c = owned p c \<and> blk q c = blk p c" if "c \<in> set (blocks p)" "c \<noteq> b" for c
    using that q al(2) [OF that] by (simp add: owned_def)
  have null: "is_null (blk q c) = is_null (blk p c)" for c using q by (simp add: eq_defs)
  have "c \<in> map_blocks (snd ?r) key \<longleftrightarrow> c \<in> set (blocks p) \<and> key \<in> owned q c" for c key
    using del(2) [of key] I(3) [of c key] oc [of c] ob b by (cases "c = b") auto
  moreover have "\<forall>c\<in>set (blocks p). block_hash (blk q c) = None \<longrightarrow>
      block_hash_num_tokens (blk q c) = None \<and> aliases q c = []"
    using q al I(5,6) by (metis)
  moreover have "\<forall>c\<in>set (blocks p). is_null (blk q c) \<longrightarrow> owned q c = {}"
    using null oc ob I(7) by metis
  ultimately show "cache_inv q" using q del(1) I(2) by (simp add: cache_inv_def)
qed

lemma insert_block_hash_spec:
  assumes inv: "cache_inv p" and b: "b \<in> set (blocks p)" and null: "\<not> is_null (blk p b)"
  shows "\<exists>q. insert_block_hash key b n p = Inr q \<and> cache_inv q \<and> alloc_eq p q
    \<and> owned q b = insert key (owned p b)
    \<and> (\<forall>c\<in>set (blocks p). c \<noteq> b \<longrightarrow> owned q c = owned p c \<and> blk q c = blk p c)"
proof (cases "key \<in> owned p b")
  case True
  note I = cache_invD [OF inv]
  have "contain (cached_block_hash_to_block p) key (block_id b)"
    using True I(3) b by (simp add: hi.has_entry [OF I(1) I(2) [OF b]])
  then have "insert_block_hash key b n p = Inr p" by (simp add: insert_block_hash_def)
  with True inv show ?thesis by (auto simp: insert_absorb)
next
  case False
  note I = cache_invD [OF inv]
  let ?m = "map_insert key b (cached_block_hash_to_block p)"
  have no: "\<not> contain (cached_block_hash_to_block p) key (block_id b)" "block_hash (blk p b) \<noteq> Some key"
    "key \<notin> set (aliases p b)"
    using False I(3) b by (auto simp: hi.has_entry [OF I(1) I(2) [OF b]] owned_def)
  have ids: "block_id c \<noteq> block_id b" if "c \<in> set (blocks p)" "c \<noteq> b" for c
    using that I(2) b block_id_inj by blast
  obtain q where q: "insert_block_hash key b n p = Inr q" "cached_block_hash_to_block q = ?m" "alloc_eq p q"
    "\<forall>c. c \<noteq> b \<longrightarrow> blk q c = blk p c" "block_hash (blk q b) \<noteq> None"
    "owned q b = insert key (owned p b)" "\<forall>c\<in>set (blocks p). c \<noteq> b \<longrightarrow> aliases q c = aliases p c"
  proof (cases "block_hash (blk p b)")
    case None
    with I(5) [OF b None] no I(4,6) [OF b None] show ?thesis
      by (intro that [of "(upd_blk b (\<lambda>k. k\<lparr>block_hash := Some key, block_hash_num_tokens := n\<rparr>) p)
              \<lparr>cached_block_hash_to_block := ?m\<rparr>"])
        (auto simp: insert_block_hash_def set_block_hash_def eq_defs owned_def aliases_def upd_blk_def)
  next
    case (Some h)
    with no ids show ?thesis
      by (intro that [of "p\<lparr>cached_block_hashes_by_block :=
              dict_set (block_id b) (aliases p b @ [key]) (cached_block_hashes_by_block p),
              cached_block_hash_to_block := ?m\<rparr>"])
        (auto simp: insert_block_hash_def eq_defs owned_def aliases_def)
  qed
  have blocks: "blocks q = blocks p" using q(3) by (simp add: eq_defs)
  have oc: "owned q c = owned p c" if "c \<in> set (blocks p)" "c \<noteq> b" for c
    using that q(4,7) by (simp add: owned_def)
  have "c \<in> map_blocks ?m k \<longleftrightarrow> c \<in> set (blocks p) \<and> k \<in> owned q c" for c k
    using hi.entries_ins [OF I(1) I(2) [OF b], of key k] I(3) [of c k] oc [of c] q(6) b
    by (cases "c = b") auto
  moreover have "\<forall>c\<in>set (blocks p). block_hash (blk q c) = None \<longrightarrow>
      block_hash_num_tokens (blk q c) = None \<and> aliases q c = []"
    using q(4,5,7) I(5,6) by metis
  moreover have "\<forall>c\<in>set (blocks p). is_null (blk q c) \<longrightarrow> owned q c = {}"
    using q(3) null oc I(7) by (metis eq_defs)
  ultimately have "cache_inv q"
    using q(2) blocks hi.ok_ins [OF I(1) I(2) [OF b], of key] I(2) by (simp add: cache_inv_def)
  with q oc show ?thesis by blast
qed

section \<open>Eviction and allocation\<close>

lemma maybe_evict_spec:
  assumes inv: "cache_inv p" and b: "b \<in> set (blocks p)"
    and eq: "maybe_evict_cached_block b p = (f, q)"
  shows "cache_inv q" and "alloc_eq p q" and "owned q b = {}" and "f \<longleftrightarrow> owned p b \<noteq> {}"
    and "\<And>c. c \<in> set (blocks p) \<Longrightarrow> c \<noteq> b \<Longrightarrow> owned q c = owned p c"
proof -
  obtain removed p1 where r: "remove_cached_block_hashes b p = (removed, p1)" by fastforce
  note R = remove_cached_block_hashes_spec [OF inv b r]
  have q: "q = p1 \<or> q = emit_block_removed_events removed p1" and f: "f \<longleftrightarrow> removed \<noteq> []"
    using eq r by (auto simp: maybe_evict_cached_block_def split: if_splits)
  from q R emit_removed_frame [of p1 removed]
  show "cache_inv q" "alloc_eq p q" "owned q b = {}" by (auto intro: alloc_eq_trans)
  from q R(5) emit_removed_frame [of p1 removed]
  show "owned q c = owned p c" if "c \<in> set (blocks p)" "c \<noteq> b" for c using that by auto
  show "f \<longleftrightarrow> owned p b \<noteq> {}" using f R(4) by auto
qed

lemma cache_inv_ref:
  assumes "cache_inv p" and "\<And>b. block_hash (s b) = block_hash (blk p b)"
    and "\<And>b. block_hash_num_tokens (s b) = block_hash_num_tokens (blk p b)"
    and "\<And>b. is_null (s b) = is_null (blk p b)"
  shows "cache_inv (p\<lparr>blk := s, free_block_queue := fq\<rparr>)"
  using assms by (simp add: cache_inv_def owned_def aliases_def)

lemma owned_ref:
  assumes "\<And>b. block_hash (s b) = block_hash (blk p b)"
  shows "owned (p\<lparr>blk := s, free_block_queue := fq\<rparr>) = owned p"
  using assms by (simp add: fun_eq_iff owned_def aliases_def)

text \<open>One allocation, before the block is linked out: the count becomes one and the hashes go.\<close>

lemma allocate_block_spec:
  assumes inv: "cache_inv p" and b: "b \<in> set (blocks p)" and ref: "ref_cnt (blk p b) = 0"
  shows "\<exists>q. allocate_block b p = Inr q \<and> cache_inv q \<and> cfg_eq p q
    \<and> (\<forall>c. ref_cnt (blk q c) = (if c = b then 1 else ref_cnt (blk p c)))
    \<and> (\<forall>c\<in>set (blocks p). owned q c = (if c = b \<and> enable_caching p then {} else owned p c))"
proof -
  obtain f p1 where e: "maybe_evict_cached_block b p = (f, p1)" by fastforce
  note E = maybe_evict_spec [OF inv b e]
  define p2 where "p2 = (if enable_caching p then p1 else p)"
  have p2: "cache_inv p2" "alloc_eq p p2"
    "\<forall>c\<in>set (blocks p). owned p2 c = (if c = b \<and> enable_caching p then {} else owned p c)"
    using E inv by (auto simp: p2_def)
  let ?q = "upd_blk b (\<lambda>k. k\<lparr>ref_cnt := ref_cnt k + 1\<rparr>) p2"
  have q: "?q = p2\<lparr>blk := (blk p2)(b := (blk p2 b)\<lparr>ref_cnt := ref_cnt (blk p2 b) + 1\<rparr>),
      free_block_queue := free_block_queue p2\<rparr>"
    by (simp add: upd_blk_def)
  have "(if enable_caching p then snd (maybe_evict_cached_block b p) else p) = p2"
    by (simp add: p2_def e)
  moreover have "ref_cnt (blk p2 b) = 0" using ref p2(2) by (simp add: alloc_eq_def)
  ultimately have "allocate_block b p = Inr ?q" by (simp add: allocate_block_def Let_def)
  moreover have "cache_inv ?q" unfolding q by (rule cache_inv_ref [OF p2(1)]) simp_all
  moreover have "owned ?q = owned p2" unfolding q by (rule owned_ref) simp
  ultimately show ?thesis using p2 ref by (auto simp: eq_defs)
qed

lemma allocate_all_spec:
  assumes "cache_inv p" and "set bs \<subseteq> set (blocks p)" and "distinct bs"
    and "\<forall>b\<in>set bs. ref_cnt (blk p b) = 0"
  shows "\<exists>q. res_fold allocate_block bs p = Inr q \<and> cache_inv q \<and> cfg_eq p q
    \<and> (\<forall>c. ref_cnt (blk q c) = (if c \<in> set bs then 1 else ref_cnt (blk p c)))
    \<and> (\<forall>c\<in>set (blocks p). owned q c = (if c \<in> set bs \<and> enable_caching p then {} else owned p c))"
  using assms
proof (induction bs arbitrary: p)
  case Nil
  then show ?case by (simp add: cfg_eq_def)
next
  case (Cons b bs)
  obtain p1 where p1: "allocate_block b p = Inr p1" "cache_inv p1" "cfg_eq p p1"
    "\<forall>c. ref_cnt (blk p1 c) = (if c = b then 1 else ref_cnt (blk p c))"
    "\<forall>c\<in>set (blocks p). owned p1 c = (if c = b \<and> enable_caching p then {} else owned p c)"
    using allocate_block_spec [of p b] Cons.prems by auto
  obtain q where q: "res_fold allocate_block bs p1 = Inr q" "cache_inv q" "cfg_eq p1 q"
    "\<forall>c. ref_cnt (blk q c) = (if c \<in> set bs then 1 else ref_cnt (blk p1 c))"
    "\<forall>c\<in>set (blocks p1). owned q c = (if c \<in> set bs \<and> enable_caching p1 then {} else owned p1 c)"
    using Cons.IH [of p1] p1 Cons.prems by (fastforce simp: cfg_eq_def)
  with p1 Cons.prems show ?case by (intro exI [of _ q]) (auto simp: cfg_eq_def)
qed

text \<open>What allocation relies on the free queue for.\<close>

lemma alloc_inv_free:
  assumes "alloc_inv p"
  obtains fs where "queue_rep (free_block_queue p) fs" and "set fs = free_set p" and "distinct fs"
    and "get_num_free_blocks p = int (length fs)" and "\<forall>b\<in>set (blocks p). real_block b"
proof -
  obtain fs where fs: "queue_rep (free_block_queue p) fs" "set fs = free_set p"
    using assms by (auto simp: alloc_inv_def)
  show ?thesis
    by (rule that [OF fs fq.rep_distinct [OF fs(1)]])
      (use fq.count_rep [OF fs(1)] assms in \<open>auto simp: get_num_free_blocks_def alloc_inv_def\<close>)
qed

lemma get_new_blocks_spec:
  assumes inv: "pool_inv p" and fs: "queue_rep (free_block_queue p) fs" and n: "0 \<le> n" "n \<le> get_num_free_blocks p"
  shows "\<exists>q. get_new_blocks n p = Inr (take (nat n) fs, q) \<and> pool_inv q
    \<and> queue_rep (free_block_queue q) (drop (nat n) fs) \<and> blocks q = blocks p \<and> length (take (nat n) fs) = nat n
    \<and> (\<forall>b. ref_cnt (blk q b) = (if b \<in> set (take (nat n) fs) then 1 else ref_cnt (blk p b)))
    \<and> (\<forall>b\<in>set (blocks p). owned q b = (if b \<in> set (take (nat n) fs) \<and> enable_caching p then {} else owned p b))"
proof -
  have alloc: "alloc_inv p" and cache: "cache_inv p" using inv by (auto simp: pool_inv_def)
  have setfs: "set fs = free_set p" and count: "get_num_free_blocks p = int (length fs)" and dist: "distinct fs"
    using alloc_inv_free [OF alloc] fq.rep_fun [OF fs] by metis+
  let ?bs = "take (nat n) fs"
  obtain fq where q: "popleft_n n (free_block_queue p) = Inr (?bs, fq)" "queue_rep fq (drop (nat n) fs)"
    using popleft_n_rep [OF fs n(1)] n count by auto
  let ?p = "p\<lparr>free_block_queue := fq\<rparr>"
  have "cache_inv ?p" using cache_inv_ref [OF cache, of "blk p" fq] by simp
  moreover have sub: "set ?bs \<subseteq> free_set p" using setfs set_take_subset by fastforce
  ultimately obtain r where r: "res_fold allocate_block ?bs ?p = Inr r" "cache_inv r" "cfg_eq ?p r"
    "\<forall>c. ref_cnt (blk r c) = (if c \<in> set ?bs then 1 else ref_cnt (blk ?p c))"
    "\<forall>c\<in>set (blocks ?p). owned r c = (if c \<in> set ?bs \<and> enable_caching ?p then {} else owned ?p c)"
    using allocate_all_spec [of ?p ?bs] dist by (auto simp: free_set_def)
  have own: "owned ?p = owned p" using owned_ref [of "blk p" p fq] by simp
  have "set (drop (nat n) fs) = set fs - set ?bs"
  proof -
    have "set ?bs \<union> set (drop (nat n) fs) = set fs" by (metis append_take_drop_id set_append)
    moreover have "set ?bs \<inter> set (drop (nat n) fs) = {}"
      using set_take_disj_set_drop_if_distinct [OF dist, of "nat n" "nat n"] by simp
    ultimately show ?thesis by blast
  qed
  then have "set (drop (nat n) fs) = free_set r"
    using setfs sub r(3,4) by (auto simp: free_set_def cfg_eq_def)
  then have "alloc_inv r" using alloc r(3,4) q(2) by (auto simp: alloc_inv_def cfg_eq_def)
  with r q n count own show ?thesis
    by (intro exI [of _ r]) (auto simp: get_new_blocks_def pool_inv_def cfg_eq_def)
qed

section \<open>Reuse and release\<close>

lemma touch_block_spec:
  assumes inv: "pool_inv p" and b: "b \<in> set (blocks p)"
  shows "\<exists>q. touch_block b p = Inr q \<and> pool_inv q \<and> blocks q = blocks p \<and> owned q = owned p
    \<and> (\<forall>c. ref_cnt (blk q c) = ref_cnt (blk p c) + of_bool (c = b))"
proof -
  have alloc: "alloc_inv p" and cache: "cache_inv p" using inv by (auto simp: pool_inv_def)
  obtain fs where fs: "queue_rep (free_block_queue p) fs" "set fs = free_set p" "distinct fs"
    using alloc_inv_free [OF alloc] by metis
  let ?s = "(blk p)(b := (blk p b)\<lparr>ref_cnt := ref_cnt (blk p b) + 1\<rparr>)"
  have upd: "upd_blk b (\<lambda>k. k\<lparr>ref_cnt := ref_cnt k + 1\<rparr>) (p\<lparr>free_block_queue := fq\<rparr>) =
      p\<lparr>blk := ?s, free_block_queue := fq\<rparr>" for fq
    by (simp add: upd_blk_def)
  have frame: "cache_inv (p\<lparr>blk := ?s, free_block_queue := fq\<rparr>)" "owned (p\<lparr>blk := ?s, free_block_queue := fq\<rparr>) = owned p" for fq
    using cache_inv_ref [OF cache, of ?s fq] owned_ref [of ?s p fq] by simp_all
  show ?thesis
  proof (cases "ref_cnt (blk p b) = 0 \<and> \<not> is_null (blk p b)")
    case True
    then have "b \<in> set fs" using fs b by (simp add: free_set_def)
    then obtain fq where fq: "remove_block b (free_block_queue p) = Inr fq" "queue_rep fq (remove1 b fs)"
      using remove_block_rep [OF fs(1)] by blast
    let ?q = "p\<lparr>blk := ?s, free_block_queue := fq\<rparr>"
    have "free_set ?q = free_set p - {b}" using True by (auto simp: free_set_def)
    then have "set (remove1 b fs) = free_set ?q" by (simp only: set_remove1_eq [OF fs(3)] fs(2))
    moreover have "0 \<le> ref_cnt (blk ?q c)" if "c \<in> set (blocks p)" "c \<noteq> Block 0" for c
      using that alloc True by (simp add: alloc_inv_def)
    ultimately have "alloc_inv ?q" using alloc fq(2) by (auto simp: alloc_inv_def)
    then show ?thesis
      using True fq(1) frame upd [of fq] by (intro exI [of _ ?q]) (auto simp: touch_block_def pool_inv_def)
  next
    case False
    let ?q = "p\<lparr>blk := ?s, free_block_queue := free_block_queue p\<rparr>"
    have nonneg: "0 \<le> ref_cnt (blk p c)" if "c \<in> set (blocks p)" "c \<noteq> Block 0" for c
      using that alloc by (auto simp: alloc_inv_def)
    have null: "is_null (blk p c) \<longleftrightarrow> c = Block 0" for c using alloc by (auto simp: alloc_inv_def)
    have "free_set ?q = free_set p"
      using False nonneg [OF b] null [of b] by (auto simp: free_set_def)
    moreover have "0 \<le> ref_cnt (blk ?q c)" if "c \<in> set (blocks p)" "c \<noteq> Block 0" for c
      using that nonneg by auto
    ultimately have "alloc_inv ?q" using alloc fs by (auto simp: alloc_inv_def)
    then show ?thesis
      using False frame [of "free_block_queue p"] upd [of "free_block_queue p"]
      by (intro exI [of _ ?q]) (auto simp: touch_block_def pool_inv_def)
  qed
qed

lemma touch_spec:
  assumes "pool_inv p" and "set bs \<subseteq> set (blocks p)"
  shows "\<exists>q. touch bs p = Inr q \<and> pool_inv q \<and> blocks q = blocks p \<and> owned q = owned p
    \<and> (\<forall>c. ref_cnt (blk q c) = ref_cnt (blk p c) + int (count_list bs c))"
  using assms
proof (induction bs arbitrary: p)
  case (Cons b bs)
  obtain p1 where p1: "touch_block b p = Inr p1" "pool_inv p1" "blocks p1 = blocks p" "owned p1 = owned p"
    "\<forall>c. ref_cnt (blk p1 c) = ref_cnt (blk p c) + of_bool (c = b)"
    using touch_block_spec [of p b] Cons.prems by auto
  obtain q where "touch bs p1 = Inr q" "pool_inv q" "blocks q = blocks p1" "owned q = owned p1"
    "\<forall>c. ref_cnt (blk q c) = ref_cnt (blk p1 c) + int (count_list bs c)"
    using Cons.IH [of p1] p1 Cons.prems by auto
  with p1 show ?case by (intro exI [of _ q]) (auto simp: touch_def)
qed (simp add: touch_def)

text \<open>
  The release loop lowers every count by the number of occurrences and collects, in the order of
  their last occurrence, the blocks whose count reaches zero.
\<close>

definition released :: "(block_ref \<Rightarrow> kv_block) \<Rightarrow> block_ref list \<Rightarrow> block_ref list" where
  "released s bs = filter (\<lambda>b. ref_cnt (s b) = int (count_list bs b) \<and> \<not> is_null (s b)) (remdups bs)"

lemma release_loop_spec:
  assumes "\<forall>b\<in>set bs. \<not> is_null (s b) \<longrightarrow> int (count_list bs b) \<le> ref_cnt (s b)"
  shows "release_loop bs s w h =
    (\<lambda>b. (s b)\<lparr>ref_cnt := ref_cnt (s b) - int (count_list bs b)\<rparr>,
     w @ filter (\<lambda>b. block_hash (s b) = None) (released s bs),
     h @ filter (\<lambda>b. block_hash (s b) \<noteq> None) (released s bs))"
  using assms
proof (induction bs arbitrary: s w h)
  case Nil
  then show ?case by (simp add: released_def)
next
  case (Cons b bs)
  let ?s = "s(b := (s b)\<lparr>ref_cnt := ref_cnt (s b) - 1\<rparr>)"
  have pre: "\<forall>c\<in>set bs. \<not> is_null (?s c) \<longrightarrow> int (count_list bs c) \<le> ref_cnt (?s c)"
    using Cons.prems by auto
  have fin: "(\<lambda>c. (?s c)\<lparr>ref_cnt := ref_cnt (?s c) - int (count_list bs c)\<rparr>) =
      (\<lambda>c. (s c)\<lparr>ref_cnt := ref_cnt (s c) - int (count_list (b # bs) c)\<rparr>)"
    by (auto simp: fun_eq_iff)
  let ?P = "\<lambda>c. ref_cnt (s c) = int (count_list (b # bs) c) \<and> \<not> is_null (s c)"
  have rs: "released ?s bs = filter ?P (remdups bs)" unfolding released_def by (rule filter_cong) auto
  have rb: "released s (b # bs) = filter ?P (remdups (b # bs))" by (simp only: released_def)
  have rel: "released s (b # bs) =
      (if ref_cnt (?s b) = 0 \<and> \<not> is_null (s b) then b # released ?s bs else released ?s bs)"
  proof (cases "b \<in> set bs")
    case True
    then have "count_list bs b \<noteq> 0" by (simp add: count_list_0_iff)
    moreover have "is_null (s b) \<or> int (count_list bs b) \<le> ref_cnt (?s b)" using pre True by fastforce
    ultimately have "\<not> (ref_cnt (?s b) = 0 \<and> \<not> is_null (s b))" by linarith
    then show ?thesis using True by (simp only: rs rb remdups.simps if_True if_False)
  next
    case False
    then have "?P b \<longleftrightarrow> ref_cnt (?s b) = 0 \<and> \<not> is_null (s b)" by (auto simp: count_list_0_iff)
    then show ?thesis using False by (simp only: rs rb remdups.simps filter.simps if_False)
  qed
  have step: "release_loop (b # bs) s w h =
      (if ref_cnt (?s b) = 0 \<and> \<not> is_null (s b)
       then if block_hash (s b) = None then release_loop bs ?s (w @ [b]) h else release_loop bs ?s w (h @ [b])
       else release_loop bs ?s w h)"
    by (simp add: Let_def)
  have hash: "block_hash (?s c) = block_hash (s c)" for c by simp
  show ?case unfolding step rel Cons.IH [OF pre] fin hash by simp
qed

lemma distinct_released: "distinct (released s bs)"
  by (simp add: released_def)

lemma free_blocks_spec:
  assumes inv: "pool_inv p" and sub: "set bs \<subseteq> set (blocks p)"
    and refs: "\<forall>b\<in>set bs. b \<noteq> Block 0 \<longrightarrow> int (count_list bs b) \<le> ref_cnt (blk p b)"
    and fs: "queue_rep (free_block_queue p) fs"
  shows "\<exists>q. free_blocks bs p = Inr q \<and> pool_inv q \<and> blocks q = blocks p \<and> owned q = owned p
    \<and> (\<forall>c. ref_cnt (blk q c) = ref_cnt (blk p c) - int (count_list bs c))
    \<and> queue_rep (free_block_queue q)
        (filter (\<lambda>b. owned p b = {}) (released (blk p) bs) @ fs @ filter (\<lambda>b. owned p b \<noteq> {}) (released (blk p) bs))"
proof -
  have alloc: "alloc_inv p" and cache: "cache_inv p" using inv by (auto simp: pool_inv_def)
  have setfs: "set fs = free_set p" and distfs: "distinct fs" and real: "\<forall>b\<in>set (blocks p). real_block b"
    using alloc_inv_free [OF alloc] fq.rep_fun [OF fs] by metis+
  have null: "is_null (blk p b) \<longleftrightarrow> b = Block 0" for b using alloc by (auto simp: alloc_inv_def)
  have nonneg: "0 \<le> ref_cnt (blk p c)" if "c \<in> set (blocks p)" "c \<noteq> Block 0" for c
    using that alloc by (auto simp: alloc_inv_def)
  let ?s = "\<lambda>b. (blk p b)\<lparr>ref_cnt := ref_cnt (blk p b) - int (count_list bs b)\<rparr>"
  let ?rel = "released (blk p) bs"
  let ?us = "filter (\<lambda>b. block_hash (blk p b) = None) ?rel" and ?hs = "filter (\<lambda>b. block_hash (blk p b) \<noteq> None) ?rel"
  have loop: "release_loop bs (blk p) [] [] = (?s, ?us, ?hs)"
    using release_loop_spec [of bs "blk p" "[]" "[]"] refs null by simp
  have relset: "set ?rel = {b \<in> set bs. ref_cnt (blk p b) = int (count_list bs b) \<and> b \<noteq> Block 0}"
    by (auto simp: released_def null)
  have relfree: "set ?rel \<inter> set fs = {}"
  proof -
    have "ref_cnt (blk p b) \<noteq> 0" if "b \<in> set ?rel" for b
      using that count_list_0_iff [of bs b] by (simp add: relset)
    then show ?thesis by (auto simp: setfs free_set_def)
  qed
  have "distinct (?us @ fs @ ?hs)" using distfs relfree distinct_released [of "blk p" bs] by auto
  moreover have "\<forall>b\<in>set ?us \<union> set ?hs. real_block b" using relset sub real by auto
  ultimately obtain fq where fq: "res_bind (prepend_n ?us (free_block_queue p)) (append_n ?hs) = Inr fq"
    "queue_rep fq (?us @ fs @ ?hs)"
    using fq.push_both_rep [OF fs] by blast
  let ?q = "p\<lparr>blk := ?s, free_block_queue := fq\<rparr>"
  have eq: "free_blocks bs p = Inr ?q" using loop fq(1) by (simp add: free_blocks_def)
  have own: "owned ?q = owned p" by (rule owned_ref) simp
  have inv1: "cache_inv ?q" by (rule cache_inv_ref [OF cache]) simp_all
  have inv2: "alloc_inv ?q"
  proof -
    have "ref_cnt (blk p b) \<noteq> 0" if "b \<in> set bs" "b \<noteq> Block 0" for b
      using that refs count_list_0_iff [of bs b] by fastforce
    then have "free_set ?q = set fs \<union> set ?rel"
      unfolding setfs relset using sub nonneg count_list_0_iff [of bs] null by (auto simp: free_set_def)
    then have "set (?us @ fs @ ?hs) = free_set ?q" by auto
    moreover have "0 \<le> ref_cnt (?s c)" if "c \<in> set (blocks p)" "c \<noteq> Block 0" for c
      using that nonneg refs count_list_0_iff [of bs c] by (cases "c \<in> set bs") auto
    ultimately show ?thesis using alloc fq(2) by (auto simp: alloc_inv_def)
  qed
  have hash: "block_hash (blk p b) = None \<longleftrightarrow> owned p b = {}" if "b \<in> set ?rel" for b
    using that relset sub cache_invD(4) [OF cache, of b] by (auto simp: owned_def)
  have us: "?us = filter (\<lambda>b. owned p b = {}) ?rel" by (rule filter_cong [OF refl hash])
  have hs: "?hs = filter (\<lambda>b. owned p b \<noteq> {}) ?rel" by (rule filter_cong [OF refl]) (simp only: hash)
  have rep: "queue_rep fq (filter (\<lambda>b. owned p b = {}) ?rel @ fs @ filter (\<lambda>b. owned p b \<noteq> {}) ?rel)"
    using fq(2) by (simp only: us hs)
  show ?thesis
  proof (intro exI [of _ ?q] conjI)
    show "pool_inv ?q" using inv1 inv2 by (simp only: pool_inv_def)
  qed (use eq own rep in simp_all)
qed

section \<open>Evicting, resetting, creating\<close>

lemma evict_one_spec:
  assumes inv: "pool_inv p" and i: "- int (length (blocks p)) \<le> i" "i < int (length (blocks p))"
  shows "\<exists>b q. py_index (blocks p) i = Inr b \<and> evict_one i p = Inr q \<and> pool_inv q \<and> alloc_eq p q
    \<and> owned q b = {} \<and> (\<forall>c\<in>set (blocks p). c \<noteq> b \<longrightarrow> owned q c = owned p c)"
proof -
  obtain b where b: "py_index (blocks p) i = Inr b" "b \<in> set (blocks p)"
    using py_index_mem [OF i] by blast
  obtain f q where e: "maybe_evict_cached_block b p = (f, q)" by fastforce
  have "cache_inv p" "alloc_inv p" using inv by (auto simp: pool_inv_def)
  with maybe_evict_spec [OF _ b(2) e] b e i(2) alloc_inv_eq show ?thesis
    by (intro exI [of _ b] exI [of _ q]) (auto simp: evict_one_def pool_inv_def)
qed

lemma evict_blocks_spec:
  assumes "pool_inv p" and "\<forall>i\<in>set ids. 0 \<le> i \<and> i < int (length (blocks p))"
  shows "\<exists>q. evict_blocks ids p = Inr q \<and> pool_inv q \<and> alloc_eq p q
    \<and> (\<forall>c\<in>set (blocks p). owned q c = (if block_id c \<in> set ids then {} else owned p c))"
  using assms
proof (induction ids arbitrary: p)
  case (Cons i ids)
  obtain b p1 where b: "py_index (blocks p) i = Inr b" and p1: "evict_one i p = Inr p1" "pool_inv p1"
    "alloc_eq p p1" "owned p1 b = {}" "\<forall>c\<in>set (blocks p). c \<noteq> b \<longrightarrow> owned p1 c = owned p c"
    using evict_one_spec [of p i] Cons.prems by auto
  have blocks: "blocks p1 = blocks p" using p1(3) by (simp add: eq_defs)
  have bs: "blocks p = map Block [0..<nat (num_gpu_blocks p)]"
    using Cons.prems(1) by (simp add: pool_inv_def alloc_inv_def)
  have "b = Block (nat i)" using b Cons.prems(2) by (auto simp: py_index_def bs split: if_splits)
  then have id: "block_id c = i \<longleftrightarrow> c = b" if "c \<in> set (blocks p)" for c
    using that Cons.prems(2) by (auto simp: bs)
  obtain q where "evict_blocks ids p1 = Inr q" "pool_inv q" "alloc_eq p1 q"
    "\<forall>c\<in>set (blocks p1). owned q c = (if block_id c \<in> set ids then {} else owned p1 c)"
    using Cons.IH [of p1] p1 Cons.prems blocks by auto
  with p1 blocks id show ?case
    by (intro exI [of _ q]) (auto simp: evict_blocks_def intro: alloc_eq_trans)
qed (simp add: evict_blocks_def)

lemma fold_reset_sel:
  "blk (fold (\<lambda>b q. upd_blk b reset_hash q) bs p) c = (if c \<in> set bs then reset_hash (blk p c) else blk p c)
   \<and> alloc_eq p (fold (\<lambda>b q. upd_blk b reset_hash q) bs p)
   \<and> cached_block_hash_to_block (fold (\<lambda>b q. upd_blk b reset_hash q) bs p) = cached_block_hash_to_block p
   \<and> cached_block_hashes_by_block (fold (\<lambda>b q. upd_blk b reset_hash q) bs p) = cached_block_hashes_by_block p"
proof (induction bs arbitrary: p)
  case (Cons b bs)
  have "alloc_eq p (upd_blk b reset_hash p)" by (simp add: eq_defs)
  moreover have "reset_hash (reset_hash k) = reset_hash k" for k by (simp add: reset_hash_def)
  ultimately show ?case
    using Cons [of "upd_blk b reset_hash p"] alloc_eq_trans by auto
qed simp

lemma reset_prefix_cache_spec:
  assumes inv: "pool_inv p"
  shows "fst (reset_prefix_cache p) \<longleftrightarrow> (\<forall>b\<in>set (blocks p). b \<noteq> Block 0 \<longrightarrow> ref_cnt (blk p b) = 0)"
    and "pool_inv (snd (reset_prefix_cache p))" and "alloc_eq p (snd (reset_prefix_cache p))"
    and "fst (reset_prefix_cache p) \<Longrightarrow> b \<in> set (blocks p) \<Longrightarrow> owned (snd (reset_prefix_cache p)) b = {}"
    and "\<not> fst (reset_prefix_cache p) \<Longrightarrow> snd (reset_prefix_cache p) = p"
proof -
  have alloc: "alloc_inv p" and cache: "cache_inv p" using inv by (auto simp: pool_inv_def)
  obtain fs where fs: "set fs = free_set p" "distinct fs" "get_num_free_blocks p = int (length fs)"
    using alloc_inv_free [OF alloc] by metis
  have bs: "blocks p = map Block [0..<nat (num_gpu_blocks p)]" "0 < num_gpu_blocks p"
    and null: "\<And>b. is_null (blk p b) \<longleftrightarrow> b = Block 0"
    using alloc by (auto simp: alloc_inv_def)
  have all: "card (set (blocks p)) = nat (num_gpu_blocks p)" "Block 0 \<in> set (blocks p)"
    using bs by (auto simp: bs(1) card_image inj_on_def)
  have "length fs = card (free_set p)" using fs distinct_card by metis
  moreover have sub: "free_set p \<subseteq> set (blocks p) - {Block 0}" using null by (auto simp: free_set_def)
  moreover have "card (set (blocks p) - {Block 0}) = nat (num_gpu_blocks p) - 1" using all by simp
  ultimately have "length fs = nat (num_gpu_blocks p) - 1 \<longleftrightarrow> free_set p = set (blocks p) - {Block 0}"
    by (metis card_subset_eq finite_Diff finite_set)
  moreover have "fst (reset_prefix_cache p) \<longleftrightarrow> length fs = nat (num_gpu_blocks p) - 1"
    using bs(2) fs(3) by (auto simp: reset_prefix_cache_def Let_def)
  ultimately show "fst (reset_prefix_cache p) \<longleftrightarrow> (\<forall>b\<in>set (blocks p). b \<noteq> Block 0 \<longrightarrow> ref_cnt (blk p b) = 0)"
    using null by (auto simp: free_set_def)
  let ?q = "fold (\<lambda>b q. upd_blk b reset_hash q) (blocks p)
      (p\<lparr>cached_block_hash_to_block := [], cached_block_hashes_by_block := []\<rparr>)"
  have sel: "snd (reset_prefix_cache p) \<in> {p, ?q, emit_event AllBlocksCleared ?q}"
    "fst (reset_prefix_cache p) \<Longrightarrow> snd (reset_prefix_cache p) \<in> {?q, emit_event AllBlocksCleared ?q}"
    by (auto simp: reset_prefix_cache_def Let_def)
  note R = fold_reset_sel [of "blocks p" "p\<lparr>cached_block_hash_to_block := [], cached_block_hashes_by_block := []\<rparr>"]
  have eq: "alloc_eq p ?q" using R by (auto simp: eq_defs)
  have own: "owned ?q b = {}" if "b \<in> set (blocks p)" for b
    using R that by (simp add: owned_def aliases_def)
  have "cache_inv ?q"
    using R cache own eq by (auto simp: cache_inv_def map_ok_def map_blocks_def eq_defs aliases_def)
  then have q: "pool_inv ?q" using eq alloc alloc_inv_eq by (auto simp: pool_inv_def)
  have qe: "pool_inv (emit_event e ?q)" "alloc_eq p (emit_event e ?q)" for e
    using q alloc_inv_eq [OF emit_event_frame(1)] alloc_eq_trans [OF eq emit_event_frame(1)]
    by (simp_all add: pool_inv_def)
  show "pool_inv (snd (reset_prefix_cache p))" "alloc_eq p (snd (reset_prefix_cache p))"
    using sel(1) inv q qe eq by auto
  show "owned (snd (reset_prefix_cache p)) b = {}" if "fst (reset_prefix_cache p)" "b \<in> set (blocks p)"
    using sel(2) that own by auto
  show "snd (reset_prefix_cache p) = p" if "\<not> fst (reset_prefix_cache p)"
    using that by (auto simp: reset_prefix_cache_def Let_def split: if_splits)
qed

lemma block_pool_init_spec:
  assumes "0 < n"
  shows "\<exists>p. block_pool_init n caching hash_bs int_hashes events = Inr p \<and> pool_inv p \<and> num_gpu_blocks p = n
    \<and> enable_caching p = caching \<and> hash_block_size p = hash_bs
    \<and> (\<forall>b\<in>set (blocks p). owned p b = {} \<and> ref_cnt (blk p b) = 0)"
proof -
  let ?bs = "map Block [0..<nat n]"
  have "distinct (FakeHead # FakeTail # ?bs)" by (auto simp: distinct_map inj_on_def)
  then have rep: "queue_rep (free_queue_init ?bs) ?bs" by (rule free_queue_init_rep)
  have split: "?bs = Block 0 # map Block [1..<nat n]"
    using assms by (simp add: upt_conv_Cons)
  obtain q where q: "popleft (free_queue_init ?bs) = Inr (Block 0, q)" "queue_rep q (map Block [1..<nat n])"
    using popleft_rep rep unfolding split by metis
  have "set (map Block [1..<nat n]) = {b \<in> set ?bs. b \<noteq> Block 0}" by auto
  with q assms show ?thesis
    by (auto simp: block_pool_init_def Let_def pool_inv_def alloc_inv_def cache_inv_def free_set_def
        fresh_block_def map_ok_def map_blocks_def owned_def aliases_def)
qed

section \<open>Lookup\<close>

lemma get_cached_block_spec:
  assumes inv: "cache_inv p" and g: "\<forall>g\<in>set gs. 0 \<le> g \<and> g < 2 ^ 32"
  shows "(\<exists>bs. get_cached_block p h gs = Inr (Some bs) \<and>
            list_all2 (\<lambda>g b. b \<in> set (blocks p) \<and> (\<exists>key. make_block_hash_with_group_id h g = Inr key \<and> key \<in> owned p b)) gs bs)
       \<or> (get_cached_block p h gs = Inr None \<and>
            (\<exists>g\<in>set gs. \<exists>key. make_block_hash_with_group_id h g = Inr key \<and> (\<forall>b\<in>set (blocks p). key \<notin> owned p b)))"
  using g
proof (induction gs)
  case (Cons g gs)
  note I = cache_invD [OF inv]
  obtain key where key: "make_block_hash_with_group_id h g = Inr key"
    using Cons.prems by (simp add: make_block_hash_with_group_id_def to_bytes4_def)
  have IH: "(\<exists>bs. get_cached_block p h gs = Inr (Some bs) \<and>
            list_all2 (\<lambda>g b. b \<in> set (blocks p) \<and> (\<exists>key. make_block_hash_with_group_id h g = Inr key \<and> key \<in> owned p b)) gs bs)
       \<or> (get_cached_block p h gs = Inr None \<and>
            (\<exists>g\<in>set gs. \<exists>key. make_block_hash_with_group_id h g = Inr key \<and> (\<forall>b\<in>set (blocks p). key \<notin> owned p b)))"
    using Cons by simp
  from get_one_block_spec [OF I(1), of key] show ?case
  proof (elim disjE conjE exE)
    assume "map_blocks (cached_block_hash_to_block p) key = {}"
      and "get_one_block (cached_block_hash_to_block p) key = Inr None"
    moreover from this have "\<forall>b\<in>set (blocks p). key \<notin> owned p b" using I(3) by blast
    ultimately show ?case using key by (intro disjI2) simp
  next
    fix b assume b: "get_one_block (cached_block_hash_to_block p) key = Inr (Some b)"
      and "b \<in> map_blocks (cached_block_hash_to_block p) key"
    then have own: "b \<in> set (blocks p)" "key \<in> owned p b" using I(3) by blast+
    from IH show ?case
    proof (elim disjE conjE exE)
      fix bs assume "get_cached_block p h gs = Inr (Some bs)"
        "list_all2 (\<lambda>g b. b \<in> set (blocks p) \<and> (\<exists>key. make_block_hash_with_group_id h g = Inr key \<and> key \<in> owned p b)) gs bs"
      then show ?case using key b own by (intro disjI1 exI [of _ "b # bs"]) simp
    next
      assume "get_cached_block p h gs = Inr None"
        "\<exists>g\<in>set gs. \<exists>key. make_block_hash_with_group_id h g = Inr key \<and> (\<forall>b\<in>set (blocks p). key \<notin> owned p b)"
      then show ?case using key b by (intro disjI2) auto
    qed
  qed
qed simp

section \<open>Caching\<close>

text \<open>The block at index \<open>i\<close> of the new full blocks is not skipped.\<close>

definition caches :: "bool list option \<Rightarrow> block_pool \<Rightarrow> nat \<times> block_ref \<Rightarrow> bool" where
  "caches bmask p ib \<longleftrightarrow> \<not> is_null (blk p (snd ib)) \<and> masked_out bmask (int (fst ib)) = Inr False"

lemma cache_one_full_block_spec:
  assumes inv: "cache_inv p" and b: "b \<in> set (blocks p)"
    and eq: "cache_one_full_block nbh nc bs g bmask (i, b) (p, nh) = Inr (q, nh')"
  shows "cache_inv q \<and> alloc_eq p q
    \<and> (\<forall>c\<in>set (blocks p). c \<noteq> b \<longrightarrow> owned q c = owned p c \<and> blk q c = blk p c)
    \<and> (if caches bmask p (i, b)
       then \<exists>h key. py_index nbh (int i) = Inr h \<and> make_block_hash_with_group_id h g = Inr key \<and> owned q b = {key}
       else q = p)"
proof (cases "caches bmask p (i, b)")
  case False
  then have "q = p"
    using eq by (auto simp: cache_one_full_block_def caches_def res_bind_Inr_iff split: if_splits)
  with False inv show ?thesis by simp
next
  case True
  then have null: "\<not> is_null (blk p b)" and m: "masked_out bmask (int i) = Inr False"
    by (simp_all add: caches_def)
  obtain h key p1 where h: "py_index nbh (int i) = Inr h" and key: "make_block_hash_with_group_id h g = Inr key"
    and p1: "(if block_hash (blk p b) \<noteq> None
             then res_bind (res_guard (case block_hash_num_tokens (blk p b) of
                                None \<Rightarrow> False | Some n \<Rightarrow> n < (nc + int i + 1) * bs) AssertionError) (\<lambda>_.
                    let (removed, p') = remove_cached_block_hashes b p
                    in Inr (emit_block_removed_events removed p'))
             else Inr p) = Inr p1"
    and q: "insert_block_hash key b (Some ((nc + int i + 1) * bs)) p1 = Inr q"
    using eq null m by (auto simp: cache_one_full_block_def Let_def res_bind_Inr_iff)
  have mid: "cache_inv p1 \<and> alloc_eq p p1 \<and> owned p1 b = {}
      \<and> (\<forall>c\<in>set (blocks p). c \<noteq> b \<longrightarrow> owned p1 c = owned p c \<and> blk p1 c = blk p c)"
  proof (cases "block_hash (blk p b) = None")
    case True
    then show ?thesis using p1 inv cache_invD(4) [OF inv b] by simp
  next
    case False
    obtain removed p' where r: "remove_cached_block_hashes b p = (removed, p')" by fastforce
    note R = remove_cached_block_hashes_spec [OF inv b r]
    have "p1 = emit_block_removed_events removed p'"
      using p1 False r by (simp add: res_bind_Inr_iff del: not_None_eq)
    then show ?thesis using R emit_removed_frame [of p' removed] alloc_eq_trans by metis
  qed
  then have "b \<in> set (blocks p1)" "\<not> is_null (blk p1 b)" "blocks p1 = blocks p"
    using b null by (auto simp: eq_defs)
  with insert_block_hash_spec [of p1 b key "Some ((nc + int i + 1) * bs)"] mid q
  have "cache_inv q \<and> alloc_eq p1 q \<and> owned q b = {key}
      \<and> (\<forall>c\<in>set (blocks p). c \<noteq> b \<longrightarrow> owned q c = owned p c \<and> blk q c = blk p c)"
    by auto
  with True mid h key show ?thesis using alloc_eq_trans by auto
qed

lemma cache_fold_spec:
  assumes "cache_inv p" and "snd ` set ibs \<subseteq> set (blocks p)"
    and "distinct (filter (\<lambda>b. \<not> is_null (blk p b)) (map snd ibs))"
    and "res_fold (cache_one_full_block nbh nc bs g bmask) ibs (p, nh) = Inr (q, nh')"
  shows "cache_inv q \<and> alloc_eq p q
    \<and> (\<forall>(i, b)\<in>set ibs. caches bmask p (i, b) \<longrightarrow>
         (\<exists>h key. py_index nbh (int i) = Inr h \<and> make_block_hash_with_group_id h g = Inr key \<and> owned q b = {key}))
    \<and> (\<forall>c\<in>set (blocks p). (\<forall>i. (i, c) \<in> set ibs \<longrightarrow> \<not> caches bmask p (i, c)) \<longrightarrow> owned q c = owned p c)"
  using assms
proof (induction ibs arbitrary: p nh)
  case (Cons ib ibs)
  obtain i b where ib: "ib = (i, b)" by fastforce
  obtain p1 nh1 where st: "cache_one_full_block nbh nc bs g bmask (i, b) (p, nh) = Inr (p1, nh1)"
    and rest: "res_fold (cache_one_full_block nbh nc bs g bmask) ibs (p1, nh1) = Inr (q, nh')"
    using Cons.prems(4) by (auto simp: ib res_bind_Inr_iff)
  have b: "b \<in> set (blocks p)" using Cons.prems(2) by (simp add: ib)
  note O = cache_one_full_block_spec [OF Cons.prems(1) b st]
  have eq: "blocks p1 = blocks p" "\<And>c. is_null (blk p1 c) = is_null (blk p c)" using O by (auto simp: eq_defs)
  have ca: "caches bmask p1 = caches bmask p" by (simp add: fun_eq_iff caches_def eq(2))
  have IH: "cache_inv q \<and> alloc_eq p1 q
    \<and> (\<forall>(i, b)\<in>set ibs. caches bmask p (i, b) \<longrightarrow>
         (\<exists>h key. py_index nbh (int i) = Inr h \<and> make_block_hash_with_group_id h g = Inr key \<and> owned q b = {key}))
    \<and> (\<forall>c\<in>set (blocks p). (\<forall>i. (i, c) \<in> set ibs \<longrightarrow> \<not> caches bmask p (i, c)) \<longrightarrow> owned q c = owned p1 c)"
    using Cons.IH [OF _ _ _ rest] O Cons.prems(2,3) by (auto simp: ca eq ib split: if_splits)
  have later: "owned q b = owned p1 b" if "caches bmask p (i, b)"
  proof -
    have "\<forall>j. (j, b) \<notin> set ibs"
      using that Cons.prems(3) by (force simp: ib caches_def)
    then show ?thesis using IH b by blast
  qed
  have keep: "owned q c = owned p c"
    if c: "c \<in> set (blocks p)" and no: "\<forall>i. (i, c) \<in> set (ib # ibs) \<longrightarrow> \<not> caches bmask p (i, c)" for c
  proof -
    have "owned q c = owned p1 c" using IH c no by auto
    also have "\<dots> = owned p c" using O c no by (cases "c = b") (auto simp: ib)
    finally show ?thesis .
  qed
  have hits: "\<exists>h key. py_index nbh (int j) = Inr h \<and> make_block_hash_with_group_id h g = Inr key \<and> owned q c = {key}"
    if "(j, c) \<in> set (ib # ibs)" "caches bmask p (j, c)" for j c
    using that IH O later by (auto simp: ib)
  show ?case
  proof (intro conjI)
    show "cache_inv q" using IH by (rule conjunct1)
    show "alloc_eq p q" using IH O by (meson alloc_eq_trans)
    show "\<forall>c\<in>set (blocks p). (\<forall>i. (i, c) \<in> set (ib # ibs) \<longrightarrow> \<not> caches bmask p (i, c)) \<longrightarrow> owned q c = owned p c"
      using keep by blast
  qed (use hits in fast)
qed simp

lemma emit_stored_event_pool:
  "emit_stored_event sha256 r bs nc nf block_size g bmask hl (p, nh) = Inr (r', q) \<Longrightarrow> q = p \<or> (\<exists>e. q = emit_event e p)"
  by (auto simp: emit_stored_event_def Let_def res_bind_Inr_iff case_prod_beta split: if_splits)

lemma emit_partial_event_pool:
  "emit_partial_event sha256 r n g h c p = Inr (r', q) \<Longrightarrow> q = p \<or> (\<exists>e. q = emit_event e p)"
  by (auto simp: emit_partial_event_def Let_def res_bind_Inr_iff case_prod_beta split: if_splits)

lemma cache_full_blocks_spec:
  assumes inv: "pool_inv p" and sub: "set bs \<subseteq> set (blocks p)"
    and dist: "distinct (filter (\<lambda>b. b \<noteq> Block 0) bs)"
    and range: "0 \<le> nc" "nc < nf" "nf \<le> int (length bs)"
    and eq: "cache_full_blocks sha256 r bs nc nf block_size g bmask p = Inr (r', q)"
  shows "pool_inv q \<and> alloc_eq p q \<and>
    (\<exists>hl nbh. request_hash_list r (hash_block_size p) block_size = Inr hl \<and> hash_list_from hl nc = Inr nbh \<and>
      (\<forall>i<nat (nf - nc). let b = bs ! (nat nc + i) in b \<noteq> Block 0 \<and> masked_out bmask (int i) = Inr False \<longrightarrow>
         (\<exists>h key. py_index nbh (int i) = Inr h \<and> make_block_hash_with_group_id h g = Inr key \<and> owned q b = {key})))"
proof -
  have alloc: "alloc_inv p" and cache: "cache_inv p" using inv by (auto simp: pool_inv_def)
  have null: "is_null (blk p b) \<longleftrightarrow> b = Block 0" for b using alloc by (auto simp: alloc_inv_def)
  let ?new = "py_slice nc nf bs"
  have new: "?new = take (nat (nf - nc)) (drop (nat nc) bs)"
    using range by (simp add: py_slice_nonneg nat_diff_distrib)
  obtain hl nbh p1 nh where hl: "request_hash_list r (hash_block_size p) block_size = Inr hl"
    "hash_list_from hl nc = Inr nbh"
    and fold: "res_fold (cache_one_full_block nbh nc block_size g bmask) (List.enumerate 0 ?new) (p, []) = Inr (p1, nh)"
    and ev: "emit_stored_event sha256 r bs nc nf block_size g bmask hl (p1, nh) = Inr (r', q)"
    using eq range(2)
    by (auto simp: cache_full_blocks_def Let_def res_bind_Inr_iff res_guard_Inr_iff)
  note q = emit_stored_event_pool [OF ev]
  have "set ?new \<subseteq> set (blocks p)" using sub new by (metis in_set_dropD in_set_takeD subsetD subsetI)
  then have blocks: "snd ` set (List.enumerate 0 ?new) \<subseteq> set (blocks p)"
    by (metis list.set_map map_snd_enumerate)
  have "filter (\<lambda>b. b \<noteq> Block 0) bs = filter (\<lambda>b. b \<noteq> Block 0) (take (nat nc) bs) @ filter (\<lambda>b. b \<noteq> Block 0) ?new
      @ filter (\<lambda>b. b \<noteq> Block 0) (drop (nat (nf - nc)) (drop (nat nc) bs))"
    unfolding new filter_append [symmetric] append_take_drop_id ..
  then have "distinct (filter (\<lambda>b. b \<noteq> Block 0) ?new)"
    using dist by (simp only: distinct_append)
  then have "distinct (filter (\<lambda>b. \<not> is_null (blk p b)) (map snd (List.enumerate 0 ?new)))"
    by (simp add: null)
  note F = cache_fold_spec [OF cache blocks this fold]
  have len: "length ?new = nat (nf - nc)" using range by (simp add: new)
  have "\<exists>h key. py_index nbh (int i) = Inr h \<and> make_block_hash_with_group_id h g = Inr key \<and> owned p1 (bs ! (nat nc + i)) = {key}"
    if "i < nat (nf - nc)" "bs ! (nat nc + i) \<noteq> Block 0" "masked_out bmask (int i) = Inr False" for i
  proof -
    have nth: "?new ! i = bs ! (nat nc + i)" using that(1) range by (simp add: new)
    have "(i, bs ! (nat nc + i)) \<in> set (List.enumerate 0 ?new)"
      using that(1) nth len by (simp add: in_set_enumerate_eq)
    moreover have "caches bmask p (i, bs ! (nat nc + i))" using that by (simp add: caches_def null)
    ultimately show ?thesis using F by blast
  qed
  moreover have "pool_inv q \<and> alloc_eq p q \<and> owned q = owned p1"
    using q F alloc alloc_inv_eq alloc_eq_trans emit_event_frame unfolding pool_inv_def by metis
  ultimately show ?thesis using hl by (auto simp: Let_def)
qed

lemma cache_partial_block_spec:
  assumes inv: "pool_inv p" and b: "b \<in> set (blocks p)"
    and eq: "cache_partial_block sha256 r b n_tokens g block_size p = Inr (key, r', q)"
  shows "pool_inv q \<and> alloc_eq p q \<and> (case key of None \<Rightarrow> b = Block 0 \<and> q = p | Some k \<Rightarrow> k \<in> owned q b)
    \<and> (\<forall>c\<in>set (blocks p). c \<noteq> b \<longrightarrow> owned q c = owned p c)"
proof (cases "is_null (blk p b)")
  case True
  with eq inv show ?thesis by (auto simp: cache_partial_block_def pool_inv_def alloc_inv_def)
next
  case False
  have alloc: "alloc_inv p" and cache: "cache_inv p" using inv by (auto simp: pool_inv_def)
  obtain removed p' where r: "remove_cached_block_hashes b p = (removed, p')" by fastforce
  note R = remove_cached_block_hashes_spec [OF cache b r]
  obtain k n c p2 h where key: "key = Some k"
    and p2: "insert_block_hash k b (Some n) (drop_shorter_entries b c n p) = Inr p2"
    and ev: "emit_partial_event sha256 r n_tokens g h c p2 = Inr (r', q)"
    using eq False
    by (auto simp: cache_partial_block_def Let_def res_bind_Inr_iff res_guard_Inr_iff simp del: not_None_eq
        split: if_splits)
  note q = emit_partial_event_pool [OF ev]
  define p1 where "p1 = drop_shorter_entries b c n p"
  have p1: "p1 = p \<or> p1 = emit_block_removed_events removed p'"
    by (auto simp: p1_def drop_shorter_entries_def r)
  have mid: "cache_inv p1 \<and> alloc_eq p p1 \<and> (\<forall>c\<in>set (blocks p). c \<noteq> b \<longrightarrow> owned p1 c = owned p c)"
    using p1 cache R emit_removed_frame [of p' removed] alloc_eq_trans by (metis alloc_eq_refl)
  then have "b \<in> set (blocks p1)" "\<not> is_null (blk p1 b)" "blocks p1 = blocks p"
    using b False by (auto simp: eq_defs)
  with insert_block_hash_spec [of p1 b k "Some n"] mid p2 [folded p1_def]
  have ins: "cache_inv p2 \<and> alloc_eq p1 p2 \<and> k \<in> owned p2 b
      \<and> (\<forall>c\<in>set (blocks p). c \<noteq> b \<longrightarrow> owned p2 c = owned p c)"
    by auto
  then have "alloc_eq p p2" using mid alloc_eq_trans by blast
  then have "pool_inv q \<and> alloc_eq p q \<and> owned q = owned p2"
    using q ins alloc alloc_inv_eq alloc_eq_trans emit_event_frame unfolding pool_inv_def by metis
  with ins key show ?thesis by simp
qed

end
