(* ===== verification/BlockPoolSpec.thy ===== *)
theory BlockPoolSpec
  imports BlockPoolInv
begin

text \<open>
  Steps of the block pool, the states they reach, and the properties of the pool: the free queue is
  exactly the set of unreferenced blocks, allocation hands out only such blocks and hides them from
  lookup, lookup is sound and complete, freeing orders eviction, reset empties the cache.
\<close>

section \<open>Steps\<close>

text \<open>A call of the pool by its clients, within the contract of the call.\<close>

inductive pool_step :: "(bytes \<Rightarrow> bytes) \<Rightarrow> block_pool \<Rightarrow> block_pool \<Rightarrow> bool" for sha256 where
  alloc: "0 \<le> n \<Longrightarrow> get_new_blocks n p = Inr (bs, q) \<Longrightarrow> pool_step sha256 p q"
| touch: "set bs \<subseteq> set (blocks p) \<Longrightarrow> touch bs p = Inr q \<Longrightarrow> pool_step sha256 p q"
| release: "set bs \<subseteq> set (blocks p) \<Longrightarrow>
    \<forall>b\<in>set bs. b \<noteq> null_block p \<longrightarrow> int (count_list bs b) \<le> ref_cnt (blk p b) \<Longrightarrow>
    free_blocks bs p = Inr q \<Longrightarrow> pool_step sha256 p q"
| evict: "\<forall>i\<in>set ids. 0 \<le> i \<Longrightarrow> evict_blocks ids p = Inr q \<Longrightarrow> pool_step sha256 p q"
| reset: "reset_prefix_cache p = (ok, q) \<Longrightarrow> pool_step sha256 p q"
| full: "set bs \<subseteq> set (blocks p) \<Longrightarrow> distinct (filter (\<lambda>b. b \<noteq> null_block p) bs) \<Longrightarrow> 0 \<le> nc \<Longrightarrow>
    nf \<le> int (length bs) \<Longrightarrow> cache_full_blocks sha256 r bs nc nf block_size g bmask p = Inr (r', q) \<Longrightarrow>
    pool_step sha256 p q"
| partial: "b \<in> set (blocks p) \<Longrightarrow> cache_partial_block sha256 r b n g block_size p = Inr (key, r', q) \<Longrightarrow>
    pool_step sha256 p q"
| events: "take_events p = (es, q) \<Longrightarrow> pool_step sha256 p q"

inductive pool_reachable :: "(bytes \<Rightarrow> bytes) \<Rightarrow> block_pool \<Rightarrow> bool" for sha256 where
  init: "block_pool_init n caching hash_bs int_hashes events = Inr p \<Longrightarrow> pool_reachable sha256 p"
| step: "pool_reachable sha256 p \<Longrightarrow> pool_step sha256 p q \<Longrightarrow> pool_reachable sha256 q"

lemma pool_inv_null: "pool_inv p \<Longrightarrow> null_block p = Block 0"
  by (simp add: pool_inv_def alloc_inv_def)

lemma pool_inv_queue:
  assumes "pool_inv p"
  obtains fs where "queue_rep (free_block_queue p) fs" and "set fs = free_set p" and "distinct fs"
    and "get_num_free_blocks p = int (length fs)"
  using alloc_inv_free assms unfolding pool_inv_def by metis

lemma evict_blocks_range:
  "evict_blocks ids p = Inr q \<Longrightarrow> pool_inv p \<Longrightarrow> \<forall>i\<in>set ids. 0 \<le> i \<Longrightarrow>
   \<forall>i\<in>set ids. i < int (length (blocks p))"
proof (induction ids arbitrary: p)
  case (Cons i ids)
  then obtain p1 where p1: "evict_one i p = Inr p1" "evict_blocks ids p1 = Inr q"
    by (auto simp: evict_blocks_def res_bind_Inr_iff)
  then have i: "i < int (length (blocks p))" by (auto simp: evict_one_def res_bind_Inr_iff res_guard_Inr_iff)
  with evict_one_spec [OF Cons.prems(2), of i] p1(1) Cons.prems(3) have "pool_inv p1" "blocks p1 = blocks p"
    by (auto simp: eq_defs)
  with Cons.IH [OF p1(2)] Cons.prems(3) i show ?case by simp
qed simp

lemma pool_step_inv:
  assumes "pool_step sha256 p q" and inv: "pool_inv p"
  shows "pool_inv q"
  using assms(1)
proof (cases rule: pool_step.cases)
  case (alloc n bs)
  obtain fs where fs: "queue_rep (free_block_queue p) fs" using pool_inv_queue [OF inv] by metis
  have "n \<le> get_num_free_blocks p" using alloc(2) by (auto simp: get_new_blocks_def split: if_splits)
  from get_new_blocks_spec [OF inv fs alloc(1) this] alloc(2) show ?thesis by auto
next
  case (touch bs)
  with touch_spec [OF inv touch(1)] show ?thesis by auto
next
  case (release bs)
  obtain fs where fs: "queue_rep (free_block_queue p) fs" using pool_inv_queue [OF inv] by metis
  from free_blocks_spec [OF inv release(1) _ fs] release show ?thesis
    by (auto simp: pool_inv_null [OF inv])
next
  case (evict ids)
  with evict_blocks_range [OF evict(2) inv evict(1)] evict_blocks_spec [OF inv, of ids] show ?thesis by force
next
  case (reset ok)
  with reset_prefix_cache_spec(2) [OF inv] show ?thesis by simp
next
  case (full bs nc nf r block_size g bmask r')
  show ?thesis
  proof (cases "nc < nf")
    case True
    with cache_full_blocks_spec [OF inv full(1) _ full(3) True full(4,5)] full(2) show ?thesis
      by (auto simp: pool_inv_null [OF inv])
  next
    case False
    with full(5) inv show ?thesis by (simp add: cache_full_blocks_def)
  qed
next
  case (partial b r n g block_size key r')
  with cache_partial_block_spec [OF inv partial] show ?thesis by blast
next
  case (events es)
  then have "q = p \<or> q = p\<lparr>kv_event_queue := []\<rparr>" by (auto simp: take_events_def split: if_splits)
  then show ?thesis
    using inv
    by (auto simp: pool_inv_def alloc_inv_def cache_inv_def free_set_def owned_def aliases_def)
qed

lemma pool_reachable_inv: "pool_reachable sha256 p \<Longrightarrow> pool_inv p"
proof (induction rule: pool_reachable.induct)
  case (init n caching hash_bs int_hashes events p)
  then have "0 < n" by (auto simp: block_pool_init_def res_bind_Inr_iff res_guard_Inr_iff)
  with block_pool_init_spec [OF this, of caching hash_bs int_hashes events] init show ?case by auto
qed (rule pool_step_inv)

lemma lookup_owned:
  assumes "pool_inv p" and "get_cached_block p h gs = Inr (Some bs)" and "b \<in> set bs"
  shows "b \<in> set (blocks p) \<and> owned p b \<noteq> {}"
proof -
  have I: "cache_inv p" using assms(1) by (simp add: pool_inv_def)
  have "\<exists>key. b \<in> map_blocks (cached_block_hash_to_block p) key"
    using assms(2,3)
  proof (induction gs arbitrary: bs)
    case (Cons g gs)
    then obtain key c rest where "get_one_block (cached_block_hash_to_block p) key = Inr (Some c)"
      "get_cached_block p h gs = Inr (Some rest)" "bs = c # rest"
      by (auto simp: res_bind_Inr_iff split: option.splits)
    with Cons hi.one_hit [OF cache_invD(1) [OF I]] show ?case by auto
  qed simp
  then show ?thesis using cache_invD(3) [OF I] by blast
qed

lemma distinct_filter_slice: "distinct (filter P xs) \<Longrightarrow> distinct (filter P (take k (drop c xs)))"
  by (metis append_take_drop_id distinct_append filter_append)

section \<open>Caching succeeds\<close>

lemma mm_keys_loop_index: "idx \<le> snd (mm_keys_loop fs s e idx keys)"
proof (induction fs arbitrary: idx keys)
  case (Cons f fs)
  show ?case
    using Cons.IH [of "idx + 1" keys]
      Cons.IH [of "idx + 1" "keys @ [MmKey (mm_identifier f) (mm_start f - s)]"]
    by (simp add: Let_def)
qed simp

lemma generate_keys_total:
  assumes "0 \<le> idx"
  shows "\<exists>ks idx' r'. generate_block_hash_extra_keys sha256 r s e idx = Inr ((ks, idx'), r') \<and> 0 \<le> idx'"
proof -
  obtain a b where ab: "mm_keys_loop (drop (nat idx) (mm_features r)) s e idx [] = (a, b)" by fastforce
  then have "idx \<le> b" using mm_keys_loop_index [of idx "drop (nat idx) (mm_features r)" s e "[]"] by simp
  with ab assms have "\<exists>ks idx'. gen_mm_extra_hash_keys r s e idx = Inr (ks, idx') \<and> 0 \<le> idx'"
    by (simp add: gen_mm_extra_hash_keys_def Let_def)
  then obtain ks idx' where "gen_mm_extra_hash_keys r s e idx = Inr (ks, idx')" "0 \<le> idx'" by blast
  then show ?thesis
    by (cases "gen_prompt_embeds_extra_hash_keys sha256 r s e")
      (simp add: generate_block_hash_extra_keys_def Let_def)
qed

lemma collect_extra_keys_total:
  assumes "\<forall>i\<in>set is. 0 \<le> i \<and> i < int (length bs)" and "0 \<le> idx"
  shows "\<exists>st. res_fold (collect_extra_keys sha256 p bs nc block_size None) is (r, idx, acc) = Inr st"
  using assms
proof (induction "is" arbitrary: r idx acc)
  case (Cons i "is")
  obtain b where b: "py_index bs i = Inr b" using py_index_mem [of bs i] Cons.prems(1) by auto
  obtain ks idx' r' where k: "generate_block_hash_extra_keys sha256 r (i * block_size) (i * block_size + block_size) idx
      = Inr ((ks, idx'), r')" "0 \<le> idx'"
    using generate_keys_total [OF Cons.prems(2)] by blast
  show ?case
    using Cons.IH [of idx r acc] Cons.IH [of idx' r' "acc @ [ks]"] Cons.prems b k
    by (cases "is_null (blk p b)") (simp_all add: collect_extra_keys_def masked_out_def)
qed simp

lemma cache_fold_total:
  assumes "cache_inv p" and "snd ` set ibs \<subseteq> set (blocks p)"
    and "distinct (filter (\<lambda>b. \<not> is_null (blk p b)) (map snd ibs))"
    and "\<forall>(i, b)\<in>set ibs. i < length nbh \<and> (is_null (blk p b) \<or> block_hash (blk p b) = None)"
    and g: "0 \<le> g" "g < 2 ^ 32"
  shows "\<exists>st. res_fold (cache_one_full_block nbh nc bs g None) ibs (p, nh) = Inr st"
  using assms(1-4)
proof (induction ibs arbitrary: p nh)
  case (Cons ib ibs)
  obtain i b where ib: "ib = (i, b)" by fastforce
  have b: "b \<in> set (blocks p)" using Cons.prems(2) by (simp add: ib)
  have "\<exists>p1 nh1. cache_one_full_block nbh nc bs g None (i, b) (p, nh) = Inr (p1, nh1)"
  proof (cases "is_null (blk p b)")
    case True
    then show ?thesis by (simp add: cache_one_full_block_def)
  next
    case False
    then have "block_hash (blk p b) = None" "i < length nbh" using Cons.prems(4) by (auto simp: ib)
    moreover obtain key where "make_block_hash_with_group_id (nbh ! i) g = Inr key"
      using g by (simp add: make_block_hash_with_group_id_def to_bytes4_def)
    moreover obtain q where "insert_block_hash key b (Some ((nc + int i + 1) * bs)) p = Inr q"
      using insert_block_hash_spec [OF Cons.prems(1) b False] by blast
    ultimately show ?thesis using False by (simp add: cache_one_full_block_def masked_out_def py_index_def)
  qed
  then obtain p1 nh1 where st: "cache_one_full_block nbh nc bs g None (i, b) (p, nh) = Inr (p1, nh1)" by blast
  note O = cache_one_full_block_spec [OF Cons.prems(1) b st]
  have eq: "blocks p1 = blocks p" "\<And>c. is_null (blk p1 c) = is_null (blk p c)" using O by (auto simp: eq_defs)
  have none: "is_null (blk p1 c) \<or> block_hash (blk p1 c) = None" if c: "(j, c) \<in> set ibs" for j c
  proof (cases "c = b \<and> \<not> is_null (blk p b)")
    case True
    with c Cons.prems(3) show ?thesis by (force simp: ib)
  next
    case False
    moreover have "c \<in> set (blocks p)" using c Cons.prems(2) by force
    moreover have "is_null (blk p c) \<or> block_hash (blk p c) = None" using c Cons.prems(4) by force
    ultimately show ?thesis using O eq(2) by (cases "c = b") auto
  qed
  have "\<exists>st. res_fold (cache_one_full_block nbh nc bs g None) ibs (p1, nh1) = Inr st"
  proof (rule Cons.IH)
    show "\<forall>(i, b)\<in>set ibs. i < length nbh \<and> (is_null (blk p1 b) \<or> block_hash (blk p1 b) = None)"
      using none Cons.prems(4) by fastforce
  qed (use O Cons.prems(2,3) in \<open>auto simp: eq ib split: if_splits\<close>)
  with st show ?case by (simp add: ib)
qed simp

lemma cache_full_blocks_total:
  assumes inv: "pool_inv p" and sub: "set bs \<subseteq> set (blocks p)"
    and dist: "distinct (filter (\<lambda>b. b \<noteq> Block 0) bs)"
    and range: "0 \<le> nc" "nc < nf" "nf \<le> int (length bs)" and g: "0 \<le> g" "g < 2 ^ 32"
    and size: "hash_block_size p = block_size" and hashes: "nf \<le> int (length (block_hashes r))"
    and new: "\<forall>j<nat nf. nat nc \<le> j \<longrightarrow> bs ! j \<noteq> Block 0 \<longrightarrow> block_hash (blk p (bs ! j)) = None"
  shows "\<exists>st. cache_full_blocks sha256 r bs nc nf block_size g None p = Inr st"
proof -
  have cache: "cache_inv p" and null: "\<And>b. is_null (blk p b) \<longleftrightarrow> b = Block 0"
    using inv by (auto simp: pool_inv_def alloc_inv_def)
  let ?new = "py_slice nc nf bs" and ?nbh = "drop (nat nc) (block_hashes r)"
  have sl: "?new = take (nat (nf - nc)) (drop (nat nc) bs)"
    using range by (simp add: py_slice_nonneg nat_diff_distrib)
  have "set ?new \<subseteq> set (blocks p)" using sub sl by (metis in_set_dropD in_set_takeD subsetD subsetI)
  then have blocks: "snd ` set (List.enumerate 0 ?new) \<subseteq> set (blocks p)"
    by (metis list.set_map map_snd_enumerate)
  have d: "distinct (filter (\<lambda>b. \<not> is_null (blk p b)) (map snd (List.enumerate 0 ?new)))"
    using distinct_filter_slice [OF dist] by (simp add: null sl)
  have "i < length ?nbh \<and> (is_null (blk p b) \<or> block_hash (blk p b) = None)"
    if "(i, b) \<in> set (List.enumerate 0 ?new)" for i b
  proof -
    have i: "i < nat (nf - nc)" "b = bs ! (nat nc + i)"
      using that range by (auto simp: in_set_enumerate_eq sl)
    moreover have "nat nc + i < nat nf" using i(1) range by (simp add: nat_diff_distrib)
    ultimately show ?thesis using new hashes null range(1) by auto
  qed
  then obtain p1 nh where fold: "res_fold (cache_one_full_block ?nbh nc block_size g None)
      (List.enumerate 0 ?new) (p, []) = Inr (p1, nh)"
    using cache_fold_total [OF cache blocks d _ g, of ?nbh nc block_size "[]"] by fastforce
  obtain st where keys: "res_fold (collect_extra_keys sha256 p1 bs nc block_size None) [nc..nf - 1] (r, 0, []) = Inr st"
    using collect_extra_keys_total [of "[nc..nf - 1]" bs 0] range by fastforce
  have parent: "\<exists>h. py_index (block_hashes r) (nc - 1) = Inr h" if "nc \<noteq> 0"
    using py_index_mem [of "block_hashes r" "nc - 1"] that range(1,2) hashes by auto
  have "py_slice nc (int (length (block_hashes r))) (block_hashes r) = ?nbh"
    using range hashes by (simp add: py_slice_nonneg)
  then show ?thesis
    using range size hashes fold keys parent
    by (cases st) (auto simp: cache_full_blocks_def request_hash_list_def emit_stored_event_def Let_def)
qed

section \<open>A concrete pool\<close>

text \<open>A pool of four blocks with caching on, and the pool after two blocks are allocated.\<close>

definition pool4 :: block_pool where
  "pool4 = (case block_pool_init 4 True 2 False False of Inr p \<Rightarrow> p | Inl _ \<Rightarrow> undefined)"

definition pool4a :: block_pool where
  "pool4a = (case get_new_blocks 2 pool4 of Inr (_, q) \<Rightarrow> q | Inl _ \<Rightarrow> pool4)"

definition hashed_request :: request where
  "hashed_request = sample_request\<lparr>block_hashes := [ [1], [2] ]\<rparr>"

lemma pool4_init: "block_pool_init 4 True 2 False False = Inr pool4"
  using block_pool_init_spec [of 4 True 2 False False] by (auto simp: pool4_def)

lemma pool4_reachable: "pool_reachable id pool4"
  by (rule pool_reachable.init [OF pool4_init])

lemma pool4_facts:
  "blocks pool4 = [Block 0, Block 1, Block 2, Block 3]" "null_block pool4 = Block 0"
  "get_num_free_blocks pool4 = 3" "enable_caching pool4" "ref_cnt (blk pool4 (Block 1)) = 0"
  by code_simp+

lemma pool4a_alloc: "get_new_blocks 2 pool4 = Inr ([Block 1, Block 2], pool4a)"
proof -
  have "map_sum id fst (get_new_blocks 2 pool4) = Inr [Block 1, Block 2]" by code_simp
  then show ?thesis by (auto simp: pool4a_def split: sum.splits)
qed

lemma pool4a_reachable: "pool_reachable id pool4a"
  by (rule pool_reachable.step [OF pool4_reachable pool_step.alloc [OF _ pool4a_alloc]]) simp

lemma pool4a_facts:
  "blocks pool4a = [Block 0, Block 1, Block 2, Block 3]" "null_block pool4a = Block 0"
  "hash_block_size pool4a = 2"
  "block_hash (blk pool4a (Block 1)) = None" "block_hash (blk pool4a (Block 2)) = None"
  "ref_cnt (blk pool4a (Block 1)) = 1" "ref_cnt (blk pool4a (Block 2)) = 1" "ref_cnt (blk pool4a (Block 3)) = 0"
  "get_all_free_blocks (free_block_queue pool4a) = Some (Inr [Block 3])"
  by code_simp+

section \<open>Properties\<close>

text \<open>C3: in every state the pool can reach, the free queue lists, each exactly once, precisely the
  blocks other than the null block that nobody references, its counter is their number, and the hash
  index lists a block under a key exactly when the block owns the key.\<close>

theorem reachable_free_queue_exact:
  assumes "pool_reachable sha256 p"
  shows "\<exists>fs. get_all_free_blocks (free_block_queue p) = Some (Inr fs) \<and> distinct fs
    \<and> set fs = {b \<in> set (blocks p). b \<noteq> null_block p \<and> ref_cnt (blk p b) = 0}
    \<and> get_num_free_blocks p = int (length fs)
    \<and> (\<forall>key. map_blocks (cached_block_hash_to_block p) key = {b \<in> set (blocks p). key \<in> owned p b})"
proof -
  have inv: "pool_inv p" using assms by (rule pool_reachable_inv)
  then obtain fs where fs: "queue_rep (free_block_queue p) fs" "set fs = free_set p" "distinct fs"
    "get_num_free_blocks p = int (length fs)" by (rule pool_inv_queue)
  have "free_set p = {b \<in> set (blocks p). b \<noteq> null_block p \<and> ref_cnt (blk p b) = 0}"
    using inv by (auto simp: free_set_def pool_inv_def alloc_inv_def)
  moreover have "map_blocks (cached_block_hash_to_block p) key = {b \<in> set (blocks p). key \<in> owned p b}" for key
    using inv cache_invD(3) by (auto simp: pool_inv_def)
  ultimately show ?thesis using fs get_all_free_blocks_rep [OF fs(1)] by auto
qed

theorem reachable_free_queue_exact_witness:
  "\<exists>fs. get_all_free_blocks (free_block_queue pool4a) = Some (Inr fs) \<and> set fs = {Block 3}"
  using reachable_free_queue_exact [OF pool4a_reachable]
  by (auto simp: pool4a_facts)

text \<open>C4: \<^verbatim>\<open>get_new_blocks\<close> raises ValueError exactly when too few blocks are free; otherwise it returns
  that many distinct blocks, none null and none referenced before, each referenced once afterwards,
  all other counts unchanged, and with caching on no lookup can return one of them afterwards.\<close>

theorem get_new_blocks_safe:
  assumes "pool_reachable sha256 p" and "0 \<le> n"
  shows "if n \<le> get_num_free_blocks p
    then \<exists>bs q. get_new_blocks n p = Inr (bs, q) \<and> int (length bs) = n \<and> distinct bs
      \<and> get_num_free_blocks q = get_num_free_blocks p - n
      \<and> (\<forall>b\<in>set bs. b \<in> set (blocks p) \<and> b \<noteq> null_block p \<and> ref_cnt (blk p b) = 0)
      \<and> (\<forall>b. ref_cnt (blk q b) = (if b \<in> set bs then 1 else ref_cnt (blk p b)))
      \<and> (enable_caching p \<longrightarrow> (\<forall>h gs hit. get_cached_block q h gs = Inr (Some hit) \<longrightarrow> set hit \<inter> set bs = {}))
    else get_new_blocks n p = Inl ValueError"
proof (cases "n \<le> get_num_free_blocks p")
  case False
  then show ?thesis by (simp add: get_new_blocks_def)
next
  case True
  have inv: "pool_inv p" using assms(1) by (rule pool_reachable_inv)
  then obtain fs where fs: "queue_rep (free_block_queue p) fs" "set fs = free_set p" "distinct fs"
    "get_num_free_blocks p = int (length fs)" by (rule pool_inv_queue)
  let ?bs = "take (nat n) fs"
  obtain q where q: "get_new_blocks n p = Inr (?bs, q)" "pool_inv q"
    "queue_rep (free_block_queue q) (drop (nat n) fs)" "blocks q = blocks p" "length ?bs = nat n"
    "\<forall>b. ref_cnt (blk q b) = (if b \<in> set ?bs then 1 else ref_cnt (blk p b))"
    "\<forall>b\<in>set (blocks p). owned q b = (if b \<in> set ?bs \<and> enable_caching p then {} else owned p b)"
    using get_new_blocks_spec [OF inv fs(1) assms(2) True] by blast
  have "set hit \<inter> set ?bs = {}"
    if "enable_caching p" "get_cached_block q h gs = Inr (Some hit)" for h gs hit
  proof (rule ccontr)
    assume "set hit \<inter> set ?bs \<noteq> {}"
    then obtain b where b: "b \<in> set hit" "b \<in> set ?bs" by blast
    with lookup_owned [OF q(2) that(2)] q(4,7) that(1) show False by force
  qed
  moreover have "get_num_free_blocks q = get_num_free_blocks p - n"
    using fq.count_rep [OF q(3)] fs(4) True assms(2) by (simp add: get_num_free_blocks_def nat_le_iff)
  moreover have "\<forall>b\<in>set ?bs. b \<in> set (blocks p) \<and> b \<noteq> null_block p \<and> ref_cnt (blk p b) = 0"
    using fs(2) inv set_take_subset [of "nat n" fs] by (auto simp: free_set_def pool_inv_def alloc_inv_def)
  ultimately show ?thesis using q True fs(3) assms(2) by (auto intro!: exI [of _ ?bs] exI [of _ q])
qed

theorem get_new_blocks_safe_witness:
  "\<exists>bs q. get_new_blocks 2 pool4 = Inr (bs, q) \<and> length bs = 2 \<and> get_num_free_blocks q = 1
     \<and> (\<forall>h gs hit. get_cached_block q h gs = Inr (Some hit) \<longrightarrow> set hit \<inter> set bs = {})"
proof -
  have "2 \<le> get_num_free_blocks pool4" by (simp add: pool4_facts)
  with get_new_blocks_safe [OF pool4_reachable, of 2] show ?thesis
    by (fastforce simp: pool4_facts)
qed

text \<open>C9: lookup is sound and complete: for valid group ids it returns one block per group, each
  owning the key of its group, and it misses only if for some group no block of the pool owns the
  key.\<close>

theorem lookup_sound_complete:
  assumes "pool_reachable sha256 p" and "\<forall>g\<in>set gs. 0 \<le> g \<and> g < 2 ^ 32"
  shows "case get_cached_block p h gs of
      Inl e \<Rightarrow> False
    | Inr (Some bs) \<Rightarrow> list_all2 (\<lambda>g b. b \<in> set (blocks p) \<and>
        (\<exists>key. make_block_hash_with_group_id h g = Inr key \<and> key \<in> owned p b)) gs bs
    | Inr None \<Rightarrow> (\<exists>g\<in>set gs. \<exists>key. make_block_hash_with_group_id h g = Inr key \<and>
        (\<forall>b\<in>set (blocks p). key \<notin> owned p b))"
proof -
  have "cache_inv p" using pool_reachable_inv [OF assms(1)] by (simp add: pool_inv_def)
  from get_cached_block_spec [OF this assms(2), of h] show ?thesis by (elim disjE exE conjE) simp_all
qed

theorem lookup_sound_complete_witness:
  "get_cached_block pool4 [7] [0] = Inr None \<and>
   (\<exists>key. make_block_hash_with_group_id [7] 0 = Inr key \<and> (\<forall>b\<in>set (blocks pool4). key \<notin> owned pool4 b))"
proof -
  have "get_cached_block pool4 [7] [0] = Inr None" by code_simp
  with lookup_sound_complete [OF pool4_reachable, of "[0]" "[7]"] show ?thesis by simp
qed

text \<open>C5: caching the full blocks of a request makes them findable: every new full block that is not
  null or masked out owns exactly the key of its own chained hash afterwards, a lookup of that hash
  hits, and no reference count, no queue and no configuration changes.\<close>

theorem cached_blocks_are_found:
  assumes "pool_reachable sha256 p" and "set bs \<subseteq> set (blocks p)"
    and "distinct (filter (\<lambda>b. b \<noteq> null_block p) bs)"
    and "0 \<le> nc" and "nc < nf" and "nf \<le> int (length bs)" and "0 \<le> g" and "g < 2 ^ 32"
    and "hash_block_size p = block_size" and "nf \<le> int (length (block_hashes r))"
    and "\<forall>j<nat nf. nat nc \<le> j \<longrightarrow> bs ! j \<noteq> null_block p \<longrightarrow> block_hash (blk p (bs ! j)) = None"
  shows "\<exists>r' q. cache_full_blocks sha256 r bs nc nf block_size g None p = Inr (r', q)
    \<and> (\<forall>b. ref_cnt (blk q b) = ref_cnt (blk p b)) \<and> free_block_queue q = free_block_queue p
    \<and> (\<forall>j<nat nf. nat nc \<le> j \<longrightarrow> bs ! j \<noteq> null_block p \<longrightarrow>
         (\<exists>key. make_block_hash_with_group_id (block_hashes r ! j) g = Inr key \<and> owned q (bs ! j) = {key})
         \<and> (\<exists>b. get_cached_block q (block_hashes r ! j) [g] = Inr (Some [b])))"
proof -
  have inv: "pool_inv p" using assms(1) by (rule pool_reachable_inv)
  note null = pool_inv_null [OF inv]
  obtain r' q where eq: "cache_full_blocks sha256 r bs nc nf block_size g None p = Inr (r', q)"
    using cache_full_blocks_total [OF inv assms(2) _ assms(4-10), of sha256] assms(3,11) null by auto
  from cache_full_blocks_spec [OF inv assms(2) _ assms(4-6) eq] assms(3,9)
  have q: "pool_inv q" "alloc_eq p q"
    and new: "\<forall>i<nat (nf - nc). let b = bs ! (nat nc + i) in b \<noteq> Block 0 \<longrightarrow>
       (\<exists>h key. py_index (py_slice nc (int (length (block_hashes r))) (block_hashes r)) (int i) = Inr h
          \<and> make_block_hash_with_group_id h g = Inr key \<and> owned q b = {key})"
    by (auto simp: null request_hash_list_def masked_out_def)
  have "(\<exists>key. make_block_hash_with_group_id (block_hashes r ! j) g = Inr key \<and> owned q (bs ! j) = {key})
         \<and> (\<exists>b. get_cached_block q (block_hashes r ! j) [g] = Inr (Some [b]))"
    if j: "j < nat nf" "nat nc \<le> j" "bs ! j \<noteq> null_block p" for j
  proof -
    define m where "m = j - nat nc"
    have m: "m < nat (nf - nc)" "nat nc + m = j" using assms(4) j by (simp_all add: m_def nat_diff_distrib)
    obtain h key where h: "py_index (py_slice nc (int (length (block_hashes r))) (block_hashes r)) (int m) = Inr h"
      and key: "make_block_hash_with_group_id h g = Inr key" and own: "owned q (bs ! j) = {key}"
      using new [rule_format, OF m(1)] j(3) by (auto simp: Let_def m(2) null)
    have "py_slice nc (int (length (block_hashes r))) (block_hashes r) = drop (nat nc) (block_hashes r)"
      using assms(4,5,10) by (simp add: py_slice_nonneg)
    then have hj: "block_hashes r ! j = h"
      using h m(2) by (auto simp: py_index_def split: if_splits)
    have "bs ! j \<in> set (blocks q)" using q(2) assms(2,6) j(1) by (auto simp: eq_defs)
    then have "bs ! j \<in> map_blocks (cached_block_hash_to_block q) key"
      using own q(1) cache_invD(3) by (auto simp: pool_inv_def)
    then have "\<exists>b. get_one_block (cached_block_hash_to_block q) key = Inr (Some b)"
      using q(1) hi.hit_iff cache_invD(1) unfolding pool_inv_def by blast
    with hj key own show ?thesis by auto
  qed
  with eq q(2) show ?thesis by (intro exI [of _ r'] exI [of _ q]) (simp add: eq_defs)
qed

theorem cached_blocks_are_found_witness:
  "\<exists>r' q. cache_full_blocks id hashed_request [Block 1, Block 2] 0 2 2 0 None pool4a = Inr (r', q)
     \<and> (\<exists>b. get_cached_block q [2] [0] = Inr (Some [b]))"
proof -
  have idx: "j = 0 \<or> j = 1" if "j < nat 2" for j using that by (simp add: less_Suc_eq numeral_2_eq_2)
  have hash: "\<forall>j<nat 2. nat 0 \<le> j \<longrightarrow> [Block 1, Block 2] ! j \<noteq> null_block pool4a \<longrightarrow>
      block_hash (blk pool4a ([Block 1, Block 2] ! j)) = None"
    using idx pool4a_facts by (metis nth_Cons_0 nth_Cons_Suc One_nat_def)
  have "\<exists>r' q. cache_full_blocks id hashed_request [Block 1, Block 2] 0 2 2 0 None pool4a = Inr (r', q) \<and>
      (\<forall>b. ref_cnt (blk q b) = ref_cnt (blk pool4a b)) \<and> free_block_queue q = free_block_queue pool4a \<and>
      (\<forall>j<nat 2. nat 0 \<le> j \<longrightarrow> [Block 1, Block 2] ! j \<noteq> null_block pool4a \<longrightarrow>
         (\<exists>key. make_block_hash_with_group_id (block_hashes hashed_request ! j) 0 = Inr key
            \<and> owned q ([Block 1, Block 2] ! j) = {key})
         \<and> (\<exists>b. get_cached_block q (block_hashes hashed_request ! j) [0] = Inr (Some [b])))"
    by (rule cached_blocks_are_found [OF pool4a_reachable])
      (use hash in \<open>simp_all add: pool4a_facts hashed_request_def\<close>)
  then obtain r' q where q: "cache_full_blocks id hashed_request [Block 1, Block 2] 0 2 2 0 None pool4a = Inr (r', q)"
    and hit: "\<forall>j<nat 2. nat 0 \<le> j \<longrightarrow> [Block 1, Block 2] ! j \<noteq> null_block pool4a \<longrightarrow>
         (\<exists>b. get_cached_block q (block_hashes hashed_request ! j) [0] = Inr (Some [b]))"
    by blast
  from hit [rule_format, of 1] have "\<exists>b. get_cached_block q [2] [0] = Inr (Some [b])"
    by (simp add: pool4a_facts hashed_request_def del: get_cached_block.simps)
  with q show ?thesis by blast
qed

text \<open>C10: freeing lowers every count by the number of occurrences and puts the blocks whose count
  reaches zero back, those without hash before every free block and those with a hash behind every
  free block: uncached blocks are reused first, cached ones in least-recently-freed order.\<close>

theorem free_blocks_eviction_order:
  assumes "pool_reachable sha256 p" and "set bs \<subseteq> set (blocks p)"
    and "\<forall>b\<in>set bs. b \<noteq> null_block p \<longrightarrow> int (count_list bs b) \<le> ref_cnt (blk p b)"
    and "get_all_free_blocks (free_block_queue p) = Some (Inr fs)"
  shows "\<exists>q. free_blocks bs p = Inr q
    \<and> (\<forall>b. ref_cnt (blk q b) = ref_cnt (blk p b) - int (count_list bs b))
    \<and> (let back = filter (\<lambda>b. b \<noteq> null_block p \<and> ref_cnt (blk p b) = int (count_list bs b)) (remdups bs)
       in get_all_free_blocks (free_block_queue q) = Some (Inr
            (filter (\<lambda>b. owned p b = {}) back @ fs @ filter (\<lambda>b. owned p b \<noteq> {}) back)))"
proof -
  have inv: "pool_inv p" using assms(1) by (rule pool_reachable_inv)
  obtain fs' where rep: "queue_rep (free_block_queue p) fs'" using pool_inv_queue [OF inv] by metis
  with get_all_free_blocks_rep [OF rep] assms(4) have fs: "queue_rep (free_block_queue p) fs" by simp
  have "is_null (blk p b) \<longleftrightarrow> b = null_block p" for b using inv by (auto simp: pool_inv_def alloc_inv_def)
  then have rel: "released (blk p) bs =
      filter (\<lambda>b. b \<noteq> null_block p \<and> ref_cnt (blk p b) = int (count_list bs b)) (remdups bs)"
    unfolding released_def by (intro filter_cong refl) auto
  from free_blocks_spec [OF inv assms(2) _ fs] assms(3) obtain q where
    "free_blocks bs p = Inr q" "\<forall>c. ref_cnt (blk q c) = ref_cnt (blk p c) - int (count_list bs c)"
    "queue_rep (free_block_queue q)
        (filter (\<lambda>b. owned p b = {}) (released (blk p) bs) @ fs @ filter (\<lambda>b. owned p b \<noteq> {}) (released (blk p) bs))"
    by (auto simp: pool_inv_null [OF inv])
  then show ?thesis using get_all_free_blocks_rep unfolding rel Let_def by blast
qed

theorem free_blocks_eviction_order_witness:
  "\<exists>q. free_blocks [Block 1, Block 2] pool4a = Inr q \<and> ref_cnt (blk q (Block 1)) = 0
     \<and> get_all_free_blocks (free_block_queue q) = Some (Inr [Block 1, Block 2, Block 3])"
proof -
  have own: "owned pool4a (Block 1) = {}" "owned pool4a (Block 2) = {}" by code_simp+
  from free_blocks_eviction_order [OF pool4a_reachable, of "[Block 1, Block 2]" "[Block 3]"] own
  show ?thesis by (auto simp: pool4a_facts simp del: One_nat_def)
qed

text \<open>C11: a request that reuses cached blocks and later frees them leaves every count as it was: the
  calls succeed, and in between none of these blocks can be allocated to another request.\<close>

theorem touch_free_restores:
  assumes "pool_reachable sha256 p" and "set bs \<subseteq> set (blocks p)"
  shows "\<exists>q r. touch bs p = Inr q \<and> free_blocks bs q = Inr r
    \<and> (\<forall>b. ref_cnt (blk r b) = ref_cnt (blk p b))
    \<and> (\<forall>n ns s. 0 \<le> n \<longrightarrow> get_new_blocks n q = Inr (ns, s) \<longrightarrow> set ns \<inter> set bs = {})"
proof -
  have inv: "pool_inv p" using assms(1) by (rule pool_reachable_inv)
  obtain q where q: "touch bs p = Inr q" "pool_inv q" "blocks q = blocks p"
    "\<forall>c. ref_cnt (blk q c) = ref_cnt (blk p c) + int (count_list bs c)"
    using touch_spec [OF inv assms(2)] by blast
  obtain fs where fs: "queue_rep (free_block_queue q) fs" "set fs = free_set q"
    "get_num_free_blocks q = int (length fs)"
    using pool_inv_queue [OF q(2)] by metis
  have nonneg: "0 \<le> ref_cnt (blk p b)" if "b \<in> set bs" "b \<noteq> Block 0" for b
    using that assms(2) inv unfolding pool_inv_def alloc_inv_def by blast
  have le: "\<forall>b\<in>set bs. b \<noteq> Block 0 \<longrightarrow> int (count_list bs b) \<le> ref_cnt (blk q b)"
    using nonneg q(4) by auto
  obtain r where r: "free_blocks bs q = Inr r" "\<forall>c. ref_cnt (blk r c) = ref_cnt (blk q c) - int (count_list bs c)"
    using free_blocks_spec [OF q(2) _ le fs(1)] q(3) assms(2) by auto
  have "set ns \<inter> set bs = {}" if n: "0 \<le> n" and get: "get_new_blocks n q = Inr (ns, s)" for n ns s
  proof -
    have "n \<le> get_num_free_blocks q" using get by (auto simp: get_new_blocks_def split: if_splits)
    from get_new_blocks_spec [OF q(2) fs(1) n this] get have "set ns \<subseteq> free_set q"
      using fs(2) set_take_subset [of "nat n" fs] by auto
    moreover have "b \<notin> free_set q" if "b \<in> set bs" for b
    proof (cases "b = Block 0")
      case True
      then show ?thesis using q(2) by (auto simp: free_set_def pool_inv_def alloc_inv_def)
    next
      case False
      have "count_list bs b \<noteq> 0" using that by (simp add: count_list_0_iff)
      then show ?thesis using nonneg [OF that False] q(4) by (auto simp: free_set_def)
    qed
    ultimately show ?thesis by blast
  qed
  with q r show ?thesis by (intro exI [of _ q] exI [of _ r]) simp
qed

theorem touch_free_restores_witness:
  "\<exists>q r. touch [Block 3, Block 1] pool4a = Inr q \<and> free_blocks [Block 3, Block 1] q = Inr r
     \<and> ref_cnt (blk r (Block 3)) = 0 \<and> ref_cnt (blk r (Block 1)) = 1"
proof -
  have "set [Block 3, Block 1] \<subseteq> set (blocks pool4a)" by (simp add: pool4a_facts)
  from touch_free_restores [OF pool4a_reachable this] show ?thesis
    by (auto simp: pool4a_facts simp del: One_nat_def)
qed

text \<open>C12: \<^verbatim>\<open>reset_prefix_cache\<close> succeeds exactly when no block but the null block is in use; then every
  lookup over a non-empty list of groups misses, and otherwise nothing changes.\<close>

theorem reset_prefix_cache_correct:
  assumes "pool_reachable sha256 p" and "reset_prefix_cache p = (ok, q)"
  shows "(ok \<longleftrightarrow> (\<forall>b\<in>set (blocks p). b \<noteq> null_block p \<longrightarrow> ref_cnt (blk p b) = 0))
    \<and> (ok \<longrightarrow> (\<forall>h g gs. 0 \<le> g \<and> g < 2 ^ 32 \<longrightarrow> get_cached_block q h (g # gs) = Inr None))
    \<and> (\<not> ok \<longrightarrow> q = p)"
proof -
  have inv: "pool_inv p" using assms(1) by (rule pool_reachable_inv)
  note R = reset_prefix_cache_spec [OF inv, unfolded assms(2) fst_conv snd_conv]
  have "get_cached_block q h (g # gs) = Inr None" if "ok" and g: "0 \<le> g" "g < 2 ^ 32" for h g gs
  proof -
    obtain key where key: "make_block_hash_with_group_id h g = Inr key"
      using g by (simp add: make_block_hash_with_group_id_def to_bytes4_def)
    have "cache_inv q" "blocks q = blocks p" using R(2,3) by (auto simp: pool_inv_def eq_defs)
    then have "map_blocks (cached_block_hash_to_block q) key = {}"
      using R(4) [OF \<open>ok\<close>] cache_invD(3) by auto
    then show ?thesis
      using get_one_block_spec [OF cache_invD(1) [OF \<open>cache_inv q\<close>], of key] key by auto
  qed
  with R(1,5) show ?thesis by (simp add: pool_inv_null [OF inv])
qed

theorem reset_prefix_cache_correct_witness:
  "\<not> fst (reset_prefix_cache pool4a) \<and> snd (reset_prefix_cache pool4a) = pool4a"
proof -
  have "reset_prefix_cache pool4a = (fst (reset_prefix_cache pool4a), snd (reset_prefix_cache pool4a))" by simp
  from reset_prefix_cache_correct [OF pool4a_reachable this] show ?thesis by (auto simp: pool4a_facts)
qed

end
