(* ===== verification/Float64.thy ===== *)
theory Float64
  imports Prelude Complex_Main "HOL-Library.Log_Nat"
begin

text \<open>
  Python floats. A finite double is the rational number it denotes; every arithmetic operation is the
  exact rational operation followed by rounding to the nearest double, ties to even, with a 53-bit
  significand. The exponent range is not bounded: the sources only compute with page counts, byte
  counts and percentages, which stay far from overflow and from the subnormal range.
\<close>

section \<open>Rounding\<close>

text \<open>The exponent of the leading bit of a positive rational.\<close>

definition ilog2 :: "rat \<Rightarrow> int" where
  "ilog2 x =
     (let (n, d) = quotient_of x; k = int (floorlog 2 (nat n)) - int (floorlog 2 (nat d))
      in if 2 powi k \<le> x then k else k - 1)"

definition round_half_even :: "rat \<Rightarrow> int" where
  "round_half_even x =
     (let f = \<lfloor>x\<rfloor>; r = x - of_int f
      in if r < 1 / 2 then f else if r > 1 / 2 then f + 1 else if even f then f else f + 1)"

definition fl_pos :: "rat \<Rightarrow> rat" where
  "fl_pos x = (let e = ilog2 x - 52 in of_int (round_half_even (x / 2 powi e)) * 2 powi e)"

definition fl :: "rat \<Rightarrow> rat" where
  "fl x = (if x = 0 then 0 else if x < 0 then - fl_pos (- x) else fl_pos x)"

section \<open>The interface of a rounding\<close>

text \<open>
  What the accounting code relies on: rounding is monotone, exact on integers of up to 53 bits, and
  of relative error at most \<open>2 ^ - 53\<close>.
\<close>

locale fp_rounding =
  fixes rnd :: "rat \<Rightarrow> rat"
  assumes rnd_mono: "x \<le> y \<Longrightarrow> rnd x \<le> rnd y"
    and rnd_int: "\<bar>n\<bar> \<le> 2 ^ 53 \<Longrightarrow> rnd (of_int n) = of_int n"
    and rnd_error: "0 \<le> x \<Longrightarrow> \<bar>rnd x - x\<bar> \<le> x / 2 ^ 53"
begin

lemma rnd_ge_int: "\<bar>n\<bar> \<le> 2 ^ 53 \<Longrightarrow> of_int n \<le> x \<Longrightarrow> of_int n \<le> rnd x"
  using rnd_mono [of "of_int n" x] rnd_int by simp

lemma rnd_le_int: "\<bar>n\<bar> \<le> 2 ^ 53 \<Longrightarrow> x \<le> of_int n \<Longrightarrow> rnd x \<le> of_int n"
  using rnd_mono [of x "of_int n"] rnd_int by simp

lemma rnd_nonneg: "0 \<le> x \<Longrightarrow> 0 \<le> rnd x"
  using rnd_ge_int [of 0 x] by simp

lemma rnd_le_one: "x \<le> 1 \<Longrightarrow> rnd x \<le> 1"
  using rnd_le_int [of 1 x] by simp

lemma ceil_rnd_le: "\<bar>n\<bar> \<le> 2 ^ 53 \<Longrightarrow> x \<le> of_int n \<Longrightarrow> \<lceil>rnd x\<rceil> \<le> n"
  using rnd_le_int by (simp add: ceiling_le_iff)

lemma ceil_rnd_ge: "\<bar>n\<bar> \<le> 2 ^ 53 \<Longrightarrow> of_int n \<le> x \<Longrightarrow> n \<le> \<lceil>rnd x\<rceil>"
  using rnd_ge_int [of n x] by linarith

text \<open>The float quotient of two integers rounds up to their integer ceiling.\<close>

lemma ceil_rnd_divide:
  assumes a: "0 \<le> a" "a < 2 ^ 53" and b: "0 < b"
  shows "\<lceil>rnd (of_int a / of_int b)\<rceil> = cdiv a b"
proof -
  let ?x = "of_int a / of_int b :: rat"
  have up: "?x \<le> of_int (cdiv a b)"
  proof -
    have "of_int a \<le> (of_int (cdiv a b * b) :: rat)" using cdiv_bounds(1) [OF b, of a] by (simp only: of_int_le_iff)
    then show ?thesis using b by (simp add: divide_le_eq)
  qed
  have nonneg: "0 \<le> cdiv a b" using cdiv_nonneg [OF b a(1)] .
  have "cdiv a b \<le> a" using cdiv_le_iff [OF b, of a a] a(1) b by (simp add: mult_le_cancel_left1)
  then have small: "\<bar>cdiv a b\<bar> \<le> 2 ^ 53" using nonneg a by simp
  have le: "\<lceil>rnd ?x\<rceil> \<le> cdiv a b" using ceil_rnd_le [OF small up] .
  have "of_int (cdiv a b - 1) < rnd ?x \<or> a = 0"
  proof (rule disjCI)
    assume "a \<noteq> 0"
    have low: "cdiv a b * b \<le> a + b - 1" using cdiv_bounds(2) [OF b, of a] by simp
    then have "(of_int (cdiv a b) * of_int b :: rat) \<le> of_int a + of_int b - 1"
      by (metis of_int_1 of_int_add of_int_diff of_int_le_iff of_int_mult)
    then have gap: "of_int (cdiv a b) - 1 \<le> ?x - 1 / of_int b"
      using b by (simp add: field_simps)
    have "?x / 2 ^ 53 < 1 / of_int b"
    proof -
      have "(of_int a :: rat) < 2 ^ 53" using a(2) by (metis of_int_less_iff of_int_numeral of_int_power)
      then show ?thesis using b by (simp add: field_simps)
    qed
    moreover have "?x - ?x / 2 ^ 53 \<le> rnd ?x"
      using rnd_error [of ?x] a(1) b by (simp add: abs_le_iff)
    ultimately show "of_int (cdiv a b - 1) < rnd ?x" using gap by simp
  qed
  then have "cdiv a b - 1 < \<lceil>rnd ?x\<rceil> \<or> a = 0" by (simp add: less_ceiling_iff)
  moreover have "cdiv 0 b = 0" by (simp add: cdiv_def)
  moreover have "rnd 0 = 0" using rnd_int [of 0] by simp
  ultimately show ?thesis using le by auto
qed

end

section \<open>Rounding to doubles satisfies the interface\<close>

lemma powi_pos [simp]: "0 < (2::rat) powi k"
  by (simp add: zero_less_power_int)

lemma powi_mono: "j \<le> k \<Longrightarrow> (2::rat) powi j \<le> 2 powi k"
  by (intro power_int_increasing) simp_all

lemma powi_suc: "(2::rat) powi (k + 1) = 2 * 2 powi k"
  by (simp add: power_int_add)

lemma bit_length_bounds:
  assumes "0 < n"
  shows "(2::rat) powi (int (floorlog 2 (nat n)) - 1) \<le> of_int n" and "of_int n < (2::rat) powi int (floorlog 2 (nat n))"
proof -
  have n: "nat n \<noteq> 0" using assms by simp
  have b: "2 ^ (floorlog 2 (nat n) - 1) \<le> nat n \<and> nat n < 2 ^ floorlog 2 (nat n)"
    using floorlog_bounds [of "nat n" 2] assms by simp
  have pos: "0 < floorlog 2 (nat n)" using assms by (simp add: floorlog_def)
  have "(2::rat) powi (int (floorlog 2 (nat n)) - 1) = of_nat (2 ^ (floorlog 2 (nat n) - 1))"
    using pos by (simp add: power_int_def nat_diff_distrib)
  also have "\<dots> \<le> of_nat (nat n)" using b by (simp only: of_nat_le_iff)
  finally show "(2::rat) powi (int (floorlog 2 (nat n)) - 1) \<le> of_int n" using assms by simp
  have "(of_int n :: rat) = of_nat (nat n)" using assms by simp
  also have "\<dots> < of_nat (2 ^ floorlog 2 (nat n))" using b by (simp only: of_nat_less_iff)
  finally show "of_int n < (2::rat) powi int (floorlog 2 (nat n))" by (simp add: power_int_def)
qed

lemma ilog2_bounds:
  assumes "0 < x"
  shows "2 powi ilog2 x \<le> x" and "x < 2 powi (ilog2 x + 1)"
proof -
  obtain n d where q: "quotient_of x = (n, d)" by fastforce
  have d: "0 < d" using quotient_of_denom_pos [OF q] .
  have x: "x = of_int n / of_int d" using quotient_of_div [OF q] .
  have n: "0 < n" using assms d by (simp add: x zero_less_divide_iff)
  define a b where "a = int (floorlog 2 (nat n))" and "b = int (floorlog 2 (nat d))"
  note N = bit_length_bounds [OF n, folded a_def] and D = bit_length_bounds [OF d, folded b_def]
  have up: "x < 2 powi (a - b + 1)"
  proof -
    have "of_int n < 2 powi (a - b + 1) * (2 powi (b - 1) :: rat)"
      using N(2) by (simp add: power_int_add [symmetric])
    also have "\<dots> \<le> 2 powi (a - b + 1) * of_int d"
      using D(1) by (intro mult_left_mono) (simp_all add: less_imp_le)
    finally show ?thesis using d by (simp add: x divide_less_eq)
  qed
  have low: "2 powi (a - b - 1) \<le> x"
  proof -
    have "2 powi (a - b - 1) * of_int d \<le> 2 powi (a - b - 1) * (2 powi b :: rat)"
      using D(2) by (intro mult_left_mono) (simp_all add: less_imp_le)
    also have "\<dots> = 2 powi (a - 1)" by (simp add: power_int_add [symmetric])
    also have "\<dots> \<le> of_int n" by (rule N(1))
    finally show ?thesis using d by (simp add: x le_divide_eq)
  qed
  have log: "ilog2 x = (if 2 powi (a - b) \<le> x then a - b else a - b - 1)"
    by (simp add: ilog2_def q a_def b_def)
  show "2 powi ilog2 x \<le> x" "x < 2 powi (ilog2 x + 1)"
    using up low by (auto simp: log)
qed

lemma ilog2_unique:
  assumes "0 < x" and "2 powi k \<le> x" and "x < 2 powi (k + 1)"
  shows "ilog2 x = k"
proof -
  have "2 powi ilog2 x < (2::rat) powi (k + 1)" "2 powi k < (2::rat) powi (ilog2 x + 1)"
    using ilog2_bounds [OF assms(1)] assms(2,3) by (auto intro: order_le_less_trans)
  then have "ilog2 x < k + 1" "k < ilog2 x + 1"
    by (metis not_le powi_mono)+
  then show ?thesis by simp
qed

lemma ilog2_mono:
  assumes "0 < x" and "x \<le> y"
  shows "ilog2 x \<le> ilog2 y"
proof (rule ccontr)
  assume "\<not> ilog2 x \<le> ilog2 y"
  then have "(2::rat) powi (ilog2 y + 1) \<le> 2 powi ilog2 x" by (intro powi_mono) simp
  with ilog2_bounds(1) [OF assms(1)] ilog2_bounds(2) [of y] assms show False by simp
qed

lemma round_half_even_error: "\<bar>of_int (round_half_even x) - x\<bar> \<le> 1 / 2"
proof -
  define r where "r = x - of_int \<lfloor>x\<rfloor>"
  have "0 \<le> r" "r < 1" unfolding r_def by linarith+
  then show ?thesis
    by (auto simp: round_half_even_def Let_def abs_le_iff simp flip: r_def) (simp_all add: r_def)
qed

lemma round_half_even_int [simp]: "round_half_even (of_int n) = n"
  by (simp add: round_half_even_def)

lemma round_half_even_floor: "round_half_even x \<in> {\<lfloor>x\<rfloor>, \<lfloor>x\<rfloor> + 1}"
  by (simp add: round_half_even_def Let_def)

lemma round_half_even_mono:
  assumes "x \<le> y"
  shows "round_half_even x \<le> round_half_even y"
proof (cases "\<lfloor>x\<rfloor> = \<lfloor>y\<rfloor>")
  case True
  then have "x - of_int \<lfloor>x\<rfloor> \<le> y - of_int \<lfloor>y\<rfloor>" using assms by simp
  then show ?thesis using True by (auto simp: round_half_even_def Let_def)
next
  case False
  then have "\<lfloor>x\<rfloor> + 1 \<le> \<lfloor>y\<rfloor>" using floor_mono [OF assms] by simp
  then show ?thesis using round_half_even_floor [of x] round_half_even_floor [of y] by auto
qed

text \<open>A value rounds to a double of the same binade or to the next power of two.\<close>

lemma fl_pos_bounds:
  assumes "0 < x"
  shows "2 powi ilog2 x \<le> fl_pos x" and "fl_pos x \<le> 2 powi (ilog2 x + 1)"
proof -
  define e where "e = ilog2 x - 52"
  have p: "(2::rat) powi ilog2 x = 2 ^ 52 * 2 powi e" "(2::rat) powi (ilog2 x + 1) = 2 ^ 53 * 2 powi e"
    by (simp_all add: e_def power_int_diff power_int_add)
  have lo: "of_int (2 ^ 52) \<le> x / 2 powi e" and hi: "x / 2 powi e \<le> of_int (2 ^ 53)"
    using ilog2_bounds [OF assms] by (simp_all add: p le_divide_eq divide_le_eq)
  have "2 ^ 52 \<le> round_half_even (x / 2 powi e)" "round_half_even (x / 2 powi e) \<le> 2 ^ 53"
    using round_half_even_mono [OF lo] round_half_even_mono [OF hi] by (simp_all del: of_int_power of_int_numeral)
  then have "(2 ^ 52 :: rat) \<le> of_int (round_half_even (x / 2 powi e))" "of_int (round_half_even (x / 2 powi e)) \<le> (2 ^ 53 :: rat)"
    by (metis of_int_le_iff of_int_numeral of_int_power)+
  then show "2 powi ilog2 x \<le> fl_pos x" "fl_pos x \<le> 2 powi (ilog2 x + 1)"
    unfolding p by (simp_all add: fl_pos_def Let_def e_def [symmetric] mult_right_mono less_imp_le)
qed

lemma fl_pos_pos: "0 < x \<Longrightarrow> 0 < fl_pos x"
  using fl_pos_bounds(1) powi_pos order_less_le_trans by blast

lemma fl_pos_mono:
  assumes "0 < x" and "x \<le> y"
  shows "fl_pos x \<le> fl_pos y"
proof (cases "ilog2 x = ilog2 y")
  case True
  have "x / 2 powi (ilog2 x - 52) \<le> y / 2 powi (ilog2 x - 52)"
    using assms(2) by (intro divide_right_mono) (simp_all add: less_imp_le)
  from round_half_even_mono [OF this] show ?thesis
    by (simp add: fl_pos_def Let_def True [symmetric])
next
  case False
  then have "ilog2 x + 1 \<le> ilog2 y" using ilog2_mono [OF assms] by simp
  then have "(2::rat) powi (ilog2 x + 1) \<le> 2 powi ilog2 y" by (rule powi_mono)
  with fl_pos_bounds(2) [OF assms(1)] fl_pos_bounds(1) [of y] assms show ?thesis by simp
qed

lemma fl_pos_error:
  assumes "0 < x"
  shows "\<bar>fl_pos x - x\<bar> \<le> x / 2 ^ 53"
proof -
  define e where "e = ilog2 x - 52"
  have "fl_pos x - x = (of_int (round_half_even (x / 2 powi e)) - x / 2 powi e) * 2 powi e"
    by (simp add: fl_pos_def Let_def e_def [symmetric] left_diff_distrib)
  then have "\<bar>fl_pos x - x\<bar> = \<bar>of_int (round_half_even (x / 2 powi e)) - x / 2 powi e\<bar> * 2 powi e"
    by (simp add: abs_mult)
  also have "\<dots> \<le> 1 / 2 * 2 powi e"
    by (intro mult_right_mono round_half_even_error) (simp add: less_imp_le)
  also have "\<dots> = 2 powi ilog2 x / 2 ^ 53" by (simp add: e_def power_int_diff)
  also have "\<dots> \<le> x / 2 ^ 53" using ilog2_bounds(1) [OF assms] by (intro divide_right_mono) simp_all
  finally show ?thesis .
qed

lemma fl_pos_int:
  assumes "0 < n" and "n \<le> 2 ^ 53"
  shows "fl_pos (of_int n) = of_int n"
proof -
  define e where "e = ilog2 (of_int n) - 52"
  have "e \<le> 1"
  proof (rule ccontr)
    assume "\<not> e \<le> 1"
    then have "(2::rat) powi 54 \<le> 2 powi ilog2 (of_int n)" by (intro powi_mono) (simp add: e_def)
    also have "\<dots> \<le> of_int n" using ilog2_bounds(1) assms(1) by simp
    finally have "(of_int (2 ^ 54) :: rat) \<le> of_int n" by simp
    then have "2 ^ 54 \<le> n" by (simp only: of_int_le_iff)
    then show False using assms(2) by simp
  qed
  show ?thesis
  proof (cases "e \<le> 0")
    case True
    define m where "m = nat (- e)"
    then have "e = - int m" using True by simp
    then have e: "(2::rat) powi e = inverse (2 ^ m)"
      by (simp only: power_int_minus power_int_of_nat)
    have "(of_int n / 2 powi e :: rat) = of_int (n * 2 ^ m)" by (simp only: e) (simp add: divide_inverse)
    then have "round_half_even (of_int n / 2 powi e) = n * 2 ^ m" by (simp only: round_half_even_int)
    moreover have "(of_int (n * 2 ^ m) * inverse (2 ^ m) :: rat) = of_int n" by simp
    ultimately show ?thesis
      by (simp only: fl_pos_def Let_def e_def [symmetric] e)
  next
    case False
    then have e: "e = 1" using \<open>e \<le> 1\<close> by simp
    have "(2::rat) powi 53 \<le> of_int n" using ilog2_bounds(1) [of "of_int n"] assms(1) e by (simp add: e_def)
    then have "(of_int (2 ^ 53) :: rat) \<le> of_int n" by simp
    then have "2 ^ 53 \<le> n" by (simp only: of_int_le_iff)
    then have "n = 2 ^ 53" using assms(2) by simp
    then have "(of_int n / 2 powi e :: rat) = of_int (2 ^ 52)" by (simp add: e)
    then have "round_half_even (of_int n / 2 powi e) = 2 ^ 52" by (simp only: round_half_even_int)
    then have "fl_pos (of_int n) = of_int (2 ^ 52) * 2 powi e"
      by (simp only: fl_pos_def Let_def e_def [symmetric])
    moreover have "(2::rat) powi e = 2" by (simp add: e)
    ultimately show ?thesis by (simp add: \<open>n = 2 ^ 53\<close>)
  qed
qed

interpretation fp: fp_rounding fl
proof unfold_locales
  show "fl x \<le> fl y" if "x \<le> y" for x y
  proof -
    consider "0 < x" | "x \<le> 0" "0 \<le> y" | "y < 0" by linarith
    then show ?thesis
    proof cases
      case 1
      then show ?thesis using that fl_pos_mono by (simp add: fl_def)
    next
      case 2
      then show ?thesis using fl_pos_pos [of "- x"] fl_pos_pos [of y] by (auto simp: fl_def)
    next
      case 3
      then show ?thesis using that fl_pos_mono [of "- y" "- x"] by (simp add: fl_def)
    qed
  qed
  show "fl (of_int n) = of_int n" if "\<bar>n\<bar> \<le> 2 ^ 53" for n
    using that fl_pos_int [of n] fl_pos_int [of "- n"] by (auto simp: fl_def)
  show "\<bar>fl x - x\<bar> \<le> x / 2 ^ 53" if "0 \<le> x" for x
    using that fl_pos_error [of x] by (auto simp: fl_def)
qed

end
