(* ===== verification/KvSpec.thy ===== *)
theory KvSpec
  imports Float64
begin

text \<open>
  The specifications of \<^verbatim>\<open>vllm/v1/kv_cache_interface.py\<close>: one record per dataclass, in the inheritance
  order of the source, the page size and memory bound of every class, the merging of the
  specifications of a group and the uniform-type check.
\<close>

section \<open>Data types and quantisation modes\<close>

text \<open>A \<^verbatim>\<open>torch.dtype\<close> is its name and the size of one element in bytes.\<close>

record torch_dtype =
  dtype_name :: string
  itemsize :: int

definition torch_float32 :: torch_dtype where
  "torch_float32 = \<lparr>dtype_name = ''float32'', itemsize = 4\<rparr>"

definition get_dtype_size :: "torch_dtype \<Rightarrow> int" where
  "get_dtype_size d = itemsize d"

datatype kv_quant_mode =
    QNone
  | FP8_PER_TENSOR
  | INT8_PER_TOKEN_HEAD
  | FP8_PER_TOKEN_HEAD
  | INT4_PER_TOKEN_HEAD
  | NVFP4

definition is_per_token_head :: "kv_quant_mode \<Rightarrow> bool" where
  "is_per_token_head m \<longleftrightarrow> m \<in> {INT8_PER_TOKEN_HEAD, FP8_PER_TOKEN_HEAD, INT4_PER_TOKEN_HEAD}"

definition is_nvfp4 :: "kv_quant_mode \<Rightarrow> bool" where
  "is_nvfp4 m \<longleftrightarrow> m = NVFP4"

definition get_kv_quant_mode :: "string \<Rightarrow> kv_quant_mode" where
  "get_kv_quant_mode kv_cache_dtype =
     (if kv_cache_dtype = ''int4_per_token_head'' then INT4_PER_TOKEN_HEAD
      else if kv_cache_dtype = ''int8_per_token_head'' then INT8_PER_TOKEN_HEAD
      else if kv_cache_dtype = ''fp8_per_token_head'' then FP8_PER_TOKEN_HEAD
      else if kv_cache_dtype = ''nvfp4'' then NVFP4
      else if take 3 kv_cache_dtype = ''fp8'' then FP8_PER_TENSOR
      else QNone)"

definition is_quantized_kv_cache :: "string \<Rightarrow> bool" where
  "is_quantized_kv_cache kv_cache_dtype \<longleftrightarrow> get_kv_quant_mode kv_cache_dtype \<noteq> QNone"

definition kv_cache_uses_per_token_head_scales :: "string \<Rightarrow> bool" where
  "kv_cache_uses_per_token_head_scales kv_cache_dtype \<longleftrightarrow>
     is_per_token_head (get_kv_quant_mode kv_cache_dtype)"

definition nvfp4_kv_cache_full_dim :: "int \<Rightarrow> int" where
  "nvfp4_kv_cache_full_dim n = n div 2 + n div 16"

section \<open>The specification classes\<close>

record attention_spec =
  block_size :: int
  num_kv_heads :: int
  head_size :: int
  dtype :: torch_dtype
  kv_quant :: kv_quant_mode
  page_size_padded :: "int option"
  indexes_kv_by_block_stride :: bool

record full_attention_spec = attention_spec +
  head_size_v :: int
  sliding_window :: "int option"
  attention_chunk_size :: "int option"
  non_causal :: bool

record tq_spec = full_attention_spec +
  tq_slot_size :: int

record tmh_spec = full_attention_spec +
  tmh_hot_budget_pct :: rat
  tmh_late_layer :: bool
  tmh_max_num_seqs :: int
  tmh_max_model_pages :: int

record mla_spec = full_attention_spec +
  cache_dtype_str :: "string option"
  alignment :: "int option"
  compress_ratio :: int
  model_version :: "string option"

record rswa_spec = full_attention_spec +
  rswa_window :: int

record sink_spec = full_attention_spec +
  sink_len :: "int option"

record chunked_local_spec = attention_spec +
  local_chunk_size :: int

text \<open>
  \<^verbatim>\<open>SlidingWindowSpec.__post_init__\<close> fills \<^verbatim>\<open>head_size_v\<close>; \<^verbatim>\<open>SlidingWindowMLASpec\<close> replaces that
  method without calling it, so there the field may stay \<^verbatim>\<open>None\<close>.
\<close>

record sliding_window_spec = attention_spec +
  window_size :: int
  window_head_size_v :: "int option"

record sliding_window_mla_spec = sliding_window_spec +
  swm_cache_dtype_str :: "string option"
  swm_alignment :: "int option"
  swm_compress_ratio :: int
  swm_model_version :: "string option"

record mamba_spec =
  mamba_block_size :: int
  shapes :: "int list list"
  dtypes :: "torch_dtype list"
  mamba_page_size_padded :: "int option"
  mamba_type :: string
  mamba_cache_mode :: string
  num_speculative_blocks :: int

datatype kv_cache_spec =
    FullAttentionSpec full_attention_spec
  | TQFullAttentionSpec tq_spec
  | TMHFullAttentionSpec tmh_spec
  | MLAAttentionSpec mla_spec
  | HiddenStateCacheSpec mla_spec
  | RSWASpec rswa_spec
  | SinkFullAttentionSpec sink_spec
  | ChunkedLocalAttentionSpec chunked_local_spec
  | SlidingWindowSpec sliding_window_spec
  | SlidingWindowMLASpec sliding_window_mla_spec
  | MambaSpec mamba_spec
  | EncoderOnlyAttentionSpec attention_spec
  | CrossAttentionSpec attention_spec
  | UniformTypeKVCacheSpecs int "(string \<times> kv_cache_spec) list"

fun spec_block_size :: "kv_cache_spec \<Rightarrow> int" where
  "spec_block_size (FullAttentionSpec s) = block_size s"
| "spec_block_size (TQFullAttentionSpec s) = block_size s"
| "spec_block_size (TMHFullAttentionSpec s) = block_size s"
| "spec_block_size (MLAAttentionSpec s) = block_size s"
| "spec_block_size (HiddenStateCacheSpec s) = block_size s"
| "spec_block_size (RSWASpec s) = block_size s"
| "spec_block_size (SinkFullAttentionSpec s) = block_size s"
| "spec_block_size (ChunkedLocalAttentionSpec s) = block_size s"
| "spec_block_size (SlidingWindowSpec s) = block_size s"
| "spec_block_size (SlidingWindowMLASpec s) = block_size s"
| "spec_block_size (MambaSpec s) = mamba_block_size s"
| "spec_block_size (EncoderOnlyAttentionSpec s) = block_size s"
| "spec_block_size (CrossAttentionSpec s) = block_size s"
| "spec_block_size (UniformTypeKVCacheSpecs b _) = b"

section \<open>Page sizes\<close>

definition attention_real_page_size_bytes :: "'a attention_spec_scheme \<Rightarrow> int" where
  "attention_real_page_size_bytes s =
     (let head_dim =
        (if is_nvfp4 (kv_quant s) then nvfp4_kv_cache_full_dim (head_size s)
         else if kv_quant s = INT4_PER_TOKEN_HEAD then head_size s div 2
         else head_size s)
      in 2 * block_size s * num_kv_heads s * head_dim * get_dtype_size (dtype s))"

text \<open>\<^verbatim>\<open>AttentionSpec.page_size_bytes\<close>; the argument is the class's \<^verbatim>\<open>real_page_size_bytes\<close>.\<close>

definition attention_page_size_bytes :: "'a attention_spec_scheme \<Rightarrow> int \<Rightarrow> int result" where
  "attention_page_size_bytes s real_page_size =
     (let real_page_size =
        (if is_per_token_head (kv_quant s)
         then real_page_size + 2 * block_size s * num_kv_heads s * get_dtype_size torch_float32
         else real_page_size)
      in case page_size_padded s of
           None \<Rightarrow> Inr real_page_size
         | Some padded \<Rightarrow> res_bind (res_guard (padded \<ge> real_page_size) AssertionError) (\<lambda>_. Inr padded))"

definition full_real_page_size_bytes :: "'a full_attention_spec_scheme \<Rightarrow> int" where
  "full_real_page_size_bytes s =
     (let last_dim =
        (if is_nvfp4 (kv_quant s)
         then nvfp4_kv_cache_full_dim (head_size s) + nvfp4_kv_cache_full_dim (head_size_v s)
         else if kv_quant s = INT4_PER_TOKEN_HEAD then head_size s div 2 + head_size_v s div 2
         else head_size s + head_size_v s)
      in block_size s * num_kv_heads s * last_dim * get_dtype_size (dtype s))"

definition tq_real_page_size_bytes :: "tq_spec \<Rightarrow> int" where
  "tq_real_page_size_bytes s =
     (if tq_slot_size s > 0 then block_size s * num_kv_heads s * tq_slot_size s
      else full_real_page_size_bytes s)"

definition mla_storage_block_size :: "mla_spec \<Rightarrow> int result" where
  "mla_storage_block_size s = py_div (block_size s) (compress_ratio s)"

definition mla_real_page_size_bytes :: "mla_spec \<Rightarrow> int result" where
  "mla_real_page_size_bytes s =
     (if cache_dtype_str s = Some ''fp8_ds_mla''
      then (if model_version s = Some ''deepseek_v4''
            then res_bind (mla_storage_block_size s) (\<lambda>sbs. Inr (sbs * 584))
            else Inr (block_size s * 656))
      else (let head_dim = (if kv_quant s = INT4_PER_TOKEN_HEAD then head_size s div 2 else head_size s)
            in res_bind (mla_storage_block_size s)
                 (\<lambda>sbs. Inr (sbs * num_kv_heads s * head_dim * get_dtype_size (dtype s)))))"

definition window_real_page_size_bytes :: "sliding_window_spec \<Rightarrow> int result" where
  "window_real_page_size_bytes s =
     (case window_head_size_v s of
        None \<Rightarrow> Inl TypeError
      | Some hv \<Rightarrow>
          Inr (if is_nvfp4 (kv_quant s)
               then (let last_dim = nvfp4_kv_cache_full_dim (head_size s) + nvfp4_kv_cache_full_dim hv
                     in block_size s * num_kv_heads s * last_dim * get_dtype_size (dtype s))
               else block_size s * num_kv_heads s * (head_size s + hv) * get_dtype_size (dtype s)))"

definition swm_storage_block_size :: "sliding_window_mla_spec \<Rightarrow> int result" where
  "swm_storage_block_size s = py_div (block_size s) (swm_compress_ratio s)"

definition swm_real_page_size_bytes :: "sliding_window_mla_spec \<Rightarrow> int result" where
  "swm_real_page_size_bytes s =
     (if swm_model_version s = Some ''deepseek_v4'' \<and> swm_cache_dtype_str s = Some ''fp8_ds_mla''
      then res_bind (swm_storage_block_size s) (\<lambda>sbs. Inr (sbs * 584))
      else res_bind (res_guard (swm_model_version s \<in> {None, Some ''deepseek_v4''}) AssertionError)
        (\<lambda>_. res_bind (swm_storage_block_size s)
          (\<lambda>sbs. Inr (sbs * num_kv_heads s * head_size s * get_dtype_size (dtype s)))))"

definition mamba_page_size_bytes :: "mamba_spec \<Rightarrow> int result" where
  "mamba_page_size_bytes s =
     (let page_size = sum_list (map (\<lambda>(shape, d). prod_list shape * get_dtype_size d) (zip (shapes s) (dtypes s)))
      in case mamba_page_size_padded s of
           None \<Rightarrow> Inr page_size
         | Some padded \<Rightarrow> res_bind (res_guard (padded \<ge> page_size) AssertionError) (\<lambda>_. Inr padded))"

subsection \<open>The tiered specification\<close>

definition warm_page_size_bytes :: "tmh_spec \<Rightarrow> int" where
  "warm_page_size_bytes s =
     (let k_bytes = block_size s * num_kv_heads s * head_size s;
          v_storage_head = (if tmh_late_layer s then head_size_v s else cdiv (head_size_v s) 2);
          v_bytes = block_size s * num_kv_heads s * v_storage_head;
          scale_bytes = 2 * block_size s * num_kv_heads s * get_dtype_size torch_float32
      in k_bytes + v_bytes + scale_bytes)"

definition raw_page_size_bytes :: "tmh_spec \<Rightarrow> int" where
  "raw_page_size_bytes s = full_real_page_size_bytes s"

definition raw_reserve_ratio :: "tmh_spec \<Rightarrow> rat" where
  "raw_reserve_ratio s =
     (let hot_ratio = fl (tmh_hot_budget_pct s / 100);
          anchor_ratio = fl (1 / fl (of_int (max 1 (tmh_max_model_pages s))))
      in min 1 (max 0 (fl (anchor_ratio + fl (fl (1 - anchor_ratio) * hot_ratio)))))"

definition tmh_real_page_size_bytes :: "tmh_spec \<Rightarrow> int" where
  "tmh_real_page_size_bytes s =
     (let raw = fl (of_int (raw_page_size_bytes s));
          warm = fl (of_int (warm_page_size_bytes s));
          weighted = fl (fl (raw_reserve_ratio s * raw) + fl (fl (1 - raw_reserve_ratio s) * warm));
          descriptor_bytes = 8
      in max 1 \<lceil>fl (weighted + descriptor_bytes)\<rceil>)"

definition physical_pool_page_counts :: "tmh_spec \<Rightarrow> int \<Rightarrow> int \<times> int" where
  "physical_pool_page_counts s num_logical_blocks =
     (if num_logical_blocks \<le> 0 then (0, 0)
      else let hot_ratio = max 0 (min 1 (fl (tmh_hot_budget_pct s / 100)));
               anchor_pages = min num_logical_blocks (tmh_max_num_seqs s);
               non_anchor_pages = max 0 (num_logical_blocks - anchor_pages);
               raw_pages = min num_logical_blocks
                 (anchor_pages + \<lceil>fl (fl (of_int non_anchor_pages) * hot_ratio)\<rceil>);
               warm_pages = max 0 (num_logical_blocks - raw_pages)
           in (raw_pages, warm_pages))"

definition physical_allocation_bytes :: "tmh_spec \<Rightarrow> int \<Rightarrow> int" where
  "physical_allocation_bytes s num_logical_blocks =
     (let (raw_pages, warm_pages) = physical_pool_page_counts s num_logical_blocks;
          descriptors = num_logical_blocks * 8
      in raw_pages * raw_page_size_bytes s + warm_pages * warm_page_size_bytes s + descriptors)"

subsection \<open>The page size of a specification\<close>

fun page_size_bytes :: "kv_cache_spec \<Rightarrow> int result" where
  "page_size_bytes (FullAttentionSpec s) = attention_page_size_bytes s (full_real_page_size_bytes s)"
| "page_size_bytes (TQFullAttentionSpec s) = attention_page_size_bytes s (tq_real_page_size_bytes s)"
| "page_size_bytes (TMHFullAttentionSpec s) = attention_page_size_bytes s (tmh_real_page_size_bytes s)"
| "page_size_bytes (MLAAttentionSpec s) =
     res_bind (mla_real_page_size_bytes s) (attention_page_size_bytes s)"
| "page_size_bytes (HiddenStateCacheSpec s) =
     res_bind (mla_real_page_size_bytes s) (attention_page_size_bytes s)"
| "page_size_bytes (RSWASpec s) = attention_page_size_bytes s (full_real_page_size_bytes s)"
| "page_size_bytes (SinkFullAttentionSpec s) = attention_page_size_bytes s (full_real_page_size_bytes s)"
| "page_size_bytes (ChunkedLocalAttentionSpec s) =
     attention_page_size_bytes s (attention_real_page_size_bytes s)"
| "page_size_bytes (SlidingWindowSpec s) =
     res_bind (window_real_page_size_bytes s) (attention_page_size_bytes s)"
| "page_size_bytes (SlidingWindowMLASpec s) =
     res_bind (swm_real_page_size_bytes s) (attention_page_size_bytes s)"
| "page_size_bytes (MambaSpec s) = mamba_page_size_bytes s"
| "page_size_bytes (EncoderOnlyAttentionSpec s) =
     attention_page_size_bytes s (attention_real_page_size_bytes s)"
| "page_size_bytes (CrossAttentionSpec s) =
     attention_page_size_bytes s (attention_real_page_size_bytes s)"
| "page_size_bytes (UniformTypeKVCacheSpecs _ specs) =
     res_bind (res_map (\<lambda>p. page_size_bytes (snd p)) specs) (\<lambda>sizes. Inr (sum_list sizes))"

section \<open>Construction\<close>

text \<open>
  \<^verbatim>\<open>__post_init__\<close>: a missing \<^verbatim>\<open>head_size_v\<close> is the head size; an alignment pads the page of the two
  MLA classes.
\<close>

definition default_head_size_v :: "int \<Rightarrow> int option \<Rightarrow> int" where
  "default_head_size_v hs hv = (case hv of None \<Rightarrow> hs | Some v \<Rightarrow> v)"

definition mla_alignment_padding :: "mla_spec \<Rightarrow> mla_spec result" where
  "mla_alignment_padding s =
     (case alignment s of
        None \<Rightarrow> Inr s
      | Some al \<Rightarrow>
          res_bind (mla_real_page_size_bytes s) (\<lambda>actual.
          res_bind (res_guard (al \<noteq> 0) ZeroDivisionError) (\<lambda>_.
            let padded = round_up actual al
            in Inr (if padded \<noteq> actual then s\<lparr>page_size_padded := Some padded\<rparr> else s))))"

definition swm_alignment_padding :: "sliding_window_mla_spec \<Rightarrow> sliding_window_mla_spec result" where
  "swm_alignment_padding s =
     (case swm_alignment s of
        None \<Rightarrow> Inr s
      | Some al \<Rightarrow>
          res_bind (swm_real_page_size_bytes s) (\<lambda>actual.
          res_bind (res_guard (al \<noteq> 0) ZeroDivisionError) (\<lambda>_.
            let padded = round_up actual al
            in Inr (if padded \<noteq> actual then s\<lparr>page_size_padded := Some padded\<rparr> else s))))"

section \<open>Memory bounds\<close>

text \<open>The fields of \<^verbatim>\<open>VllmConfig\<close> the bounds read.\<close>

record vllm_config =
  max_model_len :: int
  decode_context_parallel_size :: int
  prefill_context_parallel_size :: int
  max_num_batched_tokens :: int
  max_num_encoder_input_tokens :: int
  cfg_mamba_cache_mode :: string
  num_gpu_blocks_override :: "int option"

definition chunked_max_admission_blocks :: "chunked_local_spec \<Rightarrow> int \<Rightarrow> int \<Rightarrow> int result" where
  "chunked_max_admission_blocks s batched_tokens model_len =
     py_cdiv (min (local_chunk_size s + batched_tokens) model_len) (block_size s)"

definition window_max_admission_blocks :: "'a sliding_window_spec_scheme \<Rightarrow> int \<Rightarrow> int \<Rightarrow> int result" where
  "window_max_admission_blocks s batched_tokens model_len =
     res_bind (py_cdiv (min (window_size s - 1 + batched_tokens) model_len) (block_size s))
       (\<lambda>n. Inr (n + 1))"

definition full_max_memory_usage_bytes :: "'a full_attention_spec_scheme \<Rightarrow> vllm_config \<Rightarrow> int result \<Rightarrow> int result" where
  "full_max_memory_usage_bytes s cfg page_size =
     (let dcp = decode_context_parallel_size cfg; pcp = prefill_context_parallel_size cfg;
          model_len = (if dcp * pcp > 1 then cdiv (max_model_len cfg) (dcp * pcp) else max_model_len cfg)
      in res_bind (py_cdiv model_len (block_size s)) (\<lambda>n. res_bind page_size (\<lambda>p. Inr (n * p))))"

definition mamba_max_memory_usage_bytes :: "mamba_spec \<Rightarrow> vllm_config \<Rightarrow> int result" where
  "mamba_max_memory_usage_bytes s cfg =
     (if cfg_mamba_cache_mode cfg = ''all''
      then res_bind (py_cdiv (max_model_len cfg) (mamba_block_size s)) (\<lambda>n.
           res_bind (mamba_page_size_bytes s) (\<lambda>p. Inr ((n + num_speculative_blocks s) * p)))
      else if cfg_mamba_cache_mode cfg = ''align''
      then res_bind (mamba_page_size_bytes s) (\<lambda>p. Inr (p * (2 + num_speculative_blocks s)))
      else res_bind (mamba_page_size_bytes s) (\<lambda>p. Inr (p * (1 + num_speculative_blocks s))))"

definition window_max_memory_usage_bytes ::
  "'a sliding_window_spec_scheme \<Rightarrow> vllm_config \<Rightarrow> int result \<Rightarrow> int result" where
  "window_max_memory_usage_bytes s cfg page_size =
     res_bind (res_guard (decode_context_parallel_size cfg = 1) AssertionError) (\<lambda>_.
     res_bind (window_max_admission_blocks s (max_num_batched_tokens cfg) (max_model_len cfg)) (\<lambda>n.
     res_bind page_size (\<lambda>p. Inr (n * p))))"

fun max_memory_usage_bytes :: "kv_cache_spec \<Rightarrow> vllm_config \<Rightarrow> int result" where
  "max_memory_usage_bytes (FullAttentionSpec s) cfg =
     full_max_memory_usage_bytes s cfg (page_size_bytes (FullAttentionSpec s))"
| "max_memory_usage_bytes (TQFullAttentionSpec s) cfg =
     full_max_memory_usage_bytes s cfg (page_size_bytes (TQFullAttentionSpec s))"
| "max_memory_usage_bytes (TMHFullAttentionSpec s) cfg =
     full_max_memory_usage_bytes s cfg (page_size_bytes (TMHFullAttentionSpec s))"
| "max_memory_usage_bytes (MLAAttentionSpec s) cfg =
     full_max_memory_usage_bytes s cfg (page_size_bytes (MLAAttentionSpec s))"
| "max_memory_usage_bytes (HiddenStateCacheSpec s) cfg =
     full_max_memory_usage_bytes s cfg (page_size_bytes (HiddenStateCacheSpec s))"
| "max_memory_usage_bytes (RSWASpec s) cfg =
     full_max_memory_usage_bytes s cfg (page_size_bytes (RSWASpec s))"
| "max_memory_usage_bytes (SinkFullAttentionSpec s) cfg =
     full_max_memory_usage_bytes s cfg (page_size_bytes (SinkFullAttentionSpec s))"
| "max_memory_usage_bytes (ChunkedLocalAttentionSpec s) cfg =
     res_bind (chunked_max_admission_blocks s (max_num_batched_tokens cfg) (max_model_len cfg)) (\<lambda>n.
     res_bind (page_size_bytes (ChunkedLocalAttentionSpec s)) (\<lambda>p. Inr (n * p)))"
| "max_memory_usage_bytes (SlidingWindowSpec s) cfg =
     window_max_memory_usage_bytes s cfg (page_size_bytes (SlidingWindowSpec s))"
| "max_memory_usage_bytes (SlidingWindowMLASpec s) cfg =
     window_max_memory_usage_bytes s cfg (page_size_bytes (SlidingWindowMLASpec s))"
| "max_memory_usage_bytes (MambaSpec s) cfg = mamba_max_memory_usage_bytes s cfg"
| "max_memory_usage_bytes (EncoderOnlyAttentionSpec s) cfg = Inr 0"
| "max_memory_usage_bytes (CrossAttentionSpec s) cfg =
     res_bind (py_cdiv (max_num_encoder_input_tokens cfg) (block_size s)) (\<lambda>n.
     res_bind (page_size_bytes (CrossAttentionSpec s)) (\<lambda>p. Inr (n * p)))"
| "max_memory_usage_bytes (UniformTypeKVCacheSpecs b specs) cfg =
     res_bind (res_map (\<lambda>q. res_bind (max_memory_usage_bytes (snd q) cfg) (\<lambda>m.
                 res_bind (page_size_bytes (snd q)) (\<lambda>p. py_cdiv m p))) specs) (\<lambda>pages.
     res_bind (py_max pages) (\<lambda>max_num_pages.
     res_bind (page_size_bytes (UniformTypeKVCacheSpecs b specs)) (\<lambda>p. Inr (max_num_pages * p))))"

end
