(* ===== verification/SpecMerge.thy ===== *)
theory SpecMerge
  imports KvSpec
begin

text \<open>
  The class hierarchy of the specifications and \<^verbatim>\<open>merge\<close>, which folds the specifications of the
  layers of one KV cache group into the specification of the group.
\<close>

section \<open>Classes\<close>

datatype spec_class =
    C_KVCacheSpec
  | C_AttentionSpec
  | C_FullAttentionSpec
  | C_TQFullAttentionSpec
  | C_TMHFullAttentionSpec
  | C_MLAAttentionSpec
  | C_HiddenStateCacheSpec
  | C_RSWASpec
  | C_SinkFullAttentionSpec
  | C_ChunkedLocalAttentionSpec
  | C_SlidingWindowSpec
  | C_SlidingWindowMLASpec
  | C_MambaSpec
  | C_EncoderOnlyAttentionSpec
  | C_CrossAttentionSpec
  | C_UniformTypeKVCacheSpecs

fun class_of :: "kv_cache_spec \<Rightarrow> spec_class" where
  "class_of (FullAttentionSpec _) = C_FullAttentionSpec"
| "class_of (TQFullAttentionSpec _) = C_TQFullAttentionSpec"
| "class_of (TMHFullAttentionSpec _) = C_TMHFullAttentionSpec"
| "class_of (MLAAttentionSpec _) = C_MLAAttentionSpec"
| "class_of (HiddenStateCacheSpec _) = C_HiddenStateCacheSpec"
| "class_of (RSWASpec _) = C_RSWASpec"
| "class_of (SinkFullAttentionSpec _) = C_SinkFullAttentionSpec"
| "class_of (ChunkedLocalAttentionSpec _) = C_ChunkedLocalAttentionSpec"
| "class_of (SlidingWindowSpec _) = C_SlidingWindowSpec"
| "class_of (SlidingWindowMLASpec _) = C_SlidingWindowMLASpec"
| "class_of (MambaSpec _) = C_MambaSpec"
| "class_of (EncoderOnlyAttentionSpec _) = C_EncoderOnlyAttentionSpec"
| "class_of (CrossAttentionSpec _) = C_CrossAttentionSpec"
| "class_of (UniformTypeKVCacheSpecs _ _) = C_UniformTypeKVCacheSpecs"

text \<open>The base class in the class statement.\<close>

fun base_class :: "spec_class \<Rightarrow> spec_class option" where
  "base_class C_KVCacheSpec = None"
| "base_class C_AttentionSpec = Some C_KVCacheSpec"
| "base_class C_FullAttentionSpec = Some C_AttentionSpec"
| "base_class C_TQFullAttentionSpec = Some C_FullAttentionSpec"
| "base_class C_TMHFullAttentionSpec = Some C_FullAttentionSpec"
| "base_class C_MLAAttentionSpec = Some C_FullAttentionSpec"
| "base_class C_HiddenStateCacheSpec = Some C_MLAAttentionSpec"
| "base_class C_RSWASpec = Some C_FullAttentionSpec"
| "base_class C_SinkFullAttentionSpec = Some C_FullAttentionSpec"
| "base_class C_ChunkedLocalAttentionSpec = Some C_AttentionSpec"
| "base_class C_SlidingWindowSpec = Some C_AttentionSpec"
| "base_class C_SlidingWindowMLASpec = Some C_SlidingWindowSpec"
| "base_class C_MambaSpec = Some C_KVCacheSpec"
| "base_class C_EncoderOnlyAttentionSpec = Some C_AttentionSpec"
| "base_class C_CrossAttentionSpec = Some C_AttentionSpec"
| "base_class C_UniformTypeKVCacheSpecs = Some C_KVCacheSpec"

fun class_depth :: "spec_class \<Rightarrow> nat" where
  "class_depth C_KVCacheSpec = 0"
| "class_depth C_AttentionSpec = 1"
| "class_depth C_MambaSpec = 1"
| "class_depth C_UniformTypeKVCacheSpecs = 1"
| "class_depth C_FullAttentionSpec = 2"
| "class_depth C_ChunkedLocalAttentionSpec = 2"
| "class_depth C_SlidingWindowSpec = 2"
| "class_depth C_EncoderOnlyAttentionSpec = 2"
| "class_depth C_CrossAttentionSpec = 2"
| "class_depth C_HiddenStateCacheSpec = 4"
| "class_depth _ = 3"

lemma base_class_depth: "base_class c = Some b \<Longrightarrow> class_depth b < class_depth c"
  by (cases c) auto

text \<open>The method resolution order \<^verbatim>\<open>__mro__\<close>: single inheritance, so the chain of base classes.\<close>

function mro :: "spec_class \<Rightarrow> spec_class list" where
  "mro c = c # (case base_class c of None \<Rightarrow> [] | Some b \<Rightarrow> mro b)"
  by pat_completeness auto
termination by (relation "measure class_depth") (auto dest: base_class_depth)

declare mro.simps [simp del]

lemma mro_unfold [simp]:
  "mro C_KVCacheSpec = [C_KVCacheSpec]"
  "mro C_AttentionSpec = [C_AttentionSpec, C_KVCacheSpec]"
  "mro C_FullAttentionSpec = [C_FullAttentionSpec, C_AttentionSpec, C_KVCacheSpec]"
  "mro C_TQFullAttentionSpec = C_TQFullAttentionSpec # mro C_FullAttentionSpec"
  "mro C_TMHFullAttentionSpec = C_TMHFullAttentionSpec # mro C_FullAttentionSpec"
  "mro C_MLAAttentionSpec = C_MLAAttentionSpec # mro C_FullAttentionSpec"
  "mro C_HiddenStateCacheSpec = C_HiddenStateCacheSpec # mro C_MLAAttentionSpec"
  "mro C_RSWASpec = C_RSWASpec # mro C_FullAttentionSpec"
  "mro C_SinkFullAttentionSpec = C_SinkFullAttentionSpec # mro C_FullAttentionSpec"
  "mro C_ChunkedLocalAttentionSpec = C_ChunkedLocalAttentionSpec # mro C_AttentionSpec"
  "mro C_SlidingWindowSpec = C_SlidingWindowSpec # mro C_AttentionSpec"
  "mro C_SlidingWindowMLASpec = C_SlidingWindowMLASpec # mro C_SlidingWindowSpec"
  "mro C_MambaSpec = [C_MambaSpec, C_KVCacheSpec]"
  "mro C_EncoderOnlyAttentionSpec = C_EncoderOnlyAttentionSpec # mro C_AttentionSpec"
  "mro C_CrossAttentionSpec = C_CrossAttentionSpec # mro C_AttentionSpec"
  "mro C_UniformTypeKVCacheSpecs = [C_UniformTypeKVCacheSpecs, C_KVCacheSpec]"
  by (simp_all add: mro.simps)

definition isinstance :: "kv_cache_spec \<Rightarrow> spec_class \<Rightarrow> bool" where
  "isinstance s c \<longleftrightarrow> c \<in> set (mro (class_of s))"

text \<open>The fields a \<^verbatim>\<open>FullAttentionSpec\<close> subclass inherits, and those of an \<^verbatim>\<open>AttentionSpec\<close>.\<close>

fun full_fields :: "kv_cache_spec \<Rightarrow> full_attention_spec option" where
  "full_fields (FullAttentionSpec s) = Some s"
| "full_fields (TQFullAttentionSpec s) = Some (full_attention_spec.truncate s)"
| "full_fields (TMHFullAttentionSpec s) = Some (full_attention_spec.truncate s)"
| "full_fields (MLAAttentionSpec s) = Some (full_attention_spec.truncate s)"
| "full_fields (HiddenStateCacheSpec s) = Some (full_attention_spec.truncate s)"
| "full_fields (RSWASpec s) = Some (full_attention_spec.truncate s)"
| "full_fields (SinkFullAttentionSpec s) = Some (full_attention_spec.truncate s)"
| "full_fields _ = None"

lemma isinstance_full: "isinstance s C_FullAttentionSpec \<longleftrightarrow> full_fields s \<noteq> None"
  by (cases s) (auto simp: isinstance_def)

section \<open>Merging\<close>

text \<open>A Python set built by a comprehension is the list of its elements without repetition.\<close>

definition merge_window_sizes :: "int list \<Rightarrow> int option result" where
  "merge_window_sizes window_sizes =
     (case window_sizes of [] \<Rightarrow> Inr None | [w] \<Rightarrow> Inr (Some w) | _ \<Rightarrow> Inl ValueError)"

text \<open>
  \<^verbatim>\<open>FullAttentionSpec.merge\<close> up to the class of the result. Its last two assertions compare the fields
  of \<^verbatim>\<open>AttentionSpec\<close>, which do not include \<^verbatim>\<open>head_size_v\<close>.
\<close>

definition full_merge :: "kv_cache_spec list \<Rightarrow> full_attention_spec result" where
  "full_merge specs =
     res_bind (res_guard (\<forall>s\<in>set specs. isinstance s C_FullAttentionSpec) AssertionError) (\<lambda>_.
     let fulls = List.map_filter full_fields specs;
         windows = remdups (List.map_filter sliding_window fulls);
         chunks = remdups (List.map_filter attention_chunk_size fulls)
     in res_bind (res_guard (\<not> (\<exists>s\<in>set specs. isinstance s C_MLAAttentionSpec)) AssertionError) (\<lambda>_.
     res_bind (py_index fulls 0) (\<lambda>first.
     res_bind (merge_window_sizes windows) (\<lambda>window.
     res_bind (merge_window_sizes chunks) (\<lambda>chunk.
     let merged = first\<lparr>sliding_window := window, attention_chunk_size := chunk,
                        non_causal := (\<exists>s\<in>set fulls. non_causal s)\<rparr>
     in res_bind (res_guard (\<forall>s\<in>set fulls. attention_spec.truncate s = attention_spec.truncate merged)
                   AssertionError) (\<lambda>_.
     res_bind (res_guard (\<not> (window \<noteq> None \<and> chunk \<noteq> None)) AssertionError) (\<lambda>_.
     Inr merged)))))))"

definition tq_of :: "kv_cache_spec \<Rightarrow> tq_spec result" where
  "tq_of s = (case s of TQFullAttentionSpec t \<Rightarrow> Inr t | _ \<Rightarrow> Inl AttributeError)"

definition tmh_of :: "kv_cache_spec \<Rightarrow> tmh_spec result" where
  "tmh_of s = (case s of TMHFullAttentionSpec t \<Rightarrow> Inr t | _ \<Rightarrow> Inl AttributeError)"

text \<open>\<^verbatim>\<open>all(s.tq_slot_size == v for s in specs)\<close>: it stops at the first difference.\<close>

fun all_slot_sizes :: "int \<Rightarrow> kv_cache_spec list \<Rightarrow> bool result" where
  "all_slot_sizes v [] = Inr True"
| "all_slot_sizes v (s # specs) =
     res_bind (tq_of s) (\<lambda>t. if tq_slot_size t = v then all_slot_sizes v specs else Inr False)"

definition tq_merge :: "tq_spec \<Rightarrow> kv_cache_spec list \<Rightarrow> tq_spec result" where
  "tq_merge first specs =
     res_bind (full_merge specs) (\<lambda>merged.
     res_bind (all_slot_sizes (tq_slot_size first) specs) (\<lambda>same.
     res_bind (res_guard same AssertionError) (\<lambda>_.
     Inr (full_attention_spec.extend merged (tq_spec.fields (tq_slot_size first))))))"

definition tmh_merge :: "tmh_spec \<Rightarrow> kv_cache_spec list \<Rightarrow> tmh_spec result" where
  "tmh_merge first specs =
     res_bind (full_merge specs) (\<lambda>merged.
     res_bind (res_map tmh_of specs) (\<lambda>tmhs.
     let late_flags = remdups (map tmh_late_layer tmhs)
     in res_bind (res_guard (length late_flags = 1) ValueError) (\<lambda>_.
     Inr (full_attention_spec.extend merged
       (tmh_spec.fields (tmh_hot_budget_pct first) (tmh_late_layer first)
         (tmh_max_num_seqs first) (tmh_max_model_pages first))))))"

fun mla_of :: "kv_cache_spec \<Rightarrow> mla_spec option" where
  "mla_of (MLAAttentionSpec s) = Some s"
| "mla_of (HiddenStateCacheSpec s) = Some s"
| "mla_of _ = None"

text \<open>
  \<^verbatim>\<open>MLAAttentionSpec.merge\<close>: the result is built from the listed fields only; the others take their
  defaults.
\<close>

definition mla_merge :: "mla_spec \<Rightarrow> kv_cache_spec list \<Rightarrow> mla_spec result" where
  "mla_merge first specs =
     res_bind (res_guard (\<forall>s\<in>set specs. isinstance s C_MLAAttentionSpec) AssertionError) (\<lambda>_.
     let mlas = List.map_filter mla_of specs
     in res_bind (res_guard (length (remdups (map cache_dtype_str mlas)) = 1
                   \<and> length (remdups (map compress_ratio mlas)) = 1
                   \<and> length (remdups (map model_version mlas)) = 1
                   \<and> length (remdups (map indexes_kv_by_block_stride mlas)) = 1) AssertionError) (\<lambda>_.
     Inr (first\<lparr>head_size_v := head_size first, sliding_window := None,
                attention_chunk_size := None, non_causal := False, alignment := None\<rparr>)))"

fun rswa_of :: "kv_cache_spec \<Rightarrow> rswa_spec option" where
  "rswa_of (RSWASpec s) = Some s"
| "rswa_of _ = None"

definition rswa_merge :: "rswa_spec \<Rightarrow> kv_cache_spec list \<Rightarrow> rswa_spec result" where
  "rswa_merge first specs =
     res_bind (res_guard (\<forall>s\<in>set specs. isinstance s C_RSWASpec) AssertionError) (\<lambda>_.
     let windows = remdups (map rswa_window (List.map_filter rswa_of specs))
     in res_bind (res_guard (length windows = 1) AssertionError) (\<lambda>_.
     res_bind (full_merge specs) (\<lambda>base.
     Inr (full_attention_spec.extend base (rswa_spec.fields (rswa_window first))))))"

text \<open>\<^verbatim>\<open>SinkFullAttentionSpec.merge\<close> repeats the body of the inherited method and adds \<^verbatim>\<open>sink_len\<close>.\<close>

definition sink_merge :: "sink_spec \<Rightarrow> kv_cache_spec list \<Rightarrow> sink_spec result" where
  "sink_merge first specs =
     res_bind (full_merge specs) (\<lambda>merged.
     Inr (full_attention_spec.extend merged (sink_spec.fields (sink_len first))))"

fun swm_of :: "kv_cache_spec \<Rightarrow> sliding_window_mla_spec option" where
  "swm_of (SlidingWindowMLASpec s) = Some s"
| "swm_of _ = None"

definition swm_merge :: "sliding_window_mla_spec \<Rightarrow> kv_cache_spec list \<Rightarrow> sliding_window_mla_spec result" where
  "swm_merge first specs =
     res_bind (res_guard (\<forall>s\<in>set specs. isinstance s C_SlidingWindowMLASpec) AssertionError) (\<lambda>_.
     let swms = List.map_filter swm_of specs
     in res_bind (res_guard (length (remdups (map swm_cache_dtype_str swms)) = 1
                   \<and> length (remdups (map swm_compress_ratio swms)) = 1
                   \<and> length (remdups (map swm_model_version swms)) = 1
                   \<and> length (remdups (map window_size swms)) = 1
                   \<and> length (remdups (map indexes_kv_by_block_stride swms)) = 1) AssertionError) (\<lambda>_.
     Inr (first\<lparr>kv_quant := QNone, window_head_size_v := None, swm_alignment := None\<rparr>)))"

text \<open>\<^verbatim>\<open>specs[0].merge(specs)\<close>: the class of the first specification selects the method.\<close>

definition merge_specs :: "kv_cache_spec list \<Rightarrow> kv_cache_spec result" where
  "merge_specs specs =
     (case specs of
        [] \<Rightarrow> Inl IndexError
      | FullAttentionSpec _ # _ \<Rightarrow> res_bind (full_merge specs) (\<lambda>m. Inr (FullAttentionSpec m))
      | TQFullAttentionSpec s # _ \<Rightarrow> res_bind (tq_merge s specs) (\<lambda>m. Inr (TQFullAttentionSpec m))
      | TMHFullAttentionSpec s # _ \<Rightarrow> res_bind (tmh_merge s specs) (\<lambda>m. Inr (TMHFullAttentionSpec m))
      | MLAAttentionSpec s # _ \<Rightarrow> res_bind (mla_merge s specs) (\<lambda>m. Inr (MLAAttentionSpec m))
      | HiddenStateCacheSpec s # _ \<Rightarrow> res_bind (mla_merge s specs) (\<lambda>m. Inr (HiddenStateCacheSpec m))
      | RSWASpec s # _ \<Rightarrow> res_bind (rswa_merge s specs) (\<lambda>m. Inr (RSWASpec m))
      | SinkFullAttentionSpec s # _ \<Rightarrow> res_bind (sink_merge s specs) (\<lambda>m. Inr (SinkFullAttentionSpec m))
      | SlidingWindowMLASpec s # _ \<Rightarrow> res_bind (swm_merge s specs) (\<lambda>m. Inr (SlidingWindowMLASpec m))
      | s # rest \<Rightarrow> res_bind (res_guard (\<forall>t\<in>set rest. t = s) AssertionError) (\<lambda>_. Inr s))"

section \<open>What a merge guarantees\<close>

lemma full_fields_isinstance: "isinstance s C_FullAttentionSpec \<Longrightarrow> \<exists>f. full_fields s = Some f"
  by (auto simp: isinstance_full)

lemma full_merge_fields:
  assumes "full_merge specs = Inr m" and "s \<in> set specs"
  shows "\<exists>f. full_fields s = Some f \<and> attention_spec.truncate f = attention_spec.truncate m"
proof -
  have "isinstance s C_FullAttentionSpec" using assms by (auto simp: full_merge_def res_simps)
  then obtain f where f: "full_fields s = Some f" using full_fields_isinstance by blast
  with assms(2) have "f \<in> set (List.map_filter full_fields specs)"
    by (force simp: List.map_filter_def)
  with assms(1) have "attention_spec.truncate f = attention_spec.truncate m"
    by (auto simp: full_merge_def res_simps Let_def)
  with f show ?thesis by blast
qed

lemma full_merge_head_size_v:
  assumes "full_merge (s # specs) = Inr m"
  shows "\<exists>f. full_fields s = Some f \<and> head_size_v m = head_size_v f"
proof -
  obtain f where f: "full_fields s = Some f" using full_merge_fields [OF assms, of s] by auto
  then have "List.map_filter full_fields (s # specs) = f # List.map_filter full_fields specs"
    by (simp add: List.map_filter_def)
  with assms f show ?thesis by (auto simp: full_merge_def res_simps Let_def py_index_def)
qed

lemma attention_truncate_eqD:
  assumes "attention_spec.truncate s = attention_spec.truncate t"
  shows "block_size s = block_size t" "num_kv_heads s = num_kv_heads t" "head_size s = head_size t"
    "dtype s = dtype t" "kv_quant s = kv_quant t" "page_size_padded s = page_size_padded t"
  using assms by (simp_all add: attention_spec.defs)

lemma full_page_size_cong:
  assumes "attention_spec.truncate s = attention_spec.truncate t" and "head_size_v s = head_size_v t"
  shows "full_real_page_size_bytes s = full_real_page_size_bytes t"
  using attention_truncate_eqD [OF assms(1)] assms(2) by (simp add: full_real_page_size_bytes_def)

lemma attention_page_size_cong:
  assumes "attention_spec.truncate s = attention_spec.truncate t"
  shows "attention_page_size_bytes s r = attention_page_size_bytes t r"
  using attention_truncate_eqD [OF assms] by (simp add: attention_page_size_bytes_def)

lemma truncate_truncate [simp]:
  "attention_spec.truncate (full_attention_spec.truncate s) = attention_spec.truncate s"
  "head_size_v (full_attention_spec.truncate s) = head_size_v s"
  "attention_spec.truncate (full_attention_spec.extend m x) = attention_spec.truncate m"
  "head_size_v (full_attention_spec.extend m x) = head_size_v m"
  by (simp_all add: attention_spec.defs full_attention_spec.defs)

text \<open>The head size of the values, where a specification has one.\<close>

definition spec_head_size_v :: "kv_cache_spec \<Rightarrow> int option" where
  "spec_head_size_v s = map_option head_size_v (full_fields s)"

lemma merge_specs_class:
  assumes "merge_specs specs = Inr m"
  shows "specs \<noteq> [] \<and> class_of m = class_of (hd specs)"
  using assms by (auto simp: merge_specs_def res_simps split: list.splits kv_cache_spec.splits)

lemma tq_merge_slots:
  assumes "all_slot_sizes v specs = Inr True" and "TQFullAttentionSpec t \<in> set specs"
  shows "tq_slot_size t = v"
  using assms by (induction specs) (auto simp: tq_of_def res_simps split: if_splits)

lemma full_family_layout:
  assumes "full_merge (t # rest) = Inr b" and "s \<in> set (t # rest)"
    and "spec_head_size_v s = spec_head_size_v t"
  shows "\<exists>f. full_fields s = Some f \<and> attention_spec.truncate f = attention_spec.truncate b
    \<and> head_size_v f = head_size_v b"
proof -
  obtain f where f: "full_fields s = Some f" "attention_spec.truncate f = attention_spec.truncate b"
    using full_merge_fields [OF assms(1,2)] by blast
  obtain g where g: "full_fields t = Some g" "head_size_v b = head_size_v g"
    using full_merge_head_size_v [OF assms(1)] by blast
  from f g assms(3) show ?thesis by (simp add: spec_head_size_v_def)
qed

lemma extend_truncate [simp]:
  "full_attention_spec.truncate (full_attention_spec.extend m x) = m"
  by (simp add: full_attention_spec.defs)

lemma plain_full_page_size:
  assumes "class_of s \<in> {C_FullAttentionSpec, C_RSWASpec, C_SinkFullAttentionSpec}"
    and "full_fields s = Some f"
  shows "page_size_bytes s = attention_page_size_bytes f (full_real_page_size_bytes f)
    \<and> spec_block_size s = block_size f"
  using assms
  by (cases s) (auto simp: attention_page_size_bytes_def full_real_page_size_bytes_def
      full_attention_spec.defs)

lemma merge_plain_fields:
  assumes "merge_specs (t # rest) = Inr m"
    and "class_of t \<in> {C_FullAttentionSpec, C_RSWASpec, C_SinkFullAttentionSpec}"
  shows "\<exists>b. full_merge (t # rest) = Inr b \<and> full_fields m = Some b"
  using assms by (cases t) (auto simp: merge_specs_def rswa_merge_def sink_merge_def res_simps Let_def)

lemma merge_equal_specs:
  assumes "merge_specs (t # rest) = Inr m" and "full_fields t = None"
    and "class_of t \<noteq> C_SlidingWindowMLASpec" and "s \<in> set (t # rest)"
  shows "s = m"
  using assms by (cases t) (auto simp: merge_specs_def sink_merge_def res_simps)

lemma merge_tq_page_size:
  assumes m: "merge_specs (TQFullAttentionSpec x # rest) = Inr m"
    and s: "TQFullAttentionSpec y \<in> set (TQFullAttentionSpec x # rest)"
    and hv: "head_size_v y = head_size_v x"
  shows "page_size_bytes (TQFullAttentionSpec y) = page_size_bytes m \<and> block_size y = spec_block_size m"
proof -
  obtain b where b: "full_merge (TQFullAttentionSpec x # rest) = Inr b"
    and mm: "m = TQFullAttentionSpec (full_attention_spec.extend b (tq_spec.fields (tq_slot_size x)))"
    and slots: "all_slot_sizes (tq_slot_size x) (TQFullAttentionSpec x # rest) = Inr True"
    using m by (auto simp: merge_specs_def tq_merge_def res_bind_Inr_iff res_guard_Inr_iff)
  have slot: "tq_slot_size y = tq_slot_size x" using tq_merge_slots [OF slots s] .
  obtain f where f: "f = full_attention_spec.truncate y"
    "attention_spec.truncate f = attention_spec.truncate b" "head_size_v f = head_size_v b"
    using full_family_layout [OF b s] hv by (auto simp: spec_head_size_v_def)
  let ?e = "full_attention_spec.extend b (tq_spec.fields (tq_slot_size x))"
  have lay: "attention_spec.truncate y = attention_spec.truncate ?e" "head_size_v y = head_size_v ?e"
    using f by (simp_all)
  have "tq_slot_size ?e = tq_slot_size x" by (simp add: full_attention_spec.defs tq_spec.defs)
  then show ?thesis
    using full_page_size_cong [OF lay] attention_page_size_cong [OF lay(1)] attention_truncate_eqD [OF lay(1)] slot
    by (simp add: mm tq_real_page_size_bytes_def)
qed

text \<open>
  Where the layers of a group have one class outside the MLA and tiered families and agree on the
  head size of the values, the merged specification has the page size and the block size of every
  layer.
\<close>

lemma merge_keeps_page_size:
  assumes m: "merge_specs specs = Inr m" and s: "s \<in> set specs"
    and cls: "class_of s = class_of m"
    and fam: "class_of m \<notin> {C_MLAAttentionSpec, C_HiddenStateCacheSpec, C_SlidingWindowMLASpec, C_TMHFullAttentionSpec}"
    and hv: "spec_head_size_v s = spec_head_size_v (hd specs)"
  shows "page_size_bytes s = page_size_bytes m \<and> spec_block_size s = spec_block_size m"
proof -
  obtain t rest where specs: "specs = t # rest" using s by (cases specs) auto
  have ct: "class_of t = class_of m" using merge_specs_class [OF m] specs by simp
  consider (plain) "class_of t \<in> {C_FullAttentionSpec, C_RSWASpec, C_SinkFullAttentionSpec}"
    | (tq) "class_of t = C_TQFullAttentionSpec"
    | (other) "full_fields t = None" "class_of t \<noteq> C_SlidingWindowMLASpec"
    using fam ct by (cases t) auto
  then show ?thesis
  proof cases
    case plain
    then obtain b where b: "full_merge (t # rest) = Inr b" "full_fields m = Some b"
      using merge_plain_fields m specs by blast
    then obtain f where f: "full_fields s = Some f" "attention_spec.truncate f = attention_spec.truncate b"
      "head_size_v f = head_size_v b"
      using full_family_layout [OF b(1)] s hv specs by auto
    show ?thesis
      using plain_full_page_size [OF _ f(1)] plain_full_page_size [OF _ b(2)] plain ct cls
        full_page_size_cong [OF f(2,3)] attention_page_size_cong [OF f(2)] attention_truncate_eqD(1) [OF f(2)]
      by simp
  next
    case tq
    then obtain x y where x: "t = TQFullAttentionSpec x" and y: "s = TQFullAttentionSpec y"
      using ct cls by (cases t; cases s) auto
    then have "head_size_v y = head_size_v x" using hv specs by (simp add: spec_head_size_v_def)
    then show ?thesis using merge_tq_page_size [of x rest m y] m s specs x y by simp
  next
    case other
    then show ?thesis using merge_equal_specs [of t rest m s] m s specs by simp
  qed
qed

definition bfloat16 :: torch_dtype where
  "bfloat16 = \<lparr>dtype_name = ''bfloat16'', itemsize = 2\<rparr>"

definition sample_full :: full_attention_spec where
  "sample_full = \<lparr>block_size = 16, num_kv_heads = 8, head_size = 128, dtype = bfloat16, kv_quant = QNone,
     page_size_padded = None, indexes_kv_by_block_stride = False, head_size_v = 128,
     sliding_window = None, attention_chunk_size = None, non_causal = False\<rparr>"

definition sample_tq :: tq_spec where
  "sample_tq = full_attention_spec.extend sample_full (tq_spec.fields 68)"

text \<open>
  two full-attention layers that differ in the head size of the values merge without complaint:
  the group takes the value head size, and with it the page size, of the first layer, although the
  second layer's pages have another size.
\<close>

theorem merge_ignores_head_size_v:
  assumes "sliding_window f = None" and "kv_quant f = QNone" and "page_size_padded f = None"
    and "0 < block_size f" and "0 < num_kv_heads f" and "0 < itemsize (dtype f)"
    and "v \<noteq> head_size_v f"
  shows "merge_specs [FullAttentionSpec f, FullAttentionSpec (f\<lparr>head_size_v := v\<rparr>)] = Inr (FullAttentionSpec f)
    \<and> page_size_bytes (FullAttentionSpec (f\<lparr>head_size_v := v\<rparr>)) \<noteq> page_size_bytes (FullAttentionSpec f)"
proof -
  have fulls: "List.map_filter full_fields [FullAttentionSpec f, FullAttentionSpec (f\<lparr>head_size_v := v\<rparr>)]
    = [f, f\<lparr>head_size_v := v\<rparr>]" by (simp add: List.map_filter_def)
  have sw: "List.map_filter sliding_window [f, f\<lparr>head_size_v := v\<rparr>] = []"
    using assms(1) by (simp add: List.map_filter_def)
  have ch: "merge_window_sizes (remdups (List.map_filter attention_chunk_size [f, f\<lparr>head_size_v := v\<rparr>]))
    = Inr (attention_chunk_size f)"
    by (cases "attention_chunk_size f") (simp_all add: List.map_filter_def merge_window_sizes_def)
  have tr: "attention_spec.truncate (f\<lparr>head_size_v := v\<rparr>) = attention_spec.truncate f"
    by (simp add: attention_spec.defs)
  have eq: "f\<lparr>sliding_window := None\<rparr> = f" using assms(1) by (cases f) simp
  have "full_merge [FullAttentionSpec f, FullAttentionSpec (f\<lparr>head_size_v := v\<rparr>)] = Inr f"
    unfolding full_merge_def fulls Let_def sw ch
    by (simp add: isinstance_def py_index_def merge_window_sizes_def tr ch eq)
  moreover have "page_size_bytes (FullAttentionSpec (f\<lparr>head_size_v := v\<rparr>)) \<noteq> page_size_bytes (FullAttentionSpec f)"
    using assms by (simp add: attention_page_size_bytes_def full_real_page_size_bytes_def is_per_token_head_def
        is_nvfp4_def get_dtype_size_def)
  ultimately show ?thesis by (simp add: merge_specs_def)
qed

theorem merge_ignores_head_size_v_witness:
  "merge_specs [FullAttentionSpec sample_full, FullAttentionSpec (sample_full\<lparr>head_size_v := 64\<rparr>)]
     = Inr (FullAttentionSpec sample_full)
   \<and> page_size_bytes (FullAttentionSpec (sample_full\<lparr>head_size_v := 64\<rparr>)) \<noteq> page_size_bytes (FullAttentionSpec sample_full)"
  by (rule merge_ignores_head_size_v) (simp_all add: sample_full_def bfloat16_def)

text \<open>
  tiered layers whose common fields merge are merged exactly when all of them are early or all
  are late; otherwise the merge raises \<^verbatim>\<open>ValueError\<close>. The tier parameters are those of the first layer.
\<close>

theorem tmh_merge_separates_fidelity:
  assumes "full_merge (map TMHFullAttentionSpec ts) = Inr b" and "ts \<noteq> []"
  shows "merge_specs (map TMHFullAttentionSpec ts) =
    (if \<forall>t\<in>set ts. tmh_late_layer t = tmh_late_layer (hd ts)
     then Inr (TMHFullAttentionSpec (full_attention_spec.extend b
       (tmh_spec.fields (tmh_hot_budget_pct (hd ts)) (tmh_late_layer (hd ts))
         (tmh_max_num_seqs (hd ts)) (tmh_max_model_pages (hd ts)))))
     else Inl ValueError)"
proof -
  obtain t rest where ts: "ts = t # rest" using assms(2) by (cases ts) auto
  have of: "res_map tmh_of (map TMHFullAttentionSpec ts) = Inr ts"
    by (induction ts) (simp_all add: tmh_of_def)
  have "length (remdups (map tmh_late_layer ts)) = card (tmh_late_layer ` set ts)"
    by (metis length_remdups_card_conv list.set_map)
  also have "\<dots> = 1 \<longleftrightarrow> (\<forall>u\<in>set ts. tmh_late_layer u = tmh_late_layer (hd ts))"
    using ts by (auto simp: card_1_singleton_iff)
  finally have "length (remdups (map tmh_late_layer ts)) = 1 \<longleftrightarrow>
    (\<forall>u\<in>set ts. tmh_late_layer u = tmh_late_layer (hd ts))" .
  then have "tmh_merge t (map TMHFullAttentionSpec ts) =
    (if \<forall>u\<in>set ts. tmh_late_layer u = tmh_late_layer (hd ts)
     then Inr (full_attention_spec.extend b (tmh_spec.fields (tmh_hot_budget_pct t) (tmh_late_layer t)
         (tmh_max_num_seqs t) (tmh_max_model_pages t))) else Inl ValueError)"
    by (cases "\<forall>u\<in>set ts. tmh_late_layer u = tmh_late_layer (hd ts)") (simp_all add: tmh_merge_def assms(1) of Let_def)
  then show ?thesis by (simp add: merge_specs_def ts)
qed

definition sample_tmh :: tmh_spec where
  "sample_tmh = full_attention_spec.extend sample_full (tmh_spec.fields 25 False 4 64)"

theorem tmh_merge_separates_fidelity_witness:
  "merge_specs (map TMHFullAttentionSpec [sample_tmh, sample_tmh\<lparr>tmh_late_layer := True\<rparr>]) = Inl ValueError
   \<and> merge_specs (map TMHFullAttentionSpec [sample_tmh, sample_tmh]) = Inr (TMHFullAttentionSpec sample_tmh)"
proof -
  have "full_merge (map TMHFullAttentionSpec [sample_tmh, sample_tmh\<lparr>tmh_late_layer := True\<rparr>]) = Inr sample_full"
    by code_simp
  from tmh_merge_separates_fidelity [OF this]
  have "merge_specs (map TMHFullAttentionSpec [sample_tmh, sample_tmh\<lparr>tmh_late_layer := True\<rparr>]) = Inl ValueError"
    by (simp add: sample_tmh_def full_attention_spec.defs tmh_spec.defs)
  moreover have "merge_specs (map TMHFullAttentionSpec [sample_tmh, sample_tmh]) = Inr (TMHFullAttentionSpec sample_tmh)"
    by code_simp
  ultimately show ?thesis by blast
qed

end
