(* ===== verification/SpecRegistry.thy ===== *)
theory SpecRegistry
  imports SpecMerge
begin

text \<open>
  The registry of \<^verbatim>\<open>vllm/v1/kv_cache_spec_registry.py\<close>, the built-in registrations of
  \<^verbatim>\<open>single_type_kv_cache_manager.py\<close> and the uniform-type check of \<^verbatim>\<open>kv_cache_interface.py\<close> that
  reads the registry.
\<close>

section \<open>The registry\<close>

datatype manager_class =
    FullAttentionManager
  | RSWAManager
  | SlidingWindowManager
  | ChunkedLocalAttentionManager
  | MambaManager
  | CrossAttentionManager
  | SinkFullAttentionManager

record spec_metadata =
  md_manager_class :: manager_class
  md_uniform_type_base_spec :: spec_class

type_synonym registry = "(spec_class, spec_metadata) dict"

definition register :: "spec_class \<Rightarrow> manager_class option \<Rightarrow> spec_class option \<Rightarrow> registry \<Rightarrow> registry result" where
  "register cls manager base reg =
     (case manager of
        None \<Rightarrow> Inl AssertionError
      | Some mc \<Rightarrow>
          let ub = (case base of None \<Rightarrow> cls | Some b \<Rightarrow> b);
              md = \<lparr>md_manager_class = mc, md_uniform_type_base_spec = ub\<rparr>
          in res_bind (res_guard (ub \<in> set (mro cls)) AssertionError) (\<lambda>_.
             res_bind (case dict_get reg cls of
                         None \<Rightarrow> Inr ()
                       | Some old \<Rightarrow> res_guard (mc = md_manager_class old \<and> ub = md_uniform_type_base_spec old)
                                      AssertionError) (\<lambda>_.
             Inr (dict_set cls md reg))))"

text \<open>The first registered class in the resolution order of a class.\<close>

definition registered_base :: "registry \<Rightarrow> kv_cache_spec \<Rightarrow> spec_metadata option" where
  "registered_base reg s =
     (case filter (\<lambda>c. dict_get reg c \<noteq> None) (mro (class_of s)) of
        [] \<Rightarrow> None
      | c # _ \<Rightarrow> dict_get reg c)"

definition get_manager_class :: "registry \<Rightarrow> kv_cache_spec \<Rightarrow> manager_class option" where
  "get_manager_class reg s = map_option md_manager_class (registered_base reg s)"

definition get_uniform_type_base_spec :: "registry \<Rightarrow> kv_cache_spec \<Rightarrow> spec_class option" where
  "get_uniform_type_base_spec reg s = map_option md_uniform_type_base_spec (registered_base reg s)"

fun check_kv_cache_spec_registry :: "registry \<Rightarrow> (string \<times> kv_cache_spec) list \<Rightarrow> unit result" where
  "check_kv_cache_spec_registry reg [] = Inr ()"
| "check_kv_cache_spec_registry reg ((layer_name, s) # rest) =
     (if get_uniform_type_base_spec reg s = None then Inl ValueError
      else if get_manager_class reg s = None then Inl ValueError
      else check_kv_cache_spec_registry reg rest)"

text \<open>
  \<^verbatim>\<open>register_all_kvcache_specs\<close>. The last statement of the source asks the platform for further
  registrations; \<open>register_custom\<close> stands for it.
\<close>

definition builtin_registrations :: "(spec_class \<times> manager_class \<times> spec_class) list" where
  "builtin_registrations =
     [(C_FullAttentionSpec, FullAttentionManager, C_FullAttentionSpec),
      (C_SlidingWindowSpec, SlidingWindowManager, C_SlidingWindowSpec),
      (C_SlidingWindowMLASpec, SlidingWindowManager, C_SlidingWindowMLASpec),
      (C_MambaSpec, MambaManager, C_MambaSpec),
      (C_ChunkedLocalAttentionSpec, ChunkedLocalAttentionManager, C_ChunkedLocalAttentionSpec),
      (C_CrossAttentionSpec, CrossAttentionManager, C_CrossAttentionSpec),
      (C_TQFullAttentionSpec, FullAttentionManager, C_FullAttentionSpec),
      (C_TMHFullAttentionSpec, FullAttentionManager, C_FullAttentionSpec),
      (C_MLAAttentionSpec, FullAttentionManager, C_FullAttentionSpec),
      (C_RSWASpec, RSWAManager, C_FullAttentionSpec),
      (C_HiddenStateCacheSpec, FullAttentionManager, C_FullAttentionSpec),
      (C_SinkFullAttentionSpec, SinkFullAttentionManager, C_FullAttentionSpec)]"

definition register_all_kvcache_specs :: "(registry \<Rightarrow> registry result) \<Rightarrow> registry \<Rightarrow> registry result" where
  "register_all_kvcache_specs register_custom reg =
     res_bind (res_fold (\<lambda>(cls, mc, ub). register cls (Some mc) (Some ub)) builtin_registrations reg)
       register_custom"

text \<open>\<^verbatim>\<open>_ensure_registered\<close>: the built-in registration runs while the registry is empty.\<close>

definition ensure_registered :: "(registry \<Rightarrow> registry result) \<Rightarrow> registry \<Rightarrow> registry result" where
  "ensure_registered register_custom reg =
     (if reg \<noteq> [] then Inr reg else register_all_kvcache_specs register_custom reg)"

section \<open>Uniform-type groups\<close>

definition base_is_uniform_with_collection :: "registry \<Rightarrow> kv_cache_spec \<Rightarrow> (string \<times> kv_cache_spec) list \<Rightarrow> bool result" where
  "base_is_uniform_with_collection reg s specs =
     (case get_uniform_type_base_spec reg s of
        None \<Rightarrow> Inl AssertionError
      | Some b \<Rightarrow> Inr (\<forall>p\<in>set specs. isinstance (snd p) b))"

fun window_of :: "kv_cache_spec \<Rightarrow> int option" where
  "window_of (SlidingWindowSpec s) = Some (window_size s)"
| "window_of (SlidingWindowMLASpec s) = Some (window_size s)"
| "window_of _ = None"

fun is_uniform_with_collection :: "registry \<Rightarrow> kv_cache_spec \<Rightarrow> (string \<times> kv_cache_spec) list \<Rightarrow> bool result" where
  "is_uniform_with_collection reg (ChunkedLocalAttentionSpec s) specs =
     Inr (\<forall>p\<in>set specs. case snd p of ChunkedLocalAttentionSpec t \<Rightarrow> local_chunk_size t = local_chunk_size s | _ \<Rightarrow> False)"
| "is_uniform_with_collection reg (SlidingWindowSpec s) specs =
     Inr (\<forall>p\<in>set specs. window_of (snd p) = Some (window_size s))"
| "is_uniform_with_collection reg (SlidingWindowMLASpec s) specs =
     Inr (\<forall>p\<in>set specs. case snd p of SlidingWindowMLASpec t \<Rightarrow> window_size t = window_size s | _ \<Rightarrow> False)"
| "is_uniform_with_collection reg (MambaSpec s) specs =
     Inr (\<forall>p\<in>set specs. case snd p of MambaSpec t \<Rightarrow> num_speculative_blocks t = num_speculative_blocks s | _ \<Rightarrow> False)"
| "is_uniform_with_collection reg s specs = base_is_uniform_with_collection reg s specs"

definition is_uniform_type :: "registry \<Rightarrow> (string \<times> kv_cache_spec) list \<Rightarrow> bool result" where
  "is_uniform_type reg specs =
     (if length (remdups (map (\<lambda>p. spec_block_size (snd p)) specs)) > 1 then Inr False
      else case specs of
             [] \<Rightarrow> Inl StopIteration
           | p # _ \<Rightarrow> is_uniform_with_collection reg (snd p) specs)"

definition from_specs :: "registry \<Rightarrow> (string \<times> kv_cache_spec) list \<Rightarrow> kv_cache_spec option result" where
  "from_specs reg specs =
     res_bind (is_uniform_type reg specs) (\<lambda>u.
       if u then (case specs of
                    [] \<Rightarrow> Inl StopIteration
                  | p # _ \<Rightarrow> Inr (Some (UniformTypeKVCacheSpecs (spec_block_size (snd p)) specs)))
       else Inr None)"

definition max_memory_usage_pages :: "(string \<times> kv_cache_spec) list \<Rightarrow> vllm_config \<Rightarrow> int result" where
  "max_memory_usage_pages specs cfg =
     res_bind (res_map (\<lambda>q. res_bind (max_memory_usage_bytes (snd q) cfg) (\<lambda>m.
                 res_bind (page_size_bytes (snd q)) (\<lambda>p. py_cdiv m p))) specs) py_max"

section \<open>Kinds\<close>

datatype spec_kind =
    FULL_ATTENTION
  | TMH_FULL_ATTENTION
  | MLA_ATTENTION
  | SLIDING_WINDOW
  | SLIDING_WINDOW_MLA
  | MAMBA
  | CHUNKED_LOCAL_ATTENTION
  | SINK_FULL_ATTENTION
  | ENCODER_ONLY_ATTENTION
  | CROSS_ATTENTION
  | UNKNOWN

fun get_kv_cache_spec_kind :: "kv_cache_spec \<Rightarrow> spec_kind" where
  "get_kv_cache_spec_kind (UniformTypeKVCacheSpecs _ specs) =
     (case remdups (map (\<lambda>p. get_kv_cache_spec_kind (snd p)) specs) of [k] \<Rightarrow> k | _ \<Rightarrow> UNKNOWN)"
| "get_kv_cache_spec_kind s =
     (if isinstance s C_SlidingWindowMLASpec then SLIDING_WINDOW_MLA
      else if isinstance s C_MLAAttentionSpec then MLA_ATTENTION
      else if isinstance s C_SinkFullAttentionSpec then SINK_FULL_ATTENTION
      else if isinstance s C_TMHFullAttentionSpec then TMH_FULL_ATTENTION
      else if isinstance s C_FullAttentionSpec then FULL_ATTENTION
      else if isinstance s C_ChunkedLocalAttentionSpec then CHUNKED_LOCAL_ATTENTION
      else if isinstance s C_SlidingWindowSpec then SLIDING_WINDOW
      else if isinstance s C_MambaSpec then MAMBA
      else if isinstance s C_EncoderOnlyAttentionSpec then ENCODER_ONLY_ATTENTION
      else if isinstance s C_CrossAttentionSpec then CROSS_ATTENTION
      else UNKNOWN)"

fun get_kv_cache_spec_sliding_window :: "kv_cache_spec \<Rightarrow> int option" where
  "get_kv_cache_spec_sliding_window (UniformTypeKVCacheSpecs _ specs) =
     (case remdups (map (\<lambda>p. get_kv_cache_spec_sliding_window (snd p)) specs) of [w] \<Rightarrow> w | _ \<Rightarrow> None)"
| "get_kv_cache_spec_sliding_window s = window_of s"

section \<open>The built-in registrations\<close>

definition builtin_registry :: registry where
  "builtin_registry =
     map (\<lambda>(cls, mc, ub). (cls, \<lparr>md_manager_class = mc, md_uniform_type_base_spec = ub\<rparr>)) builtin_registrations"

lemma register_all_builtin: "register_all_kvcache_specs Inr [] = Inr builtin_registry"
  by code_simp

lemma register_all_again: "register_all_kvcache_specs Inr builtin_registry = Inr builtin_registry"
  by code_simp

definition manager_table :: "spec_class \<Rightarrow> manager_class option" where
  "manager_table c =
     (if c = C_RSWASpec then Some RSWAManager
      else if c = C_SinkFullAttentionSpec then Some SinkFullAttentionManager
      else if C_FullAttentionSpec \<in> set (mro c) then Some FullAttentionManager
      else if C_SlidingWindowSpec \<in> set (mro c) then Some SlidingWindowManager
      else if c = C_MambaSpec then Some MambaManager
      else if c = C_ChunkedLocalAttentionSpec then Some ChunkedLocalAttentionManager
      else if c = C_CrossAttentionSpec then Some CrossAttentionManager
      else None)"

lemma builtin_manager: "get_manager_class builtin_registry s = manager_table (class_of s)"
  by (cases s)
    (simp_all add: get_manager_class_def registered_base_def builtin_registry_def
      builtin_registrations_def manager_table_def)

lemma builtin_base:
  "case get_uniform_type_base_spec builtin_registry s of
     None \<Rightarrow> class_of s \<in> {C_EncoderOnlyAttentionSpec, C_UniformTypeKVCacheSpecs}
   | Some b \<Rightarrow> isinstance s b \<and> class_of s \<notin> {C_EncoderOnlyAttentionSpec, C_UniformTypeKVCacheSpecs}"
  by (cases s)
    (simp_all add: get_uniform_type_base_spec_def registered_base_def builtin_registry_def
      builtin_registrations_def isinstance_def)

lemma builtin_check:
  "check_kv_cache_spec_registry builtin_registry specs =
     (if \<exists>p\<in>set specs. class_of (snd p) \<in> {C_EncoderOnlyAttentionSpec, C_UniformTypeKVCacheSpecs}
      then Inl ValueError else Inr ())"
proof (induction specs)
  case (Cons p specs)
  show ?case
    using Cons builtin_base [of "snd p"] builtin_manager [of "snd p"]
    by (cases p; cases "snd p") (auto simp: manager_table_def split: option.splits)
qed simp

text \<open>
  The built-in registrations succeed on an empty registry and change nothing when repeated.
  Afterwards the manager of a specification is the one of its nearest registered class, the grouping
  base is a class of the specification, and the registry check raises exactly for a layer that is
  encoder-only or already a uniform group.
\<close>

lemma builtin_registry_dispatch:
  "\<exists>reg. register_all_kvcache_specs Inr [] = Inr reg \<and> register_all_kvcache_specs Inr reg = Inr reg
     \<and> (\<forall>s. get_manager_class reg s = manager_table (class_of s))
     \<and> (\<forall>s. case get_uniform_type_base_spec reg s of
               None \<Rightarrow> class_of s \<in> {C_EncoderOnlyAttentionSpec, C_UniformTypeKVCacheSpecs}
             | Some b \<Rightarrow> isinstance s b)
     \<and> (\<forall>specs. check_kv_cache_spec_registry reg specs =
          (if \<exists>p\<in>set specs. class_of (snd p) \<in> {C_EncoderOnlyAttentionSpec, C_UniformTypeKVCacheSpecs}
           then Inl ValueError else Inr ()))"
proof (intro exI [of _ builtin_registry] conjI allI)
  fix s show "case get_uniform_type_base_spec builtin_registry s of
      None \<Rightarrow> class_of s \<in> {C_EncoderOnlyAttentionSpec, C_UniformTypeKVCacheSpecs}
    | Some b \<Rightarrow> isinstance s b"
    using builtin_base [of s] by (simp split: option.splits)
qed (rule register_all_builtin register_all_again builtin_manager builtin_check)+

section \<open>The memory of a uniform group\<close>

lemma uniform_group_bound:
  assumes "\<And>q. q \<in> set specs \<Longrightarrow> \<exists>p>0. page_size_bytes (snd q) = Inr p"
    and "res_map (\<lambda>q. res_bind (max_memory_usage_bytes (snd q) cfg) (\<lambda>m.
           res_bind (page_size_bytes (snd q)) (\<lambda>p. py_cdiv m p))) specs = Inr pages"
    and "\<And>n. n \<in> set pages \<Longrightarrow> n \<le> M"
    and "res_map (\<lambda>p. page_size_bytes (snd p)) specs = Inr sizes"
  shows "\<exists>ms. list_all2 (\<lambda>q m. max_memory_usage_bytes (snd q) cfg = Inr m) specs ms \<and> sum_list ms \<le> M * sum_list sizes"
  using assms
proof (induction specs arbitrary: pages sizes)
  case Nil
  then show ?case by simp
next
  case (Cons q specs)
  obtain p where p: "0 < p" "page_size_bytes (snd q) = Inr p" using Cons.prems(1) [of q] by auto
  obtain m pages' sizes' where
    m: "max_memory_usage_bytes (snd q) cfg = Inr m" "pages = cdiv m p # pages'" "sizes = p # sizes'"
    and rest: "res_map (\<lambda>q. res_bind (max_memory_usage_bytes (snd q) cfg) (\<lambda>m.
           res_bind (page_size_bytes (snd q)) (\<lambda>p. py_cdiv m p))) specs = Inr pages'"
      "res_map (\<lambda>p. page_size_bytes (snd p)) specs = Inr sizes'"
    using Cons.prems(2,4) p by (auto simp: res_bind_Inr_iff py_cdiv_Inr_iff)
  obtain ms where ms: "list_all2 (\<lambda>q m. max_memory_usage_bytes (snd q) cfg = Inr m) specs ms"
    "sum_list ms \<le> M * sum_list sizes'"
    using Cons.IH [OF _ rest(1) _ rest(2)] Cons.prems(1,3) m by auto
  have "cdiv m p \<le> M" using Cons.prems(3) m by simp
  then have "m \<le> M * p" using cdiv_le_iff [OF p(1)] by simp
  with ms m show ?case by (intro exI [of _ "m # ms"]) (simp add: algebra_simps)
qed

lemma uniform_type_block_size:
  assumes "is_uniform_type reg specs = Inr True" and "q \<in> set specs"
  shows "spec_block_size (snd q) = spec_block_size (snd (hd specs))"
proof -
  let ?bs = "map (\<lambda>p. spec_block_size (snd p)) specs"
  have "length (remdups ?bs) \<le> 1" using assms(1) by (auto simp: is_uniform_type_def split: if_splits)
  moreover have "remdups ?bs \<noteq> []" using assms(2) by auto
  ultimately have "length (remdups ?bs) = 1" by (cases "remdups ?bs") auto
  then have "card (set ?bs) = 1" by (metis length_remdups_card_conv)
  then obtain b where "set ?bs = {b}" by (auto simp: card_1_singleton_iff)
  then have "spec_block_size (snd p) = b" if "p \<in> set specs" for p using that by auto
  moreover have "hd specs \<in> set specs" using assms(2) by (cases specs) auto
  ultimately show ?thesis using assms(2) by simp
qed

text \<open>
  a uniform group, once formed, has one block size, and the memory it reserves covers the memory
  that its layers need one by one.
\<close>

theorem uniform_group_covers_layers:
  assumes u: "from_specs reg specs = Inr (Some u)"
    and usage: "max_memory_usage_bytes u cfg = Inr usage"
    and pos: "\<And>q. q \<in> set specs \<Longrightarrow> \<exists>p>0. page_size_bytes (snd q) = Inr p"
  shows "(\<exists>ms. list_all2 (\<lambda>q m. max_memory_usage_bytes (snd q) cfg = Inr m) specs ms \<and> sum_list ms \<le> usage)
    \<and> (\<forall>q\<in>set specs. spec_block_size (snd q) = spec_block_size u)"
proof -
  have uni: "is_uniform_type reg specs = Inr True" and
    u': "u = UniformTypeKVCacheSpecs (spec_block_size (snd (hd specs))) specs"
    using u by (auto simp: from_specs_def res_bind_Inr_iff split: if_splits list.splits)
  obtain pages M sizes where *:
    "res_map (\<lambda>q. res_bind (max_memory_usage_bytes (snd q) cfg) (\<lambda>m.
           res_bind (page_size_bytes (snd q)) (\<lambda>p. py_cdiv m p))) specs = Inr pages"
    "py_max pages = Inr M" "res_map (\<lambda>p. page_size_bytes (snd p)) specs = Inr sizes"
    "usage = M * sum_list sizes"
    using usage by (auto simp: u' res_bind_Inr_iff)
  have "\<exists>ms. list_all2 (\<lambda>q m. max_memory_usage_bytes (snd q) cfg = Inr m) specs ms \<and> sum_list ms \<le> usage"
    using uniform_group_bound [OF pos *(1) _ *(3)] py_max_ge [OF *(2)] *(4) by auto
  moreover have "\<forall>q\<in>set specs. spec_block_size (snd q) = spec_block_size u"
    using uniform_type_block_size [OF uni] by (simp add: u')
  ultimately show ?thesis by blast
qed

definition sample_config :: vllm_config where
  "sample_config = \<lparr>max_model_len = 100, decode_context_parallel_size = 1, prefill_context_parallel_size = 1,
     max_num_batched_tokens = 64, max_num_encoder_input_tokens = 0, cfg_mamba_cache_mode = ''none'', num_gpu_blocks_override = None\<rparr>"

definition sample_layers :: "(string \<times> kv_cache_spec) list" where
  "sample_layers = [(''a'', FullAttentionSpec sample_full), (''b'', TQFullAttentionSpec sample_tq)]"

theorem uniform_group_covers_layers_witness:
  "\<exists>ms usage. max_memory_usage_bytes (UniformTypeKVCacheSpecs 16 sample_layers) sample_config = Inr usage
     \<and> list_all2 (\<lambda>q m. max_memory_usage_bytes (snd q) sample_config = Inr m) sample_layers ms
     \<and> sum_list ms \<le> usage"
proof -
  have u: "from_specs builtin_registry sample_layers = Inr (Some (UniformTypeKVCacheSpecs 16 sample_layers))"
    by code_simp
  have t: "max_memory_usage_bytes (UniformTypeKVCacheSpecs 16 sample_layers) sample_config = Inr (7 * 74240)"
    by code_simp
  have "page_size_bytes (FullAttentionSpec sample_full) = Inr 65536"
    "page_size_bytes (TQFullAttentionSpec sample_tq) = Inr 8704" by code_simp+
  then have "\<exists>p>0. page_size_bytes (snd q) = Inr p" if "q \<in> set sample_layers" for q
    using that by (auto simp: sample_layers_def)
  from uniform_group_covers_layers [OF u t this] t show ?thesis by blast
qed

end
