(* ===== verification/TmhSpec.thy ===== *)
theory TmhSpec
  imports SpecRegistry
begin

text \<open>
  Sizing of the tiered cache: how \<^verbatim>\<open>TMHFullAttentionSpec\<close> splits logical blocks into raw and warm
  pages, and the search of \<^verbatim>\<open>kv_cache_utils.py\<close> for the number of blocks that fit into the memory.
\<close>

section \<open>Groups and tensors\<close>

record kv_cache_group =
  layer_names :: "string list"
  group_spec :: kv_cache_spec
  is_eagle_group :: bool

record kv_cache_tensor =
  tensor_size :: int
  shared_by :: "string list"
  tensor_offset :: int
  block_stride :: int
  logical_num_blocks :: "int option"

text \<open>One group of \<^verbatim>\<open>_tmh_physical_specs_by_layer\<close>; \<open>None\<close> is its early \<^verbatim>\<open>return None\<close>.\<close>

fun collect_uniform_layers ::
  "(string \<times> kv_cache_spec) list \<Rightarrow> string list \<Rightarrow> (string, tmh_spec) dict \<Rightarrow> (string, tmh_spec) dict option" where
  "collect_uniform_layers layer_specs [] specs = Some specs"
| "collect_uniform_layers layer_specs (layer_name # names) specs =
     (case dict_get layer_specs layer_name of
        Some (TMHFullAttentionSpec t) \<Rightarrow> collect_uniform_layers layer_specs names (dict_set layer_name t specs)
      | _ \<Rightarrow> None)"

fun collect_groups :: "kv_cache_group list \<Rightarrow> (string, tmh_spec) dict \<Rightarrow> (string, tmh_spec) dict option" where
  "collect_groups [] specs = Some specs"
| "collect_groups (g # gs) specs =
     (case group_spec g of
        UniformTypeKVCacheSpecs _ layer_specs \<Rightarrow>
          (case collect_uniform_layers layer_specs (layer_names g) specs of
             None \<Rightarrow> None | Some specs' \<Rightarrow> collect_groups gs specs')
      | TMHFullAttentionSpec t \<Rightarrow>
          collect_groups gs (fold (\<lambda>layer_name. dict_set layer_name t) (layer_names g) specs)
      | _ \<Rightarrow> None)"

definition tmh_physical_specs_by_layer :: "kv_cache_group list \<Rightarrow> (string, tmh_spec) dict option" where
  "tmh_physical_specs_by_layer groups =
     (case collect_groups groups [] of None \<Rightarrow> None | Some [] \<Rightarrow> None | Some specs \<Rightarrow> Some specs)"

section \<open>The search\<close>

definition tmh_physical_allocation_bytes :: "(string, tmh_spec) dict \<Rightarrow> int \<Rightarrow> int" where
  "tmh_physical_allocation_bytes specs_by_layer num_blocks =
     sum_list (map (\<lambda>p. physical_allocation_bytes (snd p) num_blocks) specs_by_layer)"

text \<open>The first loop doubles the upper bound; it may diverge, then its value is \<open>None\<close>.\<close>

partial_function (option) double_hi :: "(string, tmh_spec) dict \<Rightarrow> int \<Rightarrow> int \<Rightarrow> int option" where
  "double_hi specs available_memory hi =
     (if tmh_physical_allocation_bytes specs hi \<le> available_memory
      then double_hi specs available_memory (hi * 2) else Some hi)"

declare double_hi.simps [code]

function bisect :: "(string, tmh_spec) dict \<Rightarrow> int \<Rightarrow> int \<Rightarrow> int \<Rightarrow> int" where
  "bisect specs available_memory lo hi =
     (if lo + 1 < hi
      then let mid = (lo + hi) div 2
           in if tmh_physical_allocation_bytes specs mid \<le> available_memory
              then bisect specs available_memory mid hi
              else bisect specs available_memory lo mid
      else lo)"
  by pat_completeness auto
termination by (relation "measure (\<lambda>(_, _, lo, hi). nat (hi - lo))") auto

declare bisect.simps [simp del]

definition tmh_physical_num_blocks_for_memory :: "(string, tmh_spec) dict \<Rightarrow> int \<Rightarrow> int option" where
  "tmh_physical_num_blocks_for_memory specs available_memory =
     (if available_memory \<le> 0 then Some 0
      else case double_hi specs available_memory 1 of
             None \<Rightarrow> None
           | Some hi \<Rightarrow> Some (bisect specs available_memory 0 hi))"

definition may_override_num_blocks :: "vllm_config \<Rightarrow> int \<Rightarrow> int" where
  "may_override_num_blocks cfg num_blocks =
     (case num_gpu_blocks_override cfg of Some n \<Rightarrow> n | None \<Rightarrow> num_blocks)"

text \<open>
  \<^verbatim>\<open>_get_tmh_physical_kv_cache_config\<close>; the outer option is divergence of the search, the inner one
  the source's \<^verbatim>\<open>None\<close> for groups that are not all tiered.
\<close>

definition get_tmh_physical_kv_cache_config ::
  "vllm_config \<Rightarrow> kv_cache_group list \<Rightarrow> int \<Rightarrow> (int \<times> kv_cache_tensor list) option option" where
  "get_tmh_physical_kv_cache_config cfg groups available_memory =
     (case tmh_physical_specs_by_layer groups of
        None \<Rightarrow> Some None
      | Some specs \<Rightarrow>
          (case tmh_physical_num_blocks_for_memory specs available_memory of
             None \<Rightarrow> None
           | Some n \<Rightarrow>
               let num_blocks = may_override_num_blocks cfg n
               in Some (Some (num_blocks,
                    map (\<lambda>(layer_name, spec).
                      \<lparr>tensor_size = physical_allocation_bytes spec num_blocks, shared_by = [layer_name],
                       tensor_offset = 0, block_stride = 0, logical_num_blocks = Some num_blocks\<rparr>) specs))))"

section \<open>Page counts\<close>

lemma page_counts_bounds:
  assumes "0 < n" and "0 \<le> tmh_max_num_seqs s" and "physical_pool_page_counts s n = (raw, warm)"
  shows "raw + warm = n" and "min n (tmh_max_num_seqs s) \<le> raw" and "0 \<le> warm"
proof -
  define h where "h = max 0 (min 1 (fl (tmh_hot_budget_pct s / 100)))"
  define m where "m = max 0 (n - min n (tmh_max_num_seqs s))"
  have "0 \<le> fl (fl (of_int m) * h)"
    by (intro fp.rnd_nonneg mult_nonneg_nonneg) (simp_all add: m_def h_def)
  then have "0 \<le> \<lceil>fl (fl (of_int m) * h)\<rceil>" by simp
  moreover have "raw = min n (min n (tmh_max_num_seqs s) + \<lceil>fl (fl (of_int m) * h)\<rceil>)"
    and "warm = max 0 (n - raw)"
    using assms(1,3) by (auto simp: physical_pool_page_counts_def h_def m_def Let_def)
  ultimately show "raw + warm = n" "min n (tmh_max_num_seqs s) \<le> raw" "0 \<le> warm"
    using assms(1,2) by linarith+
qed

lemma raw_pages_mono:
  assumes "0 \<le> tmh_max_num_seqs s" and "m \<le> n"
  shows "fst (physical_pool_page_counts s m) \<le> fst (physical_pool_page_counts s n)"
proof (cases "m \<le> 0")
  case True
  then show ?thesis
    using assms page_counts_bounds(2) [of n s "fst (physical_pool_page_counts s n)" "snd (physical_pool_page_counts s n)"]
    by (cases "n \<le> 0") (auto simp: physical_pool_page_counts_def)
next
  case False
  define h where "h = max 0 (min 1 (fl (tmh_hot_budget_pct s / 100)))"
  define k where "k n = max 0 (n - min n (tmh_max_num_seqs s))" for n :: int
  have h: "0 \<le> h" by (simp add: h_def)
  have "k m \<le> k n" using assms(2) by (simp add: k_def)
  then have "fl (fl (of_int (k m)) * h) \<le> fl (fl (of_int (k n)) * h)"
    using h by (intro fp.rnd_mono mult_right_mono) simp_all
  then have "\<lceil>fl (fl (of_int (k m)) * h)\<rceil> \<le> \<lceil>fl (fl (of_int (k n)) * h)\<rceil>" by (rule ceiling_mono)
  with False assms show ?thesis
    by (simp add: physical_pool_page_counts_def h_def [symmetric] k_def [symmetric] Let_def) linarith
qed

lemma raw_pages_close:
  assumes n: "0 < n" "n \<le> 2 ^ 40" and seqs: "0 \<le> tmh_max_num_seqs s"
    and pct: "0 \<le> tmh_hot_budget_pct s" "tmh_hot_budget_pct s \<le> 100"
    and raw: "physical_pool_page_counts s n = (raw, warm)"
  defines "anchor \<equiv> min n (tmh_max_num_seqs s)"
  defines "x \<equiv> of_int anchor + of_int (n - anchor) * tmh_hot_budget_pct s / 100"
  shows "x - 1 / 2 < of_int raw" and "of_int raw < x + 3 / 2"
proof -
  define p where "p = tmh_hot_budget_pct s / 100"
  define m where "m = n - anchor"
  define h where "h = fl p"
  have p: "0 \<le> p" "p \<le> 1" using pct by (simp_all add: p_def)
  have h: "0 \<le> h" "h \<le> 1" using p fp.rnd_nonneg fp.rnd_le_one by (simp_all add: h_def)
  have "\<bar>h - p\<bar> \<le> p / 2 ^ 53" unfolding h_def using p(1) by (rule fp.rnd_error)
  also have "\<dots> \<le> 1 / 2 ^ 53" using p(2) by (intro divide_right_mono) simp_all
  finally have hp: "\<bar>h - p\<bar> \<le> 1 / 2 ^ 53" .
  have m: "0 \<le> m" "m \<le> n" using n seqs by (simp_all add: m_def anchor_def)
  have mr: "(of_int m :: rat) \<le> 2 ^ 40" using m n by (metis of_int_le_iff of_int_numeral of_int_power order_trans)
  have m0: "(0 :: rat) \<le> of_int m" using m by simp
  have flm: "fl (of_int m) = of_int m" using m n by (intro fp.rnd_int) simp
  define y where "y = (of_int m :: rat) * h"
  have y: "0 \<le> y" "y \<le> of_int m" using h m0 mult_left_mono [of h 1 "of_int m"] by (simp_all add: y_def)
  have "\<bar>y - of_int m * p\<bar> = of_int m * \<bar>h - p\<bar>" using m0 by (simp add: y_def abs_mult right_diff_distrib [symmetric])
  also have "\<dots> \<le> 2 ^ 40 * (1 / 2 ^ 53)"
    using mr hp by (rule mult_mono) simp_all
  finally have e1: "\<bar>y - of_int m * p\<bar> \<le> 1 / 8192" by simp
  have "\<bar>fl y - y\<bar> \<le> y / 2 ^ 53" using fp.rnd_error y by simp
  also have "\<dots> \<le> 2 ^ 40 / 2 ^ 53" using y mr by (intro divide_right_mono) simp_all
  finally have e2: "\<bar>fl y - y\<bar> \<le> 1 / 8192" by simp
  have flmp: "of_int m * p - 1 / 2 < fl y" "fl y < of_int m * p + 1 / 2" using abs_le_D1 [OF e1] abs_le_D2 [OF e1] abs_le_D1 [OF e2] abs_le_D2 [OF e2] by linarith+
  have hot: "max 0 (min 1 (fl (tmh_hot_budget_pct s / 100))) = h" using h by (simp add: h_def p_def)
  have "raw = min n (anchor + \<lceil>fl y\<rceil>)"
    using raw n m by (simp add: physical_pool_page_counts_def hot Let_def anchor_def [symmetric] m_def [symmetric] flm y_def)
  then have "of_int raw = min (of_int n) (of_int anchor + of_int \<lceil>fl y\<rceil> :: rat)" by (simp add: of_int_min)
  moreover have "fl y \<le> of_int \<lceil>fl y\<rceil>" "of_int \<lceil>fl y\<rceil> < fl y + 1" by linarith+
  moreover have "of_int m * p \<le> of_int m" using p m0 mult_left_mono [of p 1 "of_int m"] by simp
  moreover have "(of_int n :: rat) = of_int anchor + of_int m" by (simp add: m_def)
  moreover have "x = of_int anchor + of_int m * p" by (simp add: x_def m_def p_def)
  ultimately show "x - 1 / 2 < of_int raw" "of_int raw < x + 3 / 2" using flmp by linarith+
qed

text \<open>
  C29: the raw and warm pages of a tiered layer partition its logical blocks; the raw pool has a page
  for the anchor of every sequence, never shrinks when blocks are added, and is within 3/2 pages of
  the configured percentage of the remaining blocks in spite of floating-point rounding.
\<close>

theorem page_counts_partition:
  assumes "0 < n" and "n \<le> 2 ^ 40" and "0 \<le> tmh_max_num_seqs s"
    and "0 \<le> tmh_hot_budget_pct s" and "tmh_hot_budget_pct s \<le> 100"
    and "physical_pool_page_counts s n = (raw, warm)"
  shows "raw + warm = n \<and> 0 \<le> warm \<and> min n (tmh_max_num_seqs s) \<le> raw
    \<and> \<bar>of_int raw - (of_int (min n (tmh_max_num_seqs s))
         + of_int (n - min n (tmh_max_num_seqs s)) * tmh_hot_budget_pct s / 100)\<bar> < 3 / 2
    \<and> raw \<le> fst (physical_pool_page_counts s (n + 1))"
proof -
  have "raw \<le> fst (physical_pool_page_counts s (n + 1))"
    using raw_pages_mono [of s n "n + 1"] assms(3,6) by simp
  moreover have "\<bar>of_int raw - (of_int (min n (tmh_max_num_seqs s))
         + of_int (n - min n (tmh_max_num_seqs s)) * tmh_hot_budget_pct s / 100)\<bar> < 3 / 2"
    using raw_pages_close [OF assms] by (simp only: abs_less_iff) linarith
  ultimately show ?thesis using page_counts_bounds [OF assms(1,3,6)] by blast
qed

theorem page_counts_partition_witness:
  "physical_pool_page_counts sample_tmh 100 = (28, 72) \<and> (28::int) + 72 = 100
   \<and> (28::int) \<le> fst (physical_pool_page_counts sample_tmh 101)"
proof -
  have c: "physical_pool_page_counts sample_tmh 100 = (28, 72)" by code_simp
  have "0 \<le> tmh_max_num_seqs sample_tmh" "0 \<le> tmh_hot_budget_pct sample_tmh" "tmh_hot_budget_pct sample_tmh \<le> 100"
    by code_simp+
  from page_counts_partition [OF _ _ this c] c show ?thesis by simp
qed

section \<open>The search ends at the largest block count that fits\<close>

lemma allocation_zero [simp]: "tmh_physical_allocation_bytes specs 0 = 0"
  by (induction specs)
    (simp_all add: tmh_physical_allocation_bytes_def physical_allocation_bytes_def physical_pool_page_counts_def)

text \<open>The sizes a tiered specification has in every configuration.\<close>

definition tmh_sizes_ok :: "tmh_spec \<Rightarrow> bool" where
  "tmh_sizes_ok s \<longleftrightarrow> 0 \<le> raw_page_size_bytes s \<and> 0 \<le> warm_page_size_bytes s \<and> 0 \<le> tmh_max_num_seqs s"

lemma allocation_ge_descriptors:
  assumes "tmh_sizes_ok s" and "0 < n"
  shows "8 * n \<le> physical_allocation_bytes s n"
proof -
  obtain raw warm where c: "physical_pool_page_counts s n = (raw, warm)" by fastforce
  have "0 \<le> raw" "0 \<le> warm"
    using page_counts_bounds [OF assms(2) _ c] assms by (auto simp: tmh_sizes_ok_def)
  then show ?thesis using assms c by (simp add: physical_allocation_bytes_def tmh_sizes_ok_def)
qed

lemma total_allocation_ge:
  assumes "\<And>p. p \<in> set specs \<Longrightarrow> tmh_sizes_ok (snd p)" and "specs \<noteq> []" and "0 < n"
  shows "8 * n \<le> tmh_physical_allocation_bytes specs n"
proof -
  have nonneg: "0 \<le> physical_allocation_bytes (snd p) n" if "p \<in> set specs" for p
    using allocation_ge_descriptors [OF assms(1) [OF that] assms(3)] assms(3) by linarith
  obtain p rest where "specs = p # rest" using assms(2) by (cases specs) auto
  moreover from this have "0 \<le> sum_list (map (\<lambda>p. physical_allocation_bytes (snd p) n) rest)"
    using nonneg by (intro sum_list_nonneg) fastforce
  ultimately show ?thesis
    using allocation_ge_descriptors [OF assms(1) assms(3), of p] by (simp add: tmh_physical_allocation_bytes_def)
qed

lemma allocation_step:
  assumes "tmh_sizes_ok s" and "warm_page_size_bytes s \<le> raw_page_size_bytes s" and "0 \<le> n"
  shows "physical_allocation_bytes s n \<le> physical_allocation_bytes s (n + 1)"
proof -
  obtain r w where c: "physical_pool_page_counts s n = (r, w)" by fastforce
  obtain r' w' where c': "physical_pool_page_counts s (n + 1) = (r', w')" by fastforce
  have seqs: "0 \<le> tmh_max_num_seqs s" using assms by (simp add: tmh_sizes_ok_def)
  have "r \<le> r'" using raw_pages_mono [OF seqs, of n "n + 1"] c c' by simp
  moreover have "r + w = n"
    using page_counts_bounds(1) [OF _ seqs c] assms(3) c by (cases "n = 0") (auto simp: physical_pool_page_counts_def)
  moreover have "r' + w' = n + 1" using page_counts_bounds(1) [OF _ seqs c'] assms(3) by simp
  ultimately have rw: "r \<le> r'" "w = n - r" "w' = n + 1 - r'" by simp_all
  have "r' * raw_page_size_bytes s + w' * warm_page_size_bytes s
    = r * raw_page_size_bytes s + w * warm_page_size_bytes s
      + (r' - r) * (raw_page_size_bytes s - warm_page_size_bytes s) + warm_page_size_bytes s"
    unfolding rw(2,3) by (simp add: algebra_simps)
  moreover have "0 \<le> (r' - r) * (raw_page_size_bytes s - warm_page_size_bytes s)"
    using rw(1) assms(2) by simp
  ultimately show ?thesis using assms(1) c c' by (simp add: physical_allocation_bytes_def tmh_sizes_ok_def)
qed

lemma total_allocation_mono:
  assumes "\<And>p. p \<in> set specs \<Longrightarrow> tmh_sizes_ok (snd p) \<and> warm_page_size_bytes (snd p) \<le> raw_page_size_bytes (snd p)"
    and "0 \<le> m" and "m \<le> n"
  shows "tmh_physical_allocation_bytes specs m \<le> tmh_physical_allocation_bytes specs n"
proof -
  have step: "tmh_physical_allocation_bytes specs k \<le> tmh_physical_allocation_bytes specs (k + 1)" if "0 \<le> k" for k
    unfolding tmh_physical_allocation_bytes_def
    using allocation_step assms(1) that by (intro sum_list_mono) blast
  have "tmh_physical_allocation_bytes specs m \<le> tmh_physical_allocation_bytes specs (m + int d)" for d
  proof (induction d)
    case (Suc d)
    have "tmh_physical_allocation_bytes specs (m + int d) \<le> tmh_physical_allocation_bytes specs (m + int d + 1)"
      using step assms(2) by simp
    with Suc show ?case by (simp add: algebra_simps)
  qed simp
  from this [of "nat (n - m)"] assms(3) show ?thesis by simp
qed

lemma double_hi_total:
  assumes "\<And>n. 0 < n \<Longrightarrow> 8 * n \<le> tmh_physical_allocation_bytes specs n" and "0 < hi"
  shows "\<exists>h>0. double_hi specs mem hi = Some h \<and> mem < tmh_physical_allocation_bytes specs h"
  using assms(2)
proof (induction "nat (mem + 1 - hi)" arbitrary: hi rule: less_induct)
  case less
  show ?case
  proof (cases "tmh_physical_allocation_bytes specs hi \<le> mem")
    case True
    then have "8 * hi \<le> mem" using assms(1) [OF less.prems] by simp
    then have "nat (mem + 1 - hi * 2) < nat (mem + 1 - hi)" using less.prems by simp
    then obtain h where "0 < h" "double_hi specs mem (hi * 2) = Some h"
      "mem < tmh_physical_allocation_bytes specs h" using less.hyps [of "hi * 2"] less.prems by auto
    with True show ?thesis by (subst double_hi.simps) simp
  next
    case False
    then show ?thesis using less.prems by (subst double_hi.simps) simp
  qed
qed

lemma bisect_correct:
  assumes "lo < hi" and "tmh_physical_allocation_bytes specs lo \<le> mem"
    and "mem < tmh_physical_allocation_bytes specs hi"
  shows "lo \<le> bisect specs mem lo hi \<and> tmh_physical_allocation_bytes specs (bisect specs mem lo hi) \<le> mem
    \<and> mem < tmh_physical_allocation_bytes specs (bisect specs mem lo hi + 1)"
  using assms
proof (induction specs mem lo hi rule: bisect.induct)
  case (1 specs mem lo hi)
  show ?case
  proof (cases "lo + 1 < hi")
    case True
    then have mid: "lo < (lo + hi) div 2" "(lo + hi) div 2 < hi" by simp_all
    show ?thesis
    proof (cases "tmh_physical_allocation_bytes specs ((lo + hi) div 2) \<le> mem")
      case le: True
      then have "bisect specs mem lo hi = bisect specs mem ((lo + hi) div 2) hi"
        using True by (subst bisect.simps) (simp add: Let_def)
      then show ?thesis using 1(1) [OF True refl le] mid le "1.prems" by simp
    next
      case gt: False
      then have "bisect specs mem lo hi = bisect specs mem lo ((lo + hi) div 2)"
        using True by (subst bisect.simps) (simp add: Let_def)
      then show ?thesis using 1(2) [OF True refl gt] mid gt "1.prems" by simp
    qed
  next
    case False
    then have "hi = lo + 1" using "1.prems" by simp
    with "1.prems" show ?thesis by (subst (1 2 3) bisect.simps) simp
  qed
qed

lemma num_blocks_search:
  assumes ok: "\<And>p. p \<in> set specs \<Longrightarrow> tmh_sizes_ok (snd p)" and ne: "specs \<noteq> []" and mem: "0 \<le> mem"
  shows "\<exists>n\<ge>0. tmh_physical_num_blocks_for_memory specs mem = Some n
    \<and> tmh_physical_allocation_bytes specs n \<le> mem \<and> mem < tmh_physical_allocation_bytes specs (n + 1)"
proof (cases "mem \<le> 0")
  case True
  then show ?thesis using mem total_allocation_ge [OF ok ne, of 1] by (simp add: tmh_physical_num_blocks_for_memory_def)
next
  case False
  obtain h where h: "0 < h" "double_hi specs mem 1 = Some h" "mem < tmh_physical_allocation_bytes specs h"
    using double_hi_total [OF total_allocation_ge [OF ok ne], of 1 mem] by auto
  then show ?thesis using bisect_correct [of 0 h specs mem] False
    by (auto simp: tmh_physical_num_blocks_for_memory_def)
qed

text \<open>
  C16: for a non-empty set of tiered layers with non-negative page sizes the search for the number of
  blocks ends; the result fits into the memory and one block more does not. Where warm pages are not
  larger than raw pages, exactly the block counts up to the result fit.
\<close>

theorem num_blocks_for_memory_maximal:
  assumes ok: "\<And>p. p \<in> set specs \<Longrightarrow> tmh_sizes_ok (snd p)" and ne: "specs \<noteq> []" and mem: "0 \<le> mem"
  shows "\<exists>n\<ge>0. tmh_physical_num_blocks_for_memory specs mem = Some n
    \<and> tmh_physical_allocation_bytes specs n \<le> mem \<and> mem < tmh_physical_allocation_bytes specs (n + 1)
    \<and> ((\<forall>p\<in>set specs. warm_page_size_bytes (snd p) \<le> raw_page_size_bytes (snd p)) \<longrightarrow>
        (\<forall>k\<ge>0. tmh_physical_allocation_bytes specs k \<le> mem \<longleftrightarrow> k \<le> n))"
proof -
  obtain n where n: "0 \<le> n" "tmh_physical_num_blocks_for_memory specs mem = Some n"
    "tmh_physical_allocation_bytes specs n \<le> mem" "mem < tmh_physical_allocation_bytes specs (n + 1)"
    using num_blocks_search [OF ok ne mem] by blast
  have "tmh_physical_allocation_bytes specs k \<le> mem \<longleftrightarrow> k \<le> n"
    if warm: "\<forall>p\<in>set specs. warm_page_size_bytes (snd p) \<le> raw_page_size_bytes (snd p)" and "0 \<le> k" for k
  proof -
    have mono: "0 \<le> a \<Longrightarrow> a \<le> b \<Longrightarrow>
      tmh_physical_allocation_bytes specs a \<le> tmh_physical_allocation_bytes specs b" for a b
      using total_allocation_mono ok warm by blast
    show ?thesis using mono [of k n] mono [of "n + 1" k] n \<open>0 \<le> k\<close> by linarith
  qed
  with n show ?thesis by blast
qed

theorem num_blocks_for_memory_maximal_witness:
  "\<exists>n\<ge>0. tmh_physical_num_blocks_for_memory [(''model.layers.0'', sample_tmh)] 1000000 = Some n
    \<and> tmh_physical_allocation_bytes [(''model.layers.0'', sample_tmh)] n \<le> 1000000
    \<and> 1000000 < tmh_physical_allocation_bytes [(''model.layers.0'', sample_tmh)] (n + 1)"
proof -
  have "tmh_sizes_ok sample_tmh" by code_simp
  then show ?thesis
    using num_blocks_for_memory_maximal [of "[(''model.layers.0'', sample_tmh)]" 1000000] by auto
qed

text \<open>
  The tiered specification of one layer of a group, and the groups for which
  \<^verbatim>\<open>_tmh_physical_specs_by_layer\<close> is meant: every layer of the group is tiered.
\<close>

definition layer_tmh_spec :: "kv_cache_group \<Rightarrow> string \<Rightarrow> tmh_spec option" where
  "layer_tmh_spec g layer_name =
     (case group_spec g of
        UniformTypeKVCacheSpecs _ layer_specs \<Rightarrow>
          (case dict_get layer_specs layer_name of Some (TMHFullAttentionSpec t) \<Rightarrow> Some t | _ \<Rightarrow> None)
      | TMHFullAttentionSpec t \<Rightarrow> Some t
      | _ \<Rightarrow> None)"

definition tiered_group :: "kv_cache_group \<Rightarrow> bool" where
  "tiered_group g \<longleftrightarrow>
     (case group_spec g of UniformTypeKVCacheSpecs _ _ \<Rightarrow> True | TMHFullAttentionSpec _ \<Rightarrow> True | _ \<Rightarrow> False)
     \<and> (\<forall>layer_name\<in>set (layer_names g).
          case layer_tmh_spec g layer_name of Some t \<Rightarrow> tmh_sizes_ok t | None \<Rightarrow> False)"

definition tiered_layers :: "kv_cache_group list \<Rightarrow> (string \<times> tmh_spec) list" where
  "tiered_layers groups =
     concat (map (\<lambda>g. map (\<lambda>layer_name. (layer_name, the (layer_tmh_spec g layer_name))) (layer_names g)) groups)"

lemma tiered_layers_names: "map fst (tiered_layers groups) = concat (map layer_names groups)"
  by (simp add: tiered_layers_def map_concat comp_def)

lemma tiered_layer:
  "tiered_group g \<Longrightarrow> layer_name \<in> set (layer_names g) \<Longrightarrow> \<exists>t. layer_tmh_spec g layer_name = Some t \<and> tmh_sizes_ok t"
  by (cases "layer_tmh_spec g layer_name") (auto simp: tiered_group_def)

lemma collect_uniform_fresh:
  assumes "\<And>x. x \<in> set names \<Longrightarrow> dict_get layer_specs x = Some (TMHFullAttentionSpec (t x))"
    and "distinct (map fst specs @ names)"
  shows "collect_uniform_layers layer_specs names specs = Some (specs @ map (\<lambda>x. (x, t x)) names)"
  using assms by (induction names arbitrary: specs) (auto simp: dict_set_absent map_of_eq_None_iff)

lemma set_layers_fresh:
  assumes "distinct (map fst specs @ names)"
  shows "fold (\<lambda>x. dict_set x t) names specs = specs @ map (\<lambda>x. (x, t)) names"
  using assms by (induction names arbitrary: specs) (auto simp: dict_set_absent map_of_eq_None_iff)

lemma collect_groups_fresh:
  assumes "\<And>g. g \<in> set groups \<Longrightarrow> tiered_group g" and "distinct (map fst specs @ concat (map layer_names groups))"
  shows "collect_groups groups specs = Some (specs @ tiered_layers groups)"
  using assms
proof (induction groups arbitrary: specs)
  case Nil
  then show ?case by (simp add: tiered_layers_def)
next
  case (Cons g gs)
  let ?here = "map (\<lambda>x. (x, the (layer_tmh_spec g x))) (layer_names g)"
  have g: "tiered_group g" using Cons.prems(1) by simp
  have d: "distinct (map fst specs @ layer_names g)" using Cons.prems(2) by auto
  have rest: "collect_groups gs (specs @ ?here) = Some (specs @ tiered_layers (g # gs))"
    using Cons.IH [of "specs @ ?here"] Cons.prems by (auto simp: comp_def tiered_layers_def)
  show ?case
  proof (cases "group_spec g")
    case (UniformTypeKVCacheSpecs b layer_specs)
    have "dict_get layer_specs x = Some (TMHFullAttentionSpec (the (layer_tmh_spec g x)))" if x: "x \<in> set (layer_names g)" for x
    proof -
      obtain t where "layer_tmh_spec g x = Some t" using tiered_layer [OF g x] by blast
      then show ?thesis
        by (simp add: layer_tmh_spec_def UniformTypeKVCacheSpecs split: option.split_asm kv_cache_spec.split_asm)
    qed
    then have "collect_uniform_layers layer_specs (layer_names g) specs = Some (specs @ ?here)"
      by (intro collect_uniform_fresh [OF _ d])
    then show ?thesis using rest by (simp add: UniformTypeKVCacheSpecs)
  next
    case (TMHFullAttentionSpec t)
    have "fold (\<lambda>x. dict_set x t) (layer_names g) specs = specs @ ?here"
      using set_layers_fresh [OF d] by (simp add: layer_tmh_spec_def TMHFullAttentionSpec)
    then show ?thesis using rest by (simp add: TMHFullAttentionSpec)
  qed (use g in \<open>simp_all add: tiered_group_def\<close>)
qed

text \<open>
  C17: when every layer of the groups is tiered with non-negative page sizes, no layer is in two groups
  and the block count is not overridden, the configuration has one tensor for every layer of the groups,
  in their order and of the size the layer's own specification plans for the chosen number of blocks.
  The tensors fit into the available memory, and those planned for one block more would not.
\<close>

theorem tmh_config_fits_memory:
  assumes tiered: "\<And>g. g \<in> set groups \<Longrightarrow> tiered_group g"
    and names: "distinct (concat (map layer_names groups))" "concat (map layer_names groups) \<noteq> []"
    and mem: "0 \<le> mem" and none: "num_gpu_blocks_override cfg = None"
  shows "\<exists>n\<ge>0. \<exists>tensors. get_tmh_physical_kv_cache_config cfg groups mem = Some (Some (n, tensors))
    \<and> map shared_by tensors = map (\<lambda>layer_name. [layer_name]) (concat (map layer_names groups))
    \<and> map tensor_size tensors = map (\<lambda>(_, t). physical_allocation_bytes t n) (tiered_layers groups)
    \<and> (\<forall>t\<in>set tensors. logical_num_blocks t = Some n)
    \<and> sum_list (map tensor_size tensors) \<le> mem
    \<and> mem < sum_list (map (\<lambda>(_, t). physical_allocation_bytes t (n + 1)) (tiered_layers groups))"
proof -
  define specs where "specs = tiered_layers groups"
  have ne: "specs \<noteq> []" using names(2) tiered_layers_names [of groups] by (auto simp: specs_def)
  have "collect_groups groups [] = Some specs"
    using collect_groups_fresh [of groups "[]"] tiered names(1) by (simp add: specs_def)
  then have by_layer: "tmh_physical_specs_by_layer groups = Some specs"
    using ne by (simp add: tmh_physical_specs_by_layer_def split: list.splits)
  have ok: "tmh_sizes_ok (snd p)" if "p \<in> set specs" for p
    using that tiered tiered_layer by (fastforce simp: specs_def tiered_layers_def)
  obtain n where n: "0 \<le> n" "tmh_physical_num_blocks_for_memory specs mem = Some n"
    "tmh_physical_allocation_bytes specs n \<le> mem" "mem < tmh_physical_allocation_bytes specs (n + 1)"
    using num_blocks_search [OF ok ne mem] by blast
  define tensors where "tensors = map (\<lambda>(layer_name, spec).
      \<lparr>tensor_size = physical_allocation_bytes spec n, shared_by = [layer_name],
       tensor_offset = 0, block_stride = 0, logical_num_blocks = Some n\<rparr>) specs"
  have get: "get_tmh_physical_kv_cache_config cfg groups mem = Some (Some (n, tensors))"
    by (simp add: get_tmh_physical_kv_cache_config_def by_layer n none may_override_num_blocks_def tensors_def)
  have size: "map tensor_size tensors = map (\<lambda>(_, t). physical_allocation_bytes t n) specs"
    by (auto simp: tensors_def split: prod.splits)
  have "map shared_by tensors = map (\<lambda>layer_name. [layer_name]) (map fst specs)"
    by (auto simp: tensors_def split: prod.splits)
  then have shared: "map shared_by tensors = map (\<lambda>layer_name. [layer_name]) (concat (map layer_names groups))"
    by (simp only: specs_def tiered_layers_names)
  have total: "tmh_physical_allocation_bytes specs k = sum_list (map (\<lambda>(_, t). physical_allocation_bytes t k) specs)" for k
    by (simp add: tmh_physical_allocation_bytes_def case_prod_unfold)
  have "\<forall>t\<in>set tensors. logical_num_blocks t = Some n" by (auto simp: tensors_def)
  then show ?thesis
    using n(1,3,4) get shared size unfolding total specs_def [symmetric] by (intro exI [of _ n]) auto
qed

definition sample_groups :: "kv_cache_group list" where
  "sample_groups = [\<lparr>layer_names = [''model.layers.0'', ''model.layers.1''],
     group_spec = TMHFullAttentionSpec sample_tmh, is_eagle_group = False\<rparr>]"

theorem tmh_config_fits_memory_witness:
  "\<exists>n tensors. get_tmh_physical_kv_cache_config sample_config sample_groups 1000000 = Some (Some (n, tensors))
    \<and> map shared_by tensors = [ [''model.layers.0''], [''model.layers.1''] ]
    \<and> sum_list (map tensor_size tensors) \<le> 1000000"
proof -
  have "tmh_sizes_ok sample_tmh" by code_simp
  then have "\<And>g. g \<in> set sample_groups \<Longrightarrow> tiered_group g"
    by (simp add: sample_groups_def tiered_group_def layer_tmh_spec_def)
  moreover have "concat (map layer_names sample_groups) = [''model.layers.0'', ''model.layers.1'']"
    "num_gpu_blocks_override sample_config = None" by code_simp+
  ultimately show ?thesis
    using tmh_config_fits_memory [of sample_groups 1000000 sample_config] by fastforce
qed

end
