(* ===== verification/TmhPolicy.thy ===== *)
theory TmhPolicy
  imports BlockPool TmhSpec
    "HOL-Library.Product_Lexorder" "HOL-Library.List_Lexorder" "HOL-Library.Char_ord"
begin

text \<open>
  The scheduler-side policy of the tiered cache (\<^verbatim>\<open>vllm/v1/core/tmh_policy.py\<close>): the byte accounting of
  a request, the role of every page, and the descriptors and release events sent to the workers. Log
  output and \<^verbatim>\<open>as_log_fields\<close> are left out.
\<close>

section \<open>Data\<close>

datatype page_role = PINNED_RAW | HOT_RAW | WARM_INT8_INT4 | WARM_INT8_INT8

fun role_int :: "page_role \<Rightarrow> int" where
  "role_int PINNED_RAW = 0"
| "role_int HOT_RAW = 1"
| "role_int WARM_INT8_INT4 = 2"
| "role_int WARM_INT8_INT8 = 3"

datatype storage_kind = CANONICAL | REQUEST_OVERLAY

record descriptor =
  d_request_id :: string
  d_layer_name :: string
  logical_block_id :: int
  page_index :: int
  role :: page_role
  storage :: storage_kind
  prefix_cached :: bool
  k_quant_mode :: string
  v_quant_mode :: string

record tmh_event =
  e_request_id :: string
  e_descriptors :: "descriptor list"
  e_total_pages :: int
  e_recent_start_page :: int
  e_hot_pages :: int
  released_request_ids :: "string list"
  released_descriptors :: "descriptor list"

text \<open>\<^verbatim>\<open>head_size_v\<close> is \<open>None\<close> for a \<^verbatim>\<open>SlidingWindowMLASpec\<close> built without it.\<close>

record layer_shape =
  ls_layer_name :: string
  ls_layer_index :: int
  ls_num_kv_heads :: int
  ls_head_size :: int
  ls_head_size_v :: "int option"
  raw_dtype_bytes :: rat

record pressure =
  pr_request_id :: string
  pr_kv_layout :: string
  pr_policy :: string
  pr_total_tokens :: int
  pr_prompt_tokens :: int
  pr_page_tokens :: int
  pr_total_pages :: int
  pr_prompt_pages :: int
  pr_hot_pages :: int
  pr_recent_start_page :: int
  pr_layer_count :: int
  pr_late_layer_start :: int
  regular_live_bytes :: int
  tmh_effective_bytes :: int
  hot_bytes :: int
  warm_bytes :: int
  raw_equivalent_bytes :: int
  same_hot_uniform_int8_bytes :: int
  old_tokens :: int
  warm_reduction_pct :: rat
  total_reduction_pct :: rat
  pr_physical :: bool

record tmh_policy =
  policy :: string
  hot_budget_pct :: rat
  page_tokens :: int
  layers :: "layer_shape list"
  regular_page_bytes_by_group :: "int list"
  latest_by_request :: "(string, pressure) dict"
  regular_live_bytes_cache :: "(string, int list \<times> int) dict"
  physical_descriptors :: "(string \<times> string \<times> int, descriptor) dict"
  canonical_descriptor_refcounts :: "(string \<times> int \<times> int, int) dict"
  pending_physical_events :: "tmh_event list"
  early_layers :: "layer_shape list"
  late_layers :: "layer_shape list"

definition KV_LAYOUT :: string where
  "KV_LAYOUT = ''tmh_fidelity_paged_kv''"

definition policy_enabled :: "tmh_policy \<Rightarrow> bool" where
  "policy_enabled p \<longleftrightarrow> policy p \<noteq> ''off''"

definition policy_physical :: "tmh_policy \<Rightarrow> bool" where
  "policy_physical p \<longleftrightarrow> policy p = ''physical''"

section \<open>Construction\<close>

record kv_cache_config =
  cfg_num_blocks :: int
  kv_cache_tensors :: "kv_cache_tensor list"
  kv_cache_groups :: "kv_cache_group list"
  tmh_kv_policy :: string
  kv_layout :: string
  cfg_tmh_hot_budget_pct :: rat

text \<open>
  \<^verbatim>\<open>re.findall(r"\d+", name)[-1]\<close>: the last maximal run of digits; layer names are ASCII.
\<close>

definition is_digit :: "char \<Rightarrow> bool" where
  "is_digit c \<longleftrightarrow> 48 \<le> (of_char c :: int) \<and> (of_char c :: int) \<le> 57"

definition layer_index :: "string \<Rightarrow> int" where
  "layer_index name =
     (let digits = takeWhile is_digit (dropWhile (\<lambda>c. \<not> is_digit c) (rev name))
      in foldr (\<lambda>c n. 10 * n + (of_char c - 48)) digits 0)"

definition spec_by_layer :: "kv_cache_group \<Rightarrow> (string, kv_cache_spec) dict" where
  "spec_by_layer g =
     (case group_spec g of
        UniformTypeKVCacheSpecs _ specs \<Rightarrow> specs
      | s \<Rightarrow> fold (\<lambda>name. dict_set name s) (layer_names g) [])"

text \<open>
  The shape of one attention layer; \<^verbatim>\<open>spec.head_size_v\<close> raises for the attention classes that do not
  declare it.
\<close>

definition shape_of_spec :: "string \<Rightarrow> kv_cache_spec \<Rightarrow> layer_shape result" where
  "shape_of_spec name s =
     (case full_fields s of
        Some f \<Rightarrow> Inr \<lparr>ls_layer_name = name, ls_layer_index = layer_index name, ls_num_kv_heads = num_kv_heads f,
                   ls_head_size = head_size f, ls_head_size_v = Some (head_size_v f),
                   raw_dtype_bytes = fl (of_int (get_dtype_size (dtype f)))\<rparr>
      | None \<Rightarrow>
          (case s of
             SlidingWindowSpec w \<Rightarrow> Inr \<lparr>ls_layer_name = name, ls_layer_index = layer_index name, ls_num_kv_heads = num_kv_heads w,
                   ls_head_size = head_size w, ls_head_size_v = window_head_size_v w,
                   raw_dtype_bytes = fl (of_int (get_dtype_size (dtype w)))\<rparr>
           | SlidingWindowMLASpec w \<Rightarrow> Inr \<lparr>ls_layer_name = name, ls_layer_index = layer_index name, ls_num_kv_heads = num_kv_heads w,
                   ls_head_size = head_size w, ls_head_size_v = window_head_size_v w,
                   raw_dtype_bytes = fl (of_int (get_dtype_size (dtype w)))\<rparr>
           | _ \<Rightarrow> Inl AttributeError))"

definition extract_layer :: "(string, kv_cache_spec) dict \<Rightarrow> string \<Rightarrow> (string, layer_shape) dict \<Rightarrow> (string, layer_shape) dict result" where
  "extract_layer specs name found =
     (case dict_get specs name of
        None \<Rightarrow> Inr found
      | Some s \<Rightarrow>
          if \<not> isinstance s C_AttentionSpec then Inr found
          else res_bind (shape_of_spec name s) (\<lambda>shape. Inr (dict_set name shape found)))"

definition extract_layers :: "kv_cache_group list \<Rightarrow> layer_shape list result" where
  "extract_layers groups =
     res_bind (res_fold (\<lambda>g. res_fold (extract_layer (spec_by_layer g)) (layer_names g)) groups [])
       (\<lambda>found. Inr (sort_key (\<lambda>l. (ls_layer_index l, ls_layer_name l)) (map snd found)))"

definition regular_page_bytes :: "kv_cache_group \<Rightarrow> int result" where
  "regular_page_bytes g =
     (case group_spec g of
        UniformTypeKVCacheSpecs _ specs \<Rightarrow>
          res_bind (res_map (\<lambda>p. page_size_bytes (snd p)) specs) (\<lambda>sizes. Inr (sum_list sizes))
      | s \<Rightarrow> res_bind (page_size_bytes s) (\<lambda>n. Inr (n * int (length (layer_names g)))))"

text \<open>\<^verbatim>\<open>__post_init__\<close>: the first two thirds of the layers are early.\<close>

definition policy_init :: "string \<Rightarrow> rat \<Rightarrow> int \<Rightarrow> layer_shape list \<Rightarrow> int list \<Rightarrow> tmh_policy" where
  "policy_init pol pct pt ls rpb =
     (let late_layer_start = (int (length ls) * 2) div 3
      in \<lparr>policy = pol, hot_budget_pct = pct, page_tokens = pt, layers = ls,
          regular_page_bytes_by_group = rpb, latest_by_request = [], regular_live_bytes_cache = [],
          physical_descriptors = [], canonical_descriptor_refcounts = [], pending_physical_events = [],
          early_layers = take (nat late_layer_start) ls, late_layers = drop (nat late_layer_start) ls\<rparr>)"

definition from_kv_cache_config :: "kv_cache_config \<Rightarrow> int \<Rightarrow> tmh_policy result" where
  "from_kv_cache_config cfg scheduler_block_size =
     res_bind (extract_layers (kv_cache_groups cfg)) (\<lambda>ls.
     res_bind (res_map regular_page_bytes (kv_cache_groups cfg)) (\<lambda>rpb.
     Inr (policy_init (tmh_kv_policy cfg) (cfg_tmh_hot_budget_pct cfg) scheduler_block_size ls rpb)))"

section \<open>Byte accounting\<close>

definition token_count_for_page_span :: "int \<Rightarrow> int \<Rightarrow> int \<Rightarrow> int \<Rightarrow> int" where
  "token_count_for_page_span start_page end_page total_tokens pt =
     (if end_page \<le> start_page then 0
      else let start = start_page * pt; end_tok = min total_tokens (end_page * pt)
           in max 0 (end_tok - start))"

definition bytes_for :: "layer_shape \<Rightarrow> int \<Rightarrow> string \<Rightarrow> string \<Rightarrow> int result" where
  "bytes_for layer tokens precision component =
     res_bind (if precision = ''raw'' then Inr (raw_dtype_bytes layer)
               else if precision = ''int8'' then Inr 1
               else if precision = ''int4'' then Inr (1 / 2)
               else Inl ValueError) (\<lambda>bytes_per_scalar.
     case (if component = ''k'' then Some (ls_head_size layer) else ls_head_size_v layer) of
       None \<Rightarrow> Inl TypeError
     | Some hs \<Rightarrow> Inr \<lceil>fl (fl (of_int (tokens * ls_num_kv_heads layer * hs)) * bytes_per_scalar)\<rceil>)"

definition bytes_for_page_span :: "layer_shape \<Rightarrow> int \<Rightarrow> int \<Rightarrow> int \<Rightarrow> int \<Rightarrow> string \<Rightarrow> string \<Rightarrow> int result" where
  "bytes_for_page_span layer start_page end_page total_tokens pt precision component =
     (let token_count = token_count_for_page_span start_page end_page total_tokens pt
      in if pt = 0 then Inl ZeroDivisionError
         else let full_pages = token_count div pt; partial_tokens = token_count mod pt
              in res_bind (bytes_for layer pt precision component) (\<lambda>page_bytes.
                 if partial_tokens \<noteq> 0
                 then res_bind (bytes_for layer partial_tokens precision component)
                        (\<lambda>b. Inr (full_pages * page_bytes + b))
                 else Inr (full_pages * page_bytes)))"

text \<open>
  The loops of \<^verbatim>\<open>record_allocation\<close> add up the bytes of some page spans for every layer of a list; a
  span is its first page, its end page, the precision and the component.
\<close>

fun add_spans :: "int \<Rightarrow> int \<Rightarrow> layer_shape \<Rightarrow> (int \<times> int \<times> string \<times> string) list \<Rightarrow> int \<Rightarrow> int result" where
  "add_spans total_tokens pt layer [] acc = Inr acc"
| "add_spans total_tokens pt layer ((a, b, precision, component) # spans) acc =
     res_bind (bytes_for_page_span layer a b total_tokens pt precision component)
       (\<lambda>n. add_spans total_tokens pt layer spans (acc + n))"

definition sum_spans :: "int \<Rightarrow> int \<Rightarrow> layer_shape list \<Rightarrow> (int \<times> int \<times> string \<times> string) list \<Rightarrow> int result" where
  "sum_spans total_tokens pt ls spans = res_fold (\<lambda>layer. add_spans total_tokens pt layer spans) ls 0"

definition page_count :: "int \<Rightarrow> int \<Rightarrow> int" where
  "page_count tokens pt = max 1 \<lceil>fl (of_int tokens / of_int pt)\<rceil>"

definition hot_page_count :: "rat \<Rightarrow> int \<Rightarrow> int" where
  "hot_page_count pct total_pages =
     (if pct \<le> 0 then 0 else min total_pages \<lceil>fl (fl (fl (of_int total_pages) * pct) / 100)\<rceil>)"

definition recent_start :: "int \<Rightarrow> int \<Rightarrow> int" where
  "recent_start total_pages hot_pages = (if hot_pages \<le> 0 then total_pages else max 0 (total_pages - hot_pages))"

definition live_signature :: "(block_ref \<Rightarrow> kv_block) \<Rightarrow> block_ref list list \<Rightarrow> int list" where
  "live_signature store blocks_by_group =
     map (\<lambda>bs. int (length (filter (\<lambda>b. \<not> is_null (store b)) bs))) blocks_by_group"

definition regular_live_bytes_of ::
  "(block_ref \<Rightarrow> kv_block) \<Rightarrow> string \<Rightarrow> block_ref list list \<Rightarrow> tmh_policy \<Rightarrow> int \<times> tmh_policy" where
  "regular_live_bytes_of store rid blocks_by_group p =
     (let signature = live_signature store blocks_by_group;
          bytes_total = sum_list (map (\<lambda>(n, b). n * b) (zip signature (regular_page_bytes_by_group p)));
          fresh = (bytes_total, p\<lparr>regular_live_bytes_cache :=
                     dict_set rid (signature, bytes_total) (regular_live_bytes_cache p)\<rparr>)
      in case dict_get (regular_live_bytes_cache p) rid of
           Some (sig, n) \<Rightarrow> if sig = signature then (n, p) else fresh
         | None \<Rightarrow> fresh)"

section \<open>Descriptors\<close>

definition physical_role_for_page :: "layer_shape \<Rightarrow> layer_shape list \<Rightarrow> int \<Rightarrow> int \<Rightarrow> page_role" where
  "physical_role_for_page layer early page recent_start_page =
     (if page = 0 then PINNED_RAW
      else if page \<ge> recent_start_page then HOT_RAW
      else if layer \<in> set early then WARM_INT8_INT4
      else WARM_INT8_INT8)"

fun quant_modes_for_role :: "page_role \<Rightarrow> string \<times> string" where
  "quant_modes_for_role WARM_INT8_INT4 = (''int8_per_token_head'', ''int4_per_token_head'')"
| "quant_modes_for_role WARM_INT8_INT8 = (''int8_per_token_head'', ''int8_per_token_head'')"
| "quant_modes_for_role _ = (''raw'', ''raw'')"

definition storage_kind_for_role :: "page_role \<Rightarrow> bool \<Rightarrow> storage_kind" where
  "storage_kind_for_role r cached =
     (if r \<in> {WARM_INT8_INT4, WARM_INT8_INT8} then CANONICAL
      else if r = PINNED_RAW then CANONICAL
      else if cached then REQUEST_OVERLAY
      else CANONICAL)"

definition canonical_descriptor_key :: "descriptor \<Rightarrow> (string \<times> int \<times> int) option" where
  "canonical_descriptor_key d =
     (if storage d \<noteq> CANONICAL then None
      else Some (d_layer_name d, logical_block_id d, role_int (role d)))"

definition track_canonical_descriptor :: "descriptor \<Rightarrow> tmh_policy \<Rightarrow> tmh_policy" where
  "track_canonical_descriptor d p =
     (case canonical_descriptor_key d of
        None \<Rightarrow> p
      | Some k \<Rightarrow>
          let count = (case dict_get (canonical_descriptor_refcounts p) k of None \<Rightarrow> 0 | Some n \<Rightarrow> n)
          in p\<lparr>canonical_descriptor_refcounts := dict_set k (count + 1) (canonical_descriptor_refcounts p)\<rparr>)"

definition untrack_canonical_descriptor :: "descriptor \<Rightarrow> tmh_policy \<Rightarrow> bool \<times> tmh_policy" where
  "untrack_canonical_descriptor d p =
     (case canonical_descriptor_key d of
        None \<Rightarrow> (False, p)
      | Some k \<Rightarrow>
          let count = (case dict_get (canonical_descriptor_refcounts p) k of None \<Rightarrow> 0 | Some n \<Rightarrow> n)
          in if count \<le> 1
             then (True, p\<lparr>canonical_descriptor_refcounts := dict_pop k (canonical_descriptor_refcounts p)\<rparr>)
             else (False, p\<lparr>canonical_descriptor_refcounts := dict_set k (count - 1) (canonical_descriptor_refcounts p)\<rparr>))"

definition make_descriptor :: "string \<Rightarrow> layer_shape \<Rightarrow> layer_shape list \<Rightarrow> int \<Rightarrow> int \<Rightarrow> int \<Rightarrow> bool \<Rightarrow> descriptor" where
  "make_descriptor rid layer early recent_start_page page block cached =
     (let r = physical_role_for_page layer early page recent_start_page;
          (kq, vq) = quant_modes_for_role r
      in \<lparr>d_request_id = rid, d_layer_name = ls_layer_name layer, logical_block_id = block,
          page_index = page, role = r, storage = storage_kind_for_role r cached, prefix_cached = cached,
          k_quant_mode = kq, v_quant_mode = vq\<rparr>)"

text \<open>
  The body of the double loop: the state, the descriptors to send and the descriptors released so
  far.
\<close>

type_synonym record_state = "tmh_policy \<times> descriptor list \<times> descriptor list"

definition record_descriptor :: "descriptor \<Rightarrow> record_state \<Rightarrow> record_state" where
  "record_descriptor d st =
     (let (p, ds, rel) = st;
          key = (d_request_id d, d_layer_name d, page_index d)
      in if dict_get (physical_descriptors p) key = Some d then st
         else
           let (p1, rel1) =
             (case dict_get (physical_descriptors p) key of
                Some old \<Rightarrow>
                  let old_key = canonical_descriptor_key old; new_key = canonical_descriptor_key d;
                      (gone, p') = (if old_key \<noteq> new_key then untrack_canonical_descriptor old p else (False, p));
                      p'' = (if old_key \<noteq> new_key then track_canonical_descriptor d p' else p')
                  in (p'', if gone then rel @ [old] else rel)
              | None \<Rightarrow> (track_canonical_descriptor d p, rel))
           in (p1\<lparr>physical_descriptors := dict_set key d (physical_descriptors p1)\<rparr>, ds @ [d], rel1))"

definition descriptors_for_pages :: "string \<Rightarrow> int \<Rightarrow> int \<Rightarrow> (int \<times> bool) list \<Rightarrow> tmh_policy \<Rightarrow> descriptor list" where
  "descriptors_for_pages rid total_pages recent_start_page logical_pages p =
     concat (map (\<lambda>(i, block, cached).
               map (\<lambda>layer. make_descriptor rid layer (early_layers p) recent_start_page (int i) block cached)
                 (layers p))
       (enumerate 0 (py_slice 0 total_pages logical_pages)))"

definition record_physical_descriptors_for_pages ::
  "string \<Rightarrow> int \<Rightarrow> int \<Rightarrow> int \<Rightarrow> (int \<times> bool) list \<Rightarrow> tmh_policy \<Rightarrow> tmh_policy" where
  "record_physical_descriptors_for_pages rid total_pages recent_start_page hot_pages logical_pages p =
     (let (p1, ds, rel) =
        fold record_descriptor (descriptors_for_pages rid total_pages recent_start_page logical_pages p) (p, [], [])
      in if ds \<noteq> [] \<or> rel \<noteq> []
         then p1\<lparr>pending_physical_events := pending_physical_events p1 @
                [\<lparr>e_request_id = rid, e_descriptors = ds, e_total_pages = total_pages,
                  e_recent_start_page = recent_start_page, e_hot_pages = hot_pages,
                  released_request_ids = [], released_descriptors = rel\<rparr>]\<rparr>
         else p1)"

definition logical_pages_of :: "(block_ref \<Rightarrow> kv_block) \<Rightarrow> block_ref list \<Rightarrow> (int \<times> bool) list" where
  "logical_pages_of store bs =
     map (\<lambda>b. (block_id b, block_hash (store b) \<noteq> None \<or> ref_cnt (store b) > 1))
       (filter (\<lambda>b. \<not> is_null (store b)) bs)"

definition record_physical_descriptors ::
  "(block_ref \<Rightarrow> kv_block) \<Rightarrow> string \<Rightarrow> int \<Rightarrow> int \<Rightarrow> int \<Rightarrow> block_ref list list \<Rightarrow> tmh_policy \<Rightarrow> tmh_policy" where
  "record_physical_descriptors store rid total_pages recent_start_page hot_pages blocks_by_group p =
     (case blocks_by_group of
        [] \<Rightarrow> p
      | bs # _ \<Rightarrow>
          record_physical_descriptors_for_pages rid total_pages recent_start_page hot_pages
            (logical_pages_of store bs) p)"

definition record_physical_descriptors_from_block_ids ::
  "string \<Rightarrow> int \<Rightarrow> int list \<Rightarrow> int list \<Rightarrow> tmh_policy \<Rightarrow> tmh_policy result" where
  "record_physical_descriptors_from_block_ids rid total_tokens logical_block_ids cached_pages p =
     (if \<not> policy_physical p \<or> logical_block_ids = [] then Inr p
      else if page_tokens p = 0 then Inl ZeroDivisionError
      else
        let total_pages = page_count (max 1 total_tokens) (page_tokens p);
            hot_pages = hot_page_count (hot_budget_pct p) total_pages;
            recent_start_page = recent_start total_pages hot_pages;
            logical_pages = map (\<lambda>(i, block). (block, int i \<in> set cached_pages))
              (enumerate 0 (py_slice 0 total_pages logical_block_ids))
        in Inr (record_physical_descriptors_for_pages rid total_pages recent_start_page hot_pages
             logical_pages p))"

section \<open>Allocation and release\<close>

definition reduction_pct :: "int \<Rightarrow> int \<Rightarrow> rat" where
  "reduction_pct part whole =
     (if whole \<le> 0 then 0 else fl (100 * fl (1 - fl (of_int part / of_int whole))))"

text \<open>
  The first part of \<^verbatim>\<open>record_allocation\<close> computes the pressure of the request; \<open>live\<close> is the result of
  \<^verbatim>\<open>_regular_live_bytes\<close>. The second part stores it and records the page descriptors.
\<close>

definition request_pressure :: "string \<Rightarrow> int \<Rightarrow> int \<Rightarrow> int \<Rightarrow> tmh_policy \<Rightarrow> pressure result" where
  "request_pressure rid total_tokens0 prompt_tokens0 live p =
     (let pt = page_tokens p;
          total_tokens = max 1 total_tokens0;
          prompt_tokens = max 0 (min prompt_tokens0 total_tokens);
          total_pages = page_count total_tokens pt;
          prompt_pages = page_count (max 1 prompt_tokens) pt;
          hot_pages = hot_page_count (hot_budget_pct p) total_pages;
          recent_start_page = recent_start total_pages hot_pages;
          old_toks = token_count_for_page_span 1 recent_start_page total_tokens pt;
          S = sum_spans total_tokens pt
      in res_bind (S (layers p) [(0, total_pages, ''raw'', ''k''), (0, total_pages, ''raw'', ''v'')]) (\<lambda>raw_eq.
         res_bind (S (layers p) [(0, 1, ''raw'', ''k''), (0, 1, ''raw'', ''v''),
                      (recent_start_page, total_pages, ''raw'', ''k''), (recent_start_page, total_pages, ''raw'', ''v'')]) (\<lambda>hot.
         res_bind (S (early_layers p) [(1, recent_start_page, ''int8'', ''k''), (1, recent_start_page, ''int4'', ''v'')]) (\<lambda>warm_early.
         res_bind (S (late_layers p) [(1, recent_start_page, ''int8'', ''k''), (1, recent_start_page, ''int8'', ''v'')]) (\<lambda>warm_late.
         res_bind (S (layers p) [(1, recent_start_page, ''int8'', ''k''), (1, recent_start_page, ''int8'', ''v'')]) (\<lambda>uniform_old.
         let warm = warm_early + warm_late;
             effective = hot + warm;
             same_hot = hot + uniform_old
         in Inr \<lparr>pr_request_id = rid, pr_kv_layout = KV_LAYOUT, pr_policy = policy p,
               pr_total_tokens = total_tokens, pr_prompt_tokens = prompt_tokens, pr_page_tokens = pt,
               pr_total_pages = total_pages, pr_prompt_pages = prompt_pages, pr_hot_pages = hot_pages,
               pr_recent_start_page = recent_start_page, pr_layer_count = int (length (layers p)),
               pr_late_layer_start = int (length (early_layers p)), regular_live_bytes = live,
               tmh_effective_bytes = effective, hot_bytes = hot, warm_bytes = warm,
               raw_equivalent_bytes = raw_eq, same_hot_uniform_int8_bytes = same_hot,
               old_tokens = old_toks, warm_reduction_pct = reduction_pct warm uniform_old,
               total_reduction_pct = reduction_pct effective same_hot, pr_physical = policy_physical p\<rparr>))))))"

definition record_allocation ::
  "(block_ref \<Rightarrow> kv_block) \<Rightarrow> string \<Rightarrow> int \<Rightarrow> int \<Rightarrow> block_ref list list \<Rightarrow> tmh_policy
     \<Rightarrow> (pressure option \<times> tmh_policy) result" where
  "record_allocation store rid total_tokens prompt_tokens blocks_by_group p =
     (if \<not> policy_enabled p \<or> layers p = [] then Inr (None, p)
      else if page_tokens p = 0 then Inl ZeroDivisionError
      else
        let (live, p1) = regular_live_bytes_of store rid blocks_by_group p
        in res_bind (request_pressure rid total_tokens prompt_tokens live p1) (\<lambda>pr.
           let p2 = p1\<lparr>latest_by_request := dict_set rid pr (latest_by_request p1)\<rparr>
           in Inr (Some pr,
                if policy_physical p2
                then record_physical_descriptors store rid (pr_total_pages pr) (pr_recent_start_page pr)
                       (pr_hot_pages pr) blocks_by_group p2
                else p2)))"

text \<open>The loop of \<^verbatim>\<open>forget_request\<close> over a copy of the descriptors.\<close>

fun forget_loop :: "string \<Rightarrow> ((string \<times> string \<times> int) \<times> descriptor) list \<Rightarrow> record_state \<Rightarrow> record_state" where
  "forget_loop rid [] st = st"
| "forget_loop rid ((key, d) # items) (p, removed, rel) =
     (if fst key \<noteq> rid then forget_loop rid items (p, removed, rel)
      else let p1 = p\<lparr>physical_descriptors := dict_pop key (physical_descriptors p)\<rparr>;
               (gone, p2) = untrack_canonical_descriptor d p1
           in forget_loop rid items (p2, removed @ [d], if gone then rel @ [d] else rel))"

definition forget_request :: "string \<Rightarrow> tmh_policy \<Rightarrow> tmh_policy" where
  "forget_request rid p =
     (let p0 = p\<lparr>latest_by_request := dict_pop rid (latest_by_request p),
                 regular_live_bytes_cache := dict_pop rid (regular_live_bytes_cache p)\<rparr>;
          (p1, removed, rel) = forget_loop rid (physical_descriptors p0) (p0, [], [])
      in if policy_physical p1 \<and> removed \<noteq> []
         then p1\<lparr>pending_physical_events := pending_physical_events p1 @
                [\<lparr>e_request_id = rid, e_descriptors = [], e_total_pages = 0, e_recent_start_page = 0,
                  e_hot_pages = 0, released_request_ids = [rid], released_descriptors = rel\<rparr>]\<rparr>
         else p1)"

definition take_physical_events :: "tmh_policy \<Rightarrow> tmh_event list \<times> tmh_policy" where
  "take_physical_events p = (pending_physical_events p, p\<lparr>pending_physical_events := []\<rparr>)"

end
