(* ===== verification/TmhPolicyInv.thy ===== *)
theory TmhPolicyInv
  imports TmhPolicy
begin

text \<open>
  The invariant of the policy's descriptor table: every canonical reference count is the number of
  live descriptors with that key. All operations keep it; releases happen exactly when the last
  holder goes.
\<close>

declare split_paired_All [simp del] split_paired_Ex [simp del]

section \<open>Counting the entries of a dictionary\<close>

definition dict_count :: "('v \<Rightarrow> bool) \<Rightarrow> ('k, 'v) dict \<Rightarrow> nat" where
  "dict_count P d = length (filter (\<lambda>e. P (snd e)) d)"

lemma dict_count_set:
  assumes "dict_ok d"
  shows "int (dict_count P (dict_set k v d))
    = int (dict_count P d) - (case dict_get d k of None \<Rightarrow> 0 | Some w \<Rightarrow> of_bool (P w)) + of_bool (P v)"
  using assms
proof (induction d)
  case (Cons e d)
  obtain k' w where e: "e = (k', w)" by fastforce
  show ?case
  proof (cases "k' = k")
    case False
    then show ?thesis using Cons e by (simp add: dict_count_def)
  next
    case True
    then show ?thesis using Cons e by (simp add: dict_count_def)
  qed
qed (simp add: dict_count_def)

lemma dict_count_pop:
  assumes "dict_ok d"
  shows "int (dict_count P (dict_pop k d))
    = int (dict_count P d) - (case dict_get d k of None \<Rightarrow> 0 | Some w \<Rightarrow> of_bool (P w))"
  using assms
proof (induction d)
  case (Cons e d)
  obtain k' w where e: "e = (k', w)" by fastforce
  show ?case
  proof (cases "k' = k")
    case True
    then have "dict_pop k d = d" using Cons.prems e by (intro delete_id) auto
    then show ?thesis using Cons e True by (simp add: dict_count_def)
  next
    case False
    then show ?thesis using Cons e by (simp add: dict_count_def)
  qed
qed (simp add: dict_count_def)

lemma dict_count_pos: "dict_get d k = Some v \<Longrightarrow> P v \<Longrightarrow> 0 < dict_count P d"
  by (induction d) (auto simp: dict_count_def split: if_splits)

lemma dict_count_zero_iff:
  assumes "dict_ok d"
  shows "dict_count P d = 0 \<longleftrightarrow> (\<forall>k v. dict_get d k = Some v \<longrightarrow> \<not> P v)"
  using assms by (auto simp: dict_count_def filter_empty_conv)

section \<open>The invariant\<close>

definition holders :: "tmh_policy \<Rightarrow> string \<times> int \<times> int \<Rightarrow> nat" where
  "holders p k = dict_count (\<lambda>d. canonical_descriptor_key d = Some k) (physical_descriptors p)"

definition refcount :: "tmh_policy \<Rightarrow> string \<times> int \<times> int \<Rightarrow> int" where
  "refcount p k = (case dict_get (canonical_descriptor_refcounts p) k of None \<Rightarrow> 0 | Some n \<Rightarrow> n)"

definition descriptor_key :: "descriptor \<Rightarrow> string \<times> string \<times> int" where
  "descriptor_key d = (d_request_id d, d_layer_name d, page_index d)"

definition table_ok :: "tmh_policy \<Rightarrow> bool" where
  "table_ok p \<longleftrightarrow> dict_ok (physical_descriptors p)
     \<and> (\<forall>key d. dict_get (physical_descriptors p) key = Some d \<longrightarrow> key = descriptor_key d)"

definition counts_positive :: "tmh_policy \<Rightarrow> bool" where
  "counts_positive p \<longleftrightarrow> (\<forall>k n. dict_get (canonical_descriptor_refcounts p) k = Some n \<longrightarrow> 0 < n)"

definition tmh_inv :: "tmh_policy \<Rightarrow> bool" where
  "tmh_inv p \<longleftrightarrow> table_ok p \<and> counts_positive p \<and> (\<forall>k. refcount p k = int (holders p k))"

text \<open>Updates of other fields.\<close>

lemma tmh_inv_cong:
  assumes "physical_descriptors q = physical_descriptors p"
    and "canonical_descriptor_refcounts q = canonical_descriptor_refcounts p"
  shows "tmh_inv q = tmh_inv p"
  using assms by (simp add: tmh_inv_def table_ok_def counts_positive_def refcount_def holders_def)

subsection \<open>Tracking one descriptor\<close>

lemma track_refcount:
  "refcount (track_canonical_descriptor d p) k = refcount p k + of_bool (canonical_descriptor_key d = Some k)"
  by (auto simp: track_canonical_descriptor_def refcount_def Let_def split: option.splits)

lemma track_table [simp]:
  "physical_descriptors (track_canonical_descriptor d p) = physical_descriptors p"
  by (simp add: track_canonical_descriptor_def Let_def split: option.splits)

lemma track_positive: "counts_positive p \<Longrightarrow> counts_positive (track_canonical_descriptor d p)"
  by (auto simp: track_canonical_descriptor_def counts_positive_def Let_def split: option.splits)
    (metis zero_less_one add_strict_increasing less_imp_le)

lemma untrack_refcount:
  assumes "untrack_canonical_descriptor d p = (gone, q)" and "counts_positive p"
    and "\<And>k. canonical_descriptor_key d = Some k \<Longrightarrow> 1 \<le> refcount p k"
  shows "refcount q k = refcount p k - of_bool (canonical_descriptor_key d = Some k)"
    and "gone \<longleftrightarrow> (\<exists>k. canonical_descriptor_key d = Some k \<and> refcount q k = 0)"
    and "counts_positive q" and "physical_descriptors q = physical_descriptors p"
proof -
  consider (none) "canonical_descriptor_key d = None" "gone = False" "q = p"
    | (last) k0 where "canonical_descriptor_key d = Some k0" "refcount p k0 \<le> 1" "gone"
        "q = p\<lparr>canonical_descriptor_refcounts := dict_pop k0 (canonical_descriptor_refcounts p)\<rparr>"
    | (more) k0 where "canonical_descriptor_key d = Some k0" "1 < refcount p k0" "\<not> gone"
        "q = p\<lparr>canonical_descriptor_refcounts := dict_set k0 (refcount p k0 - 1) (canonical_descriptor_refcounts p)\<rparr>"
    using assms(1) by (auto simp: untrack_canonical_descriptor_def refcount_def Let_def split: option.splits if_splits)
  note cases = this
  show "refcount q k = refcount p k - of_bool (canonical_descriptor_key d = Some k)"
    using cases assms(3) by cases (auto simp: refcount_def)
  show "gone \<longleftrightarrow> (\<exists>k. canonical_descriptor_key d = Some k \<and> refcount q k = 0)"
    using cases by cases (auto simp: refcount_def)
  show "counts_positive q"
    using cases assms(2) by cases (auto simp: counts_positive_def split: if_splits)
  show "physical_descriptors q = physical_descriptors p"
    using cases by cases auto
qed

definition same_but_tables :: "tmh_policy \<Rightarrow> tmh_policy \<Rightarrow> bool" where
  "same_but_tables q p \<longleftrightarrow> q = p\<lparr>physical_descriptors := physical_descriptors q,
     canonical_descriptor_refcounts := canonical_descriptor_refcounts q\<rparr>"

lemma same_but_tables_refl [simp]: "same_but_tables p p"
  by (simp add: same_but_tables_def)

lemma same_but_tables_trans: "same_but_tables r q \<Longrightarrow> same_but_tables q p \<Longrightarrow> same_but_tables r p"
  by (cases p; cases q; cases r) (simp add: same_but_tables_def)

lemma same_but_tables_fields:
  assumes "same_but_tables q p"
  shows "policy q = policy p" "layers q = layers p" "early_layers q = early_layers p"
    "late_layers q = late_layers p" "pending_physical_events q = pending_physical_events p"
    "page_tokens q = page_tokens p" "hot_budget_pct q = hot_budget_pct p"
  using assms by (cases p; cases q; simp add: same_but_tables_def)+

lemma track_same: "same_but_tables (track_canonical_descriptor d p) p"
  by (simp add: track_canonical_descriptor_def same_but_tables_def Let_def split: option.splits)

lemma untrack_same: "same_but_tables (snd (untrack_canonical_descriptor d p)) p"
  by (simp add: untrack_canonical_descriptor_def same_but_tables_def Let_def split: option.splits)

lemma set_table_same: "same_but_tables q p \<Longrightarrow> same_but_tables (q\<lparr>physical_descriptors := t\<rparr>) p"
  by (cases p; cases q) (simp add: same_but_tables_def)

lemma table_set:
  assumes "tmh_inv p" and "physical_descriptors q = physical_descriptors p" and "counts_positive q"
    and "\<And>k. refcount q k = refcount p k
      - (case dict_get (physical_descriptors p) (descriptor_key d) of None \<Rightarrow> 0
         | Some old \<Rightarrow> of_bool (canonical_descriptor_key old = Some k))
      + of_bool (canonical_descriptor_key d = Some k)"
  shows "tmh_inv (q\<lparr>physical_descriptors := dict_set (descriptor_key d) d (physical_descriptors q)\<rparr>)"
  using assms
  by (auto simp: tmh_inv_def table_ok_def counts_positive_def refcount_def holders_def dict_count_set)

lemma record_descriptor_inv:
  assumes inv: "tmh_inv p" and st: "record_descriptor d (p, ds, rel) = (q, ds', rel')"
  shows "tmh_inv q" and "same_but_tables q p"
    and "dict_get (physical_descriptors q) = (dict_get (physical_descriptors p)) (descriptor_key d \<mapsto> d)"
    and "ds' = (if dict_get (physical_descriptors p) (descriptor_key d) = Some d then ds else ds @ [d])"
proof -
  let ?old = "dict_get (physical_descriptors p) (descriptor_key d)"
  have pos: "counts_positive p" and rc: "\<And>k. refcount p k = int (holders p k)"
    using inv by (simp_all add: tmh_inv_def)
  have "tmh_inv q \<and> same_but_tables q p
    \<and> dict_get (physical_descriptors q) = (dict_get (physical_descriptors p)) (descriptor_key d \<mapsto> d)
    \<and> ds' = (if ?old = Some d then ds else ds @ [d])"
  proof (cases "?old = Some d")
    case True
    then show ?thesis using st inv by (auto simp: record_descriptor_def descriptor_key_def)
  next
    case False
    define p1 where "p1 = (case ?old of None \<Rightarrow> track_canonical_descriptor d p
      | Some old \<Rightarrow> if canonical_descriptor_key old \<noteq> canonical_descriptor_key d
          then track_canonical_descriptor d (snd (untrack_canonical_descriptor old p)) else p)"
    have q: "q = p1\<lparr>physical_descriptors := dict_set (descriptor_key d) d (physical_descriptors p1)\<rparr>"
      and ds: "ds' = ds @ [d]"
      using st False
      by (auto simp: record_descriptor_def descriptor_key_def p1_def Let_def split: option.splits if_splits prod.splits)
    have p1: "physical_descriptors p1 = physical_descriptors p \<and> counts_positive p1 \<and> same_but_tables p1 p
      \<and> (\<forall>k. refcount p1 k = refcount p k
        - (case ?old of None \<Rightarrow> 0 | Some old \<Rightarrow> of_bool (canonical_descriptor_key old = Some k))
        + of_bool (canonical_descriptor_key d = Some k))"
    proof (cases ?old)
      case None
      then show ?thesis using pos by (simp add: p1_def track_refcount track_positive track_same)
    next
      case (Some old)
      obtain gone p' where u: "untrack_canonical_descriptor old p = (gone, p')" by fastforce
      have "1 \<le> refcount p k" if "canonical_descriptor_key old = Some k" for k
        using dict_count_pos [OF Some, of "\<lambda>d. canonical_descriptor_key d = Some k"] that rc
        by (simp add: holders_def)
      note un = untrack_refcount [OF u pos this]
      have "same_but_tables (track_canonical_descriptor d p') p"
        using same_but_tables_trans [OF track_same] untrack_same [of old p] u by simp
      then show ?thesis using Some un u pos
        by (auto simp: p1_def track_refcount track_positive)
    qed
    then have "tmh_inv q" unfolding q by (intro table_set [OF inv]) auto
    then show ?thesis using p1 q ds False by (simp add: set_table_same fun_eq_iff)
  qed
  then show "tmh_inv q" "same_but_tables q p"
    "dict_get (physical_descriptors q) = (dict_get (physical_descriptors p)) (descriptor_key d \<mapsto> d)"
    "ds' = (if ?old = Some d then ds else ds @ [d])" by blast+
qed

lemma record_fold_inv:
  assumes "tmh_inv p" and "fold record_descriptor dl (p, ds, rel) = (q, ds', rel')"
  shows "tmh_inv q \<and> same_but_tables q p \<and> dict_get (physical_descriptors q)
    = dict_get (physical_descriptors p) ++ map_of (rev (map (\<lambda>d. (descriptor_key d, d)) dl))"
  using assms
proof (induction dl arbitrary: p ds rel)
  case (Cons d dl)
  obtain p1 ds1 rel1 where s1: "record_descriptor d (p, ds, rel) = (p1, ds1, rel1)" by (metis prod_cases3)
  note r1 = record_descriptor_inv [OF Cons.prems(1) s1]
  have f: "fold record_descriptor dl (p1, ds1, rel1) = (q, ds', rel')" using Cons.prems(2) s1 by simp
  note r2 = Cons.IH [OF r1(1) f]
  have "dict_get (physical_descriptors q)
    = dict_get (physical_descriptors p) ++ map_of (rev (map (\<lambda>d. (descriptor_key d, d)) (d # dl)))"
    using r2 r1(3) by (simp add: map_add_def fun_eq_iff split: option.splits)
  then show ?case using r2 r1(2) same_but_tables_trans by blast
qed auto

lemma record_for_pages_inv:
  assumes "tmh_inv p"
  shows "tmh_inv (record_physical_descriptors_for_pages rid tp rs hp pages p)"
proof -
  obtain q ds rel where f: "fold record_descriptor (descriptors_for_pages rid tp rs pages p) (p, [], []) = (q, ds, rel)"
    by (metis prod_cases3)
  have "tmh_inv q" using record_fold_inv [OF assms f] by blast
  then have "tmh_inv (q\<lparr>pending_physical_events := es\<rparr>)" for es using tmh_inv_cong [of "q\<lparr>pending_physical_events := es\<rparr>" q] by simp
  with \<open>tmh_inv q\<close> show ?thesis by (simp add: record_physical_descriptors_for_pages_def f)
qed

subsection \<open>Forgetting a request\<close>

text \<open>The keys of a list of descriptors.\<close>

definition canonical_keys :: "descriptor list \<Rightarrow> (string \<times> int \<times> int) set" where
  "canonical_keys ds = {k. \<exists>d\<in>set ds. canonical_descriptor_key d = Some k}"

lemma canonical_keys_append [simp]:
  "canonical_keys (ds @ [d]) = canonical_keys ds \<union> {k. canonical_descriptor_key d = Some k}"
  by (auto simp: canonical_keys_def)

lemma forget_step_inv:
  assumes inv: "tmh_inv p" and d: "dict_get (physical_descriptors p) key = Some d"
    and u: "untrack_canonical_descriptor d (p\<lparr>physical_descriptors := dict_pop key (physical_descriptors p)\<rparr>) = (gone, q)"
  shows "tmh_inv q" and "same_but_tables q p"
    and "physical_descriptors q = dict_pop key (physical_descriptors p)"
    and "gone \<longleftrightarrow> (\<exists>k. canonical_descriptor_key d = Some k \<and> refcount q k = 0)"
    and "refcount q k = refcount p k - of_bool (canonical_descriptor_key d = Some k)"
proof -
  let ?p = "p\<lparr>physical_descriptors := dict_pop key (physical_descriptors p)\<rparr>"
  have rc: "refcount ?p k = refcount p k" for k by (simp add: refcount_def)
  have "counts_positive ?p" using inv by (simp add: tmh_inv_def counts_positive_def)
  moreover have "1 \<le> refcount ?p k" if "canonical_descriptor_key d = Some k" for k
    using dict_count_pos [OF d, of "\<lambda>d. canonical_descriptor_key d = Some k"] that inv rc
    by (simp add: tmh_inv_def holders_def)
  ultimately have un: "refcount q k = refcount ?p k - of_bool (canonical_descriptor_key d = Some k)"
    "gone \<longleftrightarrow> (\<exists>k. canonical_descriptor_key d = Some k \<and> refcount q k = 0)"
    "counts_positive q" "physical_descriptors q = physical_descriptors ?p" for k
    using untrack_refcount [OF u] by blast+
  have "refcount q k = int (holders q k)" for k
    using un(1,4) rc inv d dict_count_pop [of "physical_descriptors p" "\<lambda>d. canonical_descriptor_key d = Some k" key]
    by (simp add: holders_def tmh_inv_def table_ok_def)
  then show "tmh_inv q" using inv un by (auto simp: tmh_inv_def table_ok_def)
  show "same_but_tables q p"
    using untrack_same [of d ?p] u set_table_same [OF same_but_tables_refl] same_but_tables_trans by fastforce
  show "physical_descriptors q = dict_pop key (physical_descriptors p)" using un(4) by simp
  show "gone \<longleftrightarrow> (\<exists>k. canonical_descriptor_key d = Some k \<and> refcount q k = 0)" by (rule un(2))
  show "refcount q k = refcount p k - of_bool (canonical_descriptor_key d = Some k)" using un(1) rc by simp
qed

lemma forget_loop_inv:
  assumes "tmh_inv p" and "distinct (map fst items)"
    and "\<And>key d. (key, d) \<in> set items \<Longrightarrow> dict_get (physical_descriptors p) key = Some d"
    and "canonical_keys rel = {k \<in> canonical_keys removed. refcount p k = 0}"
    and "forget_loop rid items (p, removed, rel) = (q, removed', rel')"
  shows "tmh_inv q \<and> same_but_tables q p
    \<and> dict_get (physical_descriptors q) = (\<lambda>key. if fst key = rid \<and> key \<in> fst ` set items then None
         else dict_get (physical_descriptors p) key)
    \<and> removed' = removed @ map snd (filter (\<lambda>e. fst (fst e) = rid) items)
    \<and> canonical_keys rel' = {k \<in> canonical_keys removed'. refcount q k = 0}"
  using assms
proof (induction items arbitrary: p removed rel)
  case Nil
  then show ?case by auto
next
  case (Cons e items)
  obtain key d where e: "e = (key, d)" by fastforce
  show ?case
  proof (cases "fst key = rid")
    case False
    then have f: "forget_loop rid items (p, removed, rel) = (q, removed', rel')" using Cons.prems(5) e by simp
    have "tmh_inv q \<and> same_but_tables q p
      \<and> dict_get (physical_descriptors q) = (\<lambda>key. if fst key = rid \<and> key \<in> fst ` set items then None
           else dict_get (physical_descriptors p) key)
      \<and> removed' = removed @ map snd (filter (\<lambda>e. fst (fst e) = rid) items)
      \<and> canonical_keys rel' = {k \<in> canonical_keys removed'. refcount q k = 0}"
      using Cons.prems by (intro Cons.IH [OF _ _ _ _ f]) auto
    moreover have "fst k = rid \<and> k \<in> fst ` set (e # items) \<longleftrightarrow> fst k = rid \<and> k \<in> fst ` set items" for k
      using False e by auto
    ultimately show ?thesis using False e by simp
  next
    case True
    have d: "dict_get (physical_descriptors p) key = Some d" using Cons.prems(3) e by simp
    obtain gone p2 where u: "untrack_canonical_descriptor d
      (p\<lparr>physical_descriptors := dict_pop key (physical_descriptors p)\<rparr>) = (gone, p2)" by fastforce
    note st = forget_step_inv [OF Cons.prems(1) d u]
    have f: "forget_loop rid items (p2, removed @ [d], if gone then rel @ [d] else rel) = (q, removed', rel')"
      using Cons.prems(5) e True u by simp
    have nk: "key \<notin> fst ` set items" using Cons.prems(2) e by simp
    have items: "\<And>k' d'. (k', d') \<in> set items \<Longrightarrow> dict_get (physical_descriptors p2) k' = Some d'"
      using Cons.prems(3) nk st(3) by (auto simp: image_iff)
    have rel: "canonical_keys (if gone then rel @ [d] else rel) = {k \<in> canonical_keys (removed @ [d]). refcount p2 k = 0}"
    proof -
      have "1 \<le> refcount p k" if "canonical_descriptor_key d = Some k" for k
        using dict_count_pos [OF d, of "\<lambda>d. canonical_descriptor_key d = Some k"] that Cons.prems(1)
        by (simp add: tmh_inv_def holders_def)
      then show ?thesis using Cons.prems(4) st(4,5) by auto
    qed
    have "tmh_inv q \<and> same_but_tables q p2
      \<and> dict_get (physical_descriptors q) = (\<lambda>key. if fst key = rid \<and> key \<in> fst ` set items then None
           else dict_get (physical_descriptors p2) key)
      \<and> removed' = (removed @ [d]) @ map snd (filter (\<lambda>e. fst (fst e) = rid) items)
      \<and> canonical_keys rel' = {k \<in> canonical_keys removed'. refcount q k = 0}"
      using Cons.IH [OF st(1) _ items rel f] Cons.prems(2) by simp
    then show ?thesis using True e st(2,3) same_but_tables_trans by (auto simp: fun_eq_iff)
  qed
qed

end
