(* ===== verification/TmhAccounting.thy ===== *)
theory TmhAccounting
  imports TmhPolicy
begin

text \<open>
  The byte accounting of \<^verbatim>\<open>record_allocation\<close>: the values of its sums, the exactness of its page counts
  and the bounds between raw, tiered and uniformly quantised sizes.
\<close>

section \<open>Page counts\<close>

lemma fl_positive: "0 < x \<Longrightarrow> 0 < fl x"
  using fl_pos_pos by (simp add: fl_def)

lemma page_count_cdiv:
  assumes "0 < tokens" and "tokens < 2 ^ 53" and "0 < pt"
  shows "page_count tokens pt = cdiv tokens pt"
proof -
  have "\<lceil>fl (of_int tokens / of_int pt)\<rceil> = cdiv tokens pt"
    using assms by (intro fp.ceil_rnd_divide) simp_all
  moreover have "1 \<le> cdiv tokens pt"
    using cdiv_le_iff [OF assms(3), of tokens 0] assms(1) by linarith
  ultimately show ?thesis by (simp add: page_count_def)
qed

lemma page_count_covers:
  assumes "0 < tokens" and "tokens < 2 ^ 53" and "0 < pt"
  shows "(page_count tokens pt - 1) * pt < tokens" and "tokens \<le> page_count tokens pt * pt" and "1 \<le> page_count tokens pt"
proof -
  show "(page_count tokens pt - 1) * pt < tokens" "tokens \<le> page_count tokens pt * pt"
    using cdiv_bounds [OF assms(3), of tokens] by (simp_all add: page_count_cdiv [OF assms] algebra_simps)
qed (simp add: page_count_def)

lemma hot_page_count_bounds:
  assumes "1 \<le> n"
  shows "0 \<le> hot_page_count pct n" and "hot_page_count pct n \<le> n" and "0 < pct \<longleftrightarrow> 1 \<le> hot_page_count pct n"
proof -
  have n: "0 < fl (of_int n :: rat)" using assms by (intro fl_positive) simp
  have "0 < fl (fl (of_int n) * pct)" if "0 < pct" using n that by (intro fl_positive) simp
  then have "0 < fl (fl (fl (of_int n) * pct) / 100)" if "0 < pct" using that by (intro fl_positive) simp
  then have "0 < pct \<Longrightarrow> 1 \<le> \<lceil>fl (fl (fl (of_int n) * pct) / 100)\<rceil>" by (metis less_ceiling_iff of_int_0 int_one_le_iff_zero_less)
  then show "0 \<le> hot_page_count pct n" "hot_page_count pct n \<le> n" "0 < pct \<longleftrightarrow> 1 \<le> hot_page_count pct n"
    using assms by (auto simp: hot_page_count_def min_def)
qed

lemma recent_start_eq:
  assumes "1 \<le> n"
  shows "recent_start n (hot_page_count pct n) = n - hot_page_count pct n"
  using hot_page_count_bounds [OF assms, of pct] by (simp add: recent_start_def)

section \<open>The value of a span\<close>

definition scalar_bytes :: "layer_shape \<Rightarrow> string \<Rightarrow> rat" where
  "scalar_bytes l precision =
     (if precision = ''raw'' then raw_dtype_bytes l else if precision = ''int8'' then 1 else 1 / 2)"

definition component_size :: "layer_shape \<Rightarrow> string \<Rightarrow> int" where
  "component_size l component = (if component = ''k'' then ls_head_size l else the (ls_head_size_v l))"

definition bytes_val :: "layer_shape \<Rightarrow> int \<Rightarrow> string \<Rightarrow> string \<Rightarrow> int" where
  "bytes_val l tokens precision component =
     \<lceil>fl (fl (of_int (tokens * ls_num_kv_heads l * component_size l component)) * scalar_bytes l precision)\<rceil>"

definition tokens_val :: "layer_shape \<Rightarrow> int \<Rightarrow> int \<Rightarrow> string \<Rightarrow> string \<Rightarrow> int" where
  "tokens_val l pt n precision component =
     n div pt * bytes_val l pt precision component
     + (if n mod pt \<noteq> 0 then bytes_val l (n mod pt) precision component else 0)"

definition span_val :: "int \<Rightarrow> int \<Rightarrow> layer_shape \<Rightarrow> int \<times> int \<times> string \<times> string \<Rightarrow> int" where
  "span_val tokens pt l s =
     (case s of (a, b, precision, component) \<Rightarrow>
        tokens_val l pt (token_count_for_page_span a b tokens pt) precision component)"

definition known_precision :: "int \<times> int \<times> string \<times> string \<Rightarrow> bool" where
  "known_precision s \<longleftrightarrow> fst (snd (snd s)) \<in> {''raw'', ''int8'', ''int4''}"

lemma bytes_for_val:
  assumes "ls_head_size_v l \<noteq> None" and "precision \<in> {''raw'', ''int8'', ''int4''}"
  shows "bytes_for l tokens precision component = Inr (bytes_val l tokens precision component)"
  using assms by (auto simp: bytes_for_def bytes_val_def scalar_bytes_def component_size_def)

lemma bytes_for_page_span_val:
  assumes "ls_head_size_v l \<noteq> None" and "precision \<in> {''raw'', ''int8'', ''int4''}" and "pt \<noteq> 0"
  shows "bytes_for_page_span l a b tokens pt precision component = Inr (span_val tokens pt l (a, b, precision, component))"
  using assms by (simp add: bytes_for_page_span_def Let_def bytes_for_val span_val_def tokens_val_def)

lemma add_spans_val:
  assumes "ls_head_size_v l \<noteq> None" and "pt \<noteq> 0" and "\<And>s. s \<in> set spans \<Longrightarrow> known_precision s"
  shows "add_spans tokens pt l spans acc = Inr (acc + sum_list (map (span_val tokens pt l) spans))"
  using assms(3)
proof (induction spans arbitrary: acc)
  case (Cons s spans)
  obtain a b precision component where s: "s = (a, b, precision, component)" by (metis prod_cases4)
  have "precision \<in> {''raw'', ''int8'', ''int4''}" using Cons.prems [of s] s by (simp add: known_precision_def)
  then show ?case using Cons bytes_for_page_span_val [OF assms(1) _ assms(2)] s by (simp add: algebra_simps)
qed simp

lemma sum_spans_val:
  assumes "\<And>l. l \<in> set ls \<Longrightarrow> ls_head_size_v l \<noteq> None" and "pt \<noteq> 0" and "\<And>s. s \<in> set spans \<Longrightarrow> known_precision s"
  shows "sum_spans tokens pt ls spans = Inr (sum_list (map (\<lambda>l. sum_list (map (span_val tokens pt l) spans)) ls))"
proof -
  have "res_fold (\<lambda>layer. add_spans tokens pt layer spans) ls acc
    = Inr (acc + sum_list (map (\<lambda>l. sum_list (map (span_val tokens pt l) spans)) ls))" for acc
    using assms(1) by (induction ls arbitrary: acc) (simp_all add: add_spans_val [OF _ assms(2,3)] algebra_simps)
  then show ?thesis by (simp add: sum_spans_def)
qed

lemma request_pressure_val:
  assumes shapes: "\<And>l. l \<in> set (layers p) \<Longrightarrow> ls_head_size_v l \<noteq> None" and pt: "page_tokens p \<noteq> 0"
    and lay: "layers p = early_layers p @ late_layers p"
    and T: "T = max 1 tokens" and n: "n = page_count T (page_tokens p)"
    and r: "r = recent_start n (hot_page_count (hot_budget_pct p) n)"
    and V: "V = (\<lambda>l a b precision component. span_val T (page_tokens p) l (a, b, precision, component))"
  shows "\<exists>pr. request_pressure rid tokens prompt live p = Inr pr
    \<and> pr_total_tokens pr = T \<and> pr_total_pages pr = n \<and> pr_hot_pages pr = hot_page_count (hot_budget_pct p) n
    \<and> pr_recent_start_page pr = r
    \<and> raw_equivalent_bytes pr = (\<Sum>l\<leftarrow>layers p. V l 0 n ''raw'' ''k'' + V l 0 n ''raw'' ''v'')
    \<and> hot_bytes pr = (\<Sum>l\<leftarrow>layers p. V l 0 1 ''raw'' ''k'' + V l 0 1 ''raw'' ''v''
                        + (V l r n ''raw'' ''k'' + V l r n ''raw'' ''v''))
    \<and> warm_bytes pr = (\<Sum>l\<leftarrow>early_layers p. V l 1 r ''int8'' ''k'' + V l 1 r ''int4'' ''v'')
                    + (\<Sum>l\<leftarrow>late_layers p. V l 1 r ''int8'' ''k'' + V l 1 r ''int8'' ''v'')
    \<and> tmh_effective_bytes pr = hot_bytes pr + warm_bytes pr
    \<and> (\<exists>u. u = (\<Sum>l\<leftarrow>layers p. V l 1 r ''int8'' ''k'' + V l 1 r ''int8'' ''v'')
        \<and> same_hot_uniform_int8_bytes pr = hot_bytes pr + u
        \<and> warm_reduction_pct pr = reduction_pct (warm_bytes pr) u
        \<and> total_reduction_pct pr = reduction_pct (tmh_effective_bytes pr) (same_hot_uniform_int8_bytes pr))"
proof -
  have e: "\<And>l. l \<in> set (early_layers p) \<Longrightarrow> ls_head_size_v l \<noteq> None" "\<And>l. l \<in> set (late_layers p) \<Longrightarrow> ls_head_size_v l \<noteq> None"
    using shapes lay by auto
  have sv: "list_all known_precision spans \<Longrightarrow> sum_spans t (page_tokens p) ls spans
      = Inr (\<Sum>l\<leftarrow>ls. \<Sum>s\<leftarrow>spans. span_val t (page_tokens p) l s)"
    if "ls \<in> {layers p, early_layers p, late_layers p}" for t ls spans
    using that shapes e by (intro sum_spans_val [OF _ pt]) (auto simp: list_all_iff)
  show ?thesis
    unfolding request_pressure_def Let_def T [symmetric] n [symmetric] r [symmetric] V
    by (simp add: sv known_precision_def add.assoc)
qed

section \<open>Token counts\<close>

lemma token_count_min:
  assumes "a \<le> b" and "0 < pt"
  shows "token_count_for_page_span a b tokens pt = min tokens (b * pt) - min tokens (a * pt)"
proof -
  have "max 0 (min tokens y - x) = min tokens y - min tokens x" if "x \<le> y" for x y :: int
    using that by (auto simp: min_def max_def)
  from this [of "a * pt" "b * pt"] show ?thesis
    using assms by (cases "a = b") (auto simp: token_count_for_page_span_def Let_def)
qed

lemma token_count_add:
  assumes "a \<le> b" and "b \<le> c" and "0 < pt"
  shows "token_count_for_page_span a b tokens pt + token_count_for_page_span b c tokens pt
    = token_count_for_page_span a c tokens pt"
  using assms by (simp add: token_count_min)

lemma token_count_nonneg: "0 \<le> token_count_for_page_span a b tokens pt"
  by (simp add: token_count_for_page_span_def Let_def)

section \<open>Bounds\<close>

definition sized_shape :: "layer_shape \<Rightarrow> bool" where
  "sized_shape l \<longleftrightarrow> 0 \<le> ls_num_kv_heads l \<and> 0 \<le> ls_head_size l
     \<and> (case ls_head_size_v l of None \<Rightarrow> False | Some hv \<Rightarrow> 0 \<le> hv)"

text \<open>The bytes of one page are represented exactly, and a raw scalar is a whole number of bytes.\<close>

definition exact_shape :: "int \<Rightarrow> layer_shape \<Rightarrow> bool" where
  "exact_shape pt l \<longleftrightarrow> sized_shape l \<and> raw_dtype_bytes l = of_int \<lfloor>raw_dtype_bytes l\<rfloor> \<and> 1 \<le> raw_dtype_bytes l
     \<and> pt * ls_num_kv_heads l * ls_head_size l * \<lfloor>raw_dtype_bytes l\<rfloor> \<le> 2 ^ 53
     \<and> pt * ls_num_kv_heads l * the (ls_head_size_v l) * \<lfloor>raw_dtype_bytes l\<rfloor> \<le> 2 ^ 53"

lemma sized_component: "sized_shape l \<Longrightarrow> 0 \<le> ls_num_kv_heads l * component_size l c"
  by (auto simp: sized_shape_def component_size_def split: option.splits)

lemma bytes_val_int4_le:
  assumes "sized_shape l" and "0 \<le> t"
  shows "bytes_val l t ''int4'' c \<le> bytes_val l t ''int8'' c"
proof -
  let ?x = "of_int (t * ls_num_kv_heads l * component_size l c) :: rat"
  have "0 \<le> t * ls_num_kv_heads l * component_size l c"
    using sized_component [OF assms(1)] assms(2) by (simp add: mult.assoc)
  then have x: "0 \<le> fl ?x" by (intro fp.rnd_nonneg) (simp only: of_int_0_le_iff)
  then have "fl (fl ?x * (1 / 2)) \<le> fl (fl ?x * 1)" by (intro fp.rnd_mono) simp
  then show ?thesis by (simp add: bytes_val_def scalar_bytes_def ceiling_mono)
qed

lemma tokens_val_mono:
  assumes "\<And>t. 0 \<le> t \<Longrightarrow> bytes_val l t p c \<le> bytes_val l t p' c" and "0 < pt" and "0 \<le> n"
  shows "tokens_val l pt n p c \<le> tokens_val l pt n p' c"
proof -
  have "n div pt * bytes_val l pt p c \<le> n div pt * bytes_val l pt p' c"
    using assms by (intro mult_left_mono) (simp_all add: pos_imp_zdiv_nonneg_iff)
  moreover have "bytes_val l (n mod pt) p c \<le> bytes_val l (n mod pt) p' c" using assms by simp
  ultimately show ?thesis by (simp add: tokens_val_def)
qed

lemma bytes_val_nonneg: "sized_shape l \<Longrightarrow> 0 \<le> t \<Longrightarrow> 0 \<le> bytes_val l t ''int4'' c"
proof -
  assume a: "sized_shape l" "0 \<le> t"
  have "0 \<le> t * ls_num_kv_heads l * component_size l c"
    using sized_component [OF a(1)] a(2) by (simp add: mult.assoc)
  then have "0 \<le> fl (of_int (t * ls_num_kv_heads l * component_size l c))"
    by (intro fp.rnd_nonneg) (simp only: of_int_0_le_iff)
  then have "0 \<le> fl (fl (of_int (t * ls_num_kv_heads l * component_size l c)) * scalar_bytes l ''int4'')"
    by (intro fp.rnd_nonneg) (simp add: scalar_bytes_def)
  then show ?thesis by (simp add: bytes_val_def)
qed

lemma exact_bytes:
  assumes ex: "exact_shape pt l" and t: "0 \<le> t" "t \<le> pt"
  shows "bytes_val l t ''raw'' c = t * (ls_num_kv_heads l * component_size l c * \<lfloor>raw_dtype_bytes l\<rfloor>)"
    and "bytes_val l t ''int8'' c = t * (ls_num_kv_heads l * component_size l c)"
proof -
  define w where "w = \<lfloor>raw_dtype_bytes l\<rfloor>"
  define x where "x = t * ls_num_kv_heads l * component_size l c"
  have w: "raw_dtype_bytes l = of_int w" "1 \<le> w"
    using ex unfolding exact_shape_def w_def [symmetric] by (auto simp: w_def le_floor_iff)
  have s: "0 \<le> ls_num_kv_heads l * component_size l c" using ex sized_component by (simp add: exact_shape_def)
  have "t * (ls_num_kv_heads l * component_size l c) \<le> pt * (ls_num_kv_heads l * component_size l c)"
    using s t by (intro mult_right_mono)
  then have "x * w \<le> pt * (ls_num_kv_heads l * component_size l c) * w"
    using w(2) by (intro mult_right_mono) (simp_all add: x_def mult.assoc)
  also have "\<dots> \<le> 2 ^ 53"
    using ex unfolding exact_shape_def w_def [symmetric] by (auto simp: component_size_def mult.assoc)
  finally have xw: "x * w \<le> 2 ^ 53" .
  have x0: "0 \<le> x" using s t by (simp add: x_def mult.assoc)
  have "x \<le> x * w" using x0 w(2) mult_left_mono [of 1 w x] by simp
  then have flx: "fl (of_int x) = of_int x" using x0 xw by (intro fp.rnd_int) simp
  have "fl (of_int (x * w)) = of_int (x * w)" using x0 xw w(2) by (intro fp.rnd_int) simp
  then have "\<lceil>fl (of_int x * of_int w)\<rceil> = x * w" by (simp only: of_int_mult [symmetric] ceiling_of_int)
  then show "bytes_val l t ''raw'' c = t * (ls_num_kv_heads l * component_size l c * \<lfloor>raw_dtype_bytes l\<rfloor>)"
    by (simp add: bytes_val_def scalar_bytes_def x_def [symmetric] flx w)
      (simp add: x_def mult.assoc)
  show "bytes_val l t ''int8'' c = t * (ls_num_kv_heads l * component_size l c)"
    by (simp add: bytes_val_def scalar_bytes_def x_def [symmetric] flx) (simp add: x_def mult.assoc)
qed

lemma exact_tokens:
  assumes "exact_shape pt l" and "0 < pt"
  shows "tokens_val l pt n ''raw'' c = n * (ls_num_kv_heads l * component_size l c * \<lfloor>raw_dtype_bytes l\<rfloor>)"
    and "tokens_val l pt n ''int8'' c = n * (ls_num_kv_heads l * component_size l c)"
proof -
  have m: "0 \<le> n mod pt" "n mod pt \<le> pt" using assms(2) by (simp_all add: less_imp_le)
  have split: "n div pt * (pt * y) + n mod pt * y = n * y" for y :: int
    by (metis div_mult_mod_eq distrib_right mult.assoc)
  have gen: "tokens_val l pt n p c = n * y" if "\<And>t. 0 \<le> t \<Longrightarrow> t \<le> pt \<Longrightarrow> bytes_val l t p c = t * y" for p y
  proof -
    have "tokens_val l pt n p c = n div pt * (pt * y) + n mod pt * y"
      using that assms(2) m by (simp add: tokens_val_def)
    then show ?thesis by (simp only: split)
  qed
  show "tokens_val l pt n ''raw'' c = n * (ls_num_kv_heads l * component_size l c * \<lfloor>raw_dtype_bytes l\<rfloor>)"
    "tokens_val l pt n ''int8'' c = n * (ls_num_kv_heads l * component_size l c)"
    using gen exact_bytes [OF assms(1)] by blast+
qed

lemma reduction_pct_bounds:
  assumes "0 \<le> part" and "part \<le> whole"
  shows "0 \<le> reduction_pct part whole" and "reduction_pct part whole \<le> 100"
proof -
  have q: "0 \<le> (of_int part / of_int whole :: rat)" "(of_int part / of_int whole :: rat) \<le> 1" if "0 < whole"
    using that assms by (simp_all add: divide_le_eq)
  have d: "0 \<le> fl (1 - fl (of_int part / of_int whole))" "fl (1 - fl (of_int part / of_int whole)) \<le> 1" if "0 < whole"
    using fp.rnd_le_one [OF q(2) [OF that]] fp.rnd_nonneg [OF q(1) [OF that]]
    by (auto intro: fp.rnd_nonneg fp.rnd_le_one)
  have "0 \<le> fl (100 * fl (1 - fl (of_int part / of_int whole)))" if "0 < whole"
    using d(1) [OF that] by (intro fp.rnd_nonneg) simp
  moreover have "fl (100 * fl (1 - fl (of_int part / of_int whole))) \<le> 100" if "0 < whole"
    using fp.rnd_le_int [of 100 "100 * fl (1 - fl (of_int part / of_int whole))"] d(2) [OF that] by simp
  ultimately show "0 \<le> reduction_pct part whole" "reduction_pct part whole \<le> 100"
    by (auto simp: reduction_pct_def)
qed

lemma record_allocation_total:
  assumes "policy_enabled p" and "layers p \<noteq> []" and "page_tokens p \<noteq> 0"
    and lay: "layers p = early_layers p @ late_layers p"
    and hv: "\<And>l. l \<in> set (layers p) \<Longrightarrow> ls_head_size_v l \<noteq> None"
  shows "\<exists>pr q. record_allocation store rid tokens prompt bs p = Inr (Some pr, q)"
proof -
  obtain n p1 where l: "regular_live_bytes_of store rid bs p = (n, p1)" by fastforce
  have eq: "page_tokens p1 = page_tokens p" "layers p1 = layers p" "early_layers p1 = early_layers p" "late_layers p1 = late_layers p"
    using l by (auto simp: regular_live_bytes_of_def Let_def split: option.splits if_splits prod.splits)
  have "\<exists>pr. request_pressure rid tokens prompt n p1 = Inr pr"
    using request_pressure_val [of p1, OF _ _ _ refl refl refl refl] hv lay assms(3) unfolding eq by blast
  then show ?thesis using assms(1-3) by (auto simp: record_allocation_def l Let_def)
qed

section \<open>A concrete policy\<close>

definition sample_policy_groups :: "kv_cache_group list" where
  "sample_policy_groups =
     [\<lparr>layer_names = [''l.1'', ''l.0'', ''l.2''], group_spec = FullAttentionSpec sample_full, is_eagle_group = False\<rparr>]"

definition sample_kv_config :: kv_cache_config where
  "sample_kv_config = \<lparr>cfg_num_blocks = 8, kv_cache_tensors = [], kv_cache_groups = sample_policy_groups,
     tmh_kv_policy = ''physical'', kv_layout = ''tmh_fidelity_paged_kv'', cfg_tmh_hot_budget_pct = 25\<rparr>"

definition sample_shape :: "string \<Rightarrow> int \<Rightarrow> layer_shape" where
  "sample_shape name i = \<lparr>ls_layer_name = name, ls_layer_index = i, ls_num_kv_heads = 8, ls_head_size = 128,
     ls_head_size_v = Some 128, raw_dtype_bytes = 2\<rparr>"

definition sample_policy :: tmh_policy where
  "sample_policy = policy_init ''physical'' 25 16
     [sample_shape ''l.0'' 0, sample_shape ''l.1'' 1, sample_shape ''l.2'' 2] [196608]"

definition sample_store :: "block_ref \<Rightarrow> kv_block" where
  "sample_store b = fresh_block\<lparr>ref_cnt := 1\<rparr>"

lemma sample_policy_init: "from_kv_cache_config sample_kv_config 16 = Inr sample_policy"
  by code_simp

lemma sample_policy_ok:
  "policy_enabled sample_policy" "layers sample_policy \<noteq> []" "page_tokens sample_policy = 16" "hot_budget_pct sample_policy = 25"
  "layers sample_policy = early_layers sample_policy @ late_layers sample_policy" "policy_physical sample_policy"
  by (simp_all add: sample_policy_def policy_init_def Let_def policy_enabled_def policy_physical_def)

lemma sample_policy_shapes: "l \<in> set (layers sample_policy) \<Longrightarrow> exact_shape 16 l"
  by (auto simp: sample_policy_def policy_init_def Let_def exact_shape_def sized_shape_def sample_shape_def)

lemma sample_policy_heads: "l \<in> set (layers sample_policy) \<Longrightarrow> ls_head_size_v l \<noteq> None"
  by (auto simp: sample_policy_def policy_init_def Let_def sample_shape_def)

lemma sample_record:
  "\<exists>pr q. record_allocation sample_store rid tokens prompt bs sample_policy = Inr (Some pr, q)"
  using sample_policy_ok sample_policy_heads by (intro record_allocation_total) auto

section \<open>Theorems on the accounting\<close>

lemma sum_list_le:
  assumes "\<And>x. x \<in> set xs \<Longrightarrow> f x \<le> (g x :: int)"
  shows "(\<Sum>x\<leftarrow>xs. f x) \<le> (\<Sum>x\<leftarrow>xs. g x)"
  using assms by (rule sum_list_mono)

lemma record_allocation_pressure:
  assumes "record_allocation store rid tokens prompt bs p = Inr (Some pr, q)"
  shows "\<exists>live. request_pressure rid tokens prompt live p = Inr pr \<and> page_tokens p \<noteq> 0"
proof -
  obtain n p1 where l: "regular_live_bytes_of store rid bs p = (n, p1)" by fastforce
  have "page_tokens p1 = page_tokens p \<and> hot_budget_pct p1 = hot_budget_pct p \<and> policy p1 = policy p
    \<and> layers p1 = layers p \<and> early_layers p1 = early_layers p \<and> late_layers p1 = late_layers p"
    using l by (auto simp: regular_live_bytes_of_def Let_def split: option.splits if_splits prod.splits)
  then have "request_pressure rid tokens prompt n p1 = request_pressure rid tokens prompt n p"
    by (simp only: request_pressure_def policy_physical_def)
  moreover have "page_tokens p \<noteq> 0" using assms by (auto simp: record_allocation_def split: if_split_asm)
  moreover have "\<exists>F. res_bind (request_pressure rid tokens prompt n p1) (\<lambda>pr. Inr (Some pr, F pr)) = Inr (Some pr, q)"
    using assms unfolding record_allocation_def l Let_def prod.case
    by (intro exI [of _ "\<lambda>pr. if policy_physical (p1\<lparr>latest_by_request := dict_set rid pr (latest_by_request p1)\<rparr>)
          then record_physical_descriptors store rid (pr_total_pages pr) (pr_recent_start_page pr) (pr_hot_pages pr) bs
             (p1\<lparr>latest_by_request := dict_set rid pr (latest_by_request p1)\<rparr>)
          else p1\<lparr>latest_by_request := dict_set rid pr (latest_by_request p1)\<rparr>"]) (simp split: if_split_asm)
  ultimately show ?thesis by (auto simp: res_bind_Inr_iff)
qed

lemma span_val_tokens:
  "span_val T pt l (a, b, precision, c) = tokens_val l pt (token_count_for_page_span a b T pt) precision c"
  by (simp add: span_val_def)

lemma span_int4_le:
  assumes "sized_shape l" and "0 < pt"
  shows "span_val T pt l (a, b, ''int4'', c) \<le> span_val T pt l (a, b, ''int8'', c)"
  unfolding span_val_tokens using bytes_val_int4_le [OF assms(1)] assms(2) token_count_nonneg
  by (intro tokens_val_mono)

lemma span_int4_nonneg:
  assumes "sized_shape l" and "0 < pt"
  shows "0 \<le> span_val T pt l (a, b, ''int4'', c)"
  unfolding span_val_tokens tokens_val_def
  using bytes_val_nonneg [OF assms(1)] assms(2) token_count_nonneg [of a b T pt]
  by (auto intro!: add_nonneg_nonneg mult_nonneg_nonneg simp: pos_imp_zdiv_nonneg_iff)

lemma span_int8_nonneg:
  assumes "sized_shape l" and "0 < pt"
  shows "0 \<le> span_val T pt l (a, b, ''int8'', c)"
  using span_int4_le [OF assms] span_int4_nonneg [OF assms] order_trans by blast

lemma span_raw_split:
  assumes ex: "exact_shape pt l" and pt: "0 < pt" and r: "1 \<le> r" "r \<le> n"
  shows "span_val T pt l (0, 1, ''raw'', c) + span_val T pt l (r, n, ''raw'', c) + span_val T pt l (1, r, ''int8'', c)
    \<le> span_val T pt l (0, n, ''raw'', c)"
proof -
  let ?c = "\<lambda>a b. token_count_for_page_span a b T pt"
  let ?y = "ls_num_kv_heads l * component_size l c" and ?w = "\<lfloor>raw_dtype_bytes l\<rfloor>"
  have "?c 0 n = ?c 0 1 + ?c 1 r + ?c r n"
    using token_count_add [of 0 1 r pt T] token_count_add [of 0 r n pt T] r pt by simp
  moreover have "?c 1 r * ?y \<le> ?c 1 r * (?y * ?w)"
  proof -
    have "1 \<le> ?w" "sized_shape l" using ex by (simp_all add: exact_shape_def le_floor_iff)
    then have "?y * 1 \<le> ?y * ?w" using sized_component by (intro mult_left_mono)
    then show ?thesis using token_count_nonneg by (intro mult_left_mono) simp_all
  qed
  ultimately show ?thesis unfolding span_val_tokens exact_tokens [OF ex pt] by (simp add: distrib_right)
qed

lemma warm_le_uniform:
  fixes T pt :: int
  assumes "\<And>l. l \<in> set es \<Longrightarrow> sized_shape l" and "\<And>l. l \<in> set ls \<Longrightarrow> sized_shape l" and "0 < pt"
  defines "V \<equiv> span_val T pt"
  shows "(\<Sum>l\<leftarrow>es. V l (a, b, ''int8'', ''k'') + V l (a, b, ''int4'', ''v'')) + (\<Sum>l\<leftarrow>ls. V l (a, b, ''int8'', ''k'') + V l (a, b, ''int8'', ''v''))
      \<le> (\<Sum>l\<leftarrow>es @ ls. V l (a, b, ''int8'', ''k'') + V l (a, b, ''int8'', ''v''))"
    and "0 \<le> (\<Sum>l\<leftarrow>es. V l (a, b, ''int8'', ''k'') + V l (a, b, ''int4'', ''v'')) + (\<Sum>l\<leftarrow>ls. V l (a, b, ''int8'', ''k'') + V l (a, b, ''int8'', ''v''))"
proof -
  have "(\<Sum>l\<leftarrow>es. V l (a, b, ''int8'', ''k'') + V l (a, b, ''int4'', ''v''))
      \<le> (\<Sum>l\<leftarrow>es. V l (a, b, ''int8'', ''k'') + V l (a, b, ''int8'', ''v''))"
    unfolding V_def using span_int4_le [OF assms(1,3)] by (intro sum_list_le add_left_mono)
  then show "(\<Sum>l\<leftarrow>es. V l (a, b, ''int8'', ''k'') + V l (a, b, ''int4'', ''v'')) + (\<Sum>l\<leftarrow>ls. V l (a, b, ''int8'', ''k'') + V l (a, b, ''int8'', ''v''))
      \<le> (\<Sum>l\<leftarrow>es @ ls. V l (a, b, ''int8'', ''k'') + V l (a, b, ''int8'', ''v''))" by simp
  have "0 \<le> (\<Sum>l\<leftarrow>es. V l (a, b, ''int8'', ''k'') + V l (a, b, ''int4'', ''v''))"
    unfolding V_def using span_int4_nonneg [OF assms(1,3)] span_int8_nonneg [OF assms(1,3)]
    by (intro sum_list_nonneg) auto
  moreover have "0 \<le> (\<Sum>l\<leftarrow>ls. V l (a, b, ''int8'', ''k'') + V l (a, b, ''int8'', ''v''))"
    unfolding V_def using span_int8_nonneg [OF assms(2,3)] by (intro sum_list_nonneg) auto
  ultimately show "0 \<le> (\<Sum>l\<leftarrow>es. V l (a, b, ''int8'', ''k'') + V l (a, b, ''int4'', ''v'')) + (\<Sum>l\<leftarrow>ls. V l (a, b, ''int8'', ''k'') + V l (a, b, ''int8'', ''v''))"
    by (rule add_nonneg_nonneg)
qed

lemma hot_and_uniform_le_raw:
  fixes T pt :: int
  assumes ex: "\<And>l. l \<in> set ls \<Longrightarrow> exact_shape pt l" and "0 < pt" and "1 \<le> r" and "r \<le> n"
  defines "V \<equiv> span_val T pt"
  shows "(\<Sum>l\<leftarrow>ls. V l (0, 1, ''raw'', ''k'') + V l (0, 1, ''raw'', ''v'') + (V l (r, n, ''raw'', ''k'') + V l (r, n, ''raw'', ''v'')))
      + (\<Sum>l\<leftarrow>ls. V l (1, r, ''int8'', ''k'') + V l (1, r, ''int8'', ''v''))
    \<le> (\<Sum>l\<leftarrow>ls. V l (0, n, ''raw'', ''k'') + V l (0, n, ''raw'', ''v''))"
  unfolding sum_list_addf [symmetric]
proof (rule sum_list_le)
  fix l assume "l \<in> set ls"
  note split = span_raw_split [OF ex [OF this] assms(2-4), of T]
  from split [of "''k''"] split [of "''v''"]
  show "V l (0, 1, ''raw'', ''k'') + V l (0, 1, ''raw'', ''v'') + (V l (r, n, ''raw'', ''k'') + V l (r, n, ''raw'', ''v''))
      + (V l (1, r, ''int8'', ''k'') + V l (1, r, ''int8'', ''v'')) \<le> V l (0, n, ''raw'', ''k'') + V l (0, n, ''raw'', ''v'')"
    unfolding V_def by linarith
qed

lemma span_raw_nonneg:
  assumes "exact_shape pt l" and "0 < pt"
  shows "0 \<le> span_val T pt l (a, b, ''raw'', c)"
proof -
  have "0 \<le> ls_num_kv_heads l * component_size l c" "0 \<le> \<lfloor>raw_dtype_bytes l\<rfloor>"
    using assms(1) sized_component by (auto simp: exact_shape_def)
  then show ?thesis
    unfolding span_val_tokens exact_tokens [OF assms] by (intro mult_nonneg_nonneg [OF token_count_nonneg mult_nonneg_nonneg])
qed

text \<open>
  C28: when the byte size of one page of every layer is represented exactly (whole raw scalars, at
  most 2^53 bytes), the tiered accounting never exceeds the same hot pages with uniform int8 for the
  old ones, and both reported savings, on the warm pages and in total, are percentages between 0 and
  100 in spite of the rounding of the floating-point division. When at least the first page is outside
  the hot span the tiered size never exceeds the raw size either.
\<close>

theorem tmh_accounting_bounds:
  assumes rec: "record_allocation store rid tokens prompt bs p = Inr (Some pr, q)"
    and lay: "layers p = early_layers p @ late_layers p" and pt: "0 < page_tokens p"
    and ex: "\<And>l. l \<in> set (layers p) \<Longrightarrow> exact_shape (page_tokens p) l"
  shows "tmh_effective_bytes pr \<le> same_hot_uniform_int8_bytes pr
    \<and> 0 \<le> warm_reduction_pct pr \<and> warm_reduction_pct pr \<le> 100
    \<and> 0 \<le> total_reduction_pct pr \<and> total_reduction_pct pr \<le> 100
    \<and> (1 \<le> pr_recent_start_page pr \<longrightarrow> tmh_effective_bytes pr \<le> raw_equivalent_bytes pr)"
proof -
  obtain live where rp: "request_pressure rid tokens prompt live p = Inr pr"
    using record_allocation_pressure [OF rec] by blast
  define T where "T = max 1 tokens"
  define n where "n = page_count T (page_tokens p)"
  define r where "r = recent_start n (hot_page_count (hot_budget_pct p) n)"
  let ?V = "span_val T (page_tokens p)"
  have sz: "sized_shape l" if "l \<in> set (layers p)" for l using ex [OF that] by (simp add: exact_shape_def)
  have hv: "ls_head_size_v l \<noteq> None" if "l \<in> set (layers p)" for l
    using sz [OF that] by (auto simp: sized_shape_def split: option.splits)
  define u where "u = (\<Sum>l\<leftarrow>layers p. ?V l (1, r, ''int8'', ''k'') + ?V l (1, r, ''int8'', ''v''))"
  have val: "pr_recent_start_page pr = r"
    "raw_equivalent_bytes pr = (\<Sum>l\<leftarrow>layers p. ?V l (0, n, ''raw'', ''k'') + ?V l (0, n, ''raw'', ''v''))"
    "hot_bytes pr = (\<Sum>l\<leftarrow>layers p. ?V l (0, 1, ''raw'', ''k'') + ?V l (0, 1, ''raw'', ''v'')
                        + (?V l (r, n, ''raw'', ''k'') + ?V l (r, n, ''raw'', ''v'')))"
    "warm_bytes pr = (\<Sum>l\<leftarrow>early_layers p. ?V l (1, r, ''int8'', ''k'') + ?V l (1, r, ''int4'', ''v''))
                    + (\<Sum>l\<leftarrow>late_layers p. ?V l (1, r, ''int8'', ''k'') + ?V l (1, r, ''int8'', ''v''))"
    "tmh_effective_bytes pr = hot_bytes pr + warm_bytes pr"
    "same_hot_uniform_int8_bytes pr = hot_bytes pr + u" "warm_reduction_pct pr = reduction_pct (warm_bytes pr) u"
    "total_reduction_pct pr = reduction_pct (tmh_effective_bytes pr) (same_hot_uniform_int8_bytes pr)"
    using request_pressure_val [OF hv _ lay T_def n_def r_def refl, of rid prompt live] pt rp unfolding u_def by auto
  have w: "0 \<le> warm_bytes pr" "warm_bytes pr \<le> u"
    unfolding val(4) u_def lay using sz lay by (intro warm_le_uniform pt; auto)+
  have "0 \<le> hot_bytes pr"
    unfolding val(3) using span_raw_nonneg [OF ex pt] by (intro sum_list_nonneg) auto
  then have t: "0 \<le> tmh_effective_bytes pr" "tmh_effective_bytes pr \<le> same_hot_uniform_int8_bytes pr"
    using w val(5,6) by simp_all
  have "r \<le> n" using hot_page_count_bounds [of n "hot_budget_pct p"] recent_start_eq [of n "hot_budget_pct p"]
    by (simp add: r_def n_def page_count_def)
  then have "hot_bytes pr + u \<le> raw_equivalent_bytes pr" if "1 \<le> r"
    unfolding val(2,3) u_def using ex pt that by (intro hot_and_uniform_le_raw)
  then show ?thesis using w t val(1,5-8) reduction_pct_bounds [OF w] reduction_pct_bounds [OF t] by auto
qed

theorem tmh_accounting_bounds_witness:
  "\<exists>pr q. record_allocation sample_store ''r'' 100 5 [] sample_policy = Inr (Some pr, q)
     \<and> tmh_effective_bytes pr \<le> same_hot_uniform_int8_bytes pr"
proof -
  obtain pr q where r: "record_allocation sample_store ''r'' 100 5 [] sample_policy = Inr (Some pr, q)"
    using sample_record by blast
  have "tmh_effective_bytes pr \<le> same_hot_uniform_int8_bytes pr"
    using tmh_accounting_bounds [OF r] sample_policy_ok sample_policy_shapes by auto
  with r show ?thesis by blast
qed

lemma one_page:
  assumes "0 < pt" and "0 < T" and "T \<le> pt"
  shows "page_count T pt = 1"
proof -
  have "(of_int T / of_int pt :: rat) \<le> 1" using assms by (simp add: divide_le_eq)
  then have "\<lceil>fl (of_int T / of_int pt)\<rceil> \<le> 1" using fp.rnd_le_one by (simp add: ceiling_le_iff)
  then show ?thesis by (simp add: page_count_def)
qed

lemma hot_page_count_one: "0 < pct \<Longrightarrow> hot_page_count pct 1 = 1"
  using hot_page_count_bounds [of 1 pct] by simp

text \<open>
  C37: for a request that fits into one page the accounting counts the bytes of that page twice when a
  hot budget is set: the page is the anchor and the hot span at once, so the effective size is twice
  the raw size.
\<close>

theorem single_page_counted_twice:
  assumes rec: "record_allocation store rid tokens prompt bs p = Inr (Some pr, q)"
    and lay: "layers p = early_layers p @ late_layers p"
    and hv: "\<And>l. l \<in> set (layers p) \<Longrightarrow> ls_head_size_v l \<noteq> None"
    and pt: "0 < page_tokens p" and one: "tokens \<le> page_tokens p" and hot: "0 < hot_budget_pct p"
  shows "hot_bytes pr = 2 * raw_equivalent_bytes pr \<and> tmh_effective_bytes pr = 2 * raw_equivalent_bytes pr"
proof -
  obtain live where rp: "request_pressure rid tokens prompt live p = Inr pr"
    using record_allocation_pressure [OF rec] by blast
  define T where "T = max 1 tokens"
  have n: "1 = page_count T (page_tokens p)" using one_page [of "page_tokens p" T] pt one by (simp add: T_def)
  have r: "0 = recent_start 1 (hot_page_count (hot_budget_pct p) 1)"
    using hot_page_count_one [OF hot] by (simp add: recent_start_def)
  let ?V = "span_val T (page_tokens p)"
  have old: "?V l (1, 0, precision, c) = 0" for l precision c
    by (simp add: span_val_tokens tokens_val_def token_count_for_page_span_def)
  have val: "raw_equivalent_bytes pr = (\<Sum>l\<leftarrow>layers p. ?V l (0, 1, ''raw'', ''k'') + ?V l (0, 1, ''raw'', ''v''))"
    "hot_bytes pr = (\<Sum>l\<leftarrow>layers p. ?V l (0, 1, ''raw'', ''k'') + ?V l (0, 1, ''raw'', ''v'')
                        + (?V l (0, 1, ''raw'', ''k'') + ?V l (0, 1, ''raw'', ''v'')))"
    "tmh_effective_bytes pr = hot_bytes pr + warm_bytes pr"
    "warm_bytes pr = (\<Sum>l\<leftarrow>early_layers p. ?V l (1, 0, ''int8'', ''k'') + ?V l (1, 0, ''int4'', ''v''))
                    + (\<Sum>l\<leftarrow>late_layers p. ?V l (1, 0, ''int8'', ''k'') + ?V l (1, 0, ''int8'', ''v''))"
    using request_pressure_val [OF hv _ lay T_def n r refl, of rid prompt live] pt rp by auto
  have "warm_bytes pr = 0" unfolding val(4) old by simp
  moreover have "hot_bytes pr = 2 * raw_equivalent_bytes pr" unfolding val(1,2) by (simp only: sum_list_addf mult_2)
  ultimately show ?thesis using val(3) by simp
qed

theorem single_page_counted_twice_witness:
  "\<exists>pr q. record_allocation sample_store ''r'' 10 5 [] sample_policy = Inr (Some pr, q)
     \<and> tmh_effective_bytes pr = 2 * raw_equivalent_bytes pr"
proof -
  obtain pr q where r: "record_allocation sample_store ''r'' 10 5 [] sample_policy = Inr (Some pr, q)"
    using sample_record by blast
  have "tmh_effective_bytes pr = 2 * raw_equivalent_bytes pr"
    using single_page_counted_twice [OF r] sample_policy_ok sample_policy_heads by auto
  with r show ?thesis by blast
qed

lemma request_pressure_pages:
  assumes "request_pressure rid tokens prompt live p = Inr pr"
  shows "pr_total_tokens pr = max 1 tokens \<and> pr_total_pages pr = page_count (max 1 tokens) (page_tokens p)
    \<and> pr_hot_pages pr = hot_page_count (hot_budget_pct p) (pr_total_pages pr)
    \<and> pr_recent_start_page pr = recent_start (pr_total_pages pr) (pr_hot_pages pr)
    \<and> old_tokens pr = token_count_for_page_span 1 (pr_recent_start_page pr) (pr_total_tokens pr) (page_tokens p)"
  using assms unfolding request_pressure_def Let_def
  by (elim res_bind_InrE) (drule Inr_inject, hypsubst, simp)

text \<open>
  C26: although pages are counted by floating-point division, for fewer than 2^53 tokens the page
  count is the exact integer ceiling; the hot pages are between none and all of them, none exactly
  without a budget. When the hot span leaves at least the first page out, the three spans the byte
  counts are taken over partition the request: the tokens of the first page, the old tokens and the
  tokens of the hot span add up to all its tokens, and the old tokens are those of the pages after
  the first and before the hot span. When every page is hot there are no old tokens.
\<close>

theorem page_split_exact:
  assumes rec: "record_allocation store rid tokens prompt bs p = Inr (Some pr, q)"
    and pt: "0 < page_tokens p" and T: "tokens < 2 ^ 53"
  shows "pr_total_pages pr = cdiv (max 1 tokens) (page_tokens p)
    \<and> (pr_total_pages pr - 1) * page_tokens p < pr_total_tokens pr
    \<and> pr_total_tokens pr \<le> pr_total_pages pr * page_tokens p
    \<and> 0 \<le> pr_hot_pages pr \<and> pr_hot_pages pr \<le> pr_total_pages pr
    \<and> (pr_hot_pages pr = 0 \<longleftrightarrow> hot_budget_pct p \<le> 0)
    \<and> pr_recent_start_page pr = pr_total_pages pr - pr_hot_pages pr
    \<and> (pr_recent_start_page pr \<le> 1 \<longrightarrow> old_tokens pr = 0)
    \<and> (1 \<le> pr_recent_start_page pr \<longrightarrow>
          old_tokens pr = min (pr_total_tokens pr) (pr_recent_start_page pr * page_tokens p)
                        - min (pr_total_tokens pr) (page_tokens p)
          \<and> token_count_for_page_span 0 1 (pr_total_tokens pr) (page_tokens p) + old_tokens pr
              + token_count_for_page_span (pr_recent_start_page pr) (pr_total_pages pr) (pr_total_tokens pr) (page_tokens p)
              = pr_total_tokens pr)"
proof -
  obtain live where "request_pressure rid tokens prompt live p = Inr pr"
    using record_allocation_pressure [OF rec] by blast
  then have pr: "pr_total_tokens pr = max 1 tokens" "pr_total_pages pr = page_count (max 1 tokens) (page_tokens p)"
    "pr_hot_pages pr = hot_page_count (hot_budget_pct p) (pr_total_pages pr)"
    "pr_recent_start_page pr = recent_start (pr_total_pages pr) (pr_hot_pages pr)"
    "old_tokens pr = token_count_for_page_span 1 (pr_recent_start_page pr) (pr_total_tokens pr) (page_tokens p)"
    using request_pressure_pages by blast+
  have "0 < max 1 tokens" "max 1 tokens < 2 ^ 53" using T by simp_all
  note cover = page_count_cdiv [OF this pt] page_count_covers [OF this pt]
  note hot = hot_page_count_bounds [OF cover(4), of "hot_budget_pct p"] recent_start_eq [OF cover(4), of "hot_budget_pct p"]
  have none: "pr_recent_start_page pr \<le> 1 \<longrightarrow> old_tokens pr = 0"
    by (simp add: pr(5) token_count_for_page_span_def)
  have all: "token_count_for_page_span 0 (pr_total_pages pr) (pr_total_tokens pr) (page_tokens p) = pr_total_tokens pr"
    using cover pt by (simp add: token_count_min pr(1,2))
  have le: "pr_recent_start_page pr \<le> pr_total_pages pr" using pr(2-4) hot(1,4) by simp
  have parts: "1 \<le> pr_recent_start_page pr \<longrightarrow>
      old_tokens pr = min (pr_total_tokens pr) (pr_recent_start_page pr * page_tokens p)
                    - min (pr_total_tokens pr) (page_tokens p)
      \<and> token_count_for_page_span 0 1 (pr_total_tokens pr) (page_tokens p) + old_tokens pr
          + token_count_for_page_span (pr_recent_start_page pr) (pr_total_pages pr) (pr_total_tokens pr) (page_tokens p)
          = pr_total_tokens pr"
  proof (intro impI conjI)
    assume r: "1 \<le> pr_recent_start_page pr"
    show "old_tokens pr = min (pr_total_tokens pr) (pr_recent_start_page pr * page_tokens p)
                    - min (pr_total_tokens pr) (page_tokens p)"
      by (simp add: pr(5) token_count_min [OF r pt])
    show "token_count_for_page_span 0 1 (pr_total_tokens pr) (page_tokens p) + old_tokens pr
          + token_count_for_page_span (pr_recent_start_page pr) (pr_total_pages pr) (pr_total_tokens pr) (page_tokens p)
          = pr_total_tokens pr"
      using all token_count_add [OF r le pt, of "pr_total_tokens pr"] r le pt
        token_count_add [of 0 1 "pr_total_pages pr" "page_tokens p" "pr_total_tokens pr"]
      by (simp add: pr(5))
  qed
  define n where "n = page_count (max 1 tokens) (page_tokens p)"
  have e: "pr_total_pages pr = n" "pr_hot_pages pr = hot_page_count (hot_budget_pct p) n"
    "pr_recent_start_page pr = n - hot_page_count (hot_budget_pct p) n"
    using pr(2-4) hot(4) by (simp_all add: n_def)
  moreover have "hot_page_count (hot_budget_pct p) n = 0 \<longleftrightarrow> hot_budget_pct p \<le> 0"
    using hot(1,3) by (simp add: n_def [symmetric]) linarith
  ultimately show ?thesis
    using cover hot(1,2) none parts unfolding e pr(1) n_def [symmetric] by (intro conjI) assumption+
qed

theorem page_split_exact_witness:
  "\<exists>pr q. record_allocation sample_store ''r'' 100 5 [] sample_policy = Inr (Some pr, q) \<and> pr_total_pages pr = 7"
proof -
  obtain pr q where r: "record_allocation sample_store ''r'' 100 5 [] sample_policy = Inr (Some pr, q)"
    using sample_record by blast
  have "pr_total_pages pr = 7" using page_split_exact [OF r] sample_policy_ok by (simp add: cdiv_def)
  with r show ?thesis by blast
qed

end
