(* ===== verification/TmhPolicySpec.thy ===== *)
theory TmhPolicySpec
  imports TmhPolicyInv TmhAccounting "HOL-Library.Multiset"
begin

text \<open>
  The states a policy can reach and what holds in them: exact reference counts, exact releases, the
  role of every page, and repeated recording without effect.
\<close>

declare split_paired_All [simp del] split_paired_Ex [simp del]

section \<open>Reachable policies\<close>

inductive policy_step :: "tmh_policy \<Rightarrow> tmh_policy \<Rightarrow> bool" where
  alloc: "record_allocation store rid tokens prompt bs p = Inr (r, q) \<Longrightarrow> policy_step p q"
| from_ids: "record_physical_descriptors_from_block_ids rid tokens ids cached p = Inr q \<Longrightarrow> policy_step p q"
| forget: "policy_step p (forget_request rid p)"
| take_events: "policy_step p (snd (take_physical_events p))"

inductive policy_reachable :: "tmh_policy \<Rightarrow> bool" where
  init: "from_kv_cache_config cfg sbs = Inr p \<Longrightarrow> policy_reachable p"
| step: "policy_reachable p \<Longrightarrow> policy_step p q \<Longrightarrow> policy_reachable q"

definition layers_ok :: "tmh_policy \<Rightarrow> bool" where
  "layers_ok p \<longleftrightarrow> distinct (map ls_layer_name (layers p)) \<and> layers p = early_layers p @ late_layers p"

definition same_layers :: "tmh_policy \<Rightarrow> tmh_policy \<Rightarrow> bool" where
  "same_layers q p \<longleftrightarrow> layers q = layers p \<and> early_layers q = early_layers p \<and> late_layers q = late_layers p"

lemma layers_ok_cong: "same_layers q p \<Longrightarrow> layers_ok q = layers_ok p"
  by (simp add: layers_ok_def same_layers_def)

subsection \<open>The initial policy\<close>

lemma shape_of_spec_name: "shape_of_spec name s = Inr shape \<Longrightarrow> ls_layer_name shape = name"
  by (auto simp: shape_of_spec_def split: option.splits kv_cache_spec.splits)

definition shapes_ok :: "(string, layer_shape) dict \<Rightarrow> bool" where
  "shapes_ok found \<longleftrightarrow> dict_ok found \<and> (\<forall>name shape. dict_get found name = Some shape \<longrightarrow> ls_layer_name shape = name)"

lemma extract_layer_ok:
  assumes "extract_layer specs name found = Inr found'" and "shapes_ok found"
  shows "shapes_ok found'"
  using assms shape_of_spec_name
  by (auto simp: extract_layer_def shapes_ok_def res_bind_Inr_iff split: option.splits if_splits)

lemma shapes_ok_names:
  assumes "shapes_ok found"
  shows "map ls_layer_name (map snd found) = map fst found"
  using assms by (auto simp: shapes_ok_def)

lemma extract_layers_distinct:
  assumes "extract_layers groups = Inr ls"
  shows "distinct (map ls_layer_name ls)"
proof -
  obtain found where f: "res_fold (\<lambda>g. res_fold (extract_layer (spec_by_layer g)) (layer_names g)) groups [] = Inr found"
    and ls: "ls = sort_key (\<lambda>l. (ls_layer_index l, ls_layer_name l)) (map snd found)"
    using assms by (auto simp: extract_layers_def res_bind_Inr_iff)
  have "shapes_ok found"
  proof (rule res_fold_invariant [OF f])
    show "shapes_ok []" by (simp add: shapes_ok_def)
    fix g s s' assume "shapes_ok s" and "res_fold (extract_layer (spec_by_layer g)) (layer_names g) s = Inr s'"
    then show "shapes_ok s'" by (auto intro: res_fold_invariant [where P = shapes_ok] extract_layer_ok)
  qed
  then have "distinct (map ls_layer_name (map snd found))"
    by (simp only: shapes_ok_names) (simp add: shapes_ok_def)
  moreover have "mset (map ls_layer_name ls) = mset (map ls_layer_name (map snd found))"
    by (simp only: ls mset_map mset_sort)
  ultimately show ?thesis by (metis mset_eq_imp_distinct_iff)
qed

lemma init_inv:
  assumes "from_kv_cache_config cfg sbs = Inr p"
  shows "tmh_inv p \<and> layers_ok p"
proof -
  obtain ls rpb where ls: "extract_layers (kv_cache_groups cfg) = Inr ls"
    and p: "p = policy_init (tmh_kv_policy cfg) (cfg_tmh_hot_budget_pct cfg) sbs ls rpb"
    using assms by (auto simp: from_kv_cache_config_def res_bind_Inr_iff)
  have "tmh_inv p"
    by (simp add: p policy_init_def Let_def tmh_inv_def table_ok_def counts_positive_def refcount_def holders_def dict_count_def)
  moreover have "layers_ok p" using extract_layers_distinct [OF ls] by (simp add: p policy_init_def Let_def layers_ok_def)
  ultimately show ?thesis ..
qed

subsection \<open>Every operation keeps the invariant\<close>

lemma for_pages_layers: "same_layers (record_physical_descriptors_for_pages rid tp rs hp pages p) p" if "tmh_inv p"
proof -
  obtain q ds rel where f: "fold record_descriptor (descriptors_for_pages rid tp rs pages p) (p, [], []) = (q, ds, rel)"
    by (metis prod_cases3)
  have "same_but_tables q p" using record_fold_inv [OF that f] by blast
  then show ?thesis
    by (simp add: record_physical_descriptors_for_pages_def f same_layers_def same_but_tables_fields)
qed

lemma live_bytes_inv:
  assumes "regular_live_bytes_of store rid bs p = (n, q)"
  shows "\<exists>c. q = p\<lparr>regular_live_bytes_cache := c\<rparr> \<and> dict_get c rid = Some (live_signature store bs, n)"
proof -
  obtain m where
    "(n, q) = (m, p\<lparr>regular_live_bytes_cache := dict_set rid (live_signature store bs, m) (regular_live_bytes_cache p)\<rparr>)
     \<or> dict_get (regular_live_bytes_cache p) rid = Some (live_signature store bs, n) \<and> q = p"
    using assms unfolding regular_live_bytes_of_def Let_def by (force split: option.splits if_splits)
  then show ?thesis by (auto intro: exI [of _ "regular_live_bytes_cache q"])
qed

lemma request_pressure_cong:
  assumes "page_tokens q = page_tokens p" "hot_budget_pct q = hot_budget_pct p" "policy q = policy p"
    "layers q = layers p" "early_layers q = early_layers p" "late_layers q = late_layers p"
  shows "request_pressure rid tokens prompt live q = request_pressure rid tokens prompt live p"
  by (simp only: request_pressure_def policy_physical_def assms)

lemma request_pressure_live:
  "request_pressure rid tokens prompt live p = Inr pr \<Longrightarrow> regular_live_bytes pr = live"
  unfolding request_pressure_def Let_def by (elim res_bind_InrE) (drule Inr_inject, hypsubst, simp)

text \<open>What \<^const>\<open>record_allocation\<close> does to the state.\<close>

lemma record_allocation_state:
  assumes "record_allocation store rid tokens prompt bs p = Inr (Some pr, q)"
  shows "\<exists>c p2. p2 = p\<lparr>regular_live_bytes_cache := c, latest_by_request := dict_set rid pr (latest_by_request p)\<rparr>
    \<and> dict_get c rid = Some (live_signature store bs, regular_live_bytes pr)
    \<and> request_pressure rid tokens prompt (regular_live_bytes pr) p = Inr pr
    \<and> q = (if policy_physical p
           then record_physical_descriptors store rid (pr_total_pages pr) (pr_recent_start_page pr) (pr_hot_pages pr) bs p2
           else p2)"
proof -
  obtain n p1 where l: "regular_live_bytes_of store rid bs p = (n, p1)" by fastforce
  then obtain c where c: "p1 = p\<lparr>regular_live_bytes_cache := c\<rparr>" "dict_get c rid = Some (live_signature store bs, n)"
    using live_bytes_inv by blast
  define F where "F pr = (let p2 = p1\<lparr>latest_by_request := dict_set rid pr (latest_by_request p1)\<rparr>
       in if policy_physical p2 then record_physical_descriptors store rid (pr_total_pages pr) (pr_recent_start_page pr)
                       (pr_hot_pages pr) bs p2 else p2)" for pr
  have "res_bind (request_pressure rid tokens prompt n p1) (\<lambda>pr. Inr (Some pr, F pr)) = Inr (Some pr, q)"
    using assms unfolding record_allocation_def l F_def Let_def prod.case by (simp split: if_split_asm)
  then have pr: "request_pressure rid tokens prompt n p1 = Inr pr" and q: "q = F pr"
    by (auto simp: res_bind_Inr_iff)
  have pr': "request_pressure rid tokens prompt n p = Inr pr"
    unfolding pr [symmetric] by (rule request_pressure_cong) (simp_all add: c)
  have live: "regular_live_bytes pr = n" using pr by (rule request_pressure_live)
  let ?p2 = "p\<lparr>regular_live_bytes_cache := c, latest_by_request := dict_set rid pr (latest_by_request p)\<rparr>"
  have "policy_physical ?p2 = policy_physical p" by (simp add: policy_physical_def)
  then have q': "q = (if policy_physical p
           then record_physical_descriptors store rid (pr_total_pages pr) (pr_recent_start_page pr) (pr_hot_pages pr) bs ?p2
           else ?p2)"
    unfolding q F_def Let_def c(1) by simp
  show ?thesis
    by (rule exI [of _ c], rule exI [of _ ?p2], intro conjI) (simp_all only: live c(2) pr' q')
qed

lemma record_physical_inv:
  assumes "tmh_inv p"
  shows "tmh_inv (record_physical_descriptors store rid tp rs hp bs p)"
    and "same_layers (record_physical_descriptors store rid tp rs hp bs p) p"
  using assms record_for_pages_inv for_pages_layers
  by (auto simp: record_physical_descriptors_def same_layers_def split: list.splits)

lemma record_allocation_inv:
  assumes inv: "tmh_inv p" and r: "record_allocation store rid tokens prompt bs p = Inr (r, q)"
  shows "tmh_inv q \<and> same_layers q p"
proof (cases r)
  case None
  obtain n p1 where "regular_live_bytes_of store rid bs p = (n, p1)" by fastforce
  then have "q = p" using r None
    by (auto simp: record_allocation_def Let_def res_bind_Inr_iff split: if_split_asm)
  then show ?thesis using inv by (simp add: same_layers_def)
next
  case (Some pr)
  obtain c p2 where p2: "p2 = p\<lparr>regular_live_bytes_cache := c, latest_by_request := dict_set rid pr (latest_by_request p)\<rparr>"
    and q: "q = (if policy_physical p
           then record_physical_descriptors store rid (pr_total_pages pr) (pr_recent_start_page pr) (pr_hot_pages pr) bs p2
           else p2)"
    using record_allocation_state [OF r [unfolded Some]] by auto
  have "tmh_inv p2" "same_layers p2 p" using inv tmh_inv_cong [of p2 p] by (simp_all add: p2 same_layers_def)
  then show ?thesis using q record_physical_inv [of p2] by (simp add: same_layers_def)
qed

lemma from_ids_inv:
  assumes "tmh_inv p" and "record_physical_descriptors_from_block_ids rid tokens ids cached p = Inr q"
  shows "tmh_inv q \<and> same_layers q p"
  using assms record_for_pages_inv for_pages_layers
  by (auto simp: record_physical_descriptors_from_block_ids_def Let_def same_layers_def split: if_splits)

lemma forget_inv:
  assumes "tmh_inv p" and q_def: "q = forget_request rid p"
  shows "tmh_inv q \<and> same_layers q p
    \<and> dict_get (physical_descriptors q) = (\<lambda>key. if fst key = rid then None else dict_get (physical_descriptors p) key)
    \<and> (let removed = map snd (filter (\<lambda>e. fst (fst e) = rid) (physical_descriptors p))
       in if policy_physical p \<and> removed \<noteq> []
          then \<exists>rel. pending_physical_events q = pending_physical_events p @
             [\<lparr>e_request_id = rid, e_descriptors = [], e_total_pages = 0, e_recent_start_page = 0, e_hot_pages = 0,
               released_request_ids = [rid], released_descriptors = rel\<rparr>]
            \<and> canonical_keys rel = {k \<in> canonical_keys removed. refcount q k = 0}
          else pending_physical_events q = pending_physical_events p)"
proof -
  define p0 where "p0 = p\<lparr>latest_by_request := dict_pop rid (latest_by_request p),
                 regular_live_bytes_cache := dict_pop rid (regular_live_bytes_cache p)\<rparr>"
  have p0: "tmh_inv p0" "physical_descriptors p0 = physical_descriptors p" "policy p0 = policy p"
    "same_layers p0 p" "pending_physical_events p0 = pending_physical_events p"
    using assms(1) tmh_inv_cong [of p0 p] by (simp_all add: p0_def same_layers_def)
  define removed where "removed = map snd (filter (\<lambda>e. fst (fst e) = rid) (physical_descriptors p))"
  obtain p1 removed' rel where f: "forget_loop rid (physical_descriptors p0) (p0, [], []) = (p1, removed', rel)"
    by (metis prod_cases3)
  have ok: "dict_ok (physical_descriptors p0)" using p0(1) by (simp add: tmh_inv_def table_ok_def)
  have l: "tmh_inv p1" "same_but_tables p1 p0" "removed' = removed"
    "dict_get (physical_descriptors p1) = (\<lambda>key. if fst key = rid \<and> key \<in> fst ` set (physical_descriptors p0) then None
         else dict_get (physical_descriptors p0) key)"
    "canonical_keys rel = {k \<in> canonical_keys removed. refcount p1 k = 0}"
    using forget_loop_inv [OF p0(1) ok _ _ f] ok p0(2) by (auto simp: canonical_keys_def removed_def)
  have "key \<notin> fst ` set (physical_descriptors p0) \<Longrightarrow> dict_get (physical_descriptors p0) key = None" for key
    by (simp add: map_of_eq_None_iff)
  then have get: "dict_get (physical_descriptors p1) = (\<lambda>key. if fst key = rid then None else dict_get (physical_descriptors p) key)"
    using l(4) p0(2) by (auto simp: fun_eq_iff)
  have phys: "policy_physical p1 = policy_physical p"
    using same_but_tables_fields(1) [OF l(2)] p0(3) by (simp add: policy_physical_def)
  have lay: "same_layers p1 p" using same_but_tables_fields [OF l(2)] p0(4) by (simp add: same_layers_def)
  have pend: "pending_physical_events p1 = pending_physical_events p"
    using same_but_tables_fields(5) [OF l(2)] p0(5) by simp
  define ev where "ev = \<lparr>e_request_id = rid, e_descriptors = [], e_total_pages = 0, e_recent_start_page = 0, e_hot_pages = 0,
               released_request_ids = [rid], released_descriptors = rel\<rparr>"
  have q: "q = (if policy_physical p \<and> removed \<noteq> []
     then p1\<lparr>pending_physical_events := pending_physical_events p1 @ [ev]\<rparr> else p1)"
    unfolding q_def forget_request_def p0_def [symmetric] f Let_def prod.case phys l(3) ev_def by simp
  have rc: "refcount (p1\<lparr>pending_physical_events := es\<rparr>) k = refcount p1 k" for es k by (simp add: refcount_def)
  have "tmh_inv q" using l(1) q tmh_inv_cong [of q p1] by simp
  moreover have "same_layers q p" using lay q by (simp add: same_layers_def)
  moreover have "dict_get (physical_descriptors q) = (\<lambda>key. if fst key = rid then None else dict_get (physical_descriptors p) key)"
    using get q by simp
  moreover have "if policy_physical p \<and> removed \<noteq> []
          then \<exists>rel. pending_physical_events q = pending_physical_events p @
             [\<lparr>e_request_id = rid, e_descriptors = [], e_total_pages = 0, e_recent_start_page = 0, e_hot_pages = 0,
               released_request_ids = [rid], released_descriptors = rel\<rparr>]
            \<and> canonical_keys rel = {k \<in> canonical_keys removed. refcount q k = 0}
          else pending_physical_events q = pending_physical_events p"
    using q l(5) rc pend by (auto simp: ev_def intro!: exI [of _ rel])
  ultimately show ?thesis unfolding removed_def [symmetric] Let_def by blast
qed

lemma policy_step_inv:
  assumes "policy_step p q" and "tmh_inv p \<and> layers_ok p"
  shows "tmh_inv q \<and> layers_ok q"
  using assms
proof cases
  case alloc
  then show ?thesis using record_allocation_inv assms(2) layers_ok_cong by blast
next
  case from_ids
  then show ?thesis using from_ids_inv assms(2) layers_ok_cong by blast
next
  case forget
  then show ?thesis using forget_inv assms(2) layers_ok_cong by metis
next
  case take_events
  then show ?thesis using assms(2) tmh_inv_cong [of q p] layers_ok_cong [of q p]
    by (simp add: take_physical_events_def same_layers_def)
qed

lemma policy_reachable_inv: "policy_reachable p \<Longrightarrow> tmh_inv p \<and> layers_ok p"
  by (induction rule: policy_reachable.induct) (auto dest: init_inv policy_step_inv)

section \<open>A reachable policy with descriptors\<close>

definition sample_policy2 :: tmh_policy where
  "sample_policy2 = record_physical_descriptors_for_pages ''r'' 3 2 1 [(1, False), (2, False), (3, True)] sample_policy"

lemma sample_policy2_step:
  "record_physical_descriptors_from_block_ids ''r'' 40 [1, 2, 3] [2] sample_policy = Inr sample_policy2"
  by code_simp

lemma sample_policy_reachable: "policy_reachable sample_policy" "policy_reachable sample_policy2"
proof -
  show r: "policy_reachable sample_policy" using policy_reachable.init [OF sample_policy_init] .
  show "policy_reachable sample_policy2"
    using policy_reachable.step [OF r policy_step.from_ids [OF sample_policy2_step]] .
qed

section \<open>Reference counts and releases\<close>

text \<open>
  C15: in every reachable policy the reference count of a canonical page is the number of live
  descriptors of that page, absent when there is none, and every descriptor is stored under its own
  request, layer and page.
\<close>

theorem tmh_refcounts_exact:
  assumes "policy_reachable p"
  shows "(\<forall>k. dict_get (canonical_descriptor_refcounts p) k =
        (if holders p k = 0 then None else Some (int (holders p k))))
    \<and> (\<forall>key d. dict_get (physical_descriptors p) key = Some d \<longrightarrow>
          key = (d_request_id d, d_layer_name d, page_index d))"
proof -
  have inv: "table_ok p" "counts_positive p" "\<And>k. refcount p k = int (holders p k)"
    using policy_reachable_inv [OF assms] by (simp_all add: tmh_inv_def)
  have "dict_get (canonical_descriptor_refcounts p) k =
      (if holders p k = 0 then None else Some (int (holders p k)))" for k
    using inv(2) [unfolded counts_positive_def, rule_format, of k] inv(3) [of k]
    by (cases "dict_get (canonical_descriptor_refcounts p) k") (auto simp: refcount_def)
  with inv(1) show ?thesis by (auto simp: table_ok_def descriptor_key_def)
qed

theorem tmh_refcounts_exact_witness:
  "policy_reachable sample_policy2
   \<and> dict_get (canonical_descriptor_refcounts sample_policy2) (''l.0'', 2, 2) = Some 1
   \<and> holders sample_policy2 (''l.0'', 2, 2) = 1"
proof -
  have h: "holders sample_policy2 (''l.0'', 2, 2) = 1" by code_simp
  then show ?thesis using tmh_refcounts_exact [OF sample_policy_reachable(2)] sample_policy_reachable(2) by simp
qed

text \<open>
  C18: forgetting a request removes exactly its descriptors. If it had some and the layout is physical,
  one event is queued that names the request and releases exactly the canonical pages the request
  held and no other request holds.
\<close>

theorem forget_request_releases_last_holder:
  assumes "policy_reachable p" and "policy_physical p"
    and "dict_get (physical_descriptors p) key = Some d" and "d_request_id d = rid"
  shows "dict_get (physical_descriptors (forget_request rid p))
        = (\<lambda>key. if fst key = rid then None else dict_get (physical_descriptors p) key)
    \<and> (\<exists>ev. pending_physical_events (forget_request rid p) = pending_physical_events p @ [ev]
        \<and> released_request_ids ev = [rid] \<and> e_descriptors ev = []
        \<and> canonical_keys (released_descriptors ev) =
            {k. \<exists>d. d \<in> ran (dict_get (physical_descriptors p)) \<and> d_request_id d = rid \<and> canonical_descriptor_key d = Some k}
          - {k. \<exists>d. d \<in> ran (dict_get (physical_descriptors p)) \<and> d_request_id d \<noteq> rid \<and> canonical_descriptor_key d = Some k})"
proof -
  have inv: "tmh_inv p" using policy_reachable_inv [OF assms(1)] by blast
  define q where "q = forget_request rid p"
  define removed where "removed = map snd (filter (\<lambda>e. fst (fst e) = rid) (physical_descriptors p))"
  have ok: "dict_ok (physical_descriptors p)"
    and tab: "\<And>key d. dict_get (physical_descriptors p) key = Some d \<Longrightarrow> key = descriptor_key d"
    using inv unfolding tmh_inv_def table_ok_def by blast+
  have keys: "fst key = d_request_id d" if "dict_get (physical_descriptors p) key = Some d" for key d
    using tab [OF that] by (simp add: descriptor_key_def)
  have mem: "d \<in> set removed \<longleftrightarrow> d \<in> ran (dict_get (physical_descriptors p)) \<and> d_request_id d = rid" for d
    using ok keys by (fastforce simp: removed_def ran_def image_iff)
  have "removed \<noteq> []" using mem [of d] assms(3,4) by (auto simp: ran_def)
  then obtain rel where q: "tmh_inv q"
    "dict_get (physical_descriptors q) = (\<lambda>key. if fst key = rid then None else dict_get (physical_descriptors p) key)"
    "pending_physical_events q = pending_physical_events p @
             [\<lparr>e_request_id = rid, e_descriptors = [], e_total_pages = 0, e_recent_start_page = 0, e_hot_pages = 0,
               released_request_ids = [rid], released_descriptors = rel\<rparr>]"
    "canonical_keys rel = {k \<in> canonical_keys removed. refcount q k = 0}"
    using forget_inv [OF inv q_def] assms(2) unfolding Let_def removed_def [symmetric] by auto
  have rc0: "refcount q k = 0 \<longleftrightarrow> \<not> (\<exists>d. d \<in> ran (dict_get (physical_descriptors q)) \<and> canonical_descriptor_key d = Some k)" for k
    using q(1) dict_count_zero_iff [of "physical_descriptors q" "\<lambda>d. canonical_descriptor_key d = Some k"]
    by (auto simp: tmh_inv_def table_ok_def holders_def ran_def)
  have rq: "d \<in> ran (dict_get (physical_descriptors q)) \<longleftrightarrow>
      d \<in> ran (dict_get (physical_descriptors p)) \<and> d_request_id d \<noteq> rid" for d
  proof
    assume "d \<in> ran (dict_get (physical_descriptors q))"
    then obtain key where "dict_get (physical_descriptors q) key = Some d" unfolding ran_def by blast
    then have "fst key \<noteq> rid" "dict_get (physical_descriptors p) key = Some d" by (simp_all add: q(2) split: if_splits)
    then show "d \<in> ran (dict_get (physical_descriptors p)) \<and> d_request_id d \<noteq> rid"
      using keys unfolding ran_def by blast
  next
    assume "d \<in> ran (dict_get (physical_descriptors p)) \<and> d_request_id d \<noteq> rid"
    then obtain key where key: "dict_get (physical_descriptors p) key = Some d" "d_request_id d \<noteq> rid"
      unfolding ran_def by blast
    then have "dict_get (physical_descriptors q) key = Some d" using keys [OF key(1)] by (simp add: q(2))
    then show "d \<in> ran (dict_get (physical_descriptors q))" unfolding ran_def by blast
  qed
  have ck: "k \<in> canonical_keys removed \<longleftrightarrow>
      (\<exists>d. d \<in> ran (dict_get (physical_descriptors p)) \<and> d_request_id d = rid \<and> canonical_descriptor_key d = Some k)" for k
    by (simp add: canonical_keys_def Bex_def mem)
  have "canonical_keys rel =
      {k. \<exists>d. d \<in> ran (dict_get (physical_descriptors p)) \<and> d_request_id d = rid \<and> canonical_descriptor_key d = Some k}
    - {k. \<exists>d. d \<in> ran (dict_get (physical_descriptors p)) \<and> d_request_id d \<noteq> rid \<and> canonical_descriptor_key d = Some k}"
    by (rule set_eqI) (simp add: q(4) ck rc0 rq)
  with q(2,3) show ?thesis unfolding q_def [symmetric] by simp
qed

theorem forget_request_releases_last_holder_witness:
  "\<exists>ev. pending_physical_events (forget_request ''r'' sample_policy2) = pending_physical_events sample_policy2 @ [ev]
     \<and> released_request_ids ev = [''r'']"
proof -
  have p: "policy_physical sample_policy2" by code_simp
  have "case dict_get (physical_descriptors sample_policy2) (''r'', ''l.0'', 0) of
    None \<Rightarrow> False | Some d \<Rightarrow> d_request_id d = ''r''" by code_simp
  then obtain d where "dict_get (physical_descriptors sample_policy2) (''r'', ''l.0'', 0) = Some d" "d_request_id d = ''r''"
    by (auto split: option.splits)
  from forget_request_releases_last_holder [OF sample_policy_reachable(2) p this] show ?thesis by blast
qed

section \<open>Roles\<close>

lemma make_descriptor_key [simp]:
  "descriptor_key (make_descriptor rid layer early rs i block cached) = (rid, ls_layer_name layer, i)"
  by (simp add: make_descriptor_def descriptor_key_def Let_def split: prod.splits)

lemma descriptors_for_pages_keys:
  "map descriptor_key (descriptors_for_pages rid tp rs pages p)
   = concat (map (\<lambda>i. map (\<lambda>l. (rid, ls_layer_name l, int i)) (layers p)) [0..<length (py_slice 0 tp pages)])"
proof -
  have "concat (map (\<lambda>(i, block, cached). map (\<lambda>l. (rid, ls_layer_name l, int i)) (layers p)) (enumerate n xs))
    = concat (map (\<lambda>i. map (\<lambda>l. (rid, ls_layer_name l, int i)) (layers p)) [n..<n + length xs])" for n and xs :: "(int \<times> bool) list"
    by (induction xs arbitrary: n) (auto simp: upt_conv_Cons simp del: upt_Suc)
  from this [of 0 "py_slice 0 tp pages"] show ?thesis
    by (simp add: descriptors_for_pages_def map_concat comp_def case_prod_unfold)
qed

lemma distinct_page_keys:
  assumes "distinct (map ls_layer_name ls)"
  shows "distinct (concat (map (\<lambda>i. map (\<lambda>l. (rid, ls_layer_name l, int i)) ls) [m..<n]))"
proof (induction n)
  case (Suc n)
  have "distinct (map (\<lambda>l. (rid, ls_layer_name l, int n)) ls)"
    using assms by (auto simp: distinct_map inj_on_def)
  with Suc show ?case by (auto simp: distinct_append)
qed simp

lemma descriptors_for_pages_lookup:
  assumes "distinct (map ls_layer_name (layers p))" and "d \<in> set (descriptors_for_pages rid tp rs pages p)"
  shows "map_of (rev (map (\<lambda>d. (descriptor_key d, d)) (descriptors_for_pages rid tp rs pages p))) (descriptor_key d) = Some d"
proof -
  let ?xs = "map (\<lambda>d. (descriptor_key d, d)) (descriptors_for_pages rid tp rs pages p)"
  have "distinct (map fst ?xs)"
    using distinct_page_keys [OF assms(1), of rid 0] by (simp add: comp_def descriptors_for_pages_keys)
  then have "distinct (map fst (rev ?xs))" by (simp add: rev_map [symmetric])
  moreover have "(descriptor_key d, d) \<in> set (rev ?xs)" using assms(2) by auto
  ultimately show ?thesis by (rule map_of_is_SomeI)
qed

lemma descriptors_for_pages_mem:
  assumes "i < length (py_slice 0 tp pages)" and "layer \<in> set (layers p)"
  shows "make_descriptor rid layer (early_layers p) rs (int i) (fst (py_slice 0 tp pages ! i)) (snd (py_slice 0 tp pages ! i))
    \<in> set (descriptors_for_pages rid tp rs pages p)"
proof -
  have "(i, py_slice 0 tp pages ! i) \<in> set (enumerate 0 (py_slice 0 tp pages))"
    using assms(1) by (auto simp: in_set_enumerate_eq)
  then show ?thesis using assms(2) by (force simp: descriptors_for_pages_def)
qed

lemma for_pages_table:
  assumes "tmh_inv p" and "layers_ok p" and "d \<in> set (descriptors_for_pages rid tp rs pages p)"
  shows "dict_get (physical_descriptors (record_physical_descriptors_for_pages rid tp rs hp pages p)) (descriptor_key d) = Some d"
proof -
  obtain q ds rel where f: "fold record_descriptor (descriptors_for_pages rid tp rs pages p) (p, [], []) = (q, ds, rel)"
    by (metis prod_cases3)
  have "distinct (map ls_layer_name (layers p))" using assms(2) unfolding layers_ok_def by blast
  note lookup = descriptors_for_pages_lookup [OF this assms(3)]
  have "dict_get (physical_descriptors q) (descriptor_key d) = Some d"
    using record_fold_inv [OF assms(1) f] by (simp add: map_add_def lookup)
  then show ?thesis by (simp add: record_physical_descriptors_for_pages_def f)
qed

lemma make_descriptor_fields:
  assumes "d = make_descriptor rid layer early rs i block cached"
  shows "logical_block_id d = block" and "role d = physical_role_for_page layer early i rs"
    and "storage d = (if role d = HOT_RAW \<and> cached then REQUEST_OVERLAY else CANONICAL)"
    and "(k_quant_mode d, v_quant_mode d) = quant_modes_for_role (role d)"
proof -
  obtain kq vq where qm: "quant_modes_for_role (physical_role_for_page layer early i rs) = (kq, vq)" by fastforce
  note d = assms [unfolded make_descriptor_def Let_def qm prod.case]
  show "logical_block_id d = block" "role d = physical_role_for_page layer early i rs"
    "(k_quant_mode d, v_quant_mode d) = quant_modes_for_role (role d)"
    by (simp_all add: d qm)
  show "storage d = (if role d = HOT_RAW \<and> cached then REQUEST_OVERLAY else CANONICAL)"
    by (cases "physical_role_for_page layer early i rs") (simp_all add: d storage_kind_for_role_def)
qed

text \<open>
  C27: recording the allocation of a request stores, for every live block inside its page count and
  every layer, a descriptor whose role depends on the page only: the first page is pinned raw, the
  pages from \<^verbatim>\<open>recent_start_page\<close> on are hot raw, the others are warm with the fidelity of the layer.
  Only a hot page of a shared block is kept per request; all others are canonical.
\<close>

theorem page_roles_recorded:
  assumes reach: "policy_reachable p" and phys: "policy_physical p"
    and rec: "record_allocation store rid tokens prompt (bs # rest) p = Inr (Some pr, q)"
    and layer: "layer \<in> set (layers p)"
    and i: "i < length (logical_pages_of store bs)" "int i < pr_total_pages pr"
  shows "\<exists>d. dict_get (physical_descriptors q) (rid, ls_layer_name layer, int i) = Some d
    \<and> logical_block_id d = fst (logical_pages_of store bs ! i)
    \<and> role d = (if i = 0 then PINNED_RAW else if pr_recent_start_page pr \<le> int i then HOT_RAW
                else if layer \<in> set (early_layers p) then WARM_INT8_INT4 else WARM_INT8_INT8)
    \<and> storage d = (if role d = HOT_RAW \<and> snd (logical_pages_of store bs ! i) then REQUEST_OVERLAY else CANONICAL)
    \<and> (k_quant_mode d, v_quant_mode d) = quant_modes_for_role (role d)"
proof -
  let ?pages = "logical_pages_of store bs"
  obtain c p2 where p2: "p2 = p\<lparr>regular_live_bytes_cache := c, latest_by_request := dict_set rid pr (latest_by_request p)\<rparr>"
    and q: "q = record_physical_descriptors_for_pages rid (pr_total_pages pr) (pr_recent_start_page pr) (pr_hot_pages pr) ?pages p2"
    using record_allocation_state [OF rec] phys by (auto simp: record_physical_descriptors_def)
  have inv: "tmh_inv p2" "layers_ok p2"
    using policy_reachable_inv [OF reach] tmh_inv_cong [of p2 p] layers_ok_cong [of p2 p]
    by (simp_all add: p2 same_layers_def)
  have sl: "i < length (py_slice 0 (pr_total_pages pr) ?pages)" "py_slice 0 (pr_total_pages pr) ?pages ! i = ?pages ! i"
    using i by (auto simp: py_slice_nonneg)
  define d where "d = make_descriptor rid layer (early_layers p) (pr_recent_start_page pr) (int i) (fst (?pages ! i)) (snd (?pages ! i))"
  have "d \<in> set (descriptors_for_pages rid (pr_total_pages pr) (pr_recent_start_page pr) ?pages p2)"
    using descriptors_for_pages_mem [OF sl(1), of layer p2] layer sl(2) by (simp add: d_def p2)
  from for_pages_table [OF inv this] have "dict_get (physical_descriptors q) (rid, ls_layer_name layer, int i) = Some d"
    by (simp add: q d_def)
  then show ?thesis
    using make_descriptor_fields [OF d_def] by (intro exI [of _ d]) (simp add: physical_role_for_page_def)
qed

theorem page_roles_recorded_witness:
  "\<exists>pr q d. record_allocation sample_store ''r'' 40 5 [ [Block 1, Block 2, Block 3] ] sample_policy = Inr (Some pr, q)
     \<and> dict_get (physical_descriptors q) (''r'', ''l.0'', 0) = Some d \<and> role d = PINNED_RAW"
proof -
  obtain pr q where r: "record_allocation sample_store ''r'' 40 5 [ [Block 1, Block 2, Block 3] ] sample_policy = Inr (Some pr, q)"
    using sample_record by blast
  have layer: "sample_shape ''l.0'' 0 \<in> set (layers sample_policy)" by (simp add: sample_policy_def policy_init_def Let_def)
  have len: "0 < length (logical_pages_of sample_store [Block 1, Block 2, Block 3])" by code_simp
  obtain live where "request_pressure ''r'' 40 5 live sample_policy = Inr pr" using record_allocation_pressure [OF r] by blast
  then have "int 0 < pr_total_pages pr" using request_pressure_pages by (fastforce simp: page_count_def)
  from page_roles_recorded [OF sample_policy_reachable(1) sample_policy_ok(6) r layer len this] r show ?thesis
    by (auto simp: sample_shape_def)
qed

section \<open>Recording again changes nothing\<close>

lemma record_descriptor_same:
  "dict_get (physical_descriptors p) (descriptor_key d) = Some d \<Longrightarrow> record_descriptor d (p, ds, rel) = (p, ds, rel)"
  by (simp add: record_descriptor_def descriptor_key_def)

lemma record_fold_same:
  "(\<And>d. d \<in> set dl \<Longrightarrow> dict_get (physical_descriptors p) (descriptor_key d) = Some d) \<Longrightarrow>
    fold record_descriptor dl (p, ds, rel) = (p, ds, rel)"
  by (induction dl) (auto simp: record_descriptor_same)

definition same_but_events :: "tmh_policy \<Rightarrow> tmh_policy \<Rightarrow> bool" where
  "same_but_events q p \<longleftrightarrow> q = p\<lparr>physical_descriptors := physical_descriptors q,
     canonical_descriptor_refcounts := canonical_descriptor_refcounts q,
     pending_physical_events := pending_physical_events q\<rparr>"

lemma same_but_events_fields:
  assumes "same_but_events q p"
  shows "policy q = policy p" "layers q = layers p" "early_layers q = early_layers p"
    "late_layers q = late_layers p" "page_tokens q = page_tokens p" "hot_budget_pct q = hot_budget_pct p"
    "regular_live_bytes_cache q = regular_live_bytes_cache p" "latest_by_request q = latest_by_request p"
  using assms by (cases p; cases q; simp add: same_but_events_def)+

lemma for_pages_same_but_events:
  assumes "tmh_inv p"
  shows "same_but_events (record_physical_descriptors_for_pages rid tp rs hp pages p) p"
proof -
  obtain q ds rel where f: "fold record_descriptor (descriptors_for_pages rid tp rs pages p) (p, [], []) = (q, ds, rel)"
    by (metis prod_cases3)
  have "same_but_tables q p" using record_fold_inv [OF assms f] by blast
  then have "same_but_events (q\<lparr>pending_physical_events := es\<rparr>) p" "same_but_events q p" for es
    by (cases p; cases q; simp add: same_but_events_def same_but_tables_def)+
  then show ?thesis by (simp add: record_physical_descriptors_for_pages_def f)
qed

lemma for_pages_idem:
  assumes "tmh_inv p" and "layers_ok p" and q_def: "q = record_physical_descriptors_for_pages rid tp rs hp pages p"
  shows "record_physical_descriptors_for_pages rid tp rs hp pages q = q"
proof -
  have "same_but_events q p" using for_pages_same_but_events [OF assms(1)] by (simp add: q_def)
  note eq = same_but_events_fields [OF this]
  have dl: "descriptors_for_pages rid tp rs pages q = descriptors_for_pages rid tp rs pages p"
    by (simp add: descriptors_for_pages_def eq)
  have "fold record_descriptor (descriptors_for_pages rid tp rs pages q) (q, [], []) = (q, [], [])"
    unfolding dl using for_pages_table [OF assms(1,2)] by (intro record_fold_same) (simp add: q_def)
  then show ?thesis by (simp add: record_physical_descriptors_for_pages_def)
qed

lemma dict_set_same: "dict_get d k = Some v \<Longrightarrow> dict_set k v d = d"
  by (induction d) (auto split: if_splits)

lemma record_allocation_None:
  assumes "record_allocation store rid tokens prompt bs p = Inr (None, q)"
  shows "q = p"
proof -
  obtain n p1 where l: "regular_live_bytes_of store rid bs p = (n, p1)" by fastforce
  show ?thesis using assms
    by (auto simp: record_allocation_def l Let_def res_bind_Inr_iff split: if_split_asm)
qed

text \<open>
  recording the same allocation twice in a row is the same as recording it once: the second call
  returns the same pressure, leaves the policy as it is and queues no event.
\<close>

theorem record_allocation_idempotent:
  assumes reach: "policy_reachable p" and rec: "record_allocation store rid tokens prompt bs p = Inr (r, q)"
  shows "record_allocation store rid tokens prompt bs q = Inr (r, q)"
proof (cases r)
  case None
  then show ?thesis using rec record_allocation_None by blast
next
  case (Some pr)
  obtain c p2 where p2: "p2 = p\<lparr>regular_live_bytes_cache := c, latest_by_request := dict_set rid pr (latest_by_request p)\<rparr>"
    and c: "dict_get c rid = Some (live_signature store bs, regular_live_bytes pr)"
    and pr: "request_pressure rid tokens prompt (regular_live_bytes pr) p = Inr pr"
    and q: "q = (if policy_physical p
           then record_physical_descriptors store rid (pr_total_pages pr) (pr_recent_start_page pr) (pr_hot_pages pr) bs p2
           else p2)"
    using record_allocation_state [OF rec [unfolded Some]] by blast
  have inv: "tmh_inv p2" "layers_ok p2"
    using policy_reachable_inv [OF reach] tmh_inv_cong [of p2 p] layers_ok_cong [of p2 p]
    by (simp_all add: p2 same_layers_def)
  let ?rec = "record_physical_descriptors store rid (pr_total_pages pr) (pr_recent_start_page pr) (pr_hot_pages pr) bs"
  have "same_but_events q p2"
    using q for_pages_same_but_events [OF inv(1)]
    by (auto simp: record_physical_descriptors_def same_but_events_def split: list.splits)
  note eq = same_but_events_fields [OF this]
  have idem: "?rec q = q" if "policy_physical p"
    using q that for_pages_idem [OF inv refl] by (auto simp: record_physical_descriptors_def split: list.splits)
  have cond: "policy_enabled p" "layers p \<noteq> []" "page_tokens p \<noteq> 0"
    using rec Some by (auto simp: record_allocation_def split: if_split_asm)
  have live: "regular_live_bytes_of store rid bs q = (regular_live_bytes pr, q)"
    using c by (simp add: regular_live_bytes_of_def eq(7) p2 Let_def)
  have pr': "request_pressure rid tokens prompt (regular_live_bytes pr) q = Inr pr"
    unfolding pr [symmetric] by (rule request_pressure_cong) (simp_all add: eq p2)
  have latest: "q\<lparr>latest_by_request := dict_set rid pr (latest_by_request q)\<rparr> = q"
    by (simp add: eq(8) p2 dict_set_same)
  have cond': "policy_enabled q" "layers q \<noteq> []" "page_tokens q \<noteq> 0" "policy_physical q = policy_physical p"
    using cond eq by (simp_all add: p2 policy_enabled_def policy_physical_def)
  show ?thesis
    using cond' idem by (simp add: record_allocation_def live pr' latest Let_def Some)
qed

theorem record_allocation_idempotent_witness:
  "\<exists>r q. record_allocation sample_store ''r'' 40 5 [ [Block 1, Block 2, Block 3] ] sample_policy = Inr (Some r, q)
     \<and> record_allocation sample_store ''r'' 40 5 [ [Block 1, Block 2, Block 3] ] q = Inr (Some r, q)"
  using sample_record record_allocation_idempotent [OF sample_policy_reachable(1)] by blast

section \<open>Construction\<close>

lemma extract_layer_error: "extract_layer specs name found = Inl e \<Longrightarrow> e = AttributeError"
  by (auto simp: extract_layer_def res_bind_Inl_iff shape_of_spec_def split: option.splits if_splits kv_cache_spec.splits)

lemma res_fold_error:
  assumes "res_fold f xs s = Inl e" and "\<And>x s. x \<in> set xs \<Longrightarrow> f x s = Inl e' \<Longrightarrow> e' = err" and "e' = e"
  shows "e = err"
  using assms by (induction xs arbitrary: s) (auto simp: res_bind_Inl_iff)

lemma no_value_heads:
  assumes "class_of s \<in> {C_ChunkedLocalAttentionSpec, C_CrossAttentionSpec, C_EncoderOnlyAttentionSpec}"
  shows "shape_of_spec name s = Inl AttributeError" and "isinstance s C_AttentionSpec" and "full_fields s = None"
  using assms by (cases s; simp add: shape_of_spec_def isinstance_def)+

lemma spec_by_layer_plain:
  assumes "class_of (group_spec g) \<noteq> C_UniformTypeKVCacheSpecs" and "name \<in> set (layer_names g)"
  shows "dict_get (spec_by_layer g) name = Some (group_spec g)"
proof -
  have "dict_get (fold (\<lambda>name. dict_set name s) names d) name = (if name \<in> set names then Some s else dict_get d name)"
    for names and d :: "(string, kv_cache_spec) dict" and s
    by (induction names arbitrary: d) auto
  then show ?thesis using assms by (cases "group_spec g") (auto simp: spec_by_layer_def)
qed

text \<open>
  C36: the policy cannot be built for a model that has a chunked-local, cross-attention or encoder-only
  group: reading the value head size of such a layer raises \<^verbatim>\<open>AttributeError\<close>, whatever the policy is,
  also when it is off.
\<close>

theorem policy_needs_value_head_size:
  assumes g: "g \<in> set (kv_cache_groups cfg)" and ne: "layer_names g \<noteq> []"
    and cls: "class_of (group_spec g) \<in> {C_ChunkedLocalAttentionSpec, C_CrossAttentionSpec, C_EncoderOnlyAttentionSpec}"
  shows "from_kv_cache_config cfg scheduler_block_size = Inl AttributeError"
proof -
  let ?F = "\<lambda>g. res_fold (extract_layer (spec_by_layer g)) (layer_names g)"
  obtain name names where names: "layer_names g = name # names" using ne by (cases "layer_names g") auto
  have "dict_get (spec_by_layer g) name = Some (group_spec g)"
    using cls names by (intro spec_by_layer_plain) auto
  then have fail: "?F g found = Inl AttributeError" for found
    using no_value_heads [OF cls] by (simp add: names extract_layer_def)
  obtain gs1 gs2 where gs: "kv_cache_groups cfg = gs1 @ g # gs2" using split_list [OF g] by blast
  have err: "e = AttributeError" if "res_fold ?F gs found = Inl e" for gs found e
    using that
  proof (rule res_fold_error)
    show "e = AttributeError" if "?F x s = Inl e" for x s using that extract_layer_error by (rule res_fold_error) auto
  qed simp
  have "res_fold ?F (kv_cache_groups cfg) [] = Inl AttributeError"
    unfolding gs res_fold_append using err [of gs1 "[]"] fail by (cases "res_fold ?F gs1 []") auto
  then show ?thesis by (simp add: from_kv_cache_config_def extract_layers_def)
qed

definition sample_chunked :: chunked_local_spec where
  "sample_chunked = \<lparr>block_size = 16, num_kv_heads = 8, head_size = 128, dtype = bfloat16, kv_quant = QNone,
     page_size_padded = None, indexes_kv_by_block_stride = False, local_chunk_size = 8192\<rparr>"

theorem policy_needs_value_head_size_witness:
  "from_kv_cache_config (sample_kv_config\<lparr>tmh_kv_policy := ''off'', kv_cache_groups :=
      [\<lparr>layer_names = [''l.0''], group_spec = ChunkedLocalAttentionSpec sample_chunked, is_eagle_group = False\<rparr>]\<rparr>) 16
   = Inl AttributeError"
  by (rule policy_needs_value_head_size
      [where g = "\<lparr>layer_names = [''l.0''], group_spec = ChunkedLocalAttentionSpec sample_chunked, is_eagle_group = False\<rparr>"]) simp_all

end
