(* ===== verification/TmhPhysical.thy ===== *)
theory TmhPhysical
  imports TmhPolicySpec
begin

text \<open>
  The worker side of the tiered cache (\<^verbatim>\<open>vllm/v1/tmh_physical.py\<close>): the byte layout of the pools of one
  layer, and the runtime that turns the scheduler's descriptor events into slots of the raw and warm
  pools. Tensors of slots and roles are lists of integers; the contents of the pools are not modelled.
\<close>

section \<open>Tensors\<close>

definition tensor_pos :: "'a list \<Rightarrow> int \<Rightarrow> nat result" where
  "tensor_pos xs i =
     (if 0 \<le> i \<and> i < int (length xs) then Inr (nat i)
      else if i < 0 \<and> - i \<le> int (length xs) then Inr (length xs - nat (- i))
      else Inl IndexError)"

definition tensor_set :: "int \<Rightarrow> 'a \<Rightarrow> 'a list \<Rightarrow> 'a list result" where
  "tensor_set i v xs = res_bind (tensor_pos xs i) (\<lambda>n. Inr (xs[n := v]))"

definition tensor_set2 :: "int \<Rightarrow> int \<Rightarrow> 'a \<Rightarrow> 'a list list \<Rightarrow> 'a list list result" where
  "tensor_set2 i j v xs =
     res_bind (tensor_pos xs i) (\<lambda>n. res_bind (tensor_set j v (xs ! n)) (\<lambda>row. Inr (xs[n := row])))"

definition tensor_fill_row :: "int \<Rightarrow> 'a \<Rightarrow> 'a list list \<Rightarrow> 'a list list result" where
  "tensor_fill_row i v xs = res_bind (tensor_pos xs i) (\<lambda>n. Inr (xs[n := map (\<lambda>_. v) (xs ! n)]))"

section \<open>The layout of one layer\<close>

text \<open>A view of the raw byte buffer: its first byte, its length in bytes and its element type.\<close>

record region =
  reg_offset :: int
  reg_bytes :: int
  reg_dtype :: torch_dtype

record tmh_cache =
  cache_spec :: tmh_spec
  num_logical_blocks :: int
  raw_kv_cache :: region
  warm_key :: region
  warm_value :: region
  warm_k_scale :: region
  warm_v_scale :: region
  raw_pages :: int
  warm_pages :: int
  canonical_role_by_logical_block :: "int list"
  canonical_slot_by_logical_block :: "int list"
  request_slot_by_row_page :: "int list list"
  request_role_by_row_page :: "int list list"
  native_block_table_by_seq :: "int list list"

definition torch_int8 :: torch_dtype where
  "torch_int8 = \<lparr>dtype_name = ''int8'', itemsize = 1\<rparr>"

definition take_region :: "int \<Rightarrow> int \<Rightarrow> torch_dtype \<Rightarrow> int \<Rightarrow> (region \<times> int) result" where
  "take_region numel num_bytes d offset0 =
     (let dtype_size = itemsize d;
          offset = (if offset0 mod dtype_size \<noteq> 0 then offset0 + (dtype_size - offset0 mod dtype_size) else offset0);
          end_byte = offset + num_bytes
      in if end_byte > numel then Inl ValueError
         else Inr (\<lparr>reg_offset = offset, reg_bytes = num_bytes, reg_dtype = d\<rparr>, end_byte))"

type_synonym regions = "region \<times> region \<times> region \<times> region \<times> region"

definition tmh_regions :: "int \<Rightarrow> tmh_spec \<Rightarrow> int \<Rightarrow> int \<Rightarrow> regions result" where
  "tmh_regions numel s raw warm =
     (if head_size_v s \<noteq> head_size s then Inl ValueError
      else
        let warm_v_head = (if tmh_late_layer s then head_size_v s else (head_size_v s + 1) div 2);
            page = block_size s * num_kv_heads s;
            x = 16 div itemsize (dtype s)
        in res_bind (take_region numel (2 * raw * page * head_size s * itemsize (dtype s)) (dtype s) 0) (\<lambda>(raw_kv, o1).
           res_bind (res_guard (raw * num_kv_heads s * (head_size s div x) * block_size s * x = raw * page * head_size s)
             RuntimeError) (\<lambda>_.
           res_bind (take_region numel (warm * page * head_size s) torch_int8 o1) (\<lambda>(wk, o2).
           res_bind (take_region numel (warm * page * warm_v_head) torch_int8 o2) (\<lambda>(wv, o3).
           res_bind (take_region numel (warm * page * 4) torch_float32 o3) (\<lambda>(wks, o4).
           res_bind (take_region numel (warm * page * 4) torch_float32 o4) (\<lambda>(wvs, _).
           Inr (raw_kv, wk, wv, wks, wvs))))))))"

text \<open>The tables of a fresh cache; a negative dimension is refused when the tensor is created.\<close>

definition tmh_tables :: "tmh_spec \<Rightarrow> int \<Rightarrow> int \<Rightarrow> int \<Rightarrow> regions \<Rightarrow> tmh_cache result" where
  "tmh_tables s n raw warm regions =
     (let (raw_kv, wk, wv, wks, wvs) = regions;
          rows = nat (tmh_max_num_seqs s);
          cols = nat (tmh_max_model_pages s)
      in res_bind (res_guard (0 \<le> n \<and> 0 \<le> tmh_max_num_seqs s \<and> 0 \<le> tmh_max_model_pages s) RuntimeError) (\<lambda>_.
         Inr \<lparr>cache_spec = s, num_logical_blocks = n, raw_kv_cache = raw_kv, warm_key = wk, warm_value = wv,
              warm_k_scale = wks, warm_v_scale = wvs, raw_pages = raw, warm_pages = warm,
              canonical_role_by_logical_block = replicate (nat n) (-1),
              canonical_slot_by_logical_block = replicate (nat n) (-1),
              request_slot_by_row_page = replicate rows (replicate cols (-1)),
              request_role_by_row_page = replicate rows (replicate cols (-1)),
              native_block_table_by_seq = replicate rows (replicate cols 0)\<rparr>))"

definition reshape_tmh_physical_kv_cache :: "int \<Rightarrow> tmh_spec \<Rightarrow> int \<Rightarrow> tmh_cache result" where
  "reshape_tmh_physical_kv_cache numel s n =
     (let (raw, warm) = physical_pool_page_counts s n
      in res_bind (tmh_regions numel s raw warm) (tmh_tables s n raw warm))"

definition raw_capacity_pages_per_request :: "tmh_cache \<Rightarrow> int" where
  "raw_capacity_pages_per_request c =
     (let max_reqs = max 1 (tmh_max_num_seqs (cache_spec c))
      in max 1 (min (tmh_max_model_pages (cache_spec c)) (raw_pages c div max_reqs)))"

section \<open>Roles\<close>

definition raw_role :: "page_role \<Rightarrow> bool" where
  "raw_role r \<longleftrightarrow> r \<in> {PINNED_RAW, HOT_RAW}"

definition descriptor_with_role :: "descriptor \<Rightarrow> page_role \<Rightarrow> descriptor" where
  "descriptor_with_role d r =
     (let (kq, vq) =
        (if raw_role r then (''raw'', ''raw'')
         else if r = WARM_INT8_INT4 then (''int8_per_token_head'', ''int4_per_token_head'')
         else (''int8_per_token_head'', ''int8_per_token_head''))
      in d\<lparr>role := r, storage := storage_kind_for_role r (prefix_cached d), k_quant_mode := kq, v_quant_mode := vq\<rparr>)"

definition warm_role_for_cache :: "tmh_cache \<Rightarrow> page_role" where
  "warm_role_for_cache c = (if tmh_late_layer (cache_spec c) then WARM_INT8_INT8 else WARM_INT8_INT4)"

definition effective_descriptor :: "tmh_cache \<Rightarrow> descriptor \<Rightarrow> int \<Rightarrow> descriptor" where
  "effective_descriptor c d total_pages =
     (if total_pages > raw_capacity_pages_per_request c then d
      else let r = (if page_index d = 0 then PINNED_RAW else HOT_RAW)
           in if role d = r then d else descriptor_with_role d r)"

section \<open>The runtime\<close>

record tmh_runtime =
  caches :: "(string, tmh_cache) dict"
  raw_free_slots :: "(string, int list) dict"
  warm_free_slots :: "(string, int list) dict"
  canonical_slots :: "(string \<times> int \<times> int, int) dict"
  overlay_slots :: "(string \<times> string \<times> int, int) dict"

definition empty_runtime :: tmh_runtime where
  "empty_runtime = \<lparr>caches = [], raw_free_slots = [], warm_free_slots = [], canonical_slots = [], overlay_slots = []\<rparr>"

definition register_cache :: "string \<Rightarrow> tmh_cache \<Rightarrow> tmh_runtime \<Rightarrow> tmh_runtime" where
  "register_cache layer c rt =
     rt\<lparr>caches := dict_set layer c (caches rt),
        raw_free_slots := dict_set layer (rev (map int [0..<nat (raw_pages c)])) (raw_free_slots rt),
        warm_free_slots := dict_set layer (rev (map int [0..<nat (warm_pages c)])) (warm_free_slots rt)\<rparr>"

text \<open>\<^verbatim>\<open>build_tmh_physical_runtime\<close>; an entry that is not a tiered cache is \<open>None\<close>.\<close>

definition build_tmh_physical_runtime :: "(string \<times> tmh_cache option) list \<Rightarrow> tmh_runtime option" where
  "build_tmh_physical_runtime kv_caches =
     (let tiered = List.map_filter (\<lambda>(layer, c). map_option (\<lambda>c. (layer, c)) c) kv_caches
      in if tiered = [] then None
         else Some (fold (\<lambda>(layer, c). register_cache layer c) tiered empty_runtime))"

definition dict_index :: "('k, 'v) dict \<Rightarrow> 'k \<Rightarrow> 'v result" where
  "dict_index d k = (case dict_get d k of None \<Rightarrow> Inl KeyError | Some v \<Rightarrow> Inr v)"

definition push_raw :: "string \<Rightarrow> int \<Rightarrow> tmh_runtime \<Rightarrow> tmh_runtime result" where
  "push_raw layer slot rt =
     res_bind (dict_index (raw_free_slots rt) layer) (\<lambda>free.
       Inr (rt\<lparr>raw_free_slots := dict_set layer (free @ [slot]) (raw_free_slots rt)\<rparr>))"

definition push_warm :: "string \<Rightarrow> int \<Rightarrow> tmh_runtime \<Rightarrow> tmh_runtime result" where
  "push_warm layer slot rt =
     res_bind (dict_index (warm_free_slots rt) layer) (\<lambda>free.
       Inr (rt\<lparr>warm_free_slots := dict_set layer (free @ [slot]) (warm_free_slots rt)\<rparr>))"

definition take_slot :: "string \<Rightarrow> bool \<Rightarrow> tmh_runtime \<Rightarrow> (int \<times> tmh_runtime) result" where
  "take_slot layer wants_raw rt =
     (if wants_raw
      then res_bind (dict_index (raw_free_slots rt) layer) (\<lambda>free.
             if free = [] then Inl RuntimeError
             else Inr (last free, rt\<lparr>raw_free_slots := dict_set layer (butlast free) (raw_free_slots rt)\<rparr>))
      else res_bind (dict_index (warm_free_slots rt) layer) (\<lambda>free.
             if free = [] then Inl RuntimeError
             else Inr (last free, rt\<lparr>warm_free_slots := dict_set layer (butlast free) (warm_free_slots rt)\<rparr>)))"

definition set_canonical_entry :: "string \<Rightarrow> int \<Rightarrow> int \<Rightarrow> int \<Rightarrow> tmh_runtime \<Rightarrow> tmh_runtime result" where
  "set_canonical_entry layer block r slot rt =
     res_bind (dict_index (caches rt) layer) (\<lambda>c.
     res_bind (tensor_set block r (canonical_role_by_logical_block c)) (\<lambda>roles.
     res_bind (tensor_set block slot (canonical_slot_by_logical_block c)) (\<lambda>slots.
     Inr (rt\<lparr>caches := dict_set layer (c\<lparr>canonical_role_by_logical_block := roles,
            canonical_slot_by_logical_block := slots\<rparr>) (caches rt)\<rparr>))))"

definition canonical_slot :: "string \<Rightarrow> int \<Rightarrow> page_role \<Rightarrow> tmh_runtime \<Rightarrow> (int \<times> tmh_runtime) result" where
  "canonical_slot layer block r rt =
     (let key = (layer, block, role_int r) in
      case dict_get (canonical_slots rt) key of
        Some slot \<Rightarrow> Inr (slot, rt)
      | None \<Rightarrow>
          res_bind (take_slot layer (raw_role r) rt) (\<lambda>(slot, rt1).
          res_bind (set_canonical_entry layer block (role_int r) slot
                     (rt1\<lparr>canonical_slots := dict_set key slot (canonical_slots rt1)\<rparr>)) (\<lambda>rt2.
          Inr (slot, rt2))))"

definition overlay_slot :: "string \<Rightarrow> string \<Rightarrow> int \<Rightarrow> tmh_runtime \<Rightarrow> (int \<times> tmh_runtime) result" where
  "overlay_slot layer rid page rt =
     (let key = (layer, rid, page) in
      case dict_get (overlay_slots rt) key of
        Some slot \<Rightarrow> Inr (slot, rt)
      | None \<Rightarrow>
          res_bind (take_slot layer True rt) (\<lambda>(slot, rt1).
          Inr (slot, rt1\<lparr>overlay_slots := dict_set key slot (overlay_slots rt1)\<rparr>)))"

definition release_overlay :: "string \<times> string \<times> int \<Rightarrow> tmh_runtime \<Rightarrow> tmh_runtime result" where
  "release_overlay key rt =
     res_bind (dict_index (overlay_slots rt) key) (\<lambda>slot.
       push_raw (fst key) slot (rt\<lparr>overlay_slots := dict_pop key (overlay_slots rt)\<rparr>))"

definition release_request :: "string \<Rightarrow> tmh_runtime \<Rightarrow> tmh_runtime result" where
  "release_request rid rt =
     res_fold release_overlay (filter (\<lambda>key. fst (snd key) = rid) (map fst (overlay_slots rt))) rt"

definition refresh_logical_descriptor :: "string \<Rightarrow> int \<Rightarrow> tmh_runtime \<Rightarrow> tmh_runtime result" where
  "refresh_logical_descriptor layer block rt =
     res_bind (dict_index (caches rt) layer) (\<lambda>_.
     case filter (\<lambda>((l, b, r), slot). l = layer \<and> b = block) (canonical_slots rt) of
       [] \<Rightarrow> set_canonical_entry layer block (-1) (-1) rt
     | ((l, b, r), slot) # _ \<Rightarrow> set_canonical_entry layer block r slot rt)"

text \<open>The three lookups of \<^verbatim>\<open>release_descriptor\<close>: the slot, whether it is raw, and the key that held it.\<close>

definition find_released :: "descriptor \<Rightarrow> tmh_runtime \<Rightarrow> ((string \<times> int \<times> int) \<times> int \<times> bool) option result" where
  "find_released d rt =
     (let key = (\<lambda>r. (d_layer_name d, logical_block_id d, role_int r))
      in case dict_get (canonical_slots rt) (key (role d)) of
           Some slot \<Rightarrow> Inr (Some (key (role d), slot, raw_role (role d)))
         | None \<Rightarrow>
             if \<not> raw_role (role d)
             then Inr (map_option (\<lambda>slot. (key HOT_RAW, slot, True)) (dict_get (canonical_slots rt) (key HOT_RAW)))
             else res_bind (dict_index (caches rt) (d_layer_name d)) (\<lambda>c.
                    Inr (map_option (\<lambda>slot. (key (warm_role_for_cache c), slot, False))
                      (dict_get (canonical_slots rt) (key (warm_role_for_cache c))))))"

definition release_descriptor :: "descriptor \<Rightarrow> tmh_runtime \<Rightarrow> tmh_runtime result" where
  "release_descriptor d rt =
     (if storage d = REQUEST_OVERLAY
      then let key = (d_layer_name d, d_request_id d, page_index d)
           in (if dict_get (overlay_slots rt) key = None then Inr rt else release_overlay key rt)
      else res_bind (find_released d rt) (\<lambda>found.
        case found of
          None \<Rightarrow> Inr rt
        | Some (key, slot, is_raw) \<Rightarrow>
            let rt1 = rt\<lparr>canonical_slots := dict_pop key (canonical_slots rt)\<rparr>
            in res_bind (if is_raw then push_raw (d_layer_name d) slot rt1 else push_warm (d_layer_name d) slot rt1) (\<lambda>rt2.
               refresh_logical_descriptor (d_layer_name d) (logical_block_id d) rt2)))"

fun clear_request_rows :: "descriptor list \<Rightarrow> (string, int) dict \<Rightarrow> (string \<times> int) list \<Rightarrow> tmh_runtime \<Rightarrow> tmh_runtime result" where
  "clear_request_rows [] rows cleared rt = Inr rt"
| "clear_request_rows (d # ds) rows cleared rt =
     (case dict_get rows (d_request_id d) of
        None \<Rightarrow> Inl RuntimeError
      | Some i \<Rightarrow>
          if (d_layer_name d, i) \<in> set cleared then clear_request_rows ds rows cleared rt
          else (case dict_get (caches rt) (d_layer_name d) of
                  None \<Rightarrow> Inl RuntimeError
                | Some c \<Rightarrow>
                    res_bind (tensor_fill_row i (-1) (request_slot_by_row_page c)) (\<lambda>slots.
                    res_bind (tensor_fill_row i (-1) (request_role_by_row_page c)) (\<lambda>roles.
                    res_bind (tensor_fill_row i 0 (native_block_table_by_seq c)) (\<lambda>native.
                    clear_request_rows ds rows ((d_layer_name d, i) # cleared)
                      (rt\<lparr>caches := dict_set (d_layer_name d) (c\<lparr>request_slot_by_row_page := slots,
                         request_role_by_row_page := roles, native_block_table_by_seq := native\<rparr>) (caches rt)\<rparr>))))))"

definition raw_available :: "string \<Rightarrow> tmh_runtime \<Rightarrow> bool" where
  "raw_available layer rt \<longleftrightarrow> (case dict_get (raw_free_slots rt) layer of None \<Rightarrow> False | Some free \<Rightarrow> free \<noteq> [])"

definition promote_to_raw_when_available :: "string \<Rightarrow> tmh_runtime \<Rightarrow> descriptor \<Rightarrow> descriptor" where
  "promote_to_raw_when_available layer rt d =
     (if raw_role (role d) then d
      else if \<not> raw_available layer rt then d
      else descriptor_with_role d HOT_RAW)"

definition demote_overlay_to_warm_when_raw_exhausted :: "tmh_cache \<Rightarrow> string \<Rightarrow> tmh_runtime \<Rightarrow> descriptor \<Rightarrow> descriptor" where
  "demote_overlay_to_warm_when_raw_exhausted c layer rt d =
     (if storage d \<noteq> REQUEST_OVERLAY then d
      else if raw_available layer rt then d
      else descriptor_with_role d (warm_role_for_cache c))"

definition demote_canonical_to_warm_when_raw_exhausted :: "tmh_cache \<Rightarrow> string \<Rightarrow> tmh_runtime \<Rightarrow> descriptor \<Rightarrow> descriptor" where
  "demote_canonical_to_warm_when_raw_exhausted c layer rt d =
     (if storage d \<noteq> CANONICAL then d
      else if \<not> raw_role (role d) then d
      else if dict_get (canonical_slots rt) (layer, logical_block_id d, role_int (role d)) \<noteq> None then d
      else if raw_available layer rt then d
      else descriptor_with_role d (warm_role_for_cache c))"

definition store_page_entry :: "string \<Rightarrow> int \<Rightarrow> int \<Rightarrow> int \<Rightarrow> int \<Rightarrow> tmh_runtime \<Rightarrow> tmh_runtime result" where
  "store_page_entry layer i page slot r rt =
     res_bind (dict_index (caches rt) layer) (\<lambda>c.
     res_bind (tensor_set2 i page slot (request_slot_by_row_page c)) (\<lambda>slots.
     res_bind (tensor_set2 i page r (request_role_by_row_page c)) (\<lambda>roles.
     res_bind (tensor_set2 i page slot (native_block_table_by_seq c)) (\<lambda>native.
     Inr (rt\<lparr>caches := dict_set layer (c\<lparr>request_slot_by_row_page := slots,
            request_role_by_row_page := roles, native_block_table_by_seq := native\<rparr>) (caches rt)\<rparr>)))))"

definition settle_descriptor :: "tmh_cache \<Rightarrow> string \<Rightarrow> tmh_runtime \<Rightarrow> descriptor \<Rightarrow> descriptor" where
  "settle_descriptor c layer rt d =
     demote_canonical_to_warm_when_raw_exhausted c layer rt
       (demote_overlay_to_warm_when_raw_exhausted c layer rt (promote_to_raw_when_available layer rt d))"

definition apply_descriptor :: "tmh_cache \<Rightarrow> string \<Rightarrow> descriptor \<Rightarrow> int \<Rightarrow> tmh_runtime \<Rightarrow> tmh_runtime result" where
  "apply_descriptor c layer d0 i rt =
     (let d = settle_descriptor c layer rt d0;
          block = logical_block_id d
      in res_bind (res_guard (\<not> (block < 0 \<or> block \<ge> num_logical_blocks c)) RuntimeError) (\<lambda>_.
         res_bind (if storage d = REQUEST_OVERLAY
                   then overlay_slot layer (d_request_id d) (page_index d) rt
                   else canonical_slot layer block (role d) rt) (\<lambda>(slot, rt1).
         res_bind (res_guard (\<not> page_index d \<ge> tmh_max_model_pages (cache_spec c)) RuntimeError) (\<lambda>_.
         store_page_entry layer i (page_index d) slot (role_int (role d)) rt1))))"

definition apply_event_descriptor :: "tmh_event \<Rightarrow> (string, int) dict \<Rightarrow> descriptor \<Rightarrow> tmh_runtime \<Rightarrow> tmh_runtime result" where
  "apply_event_descriptor ev rows d rt =
     (case dict_get (caches rt) (d_layer_name d) of
        None \<Rightarrow> Inl RuntimeError
      | Some c \<Rightarrow>
          (case dict_get rows (d_request_id d) of
             None \<Rightarrow> Inl RuntimeError
           | Some i \<Rightarrow> apply_descriptor c (d_layer_name d) (effective_descriptor c d (e_total_pages ev)) i rt))"

definition apply_event :: "(string, int) dict \<Rightarrow> tmh_event \<Rightarrow> tmh_runtime \<Rightarrow> tmh_runtime result" where
  "apply_event rows ev rt =
     res_bind (res_fold release_request (released_request_ids ev) rt) (\<lambda>rt1.
     res_bind (res_fold release_descriptor (released_descriptors ev) rt1) (\<lambda>rt2.
     res_bind (if e_descriptors ev \<noteq> []
               then res_bind (release_request (e_request_id ev) rt2) (clear_request_rows (e_descriptors ev) rows [])
               else Inr rt2) (\<lambda>rt3.
     res_fold (apply_event_descriptor ev rows) (e_descriptors ev) rt3)))"

definition apply_events :: "tmh_event list \<Rightarrow> (string, int) dict \<Rightarrow> tmh_runtime \<Rightarrow> tmh_runtime result" where
  "apply_events evs rows rt = res_fold (apply_event rows) evs rt"

end
