(* ===== verification/TmhPhysicalInv.thy ===== *)
theory TmhPhysicalInv
  imports TmhPhysical
begin

text \<open>
  Slot accounting of the worker runtime: in every layer the free raw slots together with the raw slots
  in use are the slots of the raw pool, each once, and the same holds for the warm pool.
\<close>

declare split_paired_All [simp del] split_paired_Ex [simp del]

section \<open>Slots in use\<close>

definition slots_where :: "('k \<Rightarrow> bool) \<Rightarrow> ('k, int) dict \<Rightarrow> int multiset" where
  "slots_where P d = mset (map snd (filter (\<lambda>e. P (fst e)) d))"

definition raw_key_of :: "string \<Rightarrow> string \<times> int \<times> int \<Rightarrow> bool" where
  "raw_key_of layer k \<longleftrightarrow> fst k = layer \<and> snd (snd k) \<in> {0, 1}"

definition warm_key_of :: "string \<Rightarrow> string \<times> int \<times> int \<Rightarrow> bool" where
  "warm_key_of layer k \<longleftrightarrow> fst k = layer \<and> snd (snd k) \<notin> {0, 1}"

definition raw_in_use :: "tmh_runtime \<Rightarrow> string \<Rightarrow> int multiset" where
  "raw_in_use rt layer = slots_where (raw_key_of layer) (canonical_slots rt)
     + slots_where (\<lambda>k. fst k = layer) (overlay_slots rt)"

definition warm_in_use :: "tmh_runtime \<Rightarrow> string \<Rightarrow> int multiset" where
  "warm_in_use rt layer = slots_where (warm_key_of layer) (canonical_slots rt)"

definition pool_slots :: "int \<Rightarrow> int multiset" where
  "pool_slots n = mset (map int [0..<nat n])"

definition balanced :: "int list option \<Rightarrow> int multiset \<Rightarrow> int \<Rightarrow> bool" where
  "balanced free used n \<longleftrightarrow> (\<exists>f. free = Some f \<and> mset f + used = pool_slots n)"

definition slot_inv :: "tmh_runtime \<Rightarrow> bool" where
  "slot_inv rt \<longleftrightarrow> dict_ok (canonical_slots rt) \<and> dict_ok (overlay_slots rt)
     \<and> (\<forall>layer c. dict_get (caches rt) layer = Some c \<longrightarrow>
          balanced (dict_get (raw_free_slots rt) layer) (raw_in_use rt layer) (raw_pages c)
          \<and> balanced (dict_get (warm_free_slots rt) layer) (warm_in_use rt layer) (warm_pages c))"

definition layer_balanced :: "tmh_runtime \<Rightarrow> string \<Rightarrow> tmh_cache \<Rightarrow> bool" where
  "layer_balanced rt layer c \<longleftrightarrow>
     balanced (dict_get (raw_free_slots rt) layer) (raw_in_use rt layer) (raw_pages c)
     \<and> balanced (dict_get (warm_free_slots rt) layer) (warm_in_use rt layer) (warm_pages c)"

lemma slot_invI:
  assumes "dict_ok (canonical_slots rt)" and "dict_ok (overlay_slots rt)"
    and "\<And>layer c. dict_get (caches rt) layer = Some c \<Longrightarrow> layer_balanced rt layer c"
  shows "slot_inv rt"
  using assms by (simp add: slot_inv_def layer_balanced_def)

lemma slot_invD:
  assumes "slot_inv rt"
  shows "dict_ok (canonical_slots rt)" and "dict_ok (overlay_slots rt)"
    and "dict_get (caches rt) layer = Some c \<Longrightarrow> layer_balanced rt layer c"
  using assms unfolding slot_inv_def layer_balanced_def by blast+

lemma slots_where_set:
  "dict_get d k = None \<Longrightarrow> slots_where P (dict_set k v d) = slots_where P d + (if P k then {#v#} else {#})"
  by (simp add: slots_where_def dict_set_absent)

lemma slots_where_pop:
  assumes "dict_get d k = Some v" and "dict_ok d"
  shows "slots_where P d = slots_where P (dict_pop k d) + (if P k then {#v#} else {#})"
  using assms
proof (induction d)
  case (Cons e d)
  obtain k' w where e: "e = (k', w)" by fastforce
  show ?case
  proof (cases "k' = k")
    case True
    then have "dict_pop k d = d" using Cons.prems e by (intro delete_id) auto
    then show ?thesis using Cons.prems e True by (simp add: slots_where_def)
  next
    case False
    then show ?thesis using Cons e by (simp add: slots_where_def)
  qed
qed simp

section \<open>Updates that keep the balance\<close>

text \<open>A cache may be replaced by one with the same pools.\<close>

lemma slot_inv_cache:
  assumes "slot_inv rt" and "dict_get (caches rt) layer = Some c"
    and "raw_pages c' = raw_pages c" and "warm_pages c' = warm_pages c"
  shows "slot_inv (rt\<lparr>caches := dict_set layer c' (caches rt)\<rparr>)"
proof (rule slot_invI)
  fix l d assume "dict_get (caches (rt\<lparr>caches := dict_set layer c' (caches rt)\<rparr>)) l = Some d"
  then show "layer_balanced (rt\<lparr>caches := dict_set layer c' (caches rt)\<rparr>) l d"
    using slot_invD(3) [OF assms(1), of l "if l = layer then c else d"] assms(2-4)
    by (auto simp: layer_balanced_def raw_in_use_def warm_in_use_def split: if_splits)
qed (use slot_invD(1,2) [OF assms(1)] in simp_all)

lemma set_canonical_entry_inv:
  assumes "slot_inv rt" and "set_canonical_entry layer block r slot rt = Inr rt'"
  shows "slot_inv rt'"
  using assms
  by (auto simp: set_canonical_entry_def dict_index_def res_bind_Inr_iff split: option.splits intro!: slot_inv_cache)

lemma store_page_entry_inv:
  assumes "slot_inv rt" and "store_page_entry layer i page slot r rt = Inr rt'"
  shows "slot_inv rt'"
  using assms
  by (auto simp: store_page_entry_def dict_index_def res_bind_Inr_iff split: option.splits intro!: slot_inv_cache)

lemma clear_request_rows_inv:
  "clear_request_rows ds rows cleared rt = Inr rt' \<Longrightarrow> slot_inv rt \<Longrightarrow> slot_inv rt'"
proof (induction ds rows cleared rt rule: clear_request_rows.induct)
  case (2 d ds rows cleared rt)
  show ?case
  proof (cases "dict_get rows (d_request_id d)")
    case None
    then show ?thesis using "2.prems" by simp
  next
    case i: (Some i)
    show ?thesis
    proof (cases "(d_layer_name d, i) \<in> set cleared")
      case True
      then show ?thesis using 2 i by simp
    next
      case False
      obtain c slots roles native where c: "dict_get (caches rt) (d_layer_name d) = Some c"
        and t: "tensor_fill_row i (-1) (request_slot_by_row_page c) = Inr slots"
          "tensor_fill_row i (-1) (request_role_by_row_page c) = Inr roles"
          "tensor_fill_row i 0 (native_block_table_by_seq c) = Inr native"
        and rest: "clear_request_rows ds rows ((d_layer_name d, i) # cleared)
          (rt\<lparr>caches := dict_set (d_layer_name d) (c\<lparr>request_slot_by_row_page := slots,
             request_role_by_row_page := roles, native_block_table_by_seq := native\<rparr>) (caches rt)\<rparr>) = Inr rt'"
        using "2.prems"(1) i False by (auto simp: res_bind_Inr_iff split: option.splits)
      show ?thesis
        using "2.IH"(2) [OF i False c rest] slot_inv_cache [OF "2.prems"(2) c] by simp
    qed
  qed
qed simp

subsection \<open>Taking a slot\<close>

lemma take_slot_Inr:
  assumes "take_slot layer wants_raw rt = Inr (slot, rt')"
  shows "if wants_raw
    then \<exists>f. dict_get (raw_free_slots rt) layer = Some (f @ [slot])
           \<and> rt' = rt\<lparr>raw_free_slots := dict_set layer f (raw_free_slots rt)\<rparr>
    else \<exists>f. dict_get (warm_free_slots rt) layer = Some (f @ [slot])
           \<and> rt' = rt\<lparr>warm_free_slots := dict_set layer f (warm_free_slots rt)\<rparr>"
proof (cases wants_raw)
  case True
  then obtain f where "dict_get (raw_free_slots rt) layer = Some f" "f \<noteq> []" "slot = last f"
    "rt' = rt\<lparr>raw_free_slots := dict_set layer (butlast f) (raw_free_slots rt)\<rparr>"
    using assms by (auto simp: take_slot_def dict_index_def res_bind_Inr_iff split: option.splits if_splits)
  then show ?thesis using True by (simp add: exI [of _ "butlast f"])
next
  case False
  then obtain f where "dict_get (warm_free_slots rt) layer = Some f" "f \<noteq> []" "slot = last f"
    "rt' = rt\<lparr>warm_free_slots := dict_set layer (butlast f) (warm_free_slots rt)\<rparr>"
    using assms by (auto simp: take_slot_def dict_index_def res_bind_Inr_iff split: option.splits if_splits)
  then show ?thesis using False by (simp add: exI [of _ "butlast f"])
qed

lemma take_canonical_inv:
  assumes inv: "slot_inv rt" and take: "take_slot layer (raw_role r) rt = Inr (slot, rt')"
    and new: "dict_get (canonical_slots rt) (layer, block, role_int r) = None"
  shows "slot_inv (rt'\<lparr>canonical_slots := dict_set (layer, block, role_int r) slot (canonical_slots rt')\<rparr>)"
proof -
  have raw: "raw_key_of l (layer, block, role_int r) \<longleftrightarrow> l = layer \<and> raw_role r"
    and warm: "warm_key_of l (layer, block, role_int r) \<longleftrightarrow> l = layer \<and> \<not> raw_role r" for l
    by (cases r; auto simp: raw_key_of_def warm_key_of_def raw_role_def)+
  let ?q = "rt'\<lparr>canonical_slots := dict_set (layer, block, role_int r) slot (canonical_slots rt')\<rparr>"
  have same: "caches rt' = caches rt" "canonical_slots rt' = canonical_slots rt" "overlay_slots rt' = overlay_slots rt"
    using take_slot_Inr [OF take] by (auto split: if_splits)
  show ?thesis
  proof (rule slot_invI)
    fix l c assume "dict_get (caches ?q) l = Some c"
    then have "layer_balanced rt l c" using slot_invD(3) [OF inv] same by simp
    then show "layer_balanced ?q l c"
      using take_slot_Inr [OF take] new same
      by (cases "raw_role r"; cases "l = layer")
        (auto simp: layer_balanced_def balanced_def raw_in_use_def warm_in_use_def slots_where_set raw warm)
  qed (use slot_invD(1,2) [OF inv] same in simp_all)
qed

lemma take_overlay_inv:
  assumes inv: "slot_inv rt" and take: "take_slot layer True rt = Inr (slot, rt')"
    and new: "dict_get (overlay_slots rt) (layer, rid, page) = None"
  shows "slot_inv (rt'\<lparr>overlay_slots := dict_set (layer, rid, page) slot (overlay_slots rt')\<rparr>)"
proof -
  let ?q = "rt'\<lparr>overlay_slots := dict_set (layer, rid, page) slot (overlay_slots rt')\<rparr>"
  have same: "caches rt' = caches rt" "canonical_slots rt' = canonical_slots rt" "overlay_slots rt' = overlay_slots rt"
    using take_slot_Inr [OF take] by auto
  show ?thesis
  proof (rule slot_invI)
    fix l c assume "dict_get (caches ?q) l = Some c"
    then have "layer_balanced rt l c" using slot_invD(3) [OF inv] same by simp
    then show "layer_balanced ?q l c"
      using take_slot_Inr [OF take] new same
      by (cases "l = layer") (auto simp: layer_balanced_def balanced_def raw_in_use_def warm_in_use_def slots_where_set)
  qed (use slot_invD(1,2) [OF inv] same in simp_all)
qed

lemma canonical_slot_inv:
  assumes "slot_inv rt" and "canonical_slot layer block r rt = Inr (slot, rt')"
  shows "slot_inv rt'"
proof (cases "dict_get (canonical_slots rt) (layer, block, role_int r)")
  case None
  then obtain rt1 where t: "take_slot layer (raw_role r) rt = Inr (slot, rt1)"
    and s: "set_canonical_entry layer block (role_int r) slot
      (rt1\<lparr>canonical_slots := dict_set (layer, block, role_int r) slot (canonical_slots rt1)\<rparr>) = Inr rt'"
    using assms(2) by (auto simp: canonical_slot_def Let_def res_bind_Inr_iff)
  show ?thesis using set_canonical_entry_inv [OF take_canonical_inv [OF assms(1) t None] s] .
qed (use assms in \<open>simp add: canonical_slot_def Let_def\<close>)

lemma overlay_slot_inv:
  assumes "slot_inv rt" and "overlay_slot layer rid page rt = Inr (slot, rt')"
  shows "slot_inv rt'"
proof (cases "dict_get (overlay_slots rt) (layer, rid, page)")
  case None
  then obtain rt1 where t: "take_slot layer True rt = Inr (slot, rt1)"
    and "rt' = rt1\<lparr>overlay_slots := dict_set (layer, rid, page) slot (overlay_slots rt1)\<rparr>"
    using assms(2) by (auto simp: overlay_slot_def Let_def res_bind_Inr_iff)
  then show ?thesis using take_overlay_inv [OF assms(1) t None] by simp
qed (use assms in \<open>simp add: overlay_slot_def Let_def\<close>)

subsection \<open>Releasing a slot\<close>

lemma push_raw_Inr:
  "push_raw layer slot rt = Inr rt' \<longleftrightarrow> (\<exists>f. dict_get (raw_free_slots rt) layer = Some f
     \<and> rt' = rt\<lparr>raw_free_slots := dict_set layer (f @ [slot]) (raw_free_slots rt)\<rparr>)"
  by (auto simp: push_raw_def dict_index_def res_bind_Inr_iff split: option.splits)

lemma push_warm_Inr:
  "push_warm layer slot rt = Inr rt' \<longleftrightarrow> (\<exists>f. dict_get (warm_free_slots rt) layer = Some f
     \<and> rt' = rt\<lparr>warm_free_slots := dict_set layer (f @ [slot]) (warm_free_slots rt)\<rparr>)"
  by (auto simp: push_warm_def dict_index_def res_bind_Inr_iff split: option.splits)

lemma release_overlay_inv:
  assumes inv: "slot_inv rt" and rel: "release_overlay key rt = Inr rt'"
  shows "slot_inv rt'"
proof -
  obtain slot f where k: "dict_get (overlay_slots rt) key = Some slot"
    and f: "dict_get (raw_free_slots rt) (fst key) = Some f"
    and rt': "rt' = rt\<lparr>overlay_slots := dict_pop key (overlay_slots rt),
       raw_free_slots := dict_set (fst key) (f @ [slot]) (raw_free_slots rt)\<rparr>"
    using rel by (auto simp: release_overlay_def dict_index_def res_bind_Inr_iff push_raw_Inr split: option.splits)
  note pop = slots_where_pop [OF k slot_invD(2) [OF inv]]
  show ?thesis
  proof (rule slot_invI)
    fix l c assume "dict_get (caches rt') l = Some c"
    then have "layer_balanced rt l c" using slot_invD(3) [OF inv] rt' by simp
    then show "layer_balanced rt' l c"
      using f pop [of "\<lambda>k. fst k = l"]
      by (cases "l = fst key") (auto simp: layer_balanced_def balanced_def raw_in_use_def warm_in_use_def rt')
  qed (use slot_invD(1,2) [OF inv] rt' in simp_all)
qed

lemma release_request_inv:
  "slot_inv rt \<Longrightarrow> release_request rid rt = Inr rt' \<Longrightarrow> slot_inv rt'"
  unfolding release_request_def using res_fold_invariant [where P = slot_inv] release_overlay_inv by metis

lemma find_released_Inr:
  assumes "find_released d rt = Inr (Some (key, slot, is_raw))"
  shows "dict_get (canonical_slots rt) key = Some slot" and "fst key = d_layer_name d"
    and "snd (snd key) \<in> {0, 1} \<longleftrightarrow> is_raw"
proof -
  have r: "role_int r \<in> {0, 1} \<longleftrightarrow> raw_role r" for r by (cases r) (simp_all add: raw_role_def)
  have w: "\<not> raw_role (warm_role_for_cache c)" for c by (simp add: warm_role_for_cache_def raw_role_def)
  have h: "raw_role HOT_RAW" by (simp add: raw_role_def)
  show "dict_get (canonical_slots rt) key = Some slot" "fst key = d_layer_name d" "snd (snd key) \<in> {0, 1} \<longleftrightarrow> is_raw"
    using assms r [of "role d"] r [of HOT_RAW] r [of "warm_role_for_cache c" for c] w h
    by (auto simp: find_released_def Let_def res_bind_Inr_iff split: option.splits if_splits)
qed

lemma release_canonical_inv:
  assumes inv: "slot_inv rt" and key: "dict_get (canonical_slots rt) key = Some slot"
    and raw: "snd (snd key) \<in> {0, 1} \<longleftrightarrow> is_raw"
    and push: "(if is_raw then push_raw (fst key) slot (rt\<lparr>canonical_slots := dict_pop key (canonical_slots rt)\<rparr>)
               else push_warm (fst key) slot (rt\<lparr>canonical_slots := dict_pop key (canonical_slots rt)\<rparr>)) = Inr rt'"
  shows "slot_inv rt'"
proof -
  note pop = slots_where_pop [OF key slot_invD(1) [OF inv]]
  have rk: "raw_key_of l key \<longleftrightarrow> l = fst key \<and> is_raw" "warm_key_of l key \<longleftrightarrow> l = fst key \<and> \<not> is_raw" for l
    using raw by (auto simp: raw_key_of_def warm_key_of_def)
  show ?thesis
  proof (rule slot_invI)
    fix l c assume "dict_get (caches rt') l = Some c"
    then have "layer_balanced rt l c"
      using slot_invD(3) [OF inv] push by (auto simp: push_raw_Inr push_warm_Inr split: if_splits)
    then show "layer_balanced rt' l c"
      using push pop [of "raw_key_of l"] pop [of "warm_key_of l"] rk [of l]
      by (cases is_raw; cases "l = fst key")
        (auto simp: layer_balanced_def balanced_def raw_in_use_def warm_in_use_def push_raw_Inr push_warm_Inr)
  qed (use slot_invD(1,2) [OF inv] push in \<open>auto simp: push_raw_Inr push_warm_Inr split: if_splits\<close>)
qed

lemma release_descriptor_inv:
  assumes inv: "slot_inv rt" and rel: "release_descriptor d rt = Inr rt'"
  shows "slot_inv rt'"
proof (cases "storage d = REQUEST_OVERLAY")
  case True
  then show ?thesis using rel inv release_overlay_inv by (auto simp: release_descriptor_def Let_def split: if_splits)
next
  case False
  then obtain found where found: "find_released d rt = Inr found"
    and cont: "(case found of None \<Rightarrow> Inr rt
        | Some (key, slot, is_raw) \<Rightarrow>
            res_bind (if is_raw then push_raw (d_layer_name d) slot (rt\<lparr>canonical_slots := dict_pop key (canonical_slots rt)\<rparr>)
                      else push_warm (d_layer_name d) slot (rt\<lparr>canonical_slots := dict_pop key (canonical_slots rt)\<rparr>)) (\<lambda>rt2.
               refresh_logical_descriptor (d_layer_name d) (logical_block_id d) rt2)) = Inr rt'"
    using rel by (auto simp: release_descriptor_def res_bind_Inr_iff Let_def)
  show ?thesis
  proof (cases found)
    case None
    then show ?thesis using cont inv by simp
  next
    case (Some f)
    obtain key slot is_raw where f: "f = (key, slot, is_raw)" by (metis prod_cases3)
    note fr = find_released_Inr [OF found [unfolded Some f]]
    obtain rt2 where push: "(if is_raw then push_raw (fst key) slot (rt\<lparr>canonical_slots := dict_pop key (canonical_slots rt)\<rparr>)
               else push_warm (fst key) slot (rt\<lparr>canonical_slots := dict_pop key (canonical_slots rt)\<rparr>)) = Inr rt2"
      and ref: "refresh_logical_descriptor (d_layer_name d) (logical_block_id d) rt2 = Inr rt'"
      using cont [unfolded Some f option.case prod.case res_bind_Inr_iff, folded fr(2)] fr(2) by metis
    have "slot_inv rt2" using release_canonical_inv [OF inv fr(1,3) push] .
    then show ?thesis
      using ref set_canonical_entry_inv
      by (auto simp: refresh_logical_descriptor_def res_bind_Inr_iff split: list.splits prod.splits)
  qed
qed

section \<open>Events\<close>

lemma apply_descriptor_InrE:
  assumes "apply_descriptor c layer d i rt = Inr rt'"
  obtains e slot rt1 where "e = settle_descriptor c layer rt d"
    and "(if storage e = REQUEST_OVERLAY then overlay_slot layer (d_request_id e) (page_index e) rt
          else canonical_slot layer (logical_block_id e) (role e) rt) = Inr (slot, rt1)"
    and "0 \<le> logical_block_id e" and "logical_block_id e < num_logical_blocks c"
    and "page_index e < tmh_max_model_pages (cache_spec c)"
    and "store_page_entry layer i (page_index e) slot (role_int (role e)) rt1 = Inr rt'"
proof -
  define e where "e = settle_descriptor c layer rt d"
  obtain p u v where g: "res_guard (\<not> (logical_block_id e < 0 \<or> logical_block_id e \<ge> num_logical_blocks c)) RuntimeError = Inr u"
    and p: "(if storage e = REQUEST_OVERLAY then overlay_slot layer (d_request_id e) (page_index e) rt
          else canonical_slot layer (logical_block_id e) (role e) rt) = Inr p"
    and g2: "res_guard (\<not> page_index e \<ge> tmh_max_model_pages (cache_spec c)) RuntimeError = Inr v"
    and st: "store_page_entry layer i (page_index e) (fst p) (role_int (role e)) (snd p) = Inr rt'"
    using assms unfolding apply_descriptor_def Let_def e_def [symmetric] res_bind_Inr_iff case_prod_beta by blast
  show thesis using that [OF e_def, of "fst p" "snd p"] g p g2 st by (simp add: res_guard_Inr_iff)
qed

lemma apply_descriptor_inv:
  assumes "slot_inv rt" and "apply_descriptor c layer d i rt = Inr rt'"
  shows "slot_inv rt'"
  using assms(2)
proof (rule apply_descriptor_InrE)
  fix e slot rt1
  assume p: "(if storage e = REQUEST_OVERLAY then overlay_slot layer (d_request_id e) (page_index e) rt
          else canonical_slot layer (logical_block_id e) (role e) rt) = Inr (slot, rt1)"
    and st: "store_page_entry layer i (page_index e) slot (role_int (role e)) rt1 = Inr rt'"
  have "slot_inv rt1" using p canonical_slot_inv [OF assms(1)] overlay_slot_inv [OF assms(1)] by (auto split: if_splits)
  then show ?thesis using store_page_entry_inv [OF _ st] by blast
qed

lemma apply_event_inv:
  assumes "slot_inv rt" and "apply_event rows ev rt = Inr rt'"
  shows "slot_inv rt'"
proof -
  obtain rt1 rt2 rt3 where
    r1: "res_fold release_request (released_request_ids ev) rt = Inr rt1" and
    r2: "res_fold release_descriptor (released_descriptors ev) rt1 = Inr rt2" and
    r3: "(if e_descriptors ev \<noteq> []
               then res_bind (release_request (e_request_id ev) rt2) (clear_request_rows (e_descriptors ev) rows [])
               else Inr rt2) = Inr rt3" and
    r4: "res_fold (apply_event_descriptor ev rows) (e_descriptors ev) rt3 = Inr rt'"
    using assms(2) unfolding apply_event_def res_bind_Inr_iff by blast
  have "slot_inv rt1" using res_fold_invariant [where P = slot_inv, OF r1 assms(1)] release_request_inv by blast
  then have "slot_inv rt2" using res_fold_invariant [where P = slot_inv, OF r2] release_descriptor_inv by blast
  then have "slot_inv rt3"
    using r3 release_request_inv clear_request_rows_inv by (metis Inr_inject res_bind_Inr_iff)
  moreover have "slot_inv s'" if "slot_inv s" "apply_event_descriptor ev rows d s = Inr s'" for d s s'
    using that(2) apply_descriptor_inv [OF that(1)] by (simp add: apply_event_descriptor_def split: option.splits)
  ultimately show ?thesis by (rule res_fold_invariant [where P = slot_inv, OF r4])
qed

lemma apply_events_inv: "slot_inv rt \<Longrightarrow> apply_events evs rows rt = Inr rt' \<Longrightarrow> slot_inv rt'"
  unfolding apply_events_def using res_fold_invariant [where P = slot_inv] apply_event_inv by metis

lemma register_cache_inv:
  assumes inv: "slot_inv rt" and empty: "canonical_slots rt = []" "overlay_slots rt = []"
  shows "slot_inv (register_cache layer c rt)"
proof (rule slot_invI)
  fix l d assume "dict_get (caches (register_cache layer c rt)) l = Some d"
  then show "layer_balanced (register_cache layer c rt) l d"
    using slot_invD(3) [OF inv, of l d] empty
    by (auto simp: register_cache_def layer_balanced_def balanced_def raw_in_use_def warm_in_use_def slots_where_def
        pool_slots_def split: if_splits)
qed (simp_all add: register_cache_def empty)

lemma build_inv:
  assumes "build_tmh_physical_runtime kv_caches = Some rt"
  shows "slot_inv rt"
proof -
  have "slot_inv (fold (\<lambda>(layer, c). register_cache layer c) xs rt0)
    \<and> canonical_slots (fold (\<lambda>(layer, c). register_cache layer c) xs rt0) = []"
    if "slot_inv rt0" "canonical_slots rt0 = []" "overlay_slots rt0 = []" for xs rt0
    using that
  proof (induction xs arbitrary: rt0)
    case (Cons x xs)
    obtain layer c where "x = (layer, c)" by fastforce
    then show ?case using Cons register_cache_inv [of rt0 layer c] by (simp add: register_cache_def)
  qed simp
  moreover have "slot_inv empty_runtime" by (simp add: slot_inv_def empty_runtime_def)
  ultimately show ?thesis
    using assms by (auto simp: build_tmh_physical_runtime_def empty_runtime_def Let_def split: if_splits)
qed

inductive runtime_reachable :: "tmh_runtime \<Rightarrow> bool" where
  build: "build_tmh_physical_runtime kv_caches = Some rt \<Longrightarrow>
    (\<And>layer c. (layer, Some c) \<in> set kv_caches \<Longrightarrow> \<exists>numel s n. reshape_tmh_physical_kv_cache numel s n = Inr c) \<Longrightarrow>
    runtime_reachable rt"
| events: "runtime_reachable rt \<Longrightarrow> apply_events evs rows rt = Inr rt' \<Longrightarrow> runtime_reachable rt'"

lemma runtime_reachable_inv: "runtime_reachable rt \<Longrightarrow> slot_inv rt"
  by (induction rule: runtime_reachable.induct) (auto intro: build_inv apply_events_inv)

end
