(* ===== verification/TmhPhysicalTables.thy ===== *)
theory TmhPhysicalTables
  imports TmhPhysicalInv
begin

text \<open>
  The tables of the worker runtime keep their shape, the keys of the slot maps stay within the
  registered layers and blocks, and under these conditions every operation of the runtime returns:
  a descriptor consumes at most one slot of its layer, from whichever pool has one.
\<close>

declare split_paired_All [simp del] split_paired_Ex [simp del]

section \<open>Shapes\<close>

definition grid_shaped :: "int \<Rightarrow> int \<Rightarrow> 'a list list \<Rightarrow> bool" where
  "grid_shaped rows cols t \<longleftrightarrow> length t = nat rows \<and> (\<forall>r\<in>set t. length r = nat cols)"

definition cache_shaped :: "tmh_cache \<Rightarrow> bool" where
  "cache_shaped c \<longleftrightarrow>
     length (canonical_role_by_logical_block c) = nat (num_logical_blocks c)
     \<and> length (canonical_slot_by_logical_block c) = nat (num_logical_blocks c)
     \<and> grid_shaped (tmh_max_num_seqs (cache_spec c)) (tmh_max_model_pages (cache_spec c)) (request_slot_by_row_page c)
     \<and> grid_shaped (tmh_max_num_seqs (cache_spec c)) (tmh_max_model_pages (cache_spec c)) (request_role_by_row_page c)
     \<and> grid_shaped (tmh_max_num_seqs (cache_spec c)) (tmh_max_model_pages (cache_spec c)) (native_block_table_by_seq c)"

lemma tensor_pos_ok: "0 \<le> i \<Longrightarrow> i < int (length xs) \<Longrightarrow> tensor_pos xs i = Inr (nat i)"
  by (simp add: tensor_pos_def)

lemma tensor_pos_bound: "tensor_pos xs i = Inr n \<Longrightarrow> n < length xs"
  by (auto simp: tensor_pos_def split: if_splits)

lemma tensor_set_ok: "0 \<le> i \<Longrightarrow> i < int (length xs) \<Longrightarrow> tensor_set i v xs = Inr (xs[nat i := v])"
  by (simp add: tensor_set_def tensor_pos_ok res_simps)

lemma tensor_set_length: "tensor_set i v xs = Inr ys \<Longrightarrow> length ys = length xs"
  by (auto simp: tensor_set_def res_bind_Inr_iff)

lemma grid_row: "grid_shaped rows cols t \<Longrightarrow> i < length t \<Longrightarrow> length (t ! i) = nat cols"
  by (auto simp: grid_shaped_def)

lemma grid_update: "grid_shaped rows cols t \<Longrightarrow> length r = nat cols \<Longrightarrow> grid_shaped rows cols (t[i := r])"
  by (auto simp: grid_shaped_def dest: set_update_subset_insert [THEN subsetD])

lemma tensor_set2_ok:
  assumes "grid_shaped rows cols t" and "0 \<le> i" and "i < rows" and "0 \<le> j" and "j < cols"
  shows "tensor_set2 i j v t = Inr (t[nat i := (t ! nat i)[nat j := v]])"
proof -
  have i: "i < int (length t)" "nat i < length t" using assms by (simp_all add: grid_shaped_def)
  then have "j < int (length (t ! nat i))" using assms grid_row by fastforce
  then show ?thesis using assms i by (simp add: tensor_set2_def tensor_pos_ok tensor_set_ok res_simps)
qed

lemma tensor_set2_shape:
  assumes "tensor_set2 i j v t = Inr u" and "grid_shaped rows cols t"
  shows "grid_shaped rows cols u"
proof -
  obtain n row where n: "tensor_pos t i = Inr n" and row: "tensor_set j v (t ! n) = Inr row" and u: "u = t[n := row]"
    using assms(1) by (auto simp: tensor_set2_def res_bind_Inr_iff)
  show ?thesis
    unfolding u
    by (rule grid_update [OF assms(2)]) (simp add: tensor_set_length [OF row] grid_row [OF assms(2) tensor_pos_bound [OF n]])
qed

lemma tensor_fill_row_ok:
  assumes "grid_shaped rows cols t" and "0 \<le> i" and "i < rows"
  shows "\<exists>u. tensor_fill_row i v t = Inr u"
  using assms by (simp add: tensor_fill_row_def tensor_pos_ok grid_shaped_def res_simps)

lemma tensor_fill_row_shape:
  assumes "tensor_fill_row i v t = Inr u" and "grid_shaped rows cols t"
  shows "grid_shaped rows cols u"
proof -
  obtain n where n: "tensor_pos t i = Inr n" and u: "u = t[n := map (\<lambda>_. v) (t ! n)]"
    using assms(1) by (auto simp: tensor_fill_row_def res_bind_Inr_iff)
  show ?thesis
    unfolding u by (rule grid_update [OF assms(2)]) (simp add: grid_row [OF assms(2) tensor_pos_bound [OF n]])
qed

lemma tmh_tables_fields:
  assumes "tmh_tables s n raw warm (r1, r2, r3, r4, r5) = Inr c"
  shows "cache_shaped c \<and> cache_spec c = s \<and> num_logical_blocks c = n \<and> raw_pages c = raw \<and> warm_pages c = warm
    \<and> raw_kv_cache c = r1 \<and> warm_key c = r2 \<and> warm_value c = r3 \<and> warm_k_scale c = r4 \<and> warm_v_scale c = r5"
  using assms unfolding tmh_tables_def Let_def prod.case
  by (elim res_bind_InrE) (drule Inr_inject, hypsubst, simp add: cache_shaped_def grid_shaped_def)

lemma reshape_shaped:
  assumes "reshape_tmh_physical_kv_cache numel s n = Inr c"
  shows "cache_shaped c"
proof -
  obtain raw warm r where "tmh_tables s n raw warm r = Inr c"
    using assms unfolding reshape_tmh_physical_kv_cache_def Let_def case_prod_beta by (elim res_bind_InrE) blast
  then show ?thesis using tmh_tables_fields by (cases r) blast
qed

section \<open>The state of the tables\<close>

definition table_inv :: "tmh_runtime \<Rightarrow> bool" where
  "table_inv rt \<longleftrightarrow>
     (\<forall>l c. dict_get (caches rt) l = Some c \<longrightarrow>
        cache_shaped c \<and> dict_get (raw_free_slots rt) l \<noteq> None \<and> dict_get (warm_free_slots rt) l \<noteq> None)
     \<and> (\<forall>k slot. dict_get (canonical_slots rt) k = Some slot \<longrightarrow>
        (\<exists>c. dict_get (caches rt) (fst k) = Some c \<and> 0 \<le> fst (snd k) \<and> fst (snd k) < num_logical_blocks c))
     \<and> (\<forall>k slot. dict_get (overlay_slots rt) k = Some slot \<longrightarrow> dict_get (caches rt) (fst k) \<noteq> None)"

text \<open>What no operation changes: the registered layers, their specification and their number of blocks.\<close>

definition fixed_part :: "tmh_runtime \<Rightarrow> string \<Rightarrow> (tmh_spec \<times> int) option" where
  "fixed_part rt l = map_option (\<lambda>c. (cache_spec c, num_logical_blocks c)) (dict_get (caches rt) l)"

definition free_count :: "tmh_runtime \<Rightarrow> string \<Rightarrow> nat" where
  "free_count rt l =
     length (case dict_get (raw_free_slots rt) l of None \<Rightarrow> [] | Some f \<Rightarrow> f)
     + length (case dict_get (warm_free_slots rt) l of None \<Rightarrow> [] | Some f \<Rightarrow> f)"

text \<open>A result that keeps the tables and uses up at most \<open>k l\<close> slots of layer \<open>l\<close>.\<close>

definition settles :: "(string \<Rightarrow> nat) \<Rightarrow> tmh_runtime \<Rightarrow> tmh_runtime \<Rightarrow> bool" where
  "settles k rt rt' \<longleftrightarrow> table_inv rt' \<and> fixed_part rt' = fixed_part rt
     \<and> (\<forall>l. free_count rt l \<le> free_count rt' l + k l)"

lemma settles_refl: "table_inv rt \<Longrightarrow> settles k rt rt"
  by (simp add: settles_def)

lemma settles_trans:
  assumes "settles j rt1 rt2" and "settles k rt2 rt3"
  shows "settles (\<lambda>l. j l + k l) rt1 rt3"
proof -
  have "free_count rt1 l \<le> free_count rt3 l + (j l + k l)" for l
  proof -
    have "free_count rt1 l \<le> free_count rt2 l + j l" "free_count rt2 l \<le> free_count rt3 l + k l"
      using assms by (simp_all add: settles_def)
    then show ?thesis by linarith
  qed
  then show ?thesis using assms by (simp add: settles_def)
qed

lemma table_invD:
  assumes "table_inv rt"
  shows "dict_get (caches rt) l = Some c \<Longrightarrow> cache_shaped c"
    and "dict_get (caches rt) l = Some c \<Longrightarrow> \<exists>f. dict_get (raw_free_slots rt) l = Some f"
    and "dict_get (caches rt) l = Some c \<Longrightarrow> \<exists>f. dict_get (warm_free_slots rt) l = Some f"
    and "dict_get (canonical_slots rt) k = Some slot \<Longrightarrow>
      \<exists>c. dict_get (caches rt) (fst k) = Some c \<and> 0 \<le> fst (snd k) \<and> fst (snd k) < num_logical_blocks c"
    and "dict_get (overlay_slots rt) k' = Some slot \<Longrightarrow> \<exists>c. dict_get (caches rt) (fst k') = Some c"
  using assms unfolding table_inv_def by blast+

lemma fixed_partE:
  assumes "fixed_part rt l = Some (s, n)"
  obtains c where "dict_get (caches rt) l = Some c" and "cache_spec c = s" and "num_logical_blocks c = n"
  using assms by (auto simp: fixed_part_def)

section \<open>Every operation returns\<close>

lemma set_cache_settles:
  assumes "table_inv rt" and "dict_get (caches rt) l = Some c" and "cache_shaped c'"
    and "cache_spec c' = cache_spec c" and "num_logical_blocks c' = num_logical_blocks c"
  shows "settles k rt (rt\<lparr>caches := dict_set l c' (caches rt)\<rparr>)"
proof -
  have "table_inv (rt\<lparr>caches := dict_set l c' (caches rt)\<rparr>)"
    unfolding table_inv_def
  proof (intro conjI allI impI)
    fix k slot assume "dict_get (canonical_slots (rt\<lparr>caches := dict_set l c' (caches rt)\<rparr>)) k = Some slot"
    then show "\<exists>d. dict_get (caches (rt\<lparr>caches := dict_set l c' (caches rt)\<rparr>)) (fst k) = Some d
        \<and> 0 \<le> fst (snd k) \<and> fst (snd k) < num_logical_blocks d"
      using table_invD(4) [OF assms(1), of k slot] assms(2,5) by (cases "fst k = l") auto
  next
    fix m d assume "dict_get (caches (rt\<lparr>caches := dict_set l c' (caches rt)\<rparr>)) m = Some d"
    then show "cache_shaped d"
      "dict_get (raw_free_slots (rt\<lparr>caches := dict_set l c' (caches rt)\<rparr>)) m \<noteq> None"
      "dict_get (warm_free_slots (rt\<lparr>caches := dict_set l c' (caches rt)\<rparr>)) m \<noteq> None"
      using table_invD(1-3) [OF assms(1), of m] assms(2,3) by (auto split: if_splits)
  next
    fix k slot assume "dict_get (overlay_slots (rt\<lparr>caches := dict_set l c' (caches rt)\<rparr>)) k = Some slot"
    then show "dict_get (caches (rt\<lparr>caches := dict_set l c' (caches rt)\<rparr>)) (fst k) \<noteq> None"
      using table_invD(5) [OF assms(1), of k slot] by auto
  qed
  moreover have "fixed_part (rt\<lparr>caches := dict_set l c' (caches rt)\<rparr>) = fixed_part rt"
    using assms(2,4,5) by (auto simp: fixed_part_def fun_eq_iff)
  ultimately show ?thesis by (simp add: settles_def free_count_def)
qed

lemma set_canonical_entry_total:
  assumes "table_inv rt" and "fixed_part rt l = Some (s, n)" and "0 \<le> b" and "b < n"
  shows "\<exists>rt'. set_canonical_entry l b r slot rt = Inr rt' \<and> settles k rt rt'"
  using assms(2)
proof (rule fixed_partE)
  fix c assume c: "dict_get (caches rt) l = Some c" "cache_spec c = s" "num_logical_blocks c = n"
  have len: "b < int (length (canonical_role_by_logical_block c))" "b < int (length (canonical_slot_by_logical_block c))"
    and sh: "cache_shaped c"
    using table_invD(1) [OF assms(1) c(1)] assms(3,4) c(3) by (simp_all add: cache_shaped_def)
  have "cache_shaped (c\<lparr>canonical_role_by_logical_block := (canonical_role_by_logical_block c)[nat b := r],
      canonical_slot_by_logical_block := (canonical_slot_by_logical_block c)[nat b := slot]\<rparr>)"
    using sh by (simp add: cache_shaped_def)
  from set_cache_settles [OF assms(1) c(1) this] show ?thesis
    using c(1) len assms(3) by (simp add: set_canonical_entry_def dict_index_def tensor_set_ok res_simps)
qed

lemma store_page_entry_total:
  assumes "table_inv rt" and "fixed_part rt l = Some (s, n)" and "0 \<le> i" and "i < tmh_max_num_seqs s"
    and "0 \<le> p" and "p < tmh_max_model_pages s"
  shows "\<exists>rt'. store_page_entry l i p slot r rt = Inr rt' \<and> settles k rt rt'"
  using assms(2)
proof (rule fixed_partE)
  fix c assume c: "dict_get (caches rt) l = Some c" "cache_spec c = s" "num_logical_blocks c = n"
  have sh: "cache_shaped c" using table_invD(1) [OF assms(1) c(1)] .
  note ok = tensor_set2_ok [OF _ assms(3-6)]
  have g: "grid_shaped (tmh_max_num_seqs s) (tmh_max_model_pages s) (request_slot_by_row_page c)"
    "grid_shaped (tmh_max_num_seqs s) (tmh_max_model_pages s) (request_role_by_row_page c)"
    "grid_shaped (tmh_max_num_seqs s) (tmh_max_model_pages s) (native_block_table_by_seq c)"
    using sh c(2) by (simp_all add: cache_shaped_def)
  note shp = tensor_set2_shape [OF ok [OF g(1), of slot] g(1)] tensor_set2_shape [OF ok [OF g(2), of r] g(2)]
    tensor_set2_shape [OF ok [OF g(3), of slot] g(3)]
  let ?c = "c\<lparr>request_slot_by_row_page := (request_slot_by_row_page c)[nat i := (request_slot_by_row_page c ! nat i)[nat p := slot]],
      request_role_by_row_page := (request_role_by_row_page c)[nat i := (request_role_by_row_page c ! nat i)[nat p := r]],
      native_block_table_by_seq := (native_block_table_by_seq c)[nat i := (native_block_table_by_seq c ! nat i)[nat p := slot]]\<rparr>"
  have "cache_shaped ?c" using sh c(2) shp by (simp add: cache_shaped_def)
  from set_cache_settles [OF assms(1) c(1) this] show ?thesis
    using c(1) ok [OF g(1)] ok [OF g(2)] ok [OF g(3)]
    by (simp add: store_page_entry_def dict_index_def res_simps)
qed

lemma clear_request_rows_total:
  assumes "table_inv rt"
    and "\<And>d. d \<in> set ds \<Longrightarrow> \<exists>s n i. fixed_part rt (d_layer_name d) = Some (s, n) \<and> dict_get rows (d_request_id d) = Some i
           \<and> 0 \<le> i \<and> i < tmh_max_num_seqs s"
  shows "\<exists>rt'. clear_request_rows ds rows cleared rt = Inr rt' \<and> settles k rt rt'"
  using assms
proof (induction ds arbitrary: rt cleared)
  case Nil
  then show ?case using settles_refl by simp
next
  case (Cons d ds)
  obtain s n i where d: "fixed_part rt (d_layer_name d) = Some (s, n)" "dict_get rows (d_request_id d) = Some i"
    "0 \<le> i" "i < tmh_max_num_seqs s" using Cons.prems(2) [of d] by auto
  show ?case
  proof (cases "(d_layer_name d, i) \<in> set cleared")
    case True
    then show ?thesis using Cons.IH [of rt cleared] Cons.prems d(2) by simp
  next
    case False
    from d(1) obtain c where c: "dict_get (caches rt) (d_layer_name d) = Some c" "cache_spec c = s" "num_logical_blocks c = n"
      by (rule fixed_partE)
    have sh: "cache_shaped c" using table_invD(1) [OF Cons.prems(1) c(1)] .
    have g: "grid_shaped (tmh_max_num_seqs s) (tmh_max_model_pages s) (request_slot_by_row_page c)"
      "grid_shaped (tmh_max_num_seqs s) (tmh_max_model_pages s) (request_role_by_row_page c)"
      "grid_shaped (tmh_max_num_seqs s) (tmh_max_model_pages s) (native_block_table_by_seq c)"
      using sh c(2) by (simp_all add: cache_shaped_def)
    obtain u1 u2 u3 where u: "tensor_fill_row i (-1) (request_slot_by_row_page c) = Inr u1"
      "tensor_fill_row i (-1) (request_role_by_row_page c) = Inr u2" "tensor_fill_row i 0 (native_block_table_by_seq c) = Inr u3"
      using tensor_fill_row_ok [OF g(1) d(3,4)] tensor_fill_row_ok [OF g(2) d(3,4)] tensor_fill_row_ok [OF g(3) d(3,4)] by metis
    let ?c = "c\<lparr>request_slot_by_row_page := u1, request_role_by_row_page := u2, native_block_table_by_seq := u3\<rparr>"
    have "cache_shaped ?c"
      using sh c(2) tensor_fill_row_shape [OF u(1) g(1)] tensor_fill_row_shape [OF u(2) g(2)] tensor_fill_row_shape [OF u(3) g(3)]
      by (simp add: cache_shaped_def)
    from set_cache_settles [OF Cons.prems(1) c(1) this, of "\<lambda>_. 0"]
    have st: "settles (\<lambda>_. 0) rt (rt\<lparr>caches := dict_set (d_layer_name d) ?c (caches rt)\<rparr>)" by simp
    have "\<exists>rt'. clear_request_rows ds rows ((d_layer_name d, i) # cleared) (rt\<lparr>caches := dict_set (d_layer_name d) ?c (caches rt)\<rparr>) = Inr rt'
       \<and> settles k (rt\<lparr>caches := dict_set (d_layer_name d) ?c (caches rt)\<rparr>) rt'"
      using st Cons.prems(2) by (intro Cons.IH) (simp_all add: settles_def)
    then show ?thesis using False d(2) c(1) u settles_trans [OF st, of k] by (auto simp: res_simps)
  qed
qed

section \<open>Releasing returns slots\<close>

lemma table_inv_maps:
  assumes "table_inv rt" and "caches rt' = caches rt"
    and "\<And>l. dict_get (raw_free_slots rt) l \<noteq> None \<Longrightarrow> dict_get (raw_free_slots rt') l \<noteq> None"
    and "\<And>l. dict_get (warm_free_slots rt) l \<noteq> None \<Longrightarrow> dict_get (warm_free_slots rt') l \<noteq> None"
    and "\<And>k v. dict_get (canonical_slots rt') k = Some v \<Longrightarrow> dict_get (canonical_slots rt) k = None \<Longrightarrow>
           \<exists>c. dict_get (caches rt) (fst k) = Some c \<and> 0 \<le> fst (snd k) \<and> fst (snd k) < num_logical_blocks c"
    and "\<And>k v. dict_get (overlay_slots rt') k = Some v \<Longrightarrow> dict_get (overlay_slots rt) k = None \<Longrightarrow>
           dict_get (caches rt) (fst k) \<noteq> None"
  shows "table_inv rt'"
  unfolding table_inv_def assms(2)
proof (intro conjI allI impI)
  fix k v assume "dict_get (canonical_slots rt') k = Some v"
  then show "\<exists>c. dict_get (caches rt) (fst k) = Some c \<and> 0 \<le> fst (snd k) \<and> fst (snd k) < num_logical_blocks c"
    using assms(5) table_invD(4) [OF assms(1)] by (cases "dict_get (canonical_slots rt) k") blast+
next
  fix k v assume "dict_get (overlay_slots rt') k = Some v"
  then show "dict_get (caches rt) (fst k) \<noteq> None"
    using assms(6) table_invD(5) [OF assms(1)] by (cases "dict_get (overlay_slots rt) k") auto
next
  fix l c assume c: "dict_get (caches rt) l = Some c"
  show "cache_shaped c" using table_invD(1) [OF assms(1) c] .
  show "dict_get (raw_free_slots rt') l \<noteq> None" using assms(3) table_invD(2) [OF assms(1) c] by blast
  show "dict_get (warm_free_slots rt') l \<noteq> None" using assms(4) table_invD(3) [OF assms(1) c] by blast
qed

lemma release_overlay_total:
  assumes "table_inv rt" and "dict_get (overlay_slots rt) key = Some slot"
  shows "\<exists>rt'. release_overlay key rt = Inr rt' \<and> settles k rt rt' \<and> overlay_slots rt' = dict_pop key (overlay_slots rt)"
proof -
  obtain c where c: "dict_get (caches rt) (fst key) = Some c" using table_invD(5) [OF assms] by blast
  obtain f where f: "dict_get (raw_free_slots rt) (fst key) = Some f" using table_invD(2) [OF assms(1) c] by blast
  let ?rt = "rt\<lparr>overlay_slots := dict_pop key (overlay_slots rt),
      raw_free_slots := dict_set (fst key) (f @ [slot]) (raw_free_slots rt)\<rparr>"
  have "table_inv ?rt" by (rule table_inv_maps [OF assms(1)]) (auto split: if_splits)
  moreover have "free_count rt l \<le> free_count ?rt l" for l using f by (auto simp: free_count_def)
  ultimately have "settles k rt ?rt" by (simp add: settles_def fixed_part_def fun_eq_iff trans_le_add1)
  then show ?thesis using assms(2) f by (simp add: release_overlay_def push_raw_def dict_index_def res_simps)
qed

lemma release_overlays_total:
  assumes "table_inv rt" and "distinct keys" and "\<And>key. key \<in> set keys \<Longrightarrow> dict_get (overlay_slots rt) key \<noteq> None"
  shows "\<exists>rt'. res_fold release_overlay keys rt = Inr rt' \<and> settles (\<lambda>_. 0) rt rt'"
  using assms
proof (induction keys arbitrary: rt)
  case Nil
  then show ?case using settles_refl by simp
next
  case (Cons key keys)
  obtain slot where "dict_get (overlay_slots rt) key = Some slot" using Cons.prems(3) by fastforce
  from release_overlay_total [OF Cons.prems(1) this, of "\<lambda>_. 0"]
  obtain rt1 where rt1: "release_overlay key rt = Inr rt1" "settles (\<lambda>_. 0) rt rt1"
    "overlay_slots rt1 = dict_pop key (overlay_slots rt)" by blast
  have "\<exists>rt'. res_fold release_overlay keys rt1 = Inr rt' \<and> settles (\<lambda>_. 0) rt1 rt'"
  proof (rule Cons.IH)
    show "table_inv rt1" using rt1(2) by (simp add: settles_def)
    show "distinct keys" using Cons.prems(2) by simp
    show "dict_get (overlay_slots rt1) j \<noteq> None" if "j \<in> set keys" for j
      using that Cons.prems(2,3) rt1(3) by (auto simp: delete_conv')
  qed
  then show ?case using rt1(1) settles_trans [OF rt1(2)] by (fastforce simp: res_simps)
qed

lemma release_request_total:
  assumes "table_inv rt" and "slot_inv rt"
  shows "\<exists>rt'. release_request rid rt = Inr rt' \<and> settles (\<lambda>_. 0) rt rt'"
  unfolding release_request_def
proof (rule release_overlays_total [OF assms(1)])
  show "distinct (filter (\<lambda>key. fst (snd key) = rid) (map fst (overlay_slots rt)))"
    using slot_invD(2) [OF assms(2)] by simp
  show "dict_get (overlay_slots rt) key \<noteq> None" if "key \<in> set (filter (\<lambda>key. fst (snd key) = rid) (map fst (overlay_slots rt)))" for key
    using that by (auto simp: map_of_eq_None_iff)
qed

lemma refresh_total:
  assumes "table_inv rt" and "fixed_part rt l = Some (s, n)" and "0 \<le> b" and "b < n"
  shows "\<exists>rt'. refresh_logical_descriptor l b rt = Inr rt' \<and> settles k rt rt'"
proof -
  obtain c where "dict_get (caches rt) l = Some c" using assms(2) by (rule fixed_partE)
  then show ?thesis
    using set_canonical_entry_total [OF assms, of _ _ k]
    by (auto simp: refresh_logical_descriptor_def dict_index_def res_simps split: list.splits prod.splits)
qed

lemma push_total:
  assumes "table_inv rt" and "fixed_part rt l = Some (s, n)"
  shows "\<exists>rt'. (if is_raw then push_raw l slot (rt\<lparr>canonical_slots := dict_pop key (canonical_slots rt)\<rparr>)
      else push_warm l slot (rt\<lparr>canonical_slots := dict_pop key (canonical_slots rt)\<rparr>)) = Inr rt' \<and> settles k rt rt'"
proof -
  obtain c where c: "dict_get (caches rt) l = Some c" using assms(2) by (rule fixed_partE)
  obtain f g where f: "dict_get (raw_free_slots rt) l = Some f" and g: "dict_get (warm_free_slots rt) l = Some g"
    using table_invD(2,3) [OF assms(1) c] by blast
  let ?raw = "rt\<lparr>canonical_slots := dict_pop key (canonical_slots rt), raw_free_slots := dict_set l (f @ [slot]) (raw_free_slots rt)\<rparr>"
  let ?warm = "rt\<lparr>canonical_slots := dict_pop key (canonical_slots rt), warm_free_slots := dict_set l (g @ [slot]) (warm_free_slots rt)\<rparr>"
  have "table_inv ?raw" "table_inv ?warm" by (rule table_inv_maps [OF assms(1)]; auto split: if_splits)+
  moreover have "free_count rt m \<le> free_count ?raw m" "free_count rt m \<le> free_count ?warm m" for m
    using f g by (auto simp: free_count_def)
  ultimately have "settles k rt ?raw" "settles k rt ?warm" by (simp_all add: settles_def fixed_part_def fun_eq_iff trans_le_add1)
  then show ?thesis using f g by (auto simp: push_raw_def push_warm_def dict_index_def res_simps)
qed

lemma release_descriptor_total:
  assumes "table_inv rt" and "fixed_part rt (d_layer_name d) = Some (s, n)"
  shows "\<exists>rt'. release_descriptor d rt = Inr rt' \<and> settles (\<lambda>_. 0) rt rt'"
proof (cases "storage d = REQUEST_OVERLAY")
  case True
  then show ?thesis
    using release_overlay_total [OF assms(1), of "(d_layer_name d, d_request_id d, page_index d)" _ "\<lambda>_. 0"] settles_refl [OF assms(1)]
    by (auto simp: release_descriptor_def Let_def)
next
  case False
  obtain c where c: "dict_get (caches rt) (d_layer_name d) = Some c" "num_logical_blocks c = n" using assms(2) by (rule fixed_partE) blast
  then have "\<exists>found. find_released d rt = Inr found"
    by (cases "dict_get (canonical_slots rt) (d_layer_name d, logical_block_id d, role_int (role d))")
      (simp_all add: find_released_def Let_def dict_index_def res_simps)
  then obtain found where found: "find_released d rt = Inr found" by blast
  show ?thesis
  proof (cases found)
    case None
    then show ?thesis using False found settles_refl [OF assms(1)] by (simp add: release_descriptor_def res_simps)
  next
    case (Some x)
    obtain key slot is_raw where x: "x = (key, slot, is_raw)" by (metis prod_cases3)
    note fr = find_released_Inr [OF found [unfolded Some x]]
    have b: "fst (snd key) = logical_block_id d"
      using found Some x by (auto simp: find_released_def Let_def res_bind_Inr_iff split: option.splits if_splits)
    then have block: "0 \<le> logical_block_id d" "logical_block_id d < n" using table_invD(4) [OF assms(1) fr(1)] fr(2) c by auto
    obtain rt2 where rt2: "(if is_raw then push_raw (d_layer_name d) slot (rt\<lparr>canonical_slots := dict_pop key (canonical_slots rt)\<rparr>)
      else push_warm (d_layer_name d) slot (rt\<lparr>canonical_slots := dict_pop key (canonical_slots rt)\<rparr>)) = Inr rt2" "settles (\<lambda>_. 0) rt rt2"
      using push_total [OF assms, where k = "\<lambda>_. 0"] by blast
    then have t: "table_inv rt2" "fixed_part rt2 (d_layer_name d) = Some (s, n)" using assms(2) by (simp_all add: settles_def)
    obtain rt3 where rt3: "refresh_logical_descriptor (d_layer_name d) (logical_block_id d) rt2 = Inr rt3" "settles (\<lambda>_. 0) rt2 rt3"
      using refresh_total [OF t block, where k = "\<lambda>_. 0"] by blast
    have "release_descriptor d rt = Inr rt3"
      using False found Some x rt2(1) rt3(1) by (simp add: release_descriptor_def Let_def res_simps split: if_splits)
    then show ?thesis using settles_trans [OF rt2(2) rt3(2)] by auto
  qed
qed

section \<open>A descriptor takes at most one slot\<close>

definition pool_ready :: "string \<Rightarrow> bool \<Rightarrow> tmh_runtime \<Rightarrow> bool" where
  "pool_ready l wants_raw rt \<longleftrightarrow>
     (if wants_raw then raw_available l rt else \<exists>f. dict_get (warm_free_slots rt) l = Some f \<and> f \<noteq> [])"

definition one_slot :: "string \<Rightarrow> string \<Rightarrow> nat" where
  "one_slot l = (\<lambda>m. if m = l then 1 else 0)"

lemma take_slot_total:
  assumes "pool_ready l wants_raw rt"
  shows "\<exists>slot rt'. take_slot l wants_raw rt = Inr (slot, rt') \<and> caches rt' = caches rt
    \<and> canonical_slots rt' = canonical_slots rt \<and> overlay_slots rt' = overlay_slots rt
    \<and> (\<forall>m. dict_get (raw_free_slots rt) m \<noteq> None \<longrightarrow> dict_get (raw_free_slots rt') m \<noteq> None)
    \<and> (\<forall>m. dict_get (warm_free_slots rt) m \<noteq> None \<longrightarrow> dict_get (warm_free_slots rt') m \<noteq> None)
    \<and> (\<forall>m. free_count rt m \<le> free_count rt' m + one_slot l m)"
proof -
  obtain f where f: "dict_get (if wants_raw then raw_free_slots rt else warm_free_slots rt) l = Some f" "f \<noteq> []"
    using assms by (auto simp: pool_ready_def raw_available_def split: if_splits option.splits)
  then show ?thesis by (cases wants_raw) (simp_all add: take_slot_def dict_index_def res_simps free_count_def one_slot_def)
qed

lemma canonical_slot_total:
  assumes "table_inv rt" and "fixed_part rt l = Some (s, n)" and "0 \<le> b" and "b < n"
    and "dict_get (canonical_slots rt) (l, b, role_int r) \<noteq> None \<or> pool_ready l (raw_role r) rt"
  shows "\<exists>slot rt'. canonical_slot l b r rt = Inr (slot, rt') \<and> settles (one_slot l) rt rt'"
proof (cases "dict_get (canonical_slots rt) (l, b, role_int r)")
  case (Some slot)
  then show ?thesis using settles_refl [OF assms(1)] by (simp add: canonical_slot_def)
next
  case None
  then obtain slot rt1 where t: "take_slot l (raw_role r) rt = Inr (slot, rt1)" "caches rt1 = caches rt"
    "canonical_slots rt1 = canonical_slots rt" "overlay_slots rt1 = overlay_slots rt"
    "\<And>m. dict_get (raw_free_slots rt) m \<noteq> None \<Longrightarrow> dict_get (raw_free_slots rt1) m \<noteq> None"
    "\<And>m. dict_get (warm_free_slots rt) m \<noteq> None \<Longrightarrow> dict_get (warm_free_slots rt1) m \<noteq> None"
    "\<And>m. free_count rt m \<le> free_count rt1 m + one_slot l m"
    using take_slot_total [of l "raw_role r" rt] assms(5) by blast
  obtain c where c: "dict_get (caches rt) l = Some c" "num_logical_blocks c = n" using assms(2) by (rule fixed_partE) blast
  let ?rt2 = "rt1\<lparr>canonical_slots := dict_set (l, b, role_int r) slot (canonical_slots rt1)\<rparr>"
  have inv: "table_inv ?rt2"
    by (rule table_inv_maps [OF assms(1)]) (use t(2-6) c assms(3,4) in \<open>auto split: if_splits\<close>)
  have st: "settles (one_slot l) rt ?rt2"
    using inv t(2,7) by (simp add: settles_def fixed_part_def fun_eq_iff free_count_def)
  have fp: "fixed_part ?rt2 l = Some (s, n)" using assms(2) t(2) by (simp add: fixed_part_def)
  obtain rt3 where rt3: "set_canonical_entry l b (role_int r) slot ?rt2 = Inr rt3" "settles (\<lambda>_. 0) ?rt2 rt3"
    using set_canonical_entry_total [OF inv fp assms(3,4), where k = "\<lambda>_. 0"] by blast
  then show ?thesis using None t(1) settles_trans [OF st rt3(2)] by (simp add: canonical_slot_def Let_def res_simps)
qed

lemma overlay_slot_total:
  assumes "table_inv rt" and "fixed_part rt l = Some (s, n)" and "pool_ready l True rt"
  shows "\<exists>slot rt'. overlay_slot l rid p rt = Inr (slot, rt') \<and> settles (one_slot l) rt rt'"
proof (cases "dict_get (overlay_slots rt) (l, rid, p)")
  case (Some slot)
  then show ?thesis using settles_refl [OF assms(1)] by (simp add: overlay_slot_def)
next
  case None
  obtain slot rt1 where t: "take_slot l True rt = Inr (slot, rt1)" "caches rt1 = caches rt"
    "canonical_slots rt1 = canonical_slots rt" "overlay_slots rt1 = overlay_slots rt"
    "\<And>m. dict_get (raw_free_slots rt) m \<noteq> None \<Longrightarrow> dict_get (raw_free_slots rt1) m \<noteq> None"
    "\<And>m. dict_get (warm_free_slots rt) m \<noteq> None \<Longrightarrow> dict_get (warm_free_slots rt1) m \<noteq> None"
    "\<And>m. free_count rt m \<le> free_count rt1 m + one_slot l m"
    using take_slot_total [OF assms(3)] by blast
  obtain c where c: "dict_get (caches rt) l = Some c" using assms(2) by (rule fixed_partE)
  let ?rt2 = "rt1\<lparr>overlay_slots := dict_set (l, rid, p) slot (overlay_slots rt1)\<rparr>"
  have "table_inv ?rt2"
    by (rule table_inv_maps [OF assms(1)]) (use t(2-6) c in \<open>auto split: if_splits\<close>)
  then have "settles (one_slot l) rt ?rt2"
    using t(2,7) by (simp add: settles_def fixed_part_def fun_eq_iff free_count_def)
  then show ?thesis using None t(1) by (simp add: overlay_slot_def Let_def res_simps)
qed

lemma descriptor_with_role_fields [simp]:
  "logical_block_id (descriptor_with_role d r) = logical_block_id d" "page_index (descriptor_with_role d r) = page_index d"
  "d_request_id (descriptor_with_role d r) = d_request_id d" "d_layer_name (descriptor_with_role d r) = d_layer_name d"
  "role (descriptor_with_role d r) = r" "storage (descriptor_with_role d r) = storage_kind_for_role r (prefix_cached d)"
  by (simp_all add: descriptor_with_role_def case_prod_beta Let_def)

lemma settle_descriptor_fields [simp]:
  "logical_block_id (settle_descriptor c l rt d) = logical_block_id d" "page_index (settle_descriptor c l rt d) = page_index d"
  "d_request_id (settle_descriptor c l rt d) = d_request_id d"
  by (simp_all add: settle_descriptor_def promote_to_raw_when_available_def demote_overlay_to_warm_when_raw_exhausted_def
      demote_canonical_to_warm_when_raw_exhausted_def)

lemma effective_descriptor_fields [simp]:
  "logical_block_id (effective_descriptor c d t) = logical_block_id d" "page_index (effective_descriptor c d t) = page_index d"
  "d_request_id (effective_descriptor c d t) = d_request_id d"
  by (simp_all add: effective_descriptor_def Let_def)

lemma warm_role_canonical [simp]: "\<not> raw_role (warm_role_for_cache c)" "storage_kind_for_role (warm_role_for_cache c) p = CANONICAL"
  by (simp_all add: warm_role_for_cache_def raw_role_def storage_kind_for_role_def)

lemma settled_ready:
  assumes "0 < free_count rt l" and "e = settle_descriptor c l rt d"
  shows "if storage e = REQUEST_OVERLAY then pool_ready l True rt
    else dict_get (canonical_slots rt) (l, logical_block_id d, role_int (role e)) \<noteq> None \<or> pool_ready l (raw_role (role e)) rt"
proof -
  have raw: "raw_role HOT_RAW" by (simp add: raw_role_def)
  have warm: "pool_ready l False rt" if "\<not> raw_available l rt"
    using that assms(1) by (auto simp: pool_ready_def raw_available_def free_count_def split: option.splits)
  show ?thesis
    using warm raw unfolding assms(2)
    by (cases "storage d") (auto simp: settle_descriptor_def promote_to_raw_when_available_def pool_ready_def [of _ True]
        demote_overlay_to_warm_when_raw_exhausted_def demote_canonical_to_warm_when_raw_exhausted_def split: if_splits)
qed

lemma apply_descriptor_total:
  assumes "table_inv rt" and "dict_get (caches rt) l = Some c" and "0 < free_count rt l"
    and "0 \<le> logical_block_id d" and "logical_block_id d < num_logical_blocks c"
    and "0 \<le> page_index d" and "page_index d < tmh_max_model_pages (cache_spec c)"
    and "0 \<le> i" and "i < tmh_max_num_seqs (cache_spec c)"
  shows "\<exists>rt'. apply_descriptor c l d i rt = Inr rt' \<and> settles (one_slot l) rt rt'"
proof -
  define e where "e = settle_descriptor c l rt d"
  have f: "logical_block_id e = logical_block_id d" "page_index e = page_index d" by (simp_all add: e_def)
  have fp: "fixed_part rt l = Some (cache_spec c, num_logical_blocks c)" using assms(2) by (simp add: fixed_part_def)
  obtain slot rt1 where s1: "(if storage e = REQUEST_OVERLAY then overlay_slot l (d_request_id e) (page_index e) rt
        else canonical_slot l (logical_block_id e) (role e) rt) = Inr (slot, rt1)" "settles (one_slot l) rt rt1"
    using settled_ready [OF assms(3) e_def] overlay_slot_total [OF assms(1) fp] canonical_slot_total [OF assms(1) fp assms(4,5)] f(1)
    by (cases "storage e = REQUEST_OVERLAY") (auto, blast+)
  have t: "table_inv rt1" "fixed_part rt1 l = Some (cache_spec c, num_logical_blocks c)" using s1(2) fp by (simp_all add: settles_def)
  obtain rt2 where s2: "store_page_entry l i (page_index e) slot (role_int (role e)) rt1 = Inr rt2" "settles (\<lambda>_. 0) rt1 rt2"
    using store_page_entry_total [OF t assms(8,9) assms(6,7), where k = "\<lambda>_. 0"] f(2) by metis
  have "apply_descriptor c l d i rt = Inr rt2"
    using s1(1) s2(1) assms(4,5,7) f unfolding apply_descriptor_def Let_def e_def [symmetric] by (simp add: res_simps)
  then show ?thesis using settles_trans [OF s1(2) s2(2)] by auto
qed

section \<open>The tables of a reachable runtime\<close>

lemma set_canonical_entry_table:
  assumes "table_inv rt" and "set_canonical_entry l b r slot rt = Inr rt'"
  shows "settles k rt rt'"
proof -
  obtain c roles slots where c: "dict_get (caches rt) l = Some c" and
    r: "tensor_set b r (canonical_role_by_logical_block c) = Inr roles" "tensor_set b slot (canonical_slot_by_logical_block c) = Inr slots" and
    rt': "rt' = rt\<lparr>caches := dict_set l (c\<lparr>canonical_role_by_logical_block := roles, canonical_slot_by_logical_block := slots\<rparr>) (caches rt)\<rparr>"
    using assms(2) by (auto simp: set_canonical_entry_def dict_index_def res_bind_Inr_iff split: option.splits)
  show ?thesis
    unfolding rt' using table_invD(1) [OF assms(1) c] r
    by (intro set_cache_settles [OF assms(1) c]) (auto simp: cache_shaped_def dest: tensor_set_length)
qed

lemma store_page_entry_table:
  assumes "table_inv rt" and "store_page_entry l i p slot r rt = Inr rt'"
  shows "settles k rt rt'"
proof -
  obtain c t1 t2 t3 where c: "dict_get (caches rt) l = Some c" and
    t: "tensor_set2 i p slot (request_slot_by_row_page c) = Inr t1" "tensor_set2 i p r (request_role_by_row_page c) = Inr t2"
      "tensor_set2 i p slot (native_block_table_by_seq c) = Inr t3" and
    rt': "rt' = rt\<lparr>caches := dict_set l (c\<lparr>request_slot_by_row_page := t1, request_role_by_row_page := t2,
      native_block_table_by_seq := t3\<rparr>) (caches rt)\<rparr>"
    using assms(2) by (auto simp: store_page_entry_def dict_index_def res_bind_Inr_iff split: option.splits)
  show ?thesis
    unfolding rt' using table_invD(1) [OF assms(1) c] t
    by (intro set_cache_settles [OF assms(1) c]) (auto simp: cache_shaped_def dest: tensor_set2_shape)
qed

lemma clear_request_rows_table:
  "clear_request_rows ds rows cleared rt = Inr rt' \<Longrightarrow> table_inv rt \<Longrightarrow> table_inv rt'"
proof (induction ds rows cleared rt rule: clear_request_rows.induct)
  case (2 d ds rows cleared rt)
  obtain i where i: "dict_get rows (d_request_id d) = Some i" using 2(3) by (auto split: option.splits)
  show ?case
  proof (cases "(d_layer_name d, i) \<in> set cleared")
    case True
    then show ?thesis using 2 i by simp
  next
    case False
    obtain c t1 t2 t3 where c: "dict_get (caches rt) (d_layer_name d) = Some c" and
      t: "tensor_fill_row i (-1) (request_slot_by_row_page c) = Inr t1" "tensor_fill_row i (-1) (request_role_by_row_page c) = Inr t2"
        "tensor_fill_row i 0 (native_block_table_by_seq c) = Inr t3" and
      rest: "clear_request_rows ds rows ((d_layer_name d, i) # cleared)
        (rt\<lparr>caches := dict_set (d_layer_name d) (c\<lparr>request_slot_by_row_page := t1, request_role_by_row_page := t2,
          native_block_table_by_seq := t3\<rparr>) (caches rt)\<rparr>) = Inr rt'"
      using 2(3) i False by (auto simp: res_bind_Inr_iff split: option.splits)
    have "settles (\<lambda>_. 0) rt (rt\<lparr>caches := dict_set (d_layer_name d) (c\<lparr>request_slot_by_row_page := t1, request_role_by_row_page := t2,
        native_block_table_by_seq := t3\<rparr>) (caches rt)\<rparr>)"
      using table_invD(1) [OF 2(4) c] t
      by (intro set_cache_settles [OF 2(4) c]) (auto simp: cache_shaped_def dest: tensor_fill_row_shape)
    then show ?thesis using 2(2) i False c t rest by (simp add: settles_def)
  qed
qed simp

lemma release_descriptor_settles:
  assumes "table_inv rt" and "release_descriptor d rt = Inr rt'"
  shows "settles (\<lambda>_. 0) rt rt'"
proof (cases "fixed_part rt (d_layer_name d)")
  case (Some f)
  obtain s n where "f = (s, n)" by fastforce
  then show ?thesis using release_descriptor_total [OF assms(1)] Some assms(2) by fastforce
next
  case None
  then have c: "dict_get (caches rt) (d_layer_name d) = None" by (simp add: fixed_part_def)
  have "dict_get (canonical_slots rt) (d_layer_name d, b, r) = None" for b r
    using table_invD(4) [OF assms(1), of "(d_layer_name d, b, r)"] c by (cases "dict_get (canonical_slots rt) (d_layer_name d, b, r)") auto
  moreover have "dict_get (overlay_slots rt) (d_layer_name d, r, p) = None" for r p
    using table_invD(5) [OF assms(1), of "(d_layer_name d, r, p)"] c by (cases "dict_get (overlay_slots rt) (d_layer_name d, r, p)") auto
  ultimately have "rt' = rt"
    using assms(2) c by (auto simp: release_descriptor_def find_released_def dict_index_def Let_def res_simps split: if_splits)
  then show ?thesis using assms(1) settles_refl by simp
qed

lemma release_descriptor_table:
  assumes "table_inv rt" and "release_descriptor d rt = Inr rt'"
  shows "table_inv rt'"
  using release_descriptor_settles [OF assms] by (simp add: settles_def)

lemma apply_descriptor_table:
  assumes "table_inv rt" and "dict_get (caches rt) l = Some c" and "apply_descriptor c l d i rt = Inr rt'"
  shows "table_inv rt'"
  using assms(3)
proof (rule apply_descriptor_InrE)
  fix e slot rt1
  assume sl: "(if storage e = REQUEST_OVERLAY then overlay_slot l (d_request_id e) (page_index e) rt
          else canonical_slot l (logical_block_id e) (role e) rt) = Inr (slot, rt1)"
    and b: "0 \<le> logical_block_id e" "logical_block_id e < num_logical_blocks c"
    and st: "store_page_entry l i (page_index e) slot (role_int (role e)) rt1 = Inr rt'"
  have fp: "fixed_part rt l = Some (cache_spec c, num_logical_blocks c)" using assms(2) by (simp add: fixed_part_def)
  have ready: "pool_ready l w rt" if "take_slot l w rt = Inr x" for w x
    using that by (auto simp: take_slot_def dict_index_def pool_ready_def raw_available_def res_bind_Inr_iff split: if_splits option.splits)
  have "table_inv rt1"
  proof (cases "storage e = REQUEST_OVERLAY")
    case True
    then have ov: "overlay_slot l (d_request_id e) (page_index e) rt = Inr (slot, rt1)" using sl by simp
    show ?thesis
    proof (cases "dict_get (overlay_slots rt) (l, d_request_id e, page_index e)")
      case None
      then obtain x where "take_slot l True rt = Inr x" using ov by (auto simp: overlay_slot_def res_bind_Inr_iff)
      then have "pool_ready l True rt" by (rule ready)
      from overlay_slot_total [OF assms(1) fp this] show ?thesis using ov by (metis Inr_inject prod.inject settles_def)
    qed (use ov assms(1) in \<open>simp add: overlay_slot_def\<close>)
  next
    case False
    then have ca: "canonical_slot l (logical_block_id e) (role e) rt = Inr (slot, rt1)" using sl by simp
    have "dict_get (canonical_slots rt) (l, logical_block_id e, role_int (role e)) \<noteq> None \<or> pool_ready l (raw_role (role e)) rt"
      using ca ready by (cases "dict_get (canonical_slots rt) (l, logical_block_id e, role_int (role e))")
        (auto simp: canonical_slot_def res_bind_Inr_iff)
    then show ?thesis using canonical_slot_total [OF assms(1) fp b] ca by (fastforce simp: settles_def)
  qed
  then show ?thesis using store_page_entry_table [OF _ st] by (auto simp: settles_def)
qed

lemma apply_event_table:
  assumes "table_inv rt" and "slot_inv rt" and "apply_event rows ev rt = Inr rt'"
  shows "table_inv rt' \<and> slot_inv rt'"
proof -
  obtain rt1 rt2 rt3 where
    r1: "res_fold release_request (released_request_ids ev) rt = Inr rt1" and
    r2: "res_fold release_descriptor (released_descriptors ev) rt1 = Inr rt2" and
    r3: "(if e_descriptors ev \<noteq> []
               then res_bind (release_request (e_request_id ev) rt2) (clear_request_rows (e_descriptors ev) rows [])
               else Inr rt2) = Inr rt3" and
    r4: "res_fold (apply_event_descriptor ev rows) (e_descriptors ev) rt3 = Inr rt'"
    using assms(3) unfolding apply_event_def res_bind_Inr_iff by blast
  have rel: "table_inv s' \<and> slot_inv s'" if "table_inv s \<and> slot_inv s" "release_request rid s = Inr s'" for rid s s'
    using release_request_total [of s rid] release_request_inv [of s rid s'] that by (auto simp: settles_def)
  have "table_inv rt1 \<and> slot_inv rt1"
    using res_fold_invariant [where P = "\<lambda>s. table_inv s \<and> slot_inv s", OF r1] assms(1,2) rel by blast
  then have i2: "table_inv rt2 \<and> slot_inv rt2"
    using res_fold_invariant [where P = "\<lambda>s. table_inv s \<and> slot_inv s", OF r2] release_descriptor_table release_descriptor_inv by blast
  have i3: "table_inv rt3 \<and> slot_inv rt3"
  proof (cases "e_descriptors ev = []")
    case False
    then obtain s where s: "release_request (e_request_id ev) rt2 = Inr s" "clear_request_rows (e_descriptors ev) rows [] s = Inr rt3"
      using r3 by (auto simp: res_bind_Inr_iff)
    then show ?thesis using rel [OF i2 s(1)] clear_request_rows_table [OF s(2)] clear_request_rows_inv [OF s(2)] by blast
  qed (use r3 i2 in simp)
  have "table_inv s' \<and> slot_inv s'" if s: "table_inv s \<and> slot_inv s" and ap: "apply_event_descriptor ev rows d s = Inr s'" for d s s'
  proof -
    obtain c i where "dict_get (caches s) (d_layer_name d) = Some c"
      "apply_descriptor c (d_layer_name d) (effective_descriptor c d (e_total_pages ev)) i s = Inr s'"
      using ap by (auto simp: apply_event_descriptor_def split: option.splits)
    then show ?thesis using apply_descriptor_table apply_descriptor_inv s by blast
  qed
  then show ?thesis using res_fold_invariant [where P = "\<lambda>s. table_inv s \<and> slot_inv s", OF r4 i3] by blast
qed

lemma register_cache_table:
  assumes "table_inv rt" and "canonical_slots rt = []" and "overlay_slots rt = []" and "cache_shaped c"
  shows "table_inv (register_cache layer c rt)"
  using assms by (auto simp: table_inv_def register_cache_def split: if_splits)

lemma build_table:
  assumes "build_tmh_physical_runtime kv_caches = Some rt" and "\<And>layer c. (layer, Some c) \<in> set kv_caches \<Longrightarrow> cache_shaped c"
  shows "table_inv rt"
proof -
  have "table_inv (fold (\<lambda>(layer, c). register_cache layer c) xs rt0)"
    if "table_inv rt0" "canonical_slots rt0 = []" "overlay_slots rt0 = []" "\<And>layer c. (layer, c) \<in> set xs \<Longrightarrow> cache_shaped c" for xs rt0
    using that
  proof (induction xs arbitrary: rt0)
    case (Cons x xs)
    obtain layer c where x: "x = (layer, c)" by fastforce
    have "table_inv (register_cache layer c rt0)" using Cons.prems x by (intro register_cache_table) auto
    then have "table_inv (fold (\<lambda>(layer, c). register_cache layer c) xs (register_cache layer c rt0))"
      using Cons.prems by (intro Cons.IH) (auto simp: register_cache_def)
    then show ?case by (simp add: x)
  qed simp
  moreover have "table_inv empty_runtime" by (simp add: table_inv_def empty_runtime_def)
  moreover have "cache_shaped c" if "(layer, c) \<in> set (List.map_filter (\<lambda>(layer, c). map_option (\<lambda>c. (layer, c)) c) kv_caches)" for layer c
    using that assms(2) by (auto simp: map_filter_def)
  ultimately show ?thesis
    using assms(1) by (auto simp: build_tmh_physical_runtime_def empty_runtime_def Let_def split: if_splits)
qed

lemma runtime_reachable_tables: "runtime_reachable rt \<Longrightarrow> table_inv rt \<and> slot_inv rt"
proof (induction rule: runtime_reachable.induct)
  case (build kv_caches rt)
  then show ?case using build_table reshape_shaped build_inv by metis
next
  case (events rt evs rows rt')
  show ?case
    using res_fold_invariant [where P = "\<lambda>s. table_inv s \<and> slot_inv s", OF events(2) [unfolded apply_events_def] events(3)]
      apply_event_table by blast
qed

section \<open>Events are applied while the pools have room\<close>

definition placeable :: "(string, int) dict \<Rightarrow> tmh_runtime \<Rightarrow> descriptor \<Rightarrow> bool" where
  "placeable rows rt d \<longleftrightarrow>
     (case fixed_part rt (d_layer_name d) of
        None \<Rightarrow> False
      | Some (s, n) \<Rightarrow> 0 \<le> logical_block_id d \<and> logical_block_id d < n \<and> 0 \<le> page_index d \<and> page_index d < tmh_max_model_pages s
          \<and> (case dict_get rows (d_request_id d) of None \<Rightarrow> False | Some i \<Rightarrow> 0 \<le> i \<and> i < tmh_max_num_seqs s))"

definition layer_demand :: "descriptor list \<Rightarrow> string \<Rightarrow> nat" where
  "layer_demand ds l = length (filter (\<lambda>d. d_layer_name d = l) ds)"

lemma placeable_settles: "settles k rt rt' \<Longrightarrow> placeable rows rt' d = placeable rows rt d"
  by (simp add: placeable_def settles_def)

lemma place_all:
  assumes "table_inv rt" and "\<And>d. d \<in> set ds \<Longrightarrow> placeable rows rt d" and "\<And>l. layer_demand ds l \<le> free_count rt l"
  shows "\<exists>rt'. res_fold (apply_event_descriptor ev rows) ds rt = Inr rt'"
  using assms
proof (induction ds arbitrary: rt)
  case (Cons d ds)
  let ?l = "d_layer_name d"
  obtain s n i where f: "fixed_part rt ?l = Some (s, n)" "0 \<le> logical_block_id d" "logical_block_id d < n" "0 \<le> page_index d"
    "page_index d < tmh_max_model_pages s" "dict_get rows (d_request_id d) = Some i" "0 \<le> i" "i < tmh_max_num_seqs s"
    using Cons.prems(2) [of d] by (auto simp: placeable_def split: option.splits)
  obtain c where c: "dict_get (caches rt) ?l = Some c" "cache_spec c = s" "num_logical_blocks c = n" using f(1) by (rule fixed_partE)
  have "0 < free_count rt ?l" using Cons.prems(3) [of ?l] by (simp add: layer_demand_def)
  then obtain rt1 where rt1: "apply_event_descriptor ev rows d rt = Inr rt1" "settles (one_slot ?l) rt rt1"
    using apply_descriptor_total [OF Cons.prems(1) c(1), of "effective_descriptor c d (e_total_pages ev)" i] f c
    by (auto simp: apply_event_descriptor_def)
  have "layer_demand ds l \<le> free_count rt1 l" for l
  proof -
    have "free_count rt l \<le> free_count rt1 l + one_slot ?l l" using rt1(2) by (simp add: settles_def)
    then show ?thesis using Cons.prems(3) [of l] by (auto simp: layer_demand_def one_slot_def split: if_splits)
  qed
  then have "\<exists>rt'. res_fold (apply_event_descriptor ev rows) ds rt1 = Inr rt'"
    using rt1(2) Cons.prems(2) placeable_settles [OF rt1(2)] by (intro Cons.IH) (auto simp: settles_def)
  then show ?case using rt1(1) by (simp add: res_simps)
qed simp

lemma release_requests_total:
  assumes "table_inv rt" and "slot_inv rt"
  shows "\<exists>rt'. res_fold release_request rids rt = Inr rt' \<and> settles (\<lambda>_. 0) rt rt' \<and> slot_inv rt'"
  using assms
proof (induction rids arbitrary: rt)
  case (Cons rid rids)
  obtain rt1 where rt1: "release_request rid rt = Inr rt1" "settles (\<lambda>_. 0) rt rt1"
    using release_request_total [OF Cons.prems] by blast
  obtain rt2 where rt2: "res_fold release_request rids rt1 = Inr rt2" "settles (\<lambda>_. 0) rt1 rt2" "slot_inv rt2"
    using Cons.IH [of rt1] rt1 release_request_inv [OF Cons.prems(2) rt1(1)] by (auto simp: settles_def)
  then show ?case using rt1(1) settles_trans [OF rt1(2) rt2(2)] by (simp add: res_simps)
qed (use settles_refl in simp)

lemma release_descriptors_total:
  assumes "table_inv rt" and "slot_inv rt" and "\<And>d. d \<in> set ds \<Longrightarrow> fixed_part rt (d_layer_name d) \<noteq> None"
  shows "\<exists>rt'. res_fold release_descriptor ds rt = Inr rt' \<and> settles (\<lambda>_. 0) rt rt' \<and> slot_inv rt'"
  using assms
proof (induction ds arbitrary: rt)
  case (Cons d ds)
  obtain s n where "fixed_part rt (d_layer_name d) = Some (s, n)" using Cons.prems(3) [of d] by auto
  then obtain rt1 where rt1: "release_descriptor d rt = Inr rt1" "settles (\<lambda>_. 0) rt rt1"
    using release_descriptor_total [OF Cons.prems(1)] by blast
  obtain rt2 where rt2: "res_fold release_descriptor ds rt1 = Inr rt2" "settles (\<lambda>_. 0) rt1 rt2" "slot_inv rt2"
    using Cons.IH [of rt1] Cons.prems(3) rt1 release_descriptor_inv [OF Cons.prems(2) rt1(1)] by (auto simp: settles_def)
  then show ?case using rt1(1) settles_trans [OF rt1(2) rt2(2)] by (simp add: res_simps)
qed (use settles_refl in simp)

lemma apply_event_total:
  assumes "table_inv rt" and "slot_inv rt"
    and "\<And>d. d \<in> set (released_descriptors ev) \<Longrightarrow> fixed_part rt (d_layer_name d) \<noteq> None"
    and "\<And>d. d \<in> set (e_descriptors ev) \<Longrightarrow> placeable rows rt d"
    and "\<And>l. layer_demand (e_descriptors ev) l \<le> free_count rt l"
  shows "\<exists>rt'. apply_event rows ev rt = Inr rt'"
proof -
  obtain rt1 where rt1: "res_fold release_request (released_request_ids ev) rt = Inr rt1" "settles (\<lambda>_. 0) rt rt1" "slot_inv rt1"
    using release_requests_total [OF assms(1,2)] by blast
  obtain rt2 where rt2: "res_fold release_descriptor (released_descriptors ev) rt1 = Inr rt2" "settles (\<lambda>_. 0) rt1 rt2" "slot_inv rt2"
    using release_descriptors_total [of rt1 "released_descriptors ev"] rt1 assms(3) by (auto simp: settles_def)
  obtain rt3 where rt3: "release_request (e_request_id ev) rt2 = Inr rt3" "settles (\<lambda>_. 0) rt2 rt3"
    using release_request_total [of rt2 "e_request_id ev"] rt2 by (auto simp: settles_def)
  note st3 = settles_trans [OF settles_trans [OF rt1(2) rt2(2)] rt3(2)]
  have rows_ok: "\<exists>s n i. fixed_part rt3 (d_layer_name d) = Some (s, n) \<and> dict_get rows (d_request_id d) = Some i
           \<and> 0 \<le> i \<and> i < tmh_max_num_seqs s" if "d \<in> set (e_descriptors ev)" for d
    using assms(4) [OF that] st3 by (auto simp: placeable_def settles_def split: option.splits)
  obtain rt4 where rt4: "clear_request_rows (e_descriptors ev) rows [] rt3 = Inr rt4" "settles (\<lambda>_. 0) rt3 rt4"
    using clear_request_rows_total [where k = "\<lambda>_. 0", of rt3 "e_descriptors ev" rows "[]"] st3 rows_ok by (auto simp: settles_def)
  note st4 = settles_trans [OF st3 rt4(2)]
  have "layer_demand (e_descriptors ev) l \<le> free_count rt4 l" for l
    using assms(5) [of l] st4 by (auto simp: settles_def intro: order_trans)
  then obtain rt5 where "res_fold (apply_event_descriptor ev rows) (e_descriptors ev) rt4 = Inr rt5"
    using place_all [of rt4 "e_descriptors ev" rows ev] st4 assms(4) placeable_settles [OF st4] by (auto simp: settles_def)
  then show ?thesis using rt1(1) rt2(1) rt3(1) rt4(1) by (cases "e_descriptors ev = []") (simp_all add: apply_event_def res_simps)
qed

end
