(* ===== verification/TmhPhysicalRows.thy ===== *)
theory TmhPhysicalRows
  imports TmhPhysicalTables
begin

text \<open>
  What an event does to the row of a request: the row is cleared in every layer the event describes a
  page of, and only the described pages are filled again. The scheduler side of the same event: it
  describes exactly the pages whose descriptor changed.
\<close>

declare split_paired_All [simp del] split_paired_Ex [simp del]

section \<open>The changed descriptors\<close>

lemma record_fold_sent:
  assumes "tmh_inv p" and "fold record_descriptor dl (p, ds, rel) = (q, ds', rel')" and "distinct (map descriptor_key dl)"
  shows "ds' = ds @ filter (\<lambda>d. dict_get (physical_descriptors p) (descriptor_key d) \<noteq> Some d) dl"
  using assms
proof (induction dl arbitrary: p ds rel)
  case (Cons d dl)
  obtain p1 ds1 rel1 where s1: "record_descriptor d (p, ds, rel) = (p1, ds1, rel1)" by (metis prod_cases3)
  note r1 = record_descriptor_inv [OF Cons.prems(1) s1]
  have f: "fold record_descriptor dl (p1, ds1, rel1) = (q, ds', rel')" using Cons.prems(2) s1 by simp
  have "filter (\<lambda>d. dict_get (physical_descriptors p1) (descriptor_key d) \<noteq> Some d) dl
      = filter (\<lambda>d. dict_get (physical_descriptors p) (descriptor_key d) \<noteq> Some d) dl"
  proof (rule filter_cong [OF refl])
    fix x assume "x \<in> set dl"
    then have "descriptor_key x \<in> descriptor_key ` set dl" by (rule imageI)
    then have "descriptor_key x \<noteq> descriptor_key d" using Cons.prems(3) by auto
    then show "(dict_get (physical_descriptors p1) (descriptor_key x) \<noteq> Some x)
        = (dict_get (physical_descriptors p) (descriptor_key x) \<noteq> Some x)" using r1(3) by simp
  qed
  then show ?case using Cons.IH [OF r1(1) f] Cons.prems(3) r1(4) by simp
qed simp

lemma changed_pages_sent:
  assumes "tmh_inv p" and "layers_ok p"
    and "pending_physical_events (record_physical_descriptors_for_pages rid tp rs hp pages p) = pending_physical_events p @ [ev]"
  shows "e_request_id ev = rid"
    and "e_descriptors ev = filter (\<lambda>d. dict_get (physical_descriptors p) (descriptor_key d) \<noteq> Some d)
           (descriptors_for_pages rid tp rs pages p)"
proof -
  obtain q ds rel where f: "fold record_descriptor (descriptors_for_pages rid tp rs pages p) (p, [], []) = (q, ds, rel)"
    by (metis prod_cases3)
  have same: "pending_physical_events q = pending_physical_events p"
    using record_fold_inv [OF assms(1) f] same_but_tables_fields(5) by blast
  have "distinct (map ls_layer_name (layers p))" using assms(2) unfolding layers_ok_def by blast
  then have "distinct (map descriptor_key (descriptors_for_pages rid tp rs pages p))"
    by (simp only: descriptors_for_pages_keys distinct_page_keys)
  note sent = record_fold_sent [OF assms(1) f this]
  show "e_request_id ev = rid"
    "e_descriptors ev = filter (\<lambda>d. dict_get (physical_descriptors p) (descriptor_key d) \<noteq> Some d)
           (descriptors_for_pages rid tp rs pages p)"
    using assms(3) same sent by (auto simp: record_physical_descriptors_for_pages_def f split: if_splits)
qed

section \<open>The row of a request\<close>

definition row_tables :: "tmh_runtime \<Rightarrow> string \<Rightarrow> (int list list \<times> int list list) option" where
  "row_tables rt l = map_option (\<lambda>c. (request_slot_by_row_page c, request_role_by_row_page c)) (dict_get (caches rt) l)"

definition has_cell :: "tmh_runtime \<Rightarrow> string \<Rightarrow> nat \<Rightarrow> nat \<Rightarrow> bool" where
  "has_cell rt l i j \<longleftrightarrow> (\<exists>t r. row_tables rt l = Some (t, r) \<and> i < length t \<and> i < length r \<and> j < length (t ! i) \<and> j < length (r ! i))"

definition blank_cell :: "tmh_runtime \<Rightarrow> string \<Rightarrow> nat \<Rightarrow> nat \<Rightarrow> bool" where
  "blank_cell rt l i j \<longleftrightarrow> (\<exists>t r. row_tables rt l = Some (t, r) \<and> i < length t \<and> i < length r \<and> j < length (t ! i) \<and> j < length (r ! i)
     \<and> t ! i ! j = -1 \<and> r ! i ! j = -1)"

lemma table_inv_cell:
  assumes "table_inv rt" and "fixed_part rt l = Some (s, n)" and "0 \<le> i" and "i < tmh_max_num_seqs s"
    and "0 \<le> j" and "j < tmh_max_model_pages s"
  shows "has_cell rt l (nat i) (nat j)"
proof -
  obtain c where c: "dict_get (caches rt) l = Some c" "cache_spec c = s" using assms(2) by (rule fixed_partE)
  have "grid_shaped (tmh_max_num_seqs s) (tmh_max_model_pages s) (request_slot_by_row_page c)"
    "grid_shaped (tmh_max_num_seqs s) (tmh_max_model_pages s) (request_role_by_row_page c)"
    using table_invD(1) [OF assms(1) c(1)] c(2) by (simp_all add: cache_shaped_def)
  then show ?thesis using assms(3-6) grid_row c(1) by (fastforce simp: has_cell_def row_tables_def grid_shaped_def)
qed

lemma fill_row_Inr:
  assumes "tensor_fill_row i v t = Inr u" and "0 \<le> i"
  shows "u = t[nat i := map (\<lambda>_. v) (t ! nat i)]"
  using assms by (auto simp: tensor_fill_row_def tensor_pos_def res_bind_Inr_iff split: if_splits)

lemma clear_rows_step:
  assumes "clear_request_rows (d # ds) rows cleared rt = Inr rt'" and "dict_get rows (d_request_id d) = Some i"
    and "(d_layer_name d, i) \<notin> set cleared" and "0 \<le> i"
  obtains rt1 t r where "clear_request_rows ds rows ((d_layer_name d, i) # cleared) rt1 = Inr rt'"
    and "row_tables rt (d_layer_name d) = Some (t, r)"
    and "row_tables rt1 = (row_tables rt)(d_layer_name d \<mapsto>
      (t[nat i := map (\<lambda>_. -1) (t ! nat i)], r[nat i := map (\<lambda>_. -1) (r ! nat i)]))"
proof -
  obtain c t1 t2 t3 where c: "dict_get (caches rt) (d_layer_name d) = Some c" and
    t: "tensor_fill_row i (-1) (request_slot_by_row_page c) = Inr t1" "tensor_fill_row i (-1) (request_role_by_row_page c) = Inr t2" and
    rest: "clear_request_rows ds rows ((d_layer_name d, i) # cleared)
      (rt\<lparr>caches := dict_set (d_layer_name d) (c\<lparr>request_slot_by_row_page := t1, request_role_by_row_page := t2,
        native_block_table_by_seq := t3\<rparr>) (caches rt)\<rparr>) = Inr rt'"
    using assms(1-3) by (auto simp: res_bind_Inr_iff split: option.splits)
  show ?thesis
    by (rule that [OF rest]) (use c fill_row_Inr [OF t(1) assms(4)] fill_row_Inr [OF t(2) assms(4)] in \<open>auto simp: row_tables_def fun_eq_iff\<close>)
qed

lemma clear_rows_blank:
  assumes "clear_request_rows ds rows cleared rt = Inr rt'" and "\<And>d. d \<in> set ds \<Longrightarrow> d_request_id d = rid"
    and "dict_get rows rid = Some i" and "0 \<le> i" and "has_cell rt l (nat i) j"
    and "(l, i) \<in> set cleared \<Longrightarrow> blank_cell rt l (nat i) j"
    and "(l, i) \<in> set cleared \<or> l \<in> d_layer_name ` set ds"
  shows "blank_cell rt' l (nat i) j"
  using assms(1,2,5-)
proof (induction ds arbitrary: cleared rt)
  case (Cons d ds)
  have id: "dict_get rows (d_request_id d) = Some i" using Cons.prems(2) assms(3) by simp
  show ?case
  proof (cases "(d_layer_name d, i) \<in> set cleared")
    case True
    then have "clear_request_rows ds rows cleared rt = Inr rt'" using Cons.prems(1) id by simp
    from Cons.IH [OF this] Cons.prems True show ?thesis by auto
  next
    case False
    obtain rt1 t r where rest: "clear_request_rows ds rows ((d_layer_name d, i) # cleared) rt1 = Inr rt'"
      and old: "row_tables rt (d_layer_name d) = Some (t, r)"
      and new: "row_tables rt1 = (row_tables rt)(d_layer_name d \<mapsto>
        (t[nat i := map (\<lambda>_. -1) (t ! nat i)], r[nat i := map (\<lambda>_. -1) (r ! nat i)]))"
      using clear_rows_step [OF Cons.prems(1) id False assms(4)] .
    have cell: "has_cell rt1 l (nat i) j" using Cons.prems(3) old new by (auto simp: has_cell_def)
    have "blank_cell rt1 l (nat i) j" if "(l, i) \<in> set ((d_layer_name d, i) # cleared)"
    proof (cases "l = d_layer_name d")
      case True
      then show ?thesis using Cons.prems(3) old new by (auto simp: has_cell_def blank_cell_def)
    next
      case False
      then show ?thesis using Cons.prems(4) that new by (auto simp: blank_cell_def)
    qed
    then show ?thesis using Cons.IH [OF rest _ cell] Cons.prems(2,5) by auto
  qed
qed simp

section \<open>The pages stored\<close>

lemma slot_keeps_rows:
  "canonical_slot l b r rt = Inr (slot, rt') \<Longrightarrow> row_tables rt' = row_tables rt"
  "overlay_slot l rid p rt = Inr (slot, rt') \<Longrightarrow> row_tables rt' = row_tables rt"
  by (auto simp: canonical_slot_def overlay_slot_def take_slot_def set_canonical_entry_def dict_index_def row_tables_def
      res_bind_Inr_iff Let_def fun_eq_iff split: option.splits if_splits)

lemma set2_keeps:
  assumes "tensor_set2 i p v t = Inr u" and "0 \<le> i" and "0 \<le> p" and "(nat i, nat p) \<noteq> (a, b)"
  shows "length u = length t \<and> (a < length t \<longrightarrow> length (u ! a) = length (t ! a) \<and> u ! a ! b = t ! a ! b)"
  using assms by (auto simp: tensor_set2_def tensor_set_def tensor_pos_def res_bind_Inr_iff nth_list_update split: if_splits)

lemma store_entry_blank:
  assumes "store_page_entry m i p slot r rt = Inr rt'" and "blank_cell rt l a b" and "0 \<le> i" and "0 \<le> p"
    and "m = l \<Longrightarrow> nat p \<noteq> b"
  shows "blank_cell rt' l a b"
proof -
  obtain c t1 t2 t3 where c: "dict_get (caches rt) m = Some c" and
    t: "tensor_set2 i p slot (request_slot_by_row_page c) = Inr t1" "tensor_set2 i p r (request_role_by_row_page c) = Inr t2" and
    rt': "rt' = rt\<lparr>caches := dict_set m (c\<lparr>request_slot_by_row_page := t1, request_role_by_row_page := t2,
      native_block_table_by_seq := t3\<rparr>) (caches rt)\<rparr>"
    using assms(1) by (auto simp: store_page_entry_def dict_index_def res_bind_Inr_iff split: option.splits)
  show ?thesis
  proof (cases "m = l")
    case True
    then have "(nat i, nat p) \<noteq> (a, b)" using assms(5) by simp
    from set2_keeps [OF t(1) assms(3,4) this] set2_keeps [OF t(2) assms(3,4) this]
    show ?thesis using assms(2) c True by (auto simp: blank_cell_def row_tables_def rt')
  qed (use assms(2) in \<open>simp add: blank_cell_def row_tables_def rt'\<close>)
qed

lemma apply_event_descriptor_blank:
  assumes "apply_event_descriptor ev rows d rt = Inr rt'" and "blank_cell rt l a b"
    and "\<And>i. dict_get rows (d_request_id d) = Some i \<Longrightarrow> 0 \<le> i" and "0 \<le> page_index d"
    and "d_layer_name d = l \<Longrightarrow> nat (page_index d) \<noteq> b"
  shows "blank_cell rt' l a b"
proof -
  obtain c i where i: "dict_get rows (d_request_id d) = Some i"
    and ap: "apply_descriptor c (d_layer_name d) (effective_descriptor c d (e_total_pages ev)) i rt = Inr rt'"
    using assms(1) by (auto simp: apply_event_descriptor_def split: option.splits)
  from ap show ?thesis
  proof (rule apply_descriptor_InrE)
    fix e slot rt1
    assume e: "e = settle_descriptor c (d_layer_name d) rt (effective_descriptor c d (e_total_pages ev))"
      and sl: "(if storage e = REQUEST_OVERLAY then overlay_slot (d_layer_name d) (d_request_id e) (page_index e) rt
          else canonical_slot (d_layer_name d) (logical_block_id e) (role e) rt) = Inr (slot, rt1)"
      and st: "store_page_entry (d_layer_name d) i (page_index e) slot (role_int (role e)) rt1 = Inr rt'"
    have "row_tables rt1 = row_tables rt" using sl slot_keeps_rows by (auto split: if_splits)
    then have "blank_cell rt1 l a b" using assms(2) by (simp add: blank_cell_def)
    from store_entry_blank [OF st this] show ?thesis using assms(3) [OF i] assms(4,5) e by simp
  qed
qed

lemma apply_event_blank:
  assumes "runtime_reachable rt" and "apply_event rows ev rt = Inr rt'"
    and ids: "\<And>d. d \<in> set (e_descriptors ev) \<Longrightarrow> d_request_id d = rid \<and> 0 \<le> page_index d"
    and row: "dict_get rows rid = Some i" "0 \<le> i"
    and described: "l \<in> d_layer_name ` set (e_descriptors ev)"
    and cell: "fixed_part rt l = Some (s, n)" "i < tmh_max_num_seqs s" "0 \<le> j" "j < tmh_max_model_pages s"
    and absent: "\<And>d. d \<in> set (e_descriptors ev) \<Longrightarrow> d_layer_name d = l \<Longrightarrow> page_index d \<noteq> j"
  shows "blank_cell rt' l (nat i) (nat j)"
proof -
  obtain rt1 rt2 rt3 rt4 where
    r1: "res_fold release_request (released_request_ids ev) rt = Inr rt1" and
    r2: "res_fold release_descriptor (released_descriptors ev) rt1 = Inr rt2" and
    r3: "release_request (e_request_id ev) rt2 = Inr rt3" "clear_request_rows (e_descriptors ev) rows [] rt3 = Inr rt4" and
    r4: "res_fold (apply_event_descriptor ev rows) (e_descriptors ev) rt4 = Inr rt'"
    using assms(2) described unfolding apply_event_def res_bind_Inr_iff
    by (cases "e_descriptors ev = []") (simp, simp add: res_bind_Inr_iff, blast)
  let ?P = "\<lambda>s'. table_inv s' \<and> slot_inv s' \<and> fixed_part s' l = Some (s, n)"
  have rel: "?P s'" if "?P r" "release_request x r = Inr s'" for x r s'
    using release_request_total [of r x] release_request_inv [of r x s'] that by (auto simp: settles_def)
  have reld: "?P s'" if "?P r" "release_descriptor x r = Inr s'" for x r s'
    using that release_descriptor_settles [of r x s'] release_descriptor_inv [of r x s'] by (auto simp: settles_def)
  have "?P rt" using runtime_reachable_tables [OF assms(1)] cell(1) by blast
  then have "?P rt1" using res_fold_invariant [where P = ?P, OF r1] rel by blast
  then have "?P rt2" using res_fold_invariant [where P = ?P, OF r2] reld by blast
  then have p3: "?P rt3" using rel r3(1) by blast
  have "has_cell rt3 l (nat i) (nat j)" using p3 table_inv_cell [of rt3 l s n i j] row(2) cell(2-4) by blast
  then have b4: "blank_cell rt4 l (nat i) (nat j)"
    using clear_rows_blank [OF r3(2) _ row, of l "nat j"] ids described by simp
  have "blank_cell s' l (nat i) (nat j)"
    if "d \<in> set (e_descriptors ev)" "blank_cell r l (nat i) (nat j)" "apply_event_descriptor ev rows d r = Inr s'" for d r s'
    using apply_event_descriptor_blank [OF that(3,2)] ids [OF that(1)] absent [OF that(1)] row cell(3) by (auto simp: nat_eq_iff)
  then show ?thesis using res_fold_invariant [where P = "\<lambda>r. blank_cell r l (nat i) (nat j)", OF r4 b4] by blast
qed

end
