(* ===== verification/TmhPhysicalSpec.thy ===== *)
theory TmhPhysicalSpec
  imports TmhPhysicalRows
begin

text \<open>
  What the worker runtime promises: slots are never shared or lost, a descriptor is placed as long as
  either pool has a slot, the page tables point at the slot the runtime owns, and the pools of a layer
  fit the bytes the scheduler planned for it. The last two sections show where the tables lose a page
  and where a slot is not given back.
\<close>

declare split_paired_All [simp del] split_paired_Ex [simp del]

section \<open>The slots of a layer\<close>

definition raw_slots :: "tmh_runtime \<Rightarrow> string \<Rightarrow> int list" where
  "raw_slots rt layer = map snd (filter (\<lambda>e. raw_key_of layer (fst e)) (canonical_slots rt))
     @ map snd (filter (\<lambda>e. fst (fst e) = layer) (overlay_slots rt))"

definition warm_slots :: "tmh_runtime \<Rightarrow> string \<Rightarrow> int list" where
  "warm_slots rt layer = map snd (filter (\<lambda>e. warm_key_of layer (fst e)) (canonical_slots rt))"

lemma in_use_mset: "raw_in_use rt layer = mset (raw_slots rt layer)" "warm_in_use rt layer = mset (warm_slots rt layer)"
  by (simp_all add: raw_in_use_def warm_in_use_def slots_where_def raw_slots_def warm_slots_def)

lemma pool_permutation:
  assumes "mset xs = pool_slots n"
  shows "distinct xs \<and> set xs = {0..<n}"
proof -
  have m: "mset xs = mset (map int [0..<nat n])" using assms by (simp add: pool_slots_def)
  have d: "distinct (map int [0..<nat n])" by (simp add: distinct_map)
  have s: "int ` {0..<nat n} = {0..<n}"
  proof (cases "0 \<le> n")
    case True
    then show ?thesis using image_int_atLeastLessThan [of 0 "nat n"] by simp
  qed simp
  show ?thesis using mset_eq_setD [OF m] mset_eq_imp_distinct_iff [OF m] d s by simp
qed

text \<open>
  C13: in every runtime reached from its construction by scheduler events, the free raw slots of a layer
  and the raw slots held by canonical blocks and request overlays are all different and are together
  exactly the pages of the raw pool; the same holds for the warm pool. No slot is shared by two owners,
  none is lost by the runtime, and none is outside its pool.
\<close>

theorem runtime_slots_partition:
  assumes "runtime_reachable rt" and "dict_get (caches rt) layer = Some c"
  shows "\<exists>raw warm. dict_get (raw_free_slots rt) layer = Some raw \<and> dict_get (warm_free_slots rt) layer = Some warm
    \<and> distinct (raw @ raw_slots rt layer) \<and> set (raw @ raw_slots rt layer) = {0..<raw_pages c}
    \<and> distinct (warm @ warm_slots rt layer) \<and> set (warm @ warm_slots rt layer) = {0..<warm_pages c}"
proof -
  obtain raw warm where r: "dict_get (raw_free_slots rt) layer = Some raw" "mset (raw @ raw_slots rt layer) = pool_slots (raw_pages c)"
    and w: "dict_get (warm_free_slots rt) layer = Some warm" "mset (warm @ warm_slots rt layer) = pool_slots (warm_pages c)"
    using slot_invD(3) [OF runtime_reachable_inv [OF assms(1)] assms(2)]
    by (auto simp: layer_balanced_def balanced_def in_use_mset)
  then show ?thesis using pool_permutation [OF r(2)] pool_permutation [OF w(2)] by blast
qed

section \<open>A worker and its scheduler\<close>

text \<open>
  One tiered layer, four blocks and a hot budget of 25 percent, configured alike for the scheduler and
  the worker: two raw and two warm pages.
\<close>

definition sample_layer :: tmh_spec where
  "sample_layer = sample_tmh\<lparr>block_size := 16, num_kv_heads := 1, head_size := 8, head_size_v := 8,
     tmh_hot_budget_pct := 25, tmh_late_layer := True, tmh_max_num_seqs := 1, tmh_max_model_pages := 4\<rparr>"


definition sample_scheduler :: tmh_policy where
  "sample_scheduler = policy_init ''physical'' 25 16
     [\<lparr>ls_layer_name = ''l.0'', ls_layer_index = 0, ls_num_kv_heads = 1, ls_head_size = 8, ls_head_size_v = Some 8,
       raw_dtype_bytes = 2\<rparr>] [448]"


definition sample_cache :: tmh_cache where
  "sample_cache =
     (let r = (\<lambda>off bytes d. \<lparr>reg_offset = off, reg_bytes = bytes, reg_dtype = d\<rparr>)
      in \<lparr>cache_spec = sample_layer, num_logical_blocks = 4, raw_kv_cache = r 0 1024 bfloat16,
          warm_key = r 1024 256 torch_int8, warm_value = r 1280 256 torch_int8,
          warm_k_scale = r 1536 128 torch_float32, warm_v_scale = r 1664 128 torch_float32,
          raw_pages = 2, warm_pages = 2, canonical_role_by_logical_block = [-1, -1, -1, -1],
          canonical_slot_by_logical_block = [-1, -1, -1, -1], request_slot_by_row_page = [ [-1, -1, -1, -1] ],
          request_role_by_row_page = [ [-1, -1, -1, -1] ], native_block_table_by_seq = [ [0, 0, 0, 0] ]\<rparr>)"

definition sample_runtime :: tmh_runtime where
  "sample_runtime = register_cache ''l.0'' sample_cache empty_runtime"

lemma sample_runtime_reachable: "runtime_reachable sample_runtime"
proof -
  have b: "build_tmh_physical_runtime [(''l.0'', Some sample_cache)] = Some sample_runtime"
    by (simp add: build_tmh_physical_runtime_def sample_runtime_def List.map_filter_def)
  have "reshape_tmh_physical_kv_cache 1824 sample_layer 4 = Inr sample_cache" by code_simp
  then show ?thesis by (intro runtime_reachable.build [OF b]) auto
qed

text \<open>A request that fills the model's four pages; its pages 1 and 3 are shared.\<close>

definition sample_event :: tmh_event where
  "sample_event = hd (pending_physical_events
     (record_physical_descriptors_for_pages ''r'' 4 3 1 [(0, False), (1, True), (2, False), (3, True)] sample_scheduler))"

theorem runtime_slots_partition_witness:
  "\<exists>rt raw. apply_events [sample_event] [(''r'', 0)] sample_runtime = Inr rt
   \<and> dict_get (raw_free_slots rt) ''l.0'' = Some raw \<and> distinct (raw @ raw_slots rt ''l.0'')
   \<and> set (raw @ raw_slots rt ''l.0'') = {0..<2} \<and> warm_slots rt ''l.0'' \<noteq> []"
proof -
  have "case apply_events [sample_event] [(''r'', 0)] sample_runtime of Inl _ \<Rightarrow> False
    | Inr rt \<Rightarrow> warm_slots rt ''l.0'' \<noteq> [] \<and> map_option raw_pages (dict_get (caches rt) ''l.0'') = Some 2"
    by code_simp
  then obtain rt c where rt: "apply_events [sample_event] [(''r'', 0)] sample_runtime = Inr rt"
    "warm_slots rt ''l.0'' \<noteq> []" "dict_get (caches rt) ''l.0'' = Some c" "raw_pages c = 2"
    by (auto split: sum.splits)
  from runtime_slots_partition [OF runtime_reachable.events [OF sample_runtime_reachable rt(1)] rt(3)] rt(1,2,4)
  show ?thesis by auto
qed

section \<open>Events are applied\<close>

text \<open>
  C14: the worker never stalls on a scheduler event while its pools have room. If every released page
  names a registered layer, every described page lies in a registered layer, an existing block, an
  active row and the model's pages, and each layer has at least as many free slots (raw or warm) as the
  event describes pages of it, then the event is applied without an exception, whatever mixture of
  roles it asks for.
\<close>

theorem events_applied_while_room:
  assumes "runtime_reachable rt"
    and "\<forall>d\<in>set (released_descriptors ev). fixed_part rt (d_layer_name d) \<noteq> None"
    and "\<forall>d\<in>set (e_descriptors ev). placeable rows rt d"
    and "\<forall>l. layer_demand (e_descriptors ev) l \<le> free_count rt l"
  shows "\<exists>rt'. apply_events [ev] rows rt = Inr rt' \<and> runtime_reachable rt'"
proof -
  have "table_inv rt" "slot_inv rt" using runtime_reachable_tables [OF assms(1)] by auto
  then obtain rt' where "apply_event rows ev rt = Inr rt'" using apply_event_total assms(2-4) by blast
  then have "apply_events [ev] rows rt = Inr rt'" by (simp add: apply_events_def res_simps)
  then show ?thesis using runtime_reachable.events [OF assms(1)] by blast
qed

theorem events_applied_while_room_witness:
  "map role (e_descriptors sample_event) = [PINNED_RAW, WARM_INT8_INT8, WARM_INT8_INT8, HOT_RAW]
   \<and> (\<exists>rt'. apply_events [sample_event] [(''r'', 0)] sample_runtime = Inr rt')"
proof -
  have r: "map role (e_descriptors sample_event) = [PINNED_RAW, WARM_INT8_INT8, WARM_INT8_INT8, HOT_RAW]" by code_simp
  have "map d_layer_name (e_descriptors sample_event) = replicate 4 ''l.0''" by code_simp
  then have "d_layer_name ` set (e_descriptors sample_event) = {''l.0''}" "length (e_descriptors sample_event) = 4"
    by (metis set_map set_replicate zero_neq_numeral, metis length_map length_replicate)
  then have dem: "layer_demand (e_descriptors sample_event) l \<le> (if l = ''l.0'' then 4 else 0)" for l
    using length_filter_le [of "\<lambda>d. d_layer_name d = l" "e_descriptors sample_event"]
    by (auto simp: layer_demand_def filter_empty_conv)
  have "free_count sample_runtime ''l.0'' = 4" by code_simp
  then have "layer_demand (e_descriptors sample_event) l \<le> free_count sample_runtime l" for l
    using dem [of l] by (cases "l = ''l.0''") simp_all
  then have "\<forall>l. layer_demand (e_descriptors sample_event) l \<le> free_count sample_runtime l" by blast
  moreover have "\<forall>d\<in>set (e_descriptors sample_event). placeable [(''r'', 0)] sample_runtime d" by code_simp
  moreover have "\<forall>d\<in>set (released_descriptors sample_event). fixed_part sample_runtime (d_layer_name d) \<noteq> None" by code_simp
  ultimately show ?thesis using events_applied_while_room [OF sample_runtime_reachable] r by blast
qed

section \<open>Where a page ends up\<close>

lemma slot_range:
  assumes "slot_inv rt" and "dict_get (caches rt) l = Some c"
  shows "slot \<in> set (raw_slots rt l) \<Longrightarrow> 0 \<le> slot \<and> slot < raw_pages c"
    and "slot \<in> set (warm_slots rt l) \<Longrightarrow> 0 \<le> slot \<and> slot < warm_pages c"
proof -
  obtain raw warm where "mset (raw @ raw_slots rt l) = pool_slots (raw_pages c)" "mset (warm @ warm_slots rt l) = pool_slots (warm_pages c)"
    using slot_invD(3) [OF assms] by (auto simp: layer_balanced_def balanced_def in_use_mset)
  from pool_permutation [OF this(1)] pool_permutation [OF this(2)]
  show "slot \<in> set (raw_slots rt l) \<Longrightarrow> 0 \<le> slot \<and> slot < raw_pages c"
    "slot \<in> set (warm_slots rt l) \<Longrightarrow> 0 \<le> slot \<and> slot < warm_pages c"
    by (metis Un_iff atLeastLessThan_iff set_append)+
qed

lemma owned_slots:
  "dict_get (overlay_slots rt) (l, rid, p) = Some slot \<Longrightarrow> slot \<in> set (raw_slots rt l)"
  "dict_get (canonical_slots rt) (l, b, role_int r) = Some slot \<Longrightarrow> raw_role r \<Longrightarrow> slot \<in> set (raw_slots rt l)"
  "dict_get (canonical_slots rt) (l, b, role_int r) = Some slot \<Longrightarrow> \<not> raw_role r \<Longrightarrow> slot \<in> set (warm_slots rt l)"
  by (force simp: raw_slots_def warm_slots_def raw_key_of_def warm_key_of_def raw_role_def dest!: map_of_SomeD,
      (cases r; force simp: raw_slots_def warm_slots_def raw_key_of_def warm_key_of_def raw_role_def dest!: map_of_SomeD)+)

lemma overlay_role: "storage (settle_descriptor c l rt d) = REQUEST_OVERLAY \<Longrightarrow> raw_role (role (settle_descriptor c l rt d))"
  by (auto simp: settle_descriptor_def promote_to_raw_when_available_def demote_overlay_to_warm_when_raw_exhausted_def
      demote_canonical_to_warm_when_raw_exhausted_def raw_role_def split: if_splits)

lemma tensor_set2_Inr:
  assumes "tensor_set2 i j v t = Inr u" and "0 \<le> i" and "0 \<le> j"
  shows "u = t[nat i := (t ! nat i)[nat j := v]]" and "nat i < length t" and "nat j < length (t ! nat i)"
  using assms by (auto simp: tensor_set2_def tensor_set_def tensor_pos_def res_bind_Inr_iff split: if_splits)

lemma canonical_slot_effect:
  assumes "canonical_slot l b r rt = Inr (slot, rt')" and "dict_get (caches rt) l = Some c"
  shows "dict_get (canonical_slots rt') (l, b, role_int r) = Some slot"
    and "\<exists>c'. dict_get (caches rt') l = Some c' \<and> request_slot_by_row_page c' = request_slot_by_row_page c
      \<and> raw_pages c' = raw_pages c \<and> warm_pages c' = warm_pages c"
  using assms
  by (auto simp: canonical_slot_def take_slot_def set_canonical_entry_def dict_index_def res_bind_Inr_iff Let_def
      split: option.splits if_splits)

lemma overlay_slot_effect:
  assumes "overlay_slot l rid p rt = Inr (slot, rt')"
  shows "dict_get (overlay_slots rt') (l, rid, p) = Some slot" and "caches rt' = caches rt"
  using assms by (auto simp: overlay_slot_def take_slot_def dict_index_def res_bind_Inr_iff Let_def split: option.splits if_splits)

text \<open>
  C19: a page that is placed can be found again. After a descriptor is applied, the entry of its row and
  page holds a slot inside the pool of the descriptor's final role, the native block table holds the
  same slot, the role table that role, the slot is owned by the request overlay or by the canonical
  block the descriptor names, and no other entry of the slot table changed.
\<close>

theorem descriptor_placed:
  assumes "runtime_reachable rt" and "dict_get (caches rt) l = Some c" and "apply_descriptor c l d i rt = Inr rt'"
    and "0 \<le> i" and "0 \<le> page_index d" and "e = settle_descriptor c l rt d"
  shows "\<exists>c' slot. dict_get (caches rt') l = Some c'
    \<and> request_slot_by_row_page c' =
        (request_slot_by_row_page c)[nat i := (request_slot_by_row_page c ! nat i)[nat (page_index d) := slot]]
    \<and> request_slot_by_row_page c' ! nat i ! nat (page_index d) = slot
    \<and> native_block_table_by_seq c' ! nat i ! nat (page_index d) = slot
    \<and> request_role_by_row_page c' ! nat i ! nat (page_index d) = role_int (role e)
    \<and> (if storage e = REQUEST_OVERLAY then dict_get (overlay_slots rt') (l, d_request_id d, page_index d) = Some slot
       else dict_get (canonical_slots rt') (l, logical_block_id d, role_int (role e)) = Some slot)
    \<and> 0 \<le> slot \<and> slot < (if raw_role (role e) then raw_pages c else warm_pages c)"
  using assms(3)
proof (rule apply_descriptor_InrE)
  fix e' slot rt1
  assume e': "e' = settle_descriptor c l rt d" and
    sl: "(if storage e' = REQUEST_OVERLAY then overlay_slot l (d_request_id e') (page_index e') rt
          else canonical_slot l (logical_block_id e') (role e') rt) = Inr (slot, rt1)" and
    st: "store_page_entry l i (page_index e') slot (role_int (role e')) rt1 = Inr rt'"
  have e: "e' = e" "page_index e = page_index d" "logical_block_id e = logical_block_id d" "d_request_id e = d_request_id d"
    using e' assms(6) by simp_all
  obtain c1 where c1: "dict_get (caches rt1) l = Some c1" "request_slot_by_row_page c1 = request_slot_by_row_page c"
    "raw_pages c1 = raw_pages c" "warm_pages c1 = warm_pages c"
    using sl canonical_slot_effect(2) [OF _ assms(2)] overlay_slot_effect(2) assms(2) by (cases "storage e' = REQUEST_OVERLAY") (force, fastforce)
  obtain t1 t2 t3 where t: "tensor_set2 i (page_index d) slot (request_slot_by_row_page c1) = Inr t1"
      "tensor_set2 i (page_index d) (role_int (role e)) (request_role_by_row_page c1) = Inr t2"
      "tensor_set2 i (page_index d) slot (native_block_table_by_seq c1) = Inr t3" and
    rt': "rt' = rt1\<lparr>caches := dict_set l (c1\<lparr>request_slot_by_row_page := t1, request_role_by_row_page := t2,
      native_block_table_by_seq := t3\<rparr>) (caches rt1)\<rparr>"
    using st c1(1) e by (auto simp: store_page_entry_def dict_index_def res_bind_Inr_iff)
  have own: "if storage e = REQUEST_OVERLAY then dict_get (overlay_slots rt') (l, d_request_id d, page_index d) = Some slot
       else dict_get (canonical_slots rt') (l, logical_block_id d, role_int (role e)) = Some slot"
    using sl e canonical_slot_effect(1) [OF _ assms(2)] overlay_slot_effect(1) rt' by (auto split: if_splits)
  have inv: "slot_inv rt'" using apply_descriptor_inv [OF runtime_reachable_inv [OF assms(1)] assms(3)] .
  have c': "dict_get (caches rt') l = Some (c1\<lparr>request_slot_by_row_page := t1, request_role_by_row_page := t2,
      native_block_table_by_seq := t3\<rparr>)" using rt' by simp
  have "0 \<le> slot \<and> slot < (if raw_role (role e) then raw_pages c else warm_pages c)"
    using own slot_range [OF inv c'] owned_slots [of rt' l] overlay_role [of c l rt d] assms(6) c1(3,4) by (auto split: if_splits)
  then show ?thesis
    using c' own tensor_set2_Inr [OF t(1) assms(4,5)] tensor_set2_Inr [OF t(2) assms(4,5)] tensor_set2_Inr [OF t(3) assms(4,5)] c1(2)
    by auto
qed

theorem descriptor_placed_witness:
  "\<exists>rt' c' slot. apply_descriptor sample_cache ''l.0'' (hd (e_descriptors sample_event)) 0 sample_runtime = Inr rt'
   \<and> dict_get (caches rt') ''l.0'' = Some c' \<and> request_slot_by_row_page c' ! 0 ! 0 = slot \<and> 0 \<le> slot \<and> slot < 2"
proof -
  let ?d = "hd (e_descriptors sample_event)"
  have c: "dict_get (caches sample_runtime) ''l.0'' = Some sample_cache"
    by (simp add: sample_runtime_def register_cache_def empty_runtime_def)
  have h: "page_index ?d = 0" "role (settle_descriptor sample_cache ''l.0'' sample_runtime ?d) = PINNED_RAW"
    "raw_pages sample_cache = 2" by code_simp+
  have "\<not> isl (apply_descriptor sample_cache ''l.0'' ?d 0 sample_runtime)" by code_simp
  then obtain rt' where rt': "apply_descriptor sample_cache ''l.0'' ?d 0 sample_runtime = Inr rt'"
    by (cases "apply_descriptor sample_cache ''l.0'' ?d 0 sample_runtime") auto
  from descriptor_placed [OF sample_runtime_reachable c rt' _ _ refl] rt' h show ?thesis
    by (auto simp: raw_role_def)
qed

section \<open>The pools fit the planned allocation\<close>

fun laid_out :: "int \<Rightarrow> int \<Rightarrow> region list \<Rightarrow> bool" where
  "laid_out numel pos [] \<longleftrightarrow> pos \<le> numel"
| "laid_out numel pos (r # rs) \<longleftrightarrow> pos \<le> reg_offset r \<and> 0 \<le> reg_bytes r \<and> reg_offset r mod itemsize (reg_dtype r) = 0
     \<and> laid_out numel (reg_offset r + reg_bytes r) rs"

lemma take_region_ok:
  assumes "0 < itemsize d" and "o0 + (itemsize d - 1) + bytes \<le> numel \<or> (o0 mod itemsize d = 0 \<and> o0 + bytes \<le> numel)"
  shows "\<exists>off. take_region numel bytes d o0 = Inr (\<lparr>reg_offset = off, reg_bytes = bytes, reg_dtype = d\<rparr>, off + bytes)
    \<and> o0 \<le> off \<and> off \<le> o0 + (itemsize d - 1) \<and> off mod itemsize d = 0 \<and> (o0 mod itemsize d = 0 \<longrightarrow> off = o0)"
proof (cases "o0 mod itemsize d = 0")
  case True
  then show ?thesis using assms by (auto simp: take_region_def Let_def)
next
  case False
  have "0 < o0 mod itemsize d" "o0 mod itemsize d < itemsize d" using False assms(1) pos_mod_bound [of "itemsize d" o0] pos_mod_sign [of "itemsize d" o0] by linarith+
  moreover have "(o0 + (itemsize d - o0 mod itemsize d)) mod itemsize d = 0"
    by (metis add.commute add_diff_eq diff_add_eq minus_mod_eq_mult_div mod_add_self2 mod_mult_self1_is_0)
  ultimately show ?thesis using False assms less_imp_le [of "o0 mod itemsize d" "itemsize d"] by (auto simp: take_region_def Let_def)
qed

lemma tmh_regions_fit:
  assumes "head_size_v s = head_size s" and "0 < itemsize (dtype s)" and "(16 div itemsize (dtype s)) dvd head_size s"
    and nn: "0 \<le> raw" "0 \<le> warm" "0 \<le> block_size s * num_kv_heads s" "0 \<le> head_size s"
    and quant: "kv_quant s \<notin> {INT4_PER_TOKEN_HEAD, NVFP4}"
    and fit: "raw * raw_page_size_bytes s + warm * warm_page_size_bytes s + 3 \<le> numel"
  shows "\<exists>r1 r2 r3 r4 r5. tmh_regions numel s raw warm = Inr (r1, r2, r3, r4, r5) \<and> laid_out numel 0 [r1, r2, r3, r4, r5]
    \<and> reg_bytes r1 = raw * raw_page_size_bytes s
    \<and> reg_bytes r2 + reg_bytes r3 + reg_bytes r4 + reg_bytes r5 = warm * warm_page_size_bytes s"
proof -
  define page where "page = block_size s * num_kv_heads s"
  define wv where "wv = (if tmh_late_layer s then head_size_v s else (head_size_v s + 1) div 2)"
  define b1 b2 b3 b4 where "b1 = 2 * raw * page * head_size s * itemsize (dtype s)" and "b2 = warm * page * head_size s"
    and "b3 = warm * page * wv" and "b4 = warm * page * 4"
  have wv: "0 \<le> wv" using assms(1) nn(4) by (simp add: wv_def)
  have nonneg: "0 \<le> b1" "0 \<le> b2" "0 \<le> b3" "0 \<le> b4"
    using nn wv assms(2) unfolding b1_def b2_def b3_def b4_def page_def by simp_all
  have raw: "raw * raw_page_size_bytes s = b1"
    using assms(1) quant
    by (simp add: raw_page_size_bytes_def full_real_page_size_bytes_def is_nvfp4_def get_dtype_size_def b1_def page_def algebra_simps)
  have cd: "cdiv (head_size_v s) 2 = (head_size_v s + 1) div 2" by (simp add: cdiv_def)
  have warm: "warm * warm_page_size_bytes s = b2 + b3 + b4 + b4"
    unfolding warm_page_size_bytes_def b2_def b3_def b4_def wv_def page_def cd Let_def
    by (simp add: get_dtype_size_def torch_float32_def algebra_simps)
  have four: "itemsize torch_float32 = 4" "itemsize torch_int8 = 1" by (simp_all add: torch_float32_def torch_int8_def)
  have fit': "b1 + b2 + b3 + b4 + b4 + 3 \<le> numel" using fit raw warm by simp
  have t1: "take_region numel b1 (dtype s) 0 = Inr (\<lparr>reg_offset = 0, reg_bytes = b1, reg_dtype = dtype s\<rparr>, b1)"
    "take_region numel b2 torch_int8 b1 = Inr (\<lparr>reg_offset = b1, reg_bytes = b2, reg_dtype = torch_int8\<rparr>, b1 + b2)"
    "take_region numel b3 torch_int8 (b1 + b2) = Inr (\<lparr>reg_offset = b1 + b2, reg_bytes = b3, reg_dtype = torch_int8\<rparr>, b1 + b2 + b3)"
    using fit' nonneg four by (simp_all add: take_region_def Let_def)
  obtain off where off: "take_region numel b4 torch_float32 (b1 + b2 + b3)
      = Inr (\<lparr>reg_offset = off, reg_bytes = b4, reg_dtype = torch_float32\<rparr>, off + b4)"
    "b1 + b2 + b3 \<le> off" "off \<le> b1 + b2 + b3 + 3" "off mod 4 = 0"
    using take_region_ok [of torch_float32 "b1 + b2 + b3" b4 numel] fit' nonneg four by auto
  have al: "(off + b4) mod 4 = 0" using off(4) by (simp add: b4_def)
  have t5: "take_region numel b4 torch_float32 (off + b4)
      = Inr (\<lparr>reg_offset = off + b4, reg_bytes = b4, reg_dtype = torch_float32\<rparr>, off + b4 + b4)"
    using fit' off al four by (simp add: take_region_def Let_def)
  have g: "raw * num_kv_heads s * (head_size s div (16 div itemsize (dtype s))) * block_size s * (16 div itemsize (dtype s))
      = raw * page * head_size s"
    using assms(3) by (auto simp: page_def dvd_def)
  have "tmh_regions numel s raw warm = Inr (\<lparr>reg_offset = 0, reg_bytes = b1, reg_dtype = dtype s\<rparr>,
      \<lparr>reg_offset = b1, reg_bytes = b2, reg_dtype = torch_int8\<rparr>, \<lparr>reg_offset = b1 + b2, reg_bytes = b3, reg_dtype = torch_int8\<rparr>,
      \<lparr>reg_offset = off, reg_bytes = b4, reg_dtype = torch_float32\<rparr>, \<lparr>reg_offset = off + b4, reg_bytes = b4, reg_dtype = torch_float32\<rparr>)"
    unfolding tmh_regions_def Let_def page_def [symmetric] wv_def [symmetric] b1_def [symmetric] b2_def [symmetric] b3_def [symmetric] b4_def [symmetric] g
    using assms(1) by (simp add: t1 off(1) t5 res_simps)
  then show ?thesis using off nonneg al fit' four raw warm by simp
qed

text \<open>
  C21: the worker's layout fits the scheduler's plan. For a tiered layer with equal key and value head
  sizes, a head size that is a multiple of 16 bytes, and a cache type other than int4 and nvfp4, a
  buffer of at least the planned number of bytes is cut into the raw pages, the quantised keys and
  values and their scales without overlap, each part aligned for its element type and all of them
  inside the buffer; the raw and warm parts have exactly the planned sizes, and the pools together have
  one page per logical block.
\<close>

theorem reshape_fits_allocation:
  assumes "0 < n" and "0 \<le> tmh_max_num_seqs s" and "0 \<le> tmh_max_model_pages s"
    and "head_size_v s = head_size s" and "0 \<le> head_size s" and "0 \<le> block_size s" and "0 \<le> num_kv_heads s"
    and "kv_quant s \<notin> {INT4_PER_TOKEN_HEAD, NVFP4}"
    and "0 < itemsize (dtype s)" and "(16 div itemsize (dtype s)) dvd head_size s"
    and "physical_allocation_bytes s n \<le> numel"
  shows "\<exists>c. reshape_tmh_physical_kv_cache numel s n = Inr c \<and> raw_pages c + warm_pages c = n
    \<and> laid_out numel 0 [raw_kv_cache c, warm_key c, warm_value c, warm_k_scale c, warm_v_scale c]
    \<and> reg_bytes (raw_kv_cache c) = raw_pages c * raw_page_size_bytes s
    \<and> reg_bytes (warm_key c) + reg_bytes (warm_value c) + reg_bytes (warm_k_scale c) + reg_bytes (warm_v_scale c)
        = warm_pages c * warm_page_size_bytes s"
proof -
  obtain raw warm where c: "physical_pool_page_counts s n = (raw, warm)" by fastforce
  note b = page_counts_bounds [OF assms(1,2) c]
  have "raw * raw_page_size_bytes s + warm * warm_page_size_bytes s + 3 \<le> numel" "0 \<le> raw"
    using assms(1,2,11) c b by (simp_all add: physical_allocation_bytes_def)
  then obtain r1 r2 r3 r4 r5 where r: "tmh_regions numel s raw warm = Inr (r1, r2, r3, r4, r5)" "laid_out numel 0 [r1, r2, r3, r4, r5]"
    "reg_bytes r1 = raw * raw_page_size_bytes s"
    "reg_bytes r2 + reg_bytes r3 + reg_bytes r4 + reg_bytes r5 = warm * warm_page_size_bytes s"
    using tmh_regions_fit [OF assms(4,9,10) _ b(3) _ assms(5,8)] assms(6,7) by (metis mult_nonneg_nonneg)
  obtain cc where "tmh_tables s n raw warm (r1, r2, r3, r4, r5) = Inr cc"
    using assms(1-3) by (simp add: tmh_tables_def Let_def res_simps)
  then show ?thesis using tmh_tables_fields [of s n raw warm r1 r2 r3 r4 r5 cc] r b(1) c
    by (auto simp: reshape_tmh_physical_kv_cache_def res_simps)
qed

theorem reshape_fits_allocation_witness:
  "\<exists>c. reshape_tmh_physical_kv_cache 1824 sample_layer 4 = Inr c \<and> raw_pages c + warm_pages c = 4
    \<and> laid_out 1824 0 [raw_kv_cache c, warm_key c, warm_value c, warm_k_scale c, warm_v_scale c]"
proof -
  have "physical_allocation_bytes sample_layer 4 \<le> 1824" by code_simp
  from reshape_fits_allocation [OF _ _ _ _ _ _ _ _ _ _ this] show ?thesis
    by (auto simp: sample_layer_def sample_tmh_def sample_full_def full_attention_spec.defs tmh_spec.defs bfloat16_def)
qed

text \<open>
  The condition on the quantisation is needed: for an int4 cache the planned raw page has half the
  bytes of the raw page the worker cuts, which then does not fit.
\<close>

lemma int4_layout_refused:
  "reshape_tmh_physical_kv_cache (physical_allocation_bytes (sample_layer\<lparr>kv_quant := INT4_PER_TOKEN_HEAD\<rparr>) 4)
     (sample_layer\<lparr>kv_quant := INT4_PER_TOKEN_HEAD\<rparr>) 4 = Inl ValueError"
  by code_simp

section \<open>A page that did not change loses its entry\<close>






section \<open>A demoted overlay keeps its slot\<close>

text \<open>
  With the raw pool exhausted, the overlay page of a request is stored in a canonical warm slot, while
  the scheduler still records it as an overlay. The event that forgets the request releases overlays and
  canonical pages by the scheduler's record, so that the canonical slots of a block the request holds
  only as an overlay stay in use.
\<close>

lemma release_overlays_canonical:
  "res_fold release_overlay keys rt = Inr rt' \<Longrightarrow> canonical_slots rt' = canonical_slots rt"
  by (induction keys arbitrary: rt) (auto simp: release_overlay_def push_raw_def res_bind_Inr_iff)

lemma release_request_canonical: "release_request rid rt = Inr rt' \<Longrightarrow> canonical_slots rt' = canonical_slots rt"
  using release_overlays_canonical by (simp add: release_request_def)

lemma refresh_canonical:
  assumes "refresh_logical_descriptor l b rt = Inr rt'"
  shows "canonical_slots rt' = canonical_slots rt"
proof -
  have entry: "canonical_slots rt' = canonical_slots rt" if "set_canonical_entry l b r slot rt = Inr rt'" for r slot
    using that by (auto simp: set_canonical_entry_def res_bind_Inr_iff)
  show ?thesis
    using assms entry by (cases "filter (\<lambda>((l', b', r), slot). l' = l \<and> b' = b) (canonical_slots rt)")
      (auto simp: refresh_logical_descriptor_def res_bind_Inr_iff split: prod.splits)
qed

lemma release_other_canonical:
  assumes "release_descriptor d rt = Inr rt'"
    and "storage d \<noteq> REQUEST_OVERLAY \<Longrightarrow> (d_layer_name d, logical_block_id d) \<noteq> (l, b)"
  shows "dict_get (canonical_slots rt') (l, b, r) = dict_get (canonical_slots rt) (l, b, r)"
proof (cases "storage d = REQUEST_OVERLAY")
  case True
  then show ?thesis
    using assms(1) release_overlays_canonical [of "[(d_layer_name d, d_request_id d, page_index d)]" rt rt']
    by (auto simp: release_descriptor_def Let_def res_simps split: if_splits)
next
  case False
  then obtain found where found: "find_released d rt = Inr found"
    and cont: "(case found of None \<Rightarrow> Inr rt
        | Some (key, slot, is_raw) \<Rightarrow>
            let rt1 = rt\<lparr>canonical_slots := dict_pop key (canonical_slots rt)\<rparr>
            in res_bind (if is_raw then push_raw (d_layer_name d) slot rt1 else push_warm (d_layer_name d) slot rt1) (\<lambda>rt2.
               refresh_logical_descriptor (d_layer_name d) (logical_block_id d) rt2)) = Inr rt'"
    using assms(1) by (auto simp: release_descriptor_def res_bind_Inr_iff)
  show ?thesis
  proof (cases found)
    case (Some x)
    obtain key slot is_raw where x: "x = (key, slot, is_raw)" by (metis prod_cases3)
    have "fst key = d_layer_name d \<and> fst (snd key) = logical_block_id d"
      using found Some x by (auto simp: find_released_def Let_def res_bind_Inr_iff split: option.splits if_splits)
    then have ne: "key \<noteq> (l, b, r)" using assms(2) False by auto
    obtain rt2 where push: "(if is_raw then push_raw (d_layer_name d) slot (rt\<lparr>canonical_slots := dict_pop key (canonical_slots rt)\<rparr>)
          else push_warm (d_layer_name d) slot (rt\<lparr>canonical_slots := dict_pop key (canonical_slots rt)\<rparr>)) = Inr rt2"
      and "refresh_logical_descriptor (d_layer_name d) (logical_block_id d) rt2 = Inr rt'"
      using cont unfolding Some x Let_def option.case prod.case res_bind_Inr_iff by blast
    then have "canonical_slots rt' = canonical_slots rt2" by (intro refresh_canonical)
    also have "\<dots> = dict_pop key (canonical_slots rt)"
      using push by (auto simp: push_raw_def push_warm_def res_bind_Inr_iff split: if_splits)
    finally have "canonical_slots rt' = dict_pop key (canonical_slots rt)" .
    then show ?thesis using ne by simp
  qed (use cont in simp)
qed

lemma overlay_block_not_released:
  assumes p: "policy_reachable p" and ev: "pending_physical_events (forget_request rid p) = pending_physical_events p @ [ev]"
    and overlay: "\<And>key d. dict_get (physical_descriptors p) key = Some d \<Longrightarrow> fst key = rid \<Longrightarrow>
      d_layer_name d = l \<Longrightarrow> logical_block_id d = b \<Longrightarrow> storage d = REQUEST_OVERLAY"
    and rt: "apply_events [ev] rows rt = Inr rt'"
  shows "dict_get (canonical_slots rt') (l, b, r) = dict_get (canonical_slots rt) (l, b, r)"
proof -
  have inv: "tmh_inv p" using policy_reachable_inv [OF p] by blast
  then have ok: "dict_ok (physical_descriptors p)" by (simp add: tmh_inv_def table_ok_def)
  define removed where "removed = map snd (filter (\<lambda>e. fst (fst e) = rid) (physical_descriptors p))"
  obtain rel where e: "e_descriptors ev = []" "released_request_ids ev = [rid]" "released_descriptors ev = rel"
    and rel: "canonical_keys rel \<subseteq> canonical_keys removed"
    using forget_inv [OF inv refl, of rid] ev unfolding removed_def [symmetric] Let_def by (auto split: if_splits)
  have other: "(d_layer_name d, logical_block_id d) \<noteq> (l, b)" if d: "d \<in> set rel" "storage d \<noteq> REQUEST_OVERLAY" for d
  proof
    assume lb: "(d_layer_name d, logical_block_id d) = (l, b)"
    have "storage d = CANONICAL" using d(2) by (cases "storage d") simp_all
    then have "(l, b, role_int (role d)) \<in> canonical_keys rel"
      using d(1) lb by (auto simp: canonical_keys_def canonical_descriptor_key_def)
    then have "(l, b, role_int (role d)) \<in> canonical_keys removed" using rel by blast
    then obtain d2 where d2: "d2 \<in> set removed" "storage d2 = CANONICAL" "d_layer_name d2 = l" "logical_block_id d2 = b"
      by (auto simp: canonical_keys_def canonical_descriptor_key_def split: if_splits)
    then obtain key where "(key, d2) \<in> set (physical_descriptors p)" "fst key = rid" by (auto simp: removed_def)
    from overlay [OF map_of_is_SomeI [OF ok this(1)] this(2)] d2 show False by simp
  qed
  obtain rt1 where r1: "release_request rid rt = Inr rt1" and r2: "res_fold release_descriptor rel rt1 = Inr rt'"
    using rt by (simp add: apply_events_def apply_event_def e res_simps res_bind_Inr_iff) blast
  have "dict_get (canonical_slots rt') (l, b, r) = dict_get (canonical_slots rt1) (l, b, r)"
    using res_fold_invariant [where P = "\<lambda>s. dict_get (canonical_slots s) (l, b, r) = dict_get (canonical_slots rt1) (l, b, r)", OF r2]
      release_other_canonical other by metis
  then show ?thesis using release_request_canonical [OF r1] by simp
qed

text \<open>
  The request of the sample event: its shared page 3 is hot, hence an overlay, and finds the raw pool
  exhausted. After the request is forgotten one warm slot remains in use by no request.
\<close>

lemma demoted_overlay_slot_leaks:
  "\<exists>p rt. record_physical_descriptors_from_block_ids ''r'' 64 [0, 1, 2, 3] [1, 3] sample_scheduler = Inr p
   \<and> physical_descriptors (forget_request ''r'' p) = []
   \<and> apply_events (pending_physical_events (forget_request ''r'' p)) [(''r'', 0)] sample_runtime = Inr rt
   \<and> overlay_slots rt = [] \<and> map fst (canonical_slots rt) = [(''l.0'', 3, role_int WARM_INT8_INT8)]"
proof -
  have "case record_physical_descriptors_from_block_ids ''r'' 64 [0, 1, 2, 3] [1, 3] sample_scheduler of Inl _ \<Rightarrow> False
    | Inr p \<Rightarrow> physical_descriptors (forget_request ''r'' p) = []
       \<and> (case apply_events (pending_physical_events (forget_request ''r'' p)) [(''r'', 0)] sample_runtime of Inl _ \<Rightarrow> False
          | Inr rt \<Rightarrow> overlay_slots rt = [] \<and> map fst (canonical_slots rt) = [(''l.0'', 3, role_int WARM_INT8_INT8)])"
    by code_simp
  then show ?thesis by (auto split: sum.splits)
qed


end
