(* ===== verification/Heapq.thy ===== *)
theory Heapq
  imports Prelude "HOL-Library.Multiset"
begin

text \<open>
  The binary heap of Python's \<^verbatim>\<open>heapq\<close>, which the priority queue of the scheduler uses: \<^verbatim>\<open>heappush\<close>,
  \<^verbatim>\<open>heappop\<close> and \<^verbatim>\<open>heapify\<close> with their two sifting loops, for any \<^verbatim>\<open>__lt__\<close>. The locale \<open>heap_order\<close>
  states what the comparison has to satisfy and proves the heap operations correct.
\<close>

section \<open>Sifting\<close>

definition parent :: "nat \<Rightarrow> nat" where
  "parent i = (i - 1) div 2"

lemma parent_less [termination_simp]: "0 < i \<Longrightarrow> parent i < i"
  by (simp add: parent_def less_mult_imp_div_less)

lemma parent_le: "parent i \<le> i"
  by (simp add: parent_def)

function siftdown_loop :: "('a \<Rightarrow> 'a \<Rightarrow> bool) \<Rightarrow> 'a \<Rightarrow> nat \<Rightarrow> 'a list \<Rightarrow> nat \<Rightarrow> 'a list \<times> nat" where
  "siftdown_loop lt newitem startpos heap pos =
     (if startpos < pos \<and> lt newitem (heap ! parent pos)
      then siftdown_loop lt newitem startpos (heap[pos := heap ! parent pos]) (parent pos)
      else (heap, pos))"
  by pat_completeness auto
termination
  by (relation "measure (\<lambda>(_, _, _, _, pos). pos)") (auto intro: parent_less)

definition siftdown :: "('a \<Rightarrow> 'a \<Rightarrow> bool) \<Rightarrow> nat \<Rightarrow> nat \<Rightarrow> 'a list \<Rightarrow> 'a list" where
  "siftdown lt startpos pos heap =
     (let newitem = heap ! pos; (heap', pos') = siftdown_loop lt newitem startpos heap pos
      in heap'[pos' := newitem])"

definition smaller_child :: "('a \<Rightarrow> 'a \<Rightarrow> bool) \<Rightarrow> 'a list \<Rightarrow> nat \<Rightarrow> nat" where
  "smaller_child lt heap pos =
     (let childpos = 2 * pos + 1; rightpos = childpos + 1
      in if rightpos < length heap \<and> \<not> lt (heap ! childpos) (heap ! rightpos) then rightpos else childpos)"

lemma smaller_child_greater [termination_simp]: "pos < smaller_child lt heap pos"
  by (simp add: smaller_child_def Let_def)

function siftup_loop :: "('a \<Rightarrow> 'a \<Rightarrow> bool) \<Rightarrow> 'a list \<Rightarrow> nat \<Rightarrow> 'a list \<times> nat" where
  "siftup_loop lt heap pos =
     (if 2 * pos + 1 < length heap
      then siftup_loop lt (heap[pos := heap ! smaller_child lt heap pos]) (smaller_child lt heap pos)
      else (heap, pos))"
  by pat_completeness auto
termination
proof (relation "measure (\<lambda>(_, heap, pos). length heap - pos)")
  fix lt :: "'a \<Rightarrow> 'a \<Rightarrow> bool" and heap :: "'a list" and pos
  assume "2 * pos + 1 < length heap"
  then show "((lt, heap[pos := heap ! smaller_child lt heap pos], smaller_child lt heap pos), lt, heap, pos)
      \<in> measure (\<lambda>(_, heap, pos). length heap - pos)"
    using smaller_child_greater [of pos lt heap] by simp
qed simp

definition siftup :: "('a \<Rightarrow> 'a \<Rightarrow> bool) \<Rightarrow> nat \<Rightarrow> 'a list \<Rightarrow> 'a list" where
  "siftup lt pos heap =
     (let newitem = heap ! pos; (heap', pos') = siftup_loop lt heap pos
      in siftdown lt pos pos' (heap'[pos' := newitem]))"

declare siftdown_loop.simps [simp del] siftup_loop.simps [simp del]

section \<open>The operations\<close>

definition heappush :: "('a \<Rightarrow> 'a \<Rightarrow> bool) \<Rightarrow> 'a \<Rightarrow> 'a list \<Rightarrow> 'a list" where
  "heappush lt item heap = siftdown lt 0 (length heap) (heap @ [item])"

definition heappop :: "('a \<Rightarrow> 'a \<Rightarrow> bool) \<Rightarrow> 'a list \<Rightarrow> ('a \<times> 'a list) result" where
  "heappop lt heap =
     (if heap = [] then Inl IndexError
      else let lastelt = last heap; rest = butlast heap
           in if rest = [] then Inr (lastelt, [])
              else Inr (hd rest, siftup lt 0 (rest[0 := lastelt])))"

definition heapify :: "('a \<Rightarrow> 'a \<Rightarrow> bool) \<Rightarrow> 'a list \<Rightarrow> 'a list" where
  "heapify lt heap = fold (siftup lt) (rev [0..<length heap div 2]) heap"

section \<open>Contents\<close>

lemma hole_swap:
  assumes "p < length h" and "q < length h" and "p \<noteq> q"
  shows "mset (h[p := h ! q, q := x]) = mset (h[p := x])"
proof -
  have "h[p := h ! q, q := x] = (h[p := x])[p := h[p := x] ! q, q := h[p := x] ! p]" using assms by simp
  then show ?thesis using mset_swap [of q "h[p := x]" p] assms by simp
qed

lemma siftdown_loop_mset:
  assumes "pos < length heap"
  shows "length (fst (siftdown_loop lt x s heap pos)) = length heap \<and> snd (siftdown_loop lt x s heap pos) < length heap
    \<and> mset ((fst (siftdown_loop lt x s heap pos))[snd (siftdown_loop lt x s heap pos) := x]) = mset (heap[pos := x])"
  using assms
proof (induction lt x s heap pos rule: siftdown_loop.induct)
  case (1 lt x s heap pos)
  show ?case
  proof (cases "s < pos \<and> lt x (heap ! parent pos)")
    case True
    then have "parent pos < length heap" "parent pos \<noteq> pos" using 1(2) parent_less [of pos] by auto
    then show ?thesis using 1(1) [OF True] True hole_swap [of pos heap "parent pos" x] 1(2) by (simp add: siftdown_loop.simps [of lt x s heap pos])
  next
    case False
    then show ?thesis using 1(2) by (auto simp: siftdown_loop.simps [of lt x s heap pos])
  qed
qed

lemma siftdown_mset:
  assumes "pos < length heap"
  shows "length (siftdown lt s pos heap) = length heap" and "mset (siftdown lt s pos heap) = mset heap"
  using siftdown_loop_mset [OF assms, of lt "heap ! pos" s] by (simp_all add: siftdown_def Let_def case_prod_beta)

lemma siftup_loop_mset:
  assumes "pos < length heap"
  shows "length (fst (siftup_loop lt heap pos)) = length heap \<and> snd (siftup_loop lt heap pos) < length heap
    \<and> mset ((fst (siftup_loop lt heap pos))[snd (siftup_loop lt heap pos) := x]) = mset (heap[pos := x])"
  using assms
proof (induction lt heap pos rule: siftup_loop.induct)
  case (1 lt heap pos)
  show ?case
  proof (cases "2 * pos + 1 < length heap")
    case True
    then have "smaller_child lt heap pos < length heap" by (auto simp: smaller_child_def Let_def)
    moreover have "smaller_child lt heap pos \<noteq> pos" using smaller_child_greater [of pos lt heap] by simp
    ultimately show ?thesis
      using 1(1) [OF True] True hole_swap [of pos heap "smaller_child lt heap pos" x] 1(2) by (simp add: siftup_loop.simps [of lt heap pos])
  next
    case False
    then show ?thesis using 1(2) by (auto simp: siftup_loop.simps [of lt heap pos])
  qed
qed

lemma siftup_mset:
  assumes "pos < length heap"
  shows "length (siftup lt pos heap) = length heap" and "mset (siftup lt pos heap) = mset heap"
proof -
  note l = siftup_loop_mset [OF assms, of lt "heap ! pos"]
  let ?p = "snd (siftup_loop lt heap pos)" and ?h = "(fst (siftup_loop lt heap pos))[snd (siftup_loop lt heap pos) := heap ! pos]"
  have p: "?p < length ?h" using l by simp
  show "length (siftup lt pos heap) = length heap" "mset (siftup lt pos heap) = mset heap"
    using siftdown_mset [OF p, of lt pos] l by (simp_all add: siftup_def Let_def case_prod_beta)
qed

section \<open>The heap property\<close>

text \<open>The entries below \<open>s\<close> in the tree need not be ordered with respect to their parents.\<close>

definition heap_from :: "('a \<Rightarrow> 'a \<Rightarrow> bool) \<Rightarrow> nat \<Rightarrow> 'a list \<Rightarrow> bool" where
  "heap_from lt s h \<longleftrightarrow> (\<forall>i < length h. 0 < i \<longrightarrow> s \<le> parent i \<longrightarrow> \<not> lt (h ! i) (h ! parent i))"

definition is_heap :: "('a \<Rightarrow> 'a \<Rightarrow> bool) \<Rightarrow> 'a list \<Rightarrow> bool" where
  "is_heap lt h \<longleftrightarrow> heap_from lt 0 h"

text \<open>The position \<open>p\<close> is in the subtree of \<open>s\<close>.\<close>

inductive below :: "nat \<Rightarrow> nat \<Rightarrow> bool" for s where
  here: "below s s"
| child: "below s (parent p) \<Longrightarrow> 0 < p \<Longrightarrow> below s p"

lemma below_ge: "below s p \<Longrightarrow> s \<le> p"
  by (induction rule: below.induct) (use parent_less in \<open>auto intro: le_trans less_imp_le\<close>)

lemma below_parent: "below s p \<Longrightarrow> p \<noteq> s \<Longrightarrow> below s (parent p) \<and> s \<le> parent p"
  using below_ge by (auto elim: below.cases)

locale heap_order =
  fixes lt :: "'a \<Rightarrow> 'a \<Rightarrow> bool"
  assumes asym: "lt a b \<Longrightarrow> \<not> lt b a"
    and trans: "lt a b \<Longrightarrow> lt b c \<Longrightarrow> lt a c"
    and not_trans: "\<not> lt b a \<Longrightarrow> \<not> lt c b \<Longrightarrow> \<not> lt c a"
begin

text \<open>Moving up: only the entry at \<open>pos\<close> may be out of order with its parent.\<close>

definition up_inv :: "nat \<Rightarrow> 'a list \<Rightarrow> nat \<Rightarrow> bool" where
  "up_inv s k pos \<longleftrightarrow>
     (\<forall>i < length k. i \<noteq> pos \<longrightarrow> 0 < i \<longrightarrow> s \<le> parent i \<longrightarrow> \<not> lt (k ! i) (k ! parent i))
     \<and> (pos \<noteq> s \<longrightarrow> (\<forall>i < length k. 0 < i \<longrightarrow> parent i = pos \<longrightarrow> \<not> lt (k ! i) (k ! parent pos)))"

lemma up_inv_step:
  assumes inv: "up_inv s k pos" and pos: "pos < length k" "below s pos" "s < pos" and less: "lt (k ! pos) (k ! parent pos)"
  shows "up_inv s (k[pos := k ! parent pos, parent pos := k ! pos]) (parent pos)"
proof -
  let ?k = "k[pos := k ! parent pos, parent pos := k ! pos]" and ?q = "parent pos"
  have q: "?q < pos" "?q < length k" "s \<le> ?q" "below s ?q" "0 < pos"
    using below_parent [OF pos(2)] parent_less [of pos] pos(1,3) by auto
  have nth: "?k ! i = (if i = ?q then k ! pos else if i = pos then k ! ?q else k ! i)" if "i < length k" for i
    using that q pos(1) by (auto simp: nth_list_update)
  have par: "parent i < length k" if "i < length k" for i using that parent_le le_less_trans by blast
  have one: "\<not> lt (k ! i) (k ! parent i)" if "i < length k" "i \<noteq> pos" "0 < i" "s \<le> parent i" for i
    using inv that by (simp add: up_inv_def)
  have two: "\<not> lt (k ! i) (k ! ?q)" if "i < length k" "0 < i" "parent i = pos" for i
    using inv that pos(3) by (simp add: up_inv_def)
  have c1: "\<not> lt (?k ! i) (?k ! parent i)" if i: "i < length k" "i \<noteq> ?q" "0 < i" "s \<le> parent i" for i
  proof -
    consider (pos) "i = pos" | (child) "i \<noteq> pos" "parent i = pos" | (sibling) "i \<noteq> pos" "parent i = ?q" | (other) "i \<noteq> pos" "parent i \<noteq> pos" "parent i \<noteq> ?q" by blast
    then show ?thesis
    proof cases
      case pos
      then show ?thesis using nth [OF i(1)] nth [OF par [OF i(1)]] asym [OF less] q by simp
    next
      case child
      then show ?thesis using nth [OF i(1)] nth [OF par [OF i(1)]] two i q by auto
    next
      case sibling
      then have "\<not> lt (k ! i) (k ! ?q)" using one [of i] i by simp
      then have "\<not> lt (k ! i) (k ! pos)" using less trans by blast
      then show ?thesis using nth [OF i(1)] nth [OF par [OF i(1)]] sibling i by auto
    next
      case other
      then show ?thesis using nth [OF i(1)] nth [OF par [OF i(1)]] one i by auto
    qed
  qed
  have c2: "\<not> lt (?k ! i) (?k ! parent ?q)" if i: "i < length k" "0 < i" "parent i = ?q" and s: "?q \<noteq> s" for i
  proof -
    have qq: "s \<le> parent ?q" "0 < ?q" using below_parent [OF q(4) s] q(3) s by auto
    then have up: "\<not> lt (k ! ?q) (k ! parent ?q)" using one [of ?q] q by simp
    have "parent ?q < ?q" using parent_less [OF qq(2)] .
    then have pq: "?k ! parent ?q = k ! parent ?q" using nth [OF par [OF q(2)]] q by simp
    show ?thesis
    proof (cases "i = pos")
      case True
      then show ?thesis using pq up nth [OF i(1)] q by simp
    next
      case False
      then have "\<not> lt (k ! i) (k ! ?q)" using one [of i] i q by simp
      then show ?thesis using pq up not_trans nth [OF i(1)] False i parent_less [OF i(2)] by auto
    qed
  qed
  show ?thesis unfolding up_inv_def using c1 c2 by simp
qed

lemma siftdown_loop_heap:
  assumes "up_inv s (h[pos := x]) pos" and "pos < length h" and "below s pos"
  shows "heap_from lt s ((fst (siftdown_loop lt x s h pos))[snd (siftdown_loop lt x s h pos) := x])"
  using assms
proof (induction pos arbitrary: h rule: less_induct)
  case (less pos)
  let ?k = "h[pos := x]"
  show ?case
  proof (cases "s < pos \<and> lt x (h ! parent pos)")
    case True
    have q: "parent pos < pos" "below s (parent pos)" using True below_parent [OF less.prems(3)] parent_less [of pos] by auto
    have "lt (?k ! pos) (?k ! parent pos)" using True q less.prems(2) by simp
    from up_inv_step [OF less.prems(1) _ less.prems(3) _ this]
    have "up_inv s (h[pos := h ! parent pos, parent pos := x]) (parent pos)" using True q less.prems(2) by simp
    then have "heap_from lt s ((fst (siftdown_loop lt x s (h[pos := h ! parent pos]) (parent pos)))
        [snd (siftdown_loop lt x s (h[pos := h ! parent pos]) (parent pos)) := x])"
      using q less.prems(2) by (intro less.IH) auto
    then show ?thesis using True by (simp add: siftdown_loop.simps [of lt x s h pos])
  next
    case False
    have "\<not> lt (?k ! i) (?k ! parent i)" if i: "i < length h" "0 < i" "s \<le> parent i" for i
    proof (cases "i = pos")
      case True
      then have "s < pos" "parent pos < pos" using i parent_less [of pos] by auto
      then show ?thesis using True False less.prems(2) by simp
    next
      case False
      then show ?thesis using i less.prems(1) by (simp add: up_inv_def)
    qed
    then have "heap_from lt s ?k" by (simp add: heap_from_def)
    moreover have "siftdown_loop lt x s h pos = (h, pos)" using False by (auto simp: siftdown_loop.simps [of lt x s h pos])
    ultimately show ?thesis by simp
  qed
qed

lemma siftdown_heap: "up_inv s h pos \<Longrightarrow> pos < length h \<Longrightarrow> below s pos \<Longrightarrow> heap_from lt s (siftdown lt s pos h)"
  using siftdown_loop_heap [of s h pos "h ! pos"] by (simp add: siftdown_def Let_def case_prod_beta)

text \<open>Moving down: the entry at \<open>pos\<close> is a hole, and its children are above its parent.\<close>

definition down_inv :: "nat \<Rightarrow> 'a list \<Rightarrow> nat \<Rightarrow> bool" where
  "down_inv s h pos \<longleftrightarrow>
     (\<forall>i < length h. i \<noteq> pos \<longrightarrow> 0 < i \<longrightarrow> parent i \<noteq> pos \<longrightarrow> s \<le> parent i \<longrightarrow> \<not> lt (h ! i) (h ! parent i))
     \<and> (pos \<noteq> s \<longrightarrow> (\<forall>i < length h. 0 < i \<longrightarrow> parent i = pos \<longrightarrow> \<not> lt (h ! i) (h ! parent pos)))"

lemma children: "0 < i \<Longrightarrow> parent i = pos \<longleftrightarrow> i = 2 * pos + 1 \<or> i = 2 * pos + 2"
  by (auto simp: parent_def)

lemma smaller_child_spec:
  assumes "2 * pos + 1 < length h"
  shows "smaller_child lt h pos < length h" and "parent (smaller_child lt h pos) = pos"
    and "i < length h \<Longrightarrow> 0 < i \<Longrightarrow> parent i = pos \<Longrightarrow> i \<noteq> smaller_child lt h pos \<Longrightarrow> \<not> lt (h ! i) (h ! smaller_child lt h pos)"
proof -
  show "smaller_child lt h pos < length h" using assms by (auto simp: smaller_child_def Let_def)
  show "parent (smaller_child lt h pos) = pos" by (auto simp: smaller_child_def Let_def parent_def)
  assume i: "i < length h" "0 < i" "parent i = pos" "i \<noteq> smaller_child lt h pos"
  then have "i = 2 * pos + 1 \<or> i = 2 * pos + 2" by (simp add: children)
  then show "\<not> lt (h ! i) (h ! smaller_child lt h pos)" using i(1,4) asym by (auto simp: smaller_child_def Let_def split: if_splits)
qed

lemma down_inv_step:
  assumes inv: "down_inv s h pos" and c: "2 * pos + 1 < length h" and b: "below s pos"
  shows "down_inv s (h[pos := h ! smaller_child lt h pos]) (smaller_child lt h pos)"
proof -
  define c where "c = smaller_child lt h pos"
  note sc = smaller_child_spec [OF c, folded c_def]
  have pc: "pos < c" "0 < c" using smaller_child_greater [of pos lt h] by (simp_all add: c_def)
  have lp: "pos < length h" using c by simp
  have one: "\<not> lt (h ! i) (h ! parent i)" if "i < length h" "i \<noteq> pos" "0 < i" "parent i \<noteq> pos" "s \<le> parent i" for i
    using inv that by (simp add: down_inv_def)
  have two: "\<not> lt (h ! i) (h ! parent pos)" if "i < length h" "0 < i" "parent i = pos" "pos \<noteq> s" for i
    using inv that by (simp add: down_inv_def)
  have "\<not> lt (h[pos := h ! c] ! i) (h[pos := h ! c] ! parent i)"
    if i: "i < length h" "i \<noteq> c" "0 < i" "parent i \<noteq> c" "s \<le> parent i" for i
  proof -
    consider (pos) "i = pos" | (child) "i \<noteq> pos" "parent i = pos" | (other) "i \<noteq> pos" "parent i \<noteq> pos" by blast
    then show ?thesis
    proof cases
      case pos
      then have "parent pos < pos" using i parent_less by blast
      then show ?thesis using pos two [of c] sc(1,2) pc i lp below_ge [OF b] by auto
    next
      case child
      then show ?thesis using sc(3) [of i] i lp by simp
    next
      case other
      then show ?thesis using one i by simp
    qed
  qed
  moreover have "\<not> lt (h[pos := h ! c] ! i) (h[pos := h ! c] ! parent c)" if i: "i < length h" "0 < i" "parent i = c" for i
  proof -
    have "i \<noteq> pos" using parent_less [OF i(2)] i(3) pc by auto
    moreover have "s \<le> c" using below_ge [OF b] pc by simp
    ultimately show ?thesis using one [of i] i pc sc(2) lp by simp
  qed
  ultimately show ?thesis unfolding c_def [symmetric] by (simp add: down_inv_def)
qed

lemma siftup_loop_heap:
  assumes "down_inv s h pos" and "pos < length h" and "below s pos"
  shows "down_inv s (fst (siftup_loop lt h pos)) (snd (siftup_loop lt h pos)) \<and> below s (snd (siftup_loop lt h pos))
    \<and> length h \<le> 2 * snd (siftup_loop lt h pos) + 1"
  using assms
proof (induction "length h - pos" arbitrary: h pos rule: less_induct)
  case less
  show ?case
  proof (cases "2 * pos + 1 < length h")
    case True
    let ?c = "smaller_child lt h pos"
    note sc = smaller_child_spec [OF True]
    have pc: "pos < ?c" using smaller_child_greater .
    have b: "below s ?c" using below.child [of s ?c] sc(2) less.prems(3) pc by simp
    show ?thesis
      using less.hyps [of "h[pos := h ! ?c]" ?c] down_inv_step [OF less.prems(1) True less.prems(3)] sc(1) b pc True
      by (simp add: siftup_loop.simps [of lt h pos])
  next
    case False
    then show ?thesis using less.prems by (simp add: siftup_loop.simps [of lt h pos])
  qed
qed

lemma siftup_heap:
  assumes "heap_from lt (Suc pos) h" and "pos < length h"
  shows "heap_from lt pos (siftup lt pos h)"
proof -
  obtain h' p where l: "siftup_loop lt h pos = (h', p)" by fastforce
  have "down_inv pos h pos" using assms parent_less [of pos] by (auto simp: down_inv_def heap_from_def)
  from siftup_loop_heap [OF this assms(2) below.here] l
  have d: "down_inv pos h' p" "below pos p" "length h \<le> 2 * p + 1" by simp_all
  have len: "length h' = length h" "p < length h" using siftup_loop_mset [OF assms(2), of lt] l by auto
  have leaf: "parent i \<noteq> p" if "i < length h" "0 < i" for i using that d(3) by (auto simp: children)
  have "\<not> lt (h'[p := h ! pos] ! i) (h'[p := h ! pos] ! parent i)" if "i < length h" "i \<noteq> p" "0 < i" "pos \<le> parent i" for i
    using that d(1) leaf [OF that(1,3)] len by (simp add: down_inv_def)
  then have "up_inv pos (h'[p := h ! pos]) p" using leaf len by (auto simp: up_inv_def)
  from siftdown_heap [OF this _ d(2)] show ?thesis using len l by (simp add: siftup_def)
qed

section \<open>The operations keep the heap\<close>

lemma heap_root: "is_heap lt h \<Longrightarrow> i < length h \<Longrightarrow> \<not> lt (h ! i) (h ! 0)"
proof (induction i rule: less_induct)
  case (less i)
  show ?case
  proof (cases "i = 0")
    case True
    then show ?thesis using asym by blast
  next
    case False
    then have p: "parent i < i" using parent_less by simp
    then have "\<not> lt (h ! parent i) (h ! 0)" "\<not> lt (h ! i) (h ! parent i)"
      using less False by (auto simp: is_heap_def heap_from_def)
    then show ?thesis using not_trans by blast
  qed
qed

lemma below_zero: "below 0 p"
proof (induction p rule: less_induct)
  case (less p)
  then show ?case using below.here below.child parent_less by (cases "p = 0") (metis, metis gr0I)
qed

lemma heappush_heap:
  assumes "is_heap lt h"
  shows "is_heap lt (heappush lt x h)" and "mset (heappush lt x h) = add_mset x (mset h)"
proof -
  have "up_inv 0 (h @ [x]) (length h)"
    unfolding up_inv_def
  proof (intro conjI allI impI)
    fix i assume "i < length (h @ [x])" "i \<noteq> length h" "0 < i"
    then show "\<not> lt ((h @ [x]) ! i) ((h @ [x]) ! parent i)"
      using assms parent_less [of i] by (simp add: is_heap_def heap_from_def nth_append)
  next
    fix i assume "i < length (h @ [x])" "0 < i" "parent i = length h"
    then show "\<not> lt ((h @ [x]) ! i) ((h @ [x]) ! parent (length h))" using parent_less [of i] by simp
  qed
  then show "is_heap lt (heappush lt x h)"
    unfolding is_heap_def heappush_def by (intro siftdown_heap below_zero) simp_all
  show "mset (heappush lt x h) = add_mset x (mset h)" by (simp add: heappush_def siftdown_mset)
qed

lemma heappop_heap:
  assumes "is_heap lt h" and "h \<noteq> []"
  shows "\<exists>x h'. heappop lt h = Inr (x, h') \<and> is_heap lt h' \<and> mset h = add_mset x (mset h') \<and> (\<forall>y\<in>set h. \<not> lt y x)"
proof -
  obtain r l where h: "h = r @ [l]" using assms(2) by (cases h rule: rev_cases) auto
  show ?thesis
  proof (cases r)
    case Nil
    then show ?thesis using h asym by (auto simp: heappop_def is_heap_def heap_from_def)
  next
    case (Cons x r')
    have "heap_from lt (Suc 0) (r[0 := l])"
      unfolding heap_from_def
    proof (intro allI impI)
      fix i assume i: "i < length (r[0 := l])" "0 < i" "Suc 0 \<le> parent i"
      then have "\<not> lt (h ! i) (h ! parent i)" using assms(1) h by (simp add: is_heap_def heap_from_def)
      then show "\<not> lt (r[0 := l] ! i) (r[0 := l] ! parent i)" using i h parent_less [OF i(2)] by (simp add: nth_append)
    qed
    then have hp: "is_heap lt (siftup lt 0 (r[0 := l]))" unfolding is_heap_def using Cons by (intro siftup_heap) simp_all
    have m: "mset h = add_mset x (mset (siftup lt 0 (r[0 := l])))" using h Cons by (simp add: siftup_mset)
    have "\<forall>y\<in>set h. \<not> lt y x" using heap_root [OF assms(1)] h Cons by (metis append_Cons in_set_conv_nth nth_Cons_0)
    then show ?thesis using hp m h Cons by (simp add: heappop_def)
  qed
qed

lemma heapify_heap: "is_heap lt (heapify lt h)" and heapify_mset: "mset (heapify lt h) = mset h"
proof -
  have "heap_from lt 0 (fold (siftup lt) (rev [0..<n]) k) \<and> mset (fold (siftup lt) (rev [0..<n]) k) = mset k"
    if "heap_from lt n k" "n \<le> length k" for n k
    using that
  proof (induction n arbitrary: k)
    case (Suc n)
    have "heap_from lt n (siftup lt n k)" "length (siftup lt n k) = length k" "mset (siftup lt n k) = mset k"
      using Suc.prems siftup_heap [of n k] siftup_mset [of n k lt] by auto
    then show ?case using Suc.IH [of "siftup lt n k"] Suc.prems by simp
  qed simp
  moreover have "heap_from lt (length h div 2) h" by (auto simp: heap_from_def parent_def)
  ultimately show "is_heap lt (heapify lt h)" "mset (heapify lt h) = mset h" by (auto simp: heapify_def is_heap_def)
qed

end

end
