(* ===== verification/RequestQueue.thy ===== *)
theory RequestQueue
  imports Request Heapq
begin

text \<open>
  The waiting queues of the scheduler (\<^verbatim>\<open>vllm/v1/core/sched/request_queue.py\<close>): a deque for the
  first-come-first-served policy and a binary heap for the priority policy. Requests are compared by
  identity, which \<^verbatim>\<open>object_id\<close> stands for. The queues refine a list of the waiting requests in the
  order in which they will be served.
\<close>

declare split_paired_All [simp del] split_paired_Ex [simp del]

section \<open>The queues\<close>

datatype scheduling_policy = FCFS | PRIORITY

datatype request_queue = FCFSRequestQueue "request list" | PriorityRequestQueue "request list"

definition create_request_queue :: "scheduling_policy \<Rightarrow> request_queue" where
  "create_request_queue policy =
     (case policy of PRIORITY \<Rightarrow> PriorityRequestQueue [] | FCFS \<Rightarrow> FCFSRequestQueue [])"

fun add_request :: "request \<Rightarrow> request_queue \<Rightarrow> request_queue" where
  "add_request r (FCFSRequestQueue q) = FCFSRequestQueue (q @ [r])"
| "add_request r (PriorityRequestQueue h) = PriorityRequestQueue (heappush request_lt r h)"

fun pop_request :: "request_queue \<Rightarrow> (request \<times> request_queue) result" where
  "pop_request (FCFSRequestQueue q) = (case q of [] \<Rightarrow> Inl IndexError | r # q' \<Rightarrow> Inr (r, FCFSRequestQueue q'))"
| "pop_request (PriorityRequestQueue h) =
     (if h = [] then Inl IndexError
      else res_bind (heappop request_lt h) (\<lambda>(r, h'). Inr (r, PriorityRequestQueue h')))"

fun peek_request :: "request_queue \<Rightarrow> request result" where
  "peek_request (FCFSRequestQueue q) = (if q = [] then Inl IndexError else py_index q 0)"
| "peek_request (PriorityRequestQueue h) = (if h = [] then Inl IndexError else py_index h 0)"

fun prepend_request :: "request \<Rightarrow> request_queue \<Rightarrow> request_queue" where
  "prepend_request r (FCFSRequestQueue q) = FCFSRequestQueue (r # q)"
| "prepend_request r (PriorityRequestQueue h) = add_request r (PriorityRequestQueue h)"

lemma heappop_length: "heappop lt h = Inr (x, h') \<Longrightarrow> length h' < length h"
  using siftup_mset(1) [of 0 "(butlast h)[0 := last h]" lt] length_butlast [of h]
  by (cases h) (auto simp: heappop_def Let_def split: if_splits)

function heap_drain :: "('a \<Rightarrow> 'a \<Rightarrow> bool) \<Rightarrow> 'a list \<Rightarrow> 'a list" where
  "heap_drain lt h = (case heappop lt h of Inl _ \<Rightarrow> [] | Inr (x, h') \<Rightarrow> x # heap_drain lt h')"
  by pat_completeness auto
termination
  by (relation "measure (\<lambda>(_, h). length h)") (auto dest: heappop_length)

declare heap_drain.simps [simp del]

fun queue_iter :: "request_queue \<Rightarrow> request list" where
  "queue_iter (FCFSRequestQueue q) = q"
| "queue_iter (PriorityRequestQueue h) = heap_drain request_lt h"

fun queue_len :: "request_queue \<Rightarrow> int" where
  "queue_len (FCFSRequestQueue q) = int (length q)"
| "queue_len (PriorityRequestQueue h) = int (length h)"

definition queue_bool :: "request_queue \<Rightarrow> bool" where
  "queue_bool q \<longleftrightarrow> queue_len q > 0"

text \<open>\<^verbatim>\<open>deque.extendleft\<close> reverses the order of its argument.\<close>

fun prepend_requests :: "request_queue \<Rightarrow> request_queue \<Rightarrow> request_queue" where
  "prepend_requests requests (FCFSRequestQueue q) = FCFSRequestQueue (rev (queue_iter requests) @ q)"
| "prepend_requests requests (PriorityRequestQueue h) = fold add_request (queue_iter requests) (PriorityRequestQueue h)"

fun list_remove :: "request \<Rightarrow> request list \<Rightarrow> request list result" where
  "list_remove r [] = Inl ValueError"
| "list_remove r (x # xs) =
     (if object_id x = object_id r then Inr xs else res_bind (list_remove r xs) (\<lambda>ys. Inr (x # ys)))"

fun remove_request :: "request \<Rightarrow> request_queue \<Rightarrow> request_queue result" where
  "remove_request r (FCFSRequestQueue q) = res_bind (list_remove r q) (\<lambda>q'. Inr (FCFSRequestQueue q'))"
| "remove_request r (PriorityRequestQueue h) =
     res_bind (list_remove r h) (\<lambda>h'. Inr (PriorityRequestQueue (heapify request_lt h')))"

definition not_in :: "request list \<Rightarrow> request \<Rightarrow> bool" where
  "not_in rs r \<longleftrightarrow> object_id r \<notin> object_id ` set rs"

fun remove_requests :: "request list \<Rightarrow> request_queue \<Rightarrow> request_queue" where
  "remove_requests rs (FCFSRequestQueue q) = FCFSRequestQueue (filter (not_in rs) q)"
| "remove_requests rs (PriorityRequestQueue h) = PriorityRequestQueue (heapify request_lt (filter (not_in rs) h))"

section \<open>The order of service\<close>

interpretation rq: heap_order request_lt
  by unfold_locales (use request_lt_irrefl request_lt_trans not_request_lt_trans in blast)+

definition in_order :: "request list \<Rightarrow> bool" where
  "in_order rs \<longleftrightarrow> sorted (map request_key rs)"

lemma not_lt_key: "\<not> request_lt b a \<longleftrightarrow> request_key a \<le> request_key b"
  by (auto simp: request_lt_key)

lemma drain_order:
  assumes "is_heap request_lt h"
  shows "mset (heap_drain request_lt h) = mset h \<and> in_order (heap_drain request_lt h)"
  using assms
proof (induction "length h" arbitrary: h rule: less_induct)
  case less
  show ?case
  proof (cases "h = []")
    case True
    then show ?thesis by (simp add: heap_drain.simps heappop_def in_order_def)
  next
    case False
    obtain x h' where p: "heappop request_lt h = Inr (x, h')" "is_heap request_lt h'" "mset h = add_mset x (mset h')"
      "\<forall>y\<in>set h. \<not> request_lt y x"
      using rq.heappop_heap [OF less.prems False] by blast
    have ih: "mset (heap_drain request_lt h') = mset h'" "in_order (heap_drain request_lt h')"
      using less.hyps [OF heappop_length [OF p(1)] p(2)] by simp_all
    have "set (heap_drain request_lt h') \<subseteq> set h" using mset_eq_setD [OF ih(1)] p(3) by (metis set_mset_add_mset_insert set_mset_mset subset_insertI)
    then have "\<forall>y\<in>set (heap_drain request_lt h'). request_key x \<le> request_key y" using p(4) not_lt_key by blast
    then show ?thesis using p(1,3) ih by (simp add: heap_drain.simps [of _ h] in_order_def)
  qed
qed

lemma request_key_inj: "inj_on request_key (set rs)" if "distinct (map object_id rs)" for rs
  using that by (auto simp: inj_on_def request_key_def distinct_map)

lemma in_order_unique:
  assumes "mset xs = mset ys" and "in_order xs" and "in_order ys" and "distinct (map object_id xs)"
  shows "xs = ys"
proof -
  have "mset (map request_key xs) = mset (map request_key ys)" using assms(1) by simp
  then have "map request_key xs = map request_key ys"
    using assms(2,3) properties_for_sort [of "map request_key xs" "map request_key ys"] sorted_sort_id [of "map request_key ys"]
    by (simp add: in_order_def)
  moreover have "inj_on request_key (set xs \<union> set ys)"
    using request_key_inj [OF assms(4)] mset_eq_setD [OF assms(1)] by simp
  ultimately show ?thesis using inj_on_map_eq_map by blast
qed

definition queue_valid :: "request_queue \<Rightarrow> bool" where
  "queue_valid q \<longleftrightarrow>
     (case q of FCFSRequestQueue xs \<Rightarrow> distinct (map object_id xs)
      | PriorityRequestQueue h \<Rightarrow> distinct (map object_id h) \<and> is_heap request_lt h)"

fun policy_of :: "request_queue \<Rightarrow> scheduling_policy" where
  "policy_of (FCFSRequestQueue _) = FCFS"
| "policy_of (PriorityRequestQueue _) = PRIORITY"

text \<open>A heap whose contents are those of an ordered list is served in the order of that list.\<close>

lemma drain_eq:
  assumes "is_heap request_lt h" and "mset h = mset xs" and "in_order xs" and "distinct (map object_id xs)"
  shows "heap_drain request_lt h = xs" and "queue_valid (PriorityRequestQueue h)"
proof -
  note d = drain_order [OF assms(1)]
  have "distinct (map object_id h)" using assms(2,4) by (metis mset_map mset_eq_imp_distinct_iff)
  then show "queue_valid (PriorityRequestQueue h)" using assms(1) by (simp add: queue_valid_def)
  show "heap_drain request_lt h = xs"
    using d assms(2-4) by (intro in_order_unique [symmetric]) simp_all
qed

lemma drain_valid:
  assumes "queue_valid (PriorityRequestQueue h)"
  shows "is_heap request_lt h" and "mset (heap_drain request_lt h) = mset h" and "in_order (heap_drain request_lt h)"
    and "distinct (map object_id (heap_drain request_lt h))"
proof -
  show hp: "is_heap request_lt h" using assms by (simp add: queue_valid_def)
  show m: "mset (heap_drain request_lt h) = mset h" "in_order (heap_drain request_lt h)" using drain_order [OF hp] by simp_all
  show "distinct (map object_id (heap_drain request_lt h))"
    using assms m(1) by (metis (no_types, lifting) mset_eq_imp_distinct_iff mset_map queue_valid_def request_queue.simps(6))
qed

section \<open>Refinement of the order of service\<close>

datatype queue_op =
    AddRequest request
  | PopRequest
  | PeekRequest
  | PrependRequest request
  | PrependRequests request_queue
  | RemoveRequest request
  | RemoveRequests "request list"

text \<open>An operation returns a request or nothing, or raises; when it raises the queue is as before.\<close>

definition outcome :: "request_queue \<Rightarrow> (request option \<times> request_queue) result \<Rightarrow> request option result \<times> request_queue" where
  "outcome q m = (case m of Inl e \<Rightarrow> (Inl e, q) | Inr (x, q') \<Rightarrow> (Inr x, q'))"

fun queue_step :: "queue_op \<Rightarrow> request_queue \<Rightarrow> request option result \<times> request_queue" where
  "queue_step (AddRequest r) q = (Inr None, add_request r q)"
| "queue_step PopRequest q = outcome q (res_bind (pop_request q) (\<lambda>(r, q'). Inr (Some r, q')))"
| "queue_step PeekRequest q = outcome q (res_bind (peek_request q) (\<lambda>r. Inr (Some r, q)))"
| "queue_step (PrependRequest r) q = (Inr None, prepend_request r q)"
| "queue_step (PrependRequests other) q = (Inr None, prepend_requests other q)"
| "queue_step (RemoveRequest r) q = outcome q (res_bind (remove_request r q) (\<lambda>q'. Inr (None, q')))"
| "queue_step (RemoveRequests rs) q = (Inr None, remove_requests rs q)"

text \<open>The specification: the waiting requests in the order of service.\<close>

fun spec_insert :: "scheduling_policy \<Rightarrow> request \<Rightarrow> request list \<Rightarrow> request list" where
  "spec_insert FCFS r xs = xs @ [r]"
| "spec_insert PRIORITY r xs = insort_key request_key r xs"

fun spec_step :: "scheduling_policy \<Rightarrow> queue_op \<Rightarrow> request list \<Rightarrow> request option result \<times> request list" where
  "spec_step p (AddRequest r) xs = (Inr None, spec_insert p r xs)"
| "spec_step p PopRequest xs = (case xs of [] \<Rightarrow> (Inl IndexError, xs) | r # ys \<Rightarrow> (Inr (Some r), ys))"
| "spec_step p PeekRequest xs = (case xs of [] \<Rightarrow> (Inl IndexError, xs) | r # ys \<Rightarrow> (Inr (Some r), xs))"
| "spec_step p (PrependRequest r) xs = (Inr None, if p = FCFS then r # xs else spec_insert p r xs)"
| "spec_step p (PrependRequests other) xs =
     (Inr None, if p = FCFS then rev (queue_iter other) @ xs else fold (spec_insert p) (queue_iter other) xs)"
| "spec_step p (RemoveRequest r) xs =
     (if object_id r \<in> object_id ` set xs then (Inr None, filter (not_in [r]) xs) else (Inl ValueError, xs))"
| "spec_step p (RemoveRequests rs) xs = (Inr None, filter (not_in rs) xs)"

text \<open>A request is never put twice into a queue.\<close>

fun op_fresh :: "queue_op \<Rightarrow> request list \<Rightarrow> bool" where
  "op_fresh (AddRequest r) xs \<longleftrightarrow> object_id r \<notin> object_id ` set xs"
| "op_fresh (PrependRequest r) xs \<longleftrightarrow> object_id r \<notin> object_id ` set xs"
| "op_fresh (PrependRequests other) xs \<longleftrightarrow> queue_valid other \<and> object_id ` set (queue_iter other) \<inter> object_id ` set xs = {}"
| "op_fresh _ xs \<longleftrightarrow> True"

lemma in_order_insort: "in_order xs \<Longrightarrow> in_order (insort_key request_key r xs)"
  by (simp add: in_order_def sorted_insort_key)

lemma in_order_filter: "in_order xs \<Longrightarrow> in_order (filter P xs)"
  by (simp add: in_order_def sorted_filter)

lemma distinct_ids_insort:
  "distinct (map object_id (insort_key request_key r xs)) \<longleftrightarrow> object_id r \<notin> object_id ` set xs \<and> distinct (map object_id xs)"
proof -
  have "mset (map object_id (insort_key request_key r xs)) = mset (map object_id (r # xs))" by simp
  then show ?thesis by (metis distinct.simps(2) list.set_map list.simps(9) mset_eq_imp_distinct_iff)
qed

lemma distinct_ids_filter: "distinct (map object_id xs) \<Longrightarrow> distinct (map object_id (filter P xs))"
  by (simp add: distinct_map inj_on_def)

lemma push_drain:
  assumes "queue_valid (PriorityRequestQueue h)" and "object_id r \<notin> object_id ` set (heap_drain request_lt h)"
  shows "heap_drain request_lt (heappush request_lt r h) = insort_key request_key r (heap_drain request_lt h)"
    and "queue_valid (PriorityRequestQueue (heappush request_lt r h))"
proof -
  note d = drain_valid [OF assms(1)] and p = rq.heappush_heap [OF drain_valid(1) [OF assms(1)], of r]
  have m: "mset (heappush request_lt r h) = mset (insort_key request_key r (heap_drain request_lt h))" using p(2) d(2) by simp
  show "heap_drain request_lt (heappush request_lt r h) = insort_key request_key r (heap_drain request_lt h)"
    "queue_valid (PriorityRequestQueue (heappush request_lt r h))"
    using drain_eq [OF p(1) m in_order_insort [OF d(3)]] assms(2) d(4) by (simp_all add: distinct_ids_insort)
qed

lemma push_all_drain:
  assumes "queue_valid (PriorityRequestQueue h)" and "distinct (map object_id rs)"
    and "object_id ` set rs \<inter> object_id ` set (heap_drain request_lt h) = {}"
  shows "\<exists>h'. fold add_request rs (PriorityRequestQueue h) = PriorityRequestQueue h' \<and> queue_valid (PriorityRequestQueue h')
    \<and> heap_drain request_lt h' = fold (spec_insert PRIORITY) rs (heap_drain request_lt h)"
  using assms
proof (induction rs arbitrary: h)
  case (Cons r rs)
  note p = push_drain [OF Cons.prems(1), of r]
  have "object_id ` set rs \<inter> object_id ` set (heap_drain request_lt (heappush request_lt r h)) = {}"
    using Cons.prems(2,3) p(1) by (auto simp: set_insort_key)
  then show ?case using Cons.IH [OF p(2)] Cons.prems p by auto
qed simp

lemma pop_drain:
  assumes "queue_valid (PriorityRequestQueue h)" and "h \<noteq> []"
  shows "\<exists>r h'. heappop request_lt h = Inr (r, h') \<and> queue_valid (PriorityRequestQueue h')
    \<and> heap_drain request_lt h = r # heap_drain request_lt h' \<and> h ! 0 = r"
proof -
  obtain r h' where p: "heappop request_lt h = Inr (r, h')" "is_heap request_lt h'" "mset h = add_mset r (mset h')"
    using rq.heappop_heap [OF drain_valid(1) [OF assms(1)] assms(2)] by blast
  have "mset (map object_id h) = mset (map object_id (r # h'))" using p(3) by simp
  then have "distinct (map object_id (r # h'))" using assms(1) by (metis mset_eq_imp_distinct_iff queue_valid_def request_queue.simps(6))
  then have "queue_valid (PriorityRequestQueue h')" using p(2) by (simp add: queue_valid_def)
  moreover have "h ! 0 = r" using p(1) assms(2) by (cases h) (auto simp: heappop_def Let_def split: if_splits)
  ultimately show ?thesis using p(1) by (simp add: heap_drain.simps [of _ h])
qed

lemma list_remove_spec:
  assumes "distinct (map object_id xs)"
  shows "list_remove r xs = (if object_id r \<in> object_id ` set xs then Inr (filter (not_in [r]) xs) else Inl ValueError)"
proof -
  have f: "not_in [r] = (\<lambda>y. object_id y \<noteq> object_id r)" by (simp add: not_in_def fun_eq_iff)
  show ?thesis
    using assms unfolding f
  proof (induction xs)
    case (Cons x xs)
    have "filter (\<lambda>y. object_id y \<noteq> object_id r) xs = xs" if "object_id x = object_id r"
      using that Cons.prems by (auto simp: filter_id_conv image_iff)
    then show ?case using Cons by (auto simp: res_simps)
  qed simp
qed

lemma filter_drain:
  assumes "queue_valid (PriorityRequestQueue h)"
  shows "heap_drain request_lt (heapify request_lt (filter P h)) = filter P (heap_drain request_lt h)"
    and "queue_valid (PriorityRequestQueue (heapify request_lt (filter P h)))"
proof -
  note d = drain_valid [OF assms]
  have m: "mset (heapify request_lt (filter P h)) = mset (filter P (heap_drain request_lt h))" using d(2) by (simp add: rq.heapify_mset)
  show "heap_drain request_lt (heapify request_lt (filter P h)) = filter P (heap_drain request_lt h)"
    "queue_valid (PriorityRequestQueue (heapify request_lt (filter P h)))"
    using drain_eq [OF rq.heapify_heap m in_order_filter [OF d(3)] distinct_ids_filter [OF d(4)]] by simp_all
qed

lemma queue_step_refines:
  assumes "queue_valid q" and "op_fresh op (queue_iter q)"
  shows "spec_step (policy_of q) op (queue_iter q) = (fst (queue_step op q), queue_iter (snd (queue_step op q)))
    \<and> queue_valid (snd (queue_step op q)) \<and> policy_of (snd (queue_step op q)) = policy_of q"
proof (cases q)
  case (FCFSRequestQueue xs)
  then have d: "distinct (map object_id xs)" using assms(1) by (simp add: queue_valid_def)
  have other: "distinct (map object_id (queue_iter o2))" if "queue_valid o2" for o2
    using that drain_valid(4) by (cases o2) (auto simp: queue_valid_def)
  show ?thesis
    using FCFSRequestQueue assms(2) d other distinct_ids_filter [OF d] list_remove_spec [OF d]
    by (cases op) (auto simp: queue_valid_def outcome_def py_index_def res_simps rev_map [symmetric] distinct_map_filter split: list.splits)
next
  case (PriorityRequestQueue h)
  note q = assms(1) [unfolded PriorityRequestQueue]
  note fresh = assms(2) [unfolded PriorityRequestQueue queue_iter.simps]
  have set: "set (heap_drain request_lt h) = set h" using mset_eq_setD [OF drain_valid(2) [OF q]] .
  have d: "distinct (map object_id h)" using q by (simp add: queue_valid_def)
  show ?thesis
  proof (cases "op \<in> {PopRequest, PeekRequest}")
    case True
    show ?thesis
    proof (cases "h = []")
      case True
      then show ?thesis using \<open>op \<in> _\<close> PriorityRequestQueue q by (auto simp: outcome_def res_simps heap_drain.simps heappop_def)
    next
      case False
      obtain r h' where p: "heappop request_lt h = Inr (r, h')" "queue_valid (PriorityRequestQueue h')"
        "heap_drain request_lt h = r # heap_drain request_lt h'" "h ! 0 = r"
        using pop_drain [OF q False] by blast
      then show ?thesis using True False PriorityRequestQueue q by (auto simp: outcome_def res_simps py_index_def)
    qed
  next
    case False
    show ?thesis
    proof (cases op)
      case (PrependRequests o2)
      have "distinct (map object_id (queue_iter o2))"
        using fresh PrependRequests drain_valid(4) by (cases o2) (auto simp: queue_valid_def)
      from push_all_drain [OF q this] show ?thesis using fresh PrependRequests PriorityRequestQueue by auto
    qed (use False fresh PriorityRequestQueue push_drain [OF q] filter_drain [OF q] list_remove_spec [OF d] set q in
      \<open>auto simp: outcome_def res_simps\<close>)
  qed
qed

fun queue_run :: "queue_op list \<Rightarrow> request_queue \<Rightarrow> request option result list \<times> request_queue" where
  "queue_run [] q = ([], q)"
| "queue_run (op # ops) q =
     (let (x, q1) = queue_step op q; (xs, q2) = queue_run ops q1 in (x # xs, q2))"

fun spec_run :: "scheduling_policy \<Rightarrow> queue_op list \<Rightarrow> request list \<Rightarrow> request option result list \<times> request list" where
  "spec_run p [] rs = ([], rs)"
| "spec_run p (op # ops) rs =
     (let (x, rs1) = spec_step p op rs; (xs, rs2) = spec_run p ops rs1 in (x # xs, rs2))"

fun ops_fresh :: "scheduling_policy \<Rightarrow> queue_op list \<Rightarrow> request list \<Rightarrow> bool" where
  "ops_fresh p [] rs \<longleftrightarrow> True"
| "ops_fresh p (op # ops) rs \<longleftrightarrow> op_fresh op rs \<and> ops_fresh p ops (snd (spec_step p op rs))"

lemma queue_run_refines:
  assumes "queue_valid q" and "ops_fresh (policy_of q) ops (queue_iter q)"
  shows "spec_run (policy_of q) ops (queue_iter q) = (fst (queue_run ops q), queue_iter (snd (queue_run ops q)))"
  using assms
proof (induction ops arbitrary: q)
  case (Cons op ops)
  note st = queue_step_refines [OF Cons.prems(1), of op]
  have "ops_fresh (policy_of q) ops (queue_iter (snd (queue_step op q)))" using Cons.prems(2) st by simp
  then show ?case using Cons.IH [of "snd (queue_step op q)"] Cons.prems(2) st by (simp add: case_prod_beta Let_def)
qed simp

text \<open>
  C22: through any sequence of operations, a queue created for a policy behaves as the list of the waiting
  requests in the order of service: for first come first served the order of arrival (prepended requests
  in front, in reverse), for the priority policy the order by priority, arrival time, request id and
  identity. Every returned request, every exception and the iteration order are those of the list.
  A request that is already waiting is not added again.
\<close>

theorem request_queue_refines_policy:
  assumes "ops_fresh p ops []"
  shows "spec_run p ops [] = (fst (queue_run ops (create_request_queue p)), queue_iter (snd (queue_run ops (create_request_queue p))))"
proof -
  have "queue_valid (create_request_queue p)" "policy_of (create_request_queue p) = p" "queue_iter (create_request_queue p) = []"
    by (cases p; simp add: create_request_queue_def queue_valid_def is_heap_def heap_from_def heap_drain.simps heappop_def)+
  then show ?thesis using queue_run_refines [of "create_request_queue p" ops] assms by simp
qed

definition sample_request :: "string \<Rightarrow> int \<Rightarrow> int \<Rightarrow> rat \<Rightarrow> request" where
  "sample_request name oid prio arrival =
     \<lparr>request_id = name, object_id = oid, priority = prio, arrival_time = arrival, status = WAITING, req_stop_reason = None,
      req_sampling_params = None, req_pooling_params = None, req_lora = None, max_tokens = 1, prompt_token_ids = Some [1],
      prompt_embeds = None, embeds_hash_memo = [], num_prompt_tokens = 1, output_token_ids = [], all_token_ids = [1],
      spec_token_ids = [], num_computed_tokens = 0, cache_salt = None, mm_features = [], block_hashes = [],
      skip_reading_prefix_cache = False\<rparr>"

theorem request_queue_refines_policy_witness:
  "fst (queue_run [AddRequest (sample_request ''a'' 1 5 0), AddRequest (sample_request ''b'' 2 3 1),
       AddRequest (sample_request ''c'' 3 5 2), PopRequest, RemoveRequest (sample_request ''b'' 2 3 1), PopRequest]
     (create_request_queue PRIORITY))
   = [Inr None, Inr None, Inr None, Inr (Some (sample_request ''b'' 2 3 1)), Inl ValueError, Inr (Some (sample_request ''a'' 1 5 0))]"
proof -
  let ?ops = "[AddRequest (sample_request ''a'' 1 5 0), AddRequest (sample_request ''b'' 2 3 1),
       AddRequest (sample_request ''c'' 3 5 2), PopRequest, RemoveRequest (sample_request ''b'' 2 3 1), PopRequest]"
  have "ops_fresh PRIORITY ?ops []" by code_simp
  from request_queue_refines_policy [OF this]
  have "fst (queue_run ?ops (create_request_queue PRIORITY)) = fst (spec_run PRIORITY ?ops [])" by simp
  also have "\<dots> = [Inr None, Inr None, Inr None, Inr (Some (sample_request ''b'' 2 3 1)), Inl ValueError, Inr (Some (sample_request ''a'' 1 5 0))]"
    by code_simp
  finally show ?thesis .
qed

section \<open>No starvation under first come first served\<close>

fun is_add_or_pop :: "queue_op \<Rightarrow> bool" where
  "is_add_or_pop (AddRequest _) \<longleftrightarrow> True"
| "is_add_or_pop PopRequest \<longleftrightarrow> True"
| "is_add_or_pop _ \<longleftrightarrow> False"

definition pop_count :: "queue_op list \<Rightarrow> nat" where
  "pop_count ops = length (filter (\<lambda>op. op = PopRequest) ops)"

text \<open>The requests returned by the pops of a run, in order.\<close>

definition popped :: "queue_op list \<Rightarrow> request_queue \<Rightarrow> request option result list" where
  "popped ops q = map snd (filter (\<lambda>x. fst x = PopRequest) (zip ops (fst (queue_run ops q))))"

text \<open>
  C23: under first come first served no request starves. Whatever requests arrive in the meantime, the
  request that waits at position \<open>k\<close> is returned by the \<open>k + 1\<close>-st pop.
\<close>

theorem fcfs_no_starvation:
  assumes "k < length xs" and "\<forall>op\<in>set ops. is_add_or_pop op" and "k < pop_count ops"
  shows "popped ops (FCFSRequestQueue xs) ! k = Inr (Some (xs ! k))"
  using assms
proof (induction ops arbitrary: xs k)
  case (Cons op ops)
  have tail: "popped (op # ops) q = (if op = PopRequest then [fst (queue_step op q)] else []) @ popped ops (snd (queue_step op q))" for q
    by (simp add: popped_def case_prod_beta Let_def)
  show ?case
  proof (cases op)
    case (AddRequest r)
    then show ?thesis using Cons.IH [of k "xs @ [r]"] Cons.prems tail by (simp add: pop_count_def nth_append)
  next
    case PopRequest
    obtain y ys where xs: "xs = y # ys" using Cons.prems(1) by (cases xs) auto
    show ?thesis
    proof (cases k)
      case 0
      then show ?thesis using PopRequest xs tail by (simp add: outcome_def res_simps)
    next
      case (Suc j)
      then show ?thesis using PopRequest xs tail Cons.IH [of j ys] Cons.prems by (simp add: outcome_def res_simps pop_count_def)
    qed
  qed (use Cons.prems in auto)
qed (simp add: pop_count_def)

theorem fcfs_no_starvation_witness:
  "popped [AddRequest (sample_request ''c'' 3 0 0), PopRequest, AddRequest (sample_request ''d'' 4 0 0), PopRequest]
     (FCFSRequestQueue [sample_request ''a'' 1 0 0, sample_request ''b'' 2 9 0]) ! 1
   = Inr (Some (sample_request ''b'' 2 9 0))"
  using fcfs_no_starvation [of 1 "[sample_request ''a'' 1 0 0, sample_request ''b'' 2 9 0]"
      "[AddRequest (sample_request ''c'' 3 0 0), PopRequest, AddRequest (sample_request ''d'' 4 0 0), PopRequest]"]
  by (simp add: pop_count_def)

end
