(* ===== verification/EncoderCache.thy ===== *)
theory EncoderCache
  imports Request
begin

text \<open>
  The cache of multimodal encoder outputs (\<^verbatim>\<open>vllm/v1/core/encoder_cache_manager.py\<close>). Entries are named by
  the hash of their input and counted in embeddings; an entry that no request references stays cached
  until its space is needed. Python sets are HOL sets, and the order in which a set is iterated is a
  parameter where the code iterates one.
\<close>

section \<open>The manager\<close>

record encoder_cache =
  cache_size :: int
  num_free_slots :: int
  num_freeable_slots :: int
  cached :: "(string, string set) dict"
  request_cached_ids :: "(string, int set) dict"
  freeable :: "(string, int) dict"
  freed :: "string list"

definition encoder_init :: "int \<Rightarrow> encoder_cache" where
  "encoder_init n = \<lparr>cache_size = n, num_free_slots = n, num_freeable_slots = n, cached = [],
     request_cached_ids = [], freeable = [], freed = []\<rparr>"

definition encoder_reset :: "encoder_cache \<Rightarrow> encoder_cache" where
  "encoder_reset c = c\<lparr>cached := [], request_cached_ids := [], freeable := [], freed := [],
     num_free_slots := cache_size c, num_freeable_slots := cache_size c\<rparr>"

definition add_cached_id :: "string \<Rightarrow> int \<Rightarrow> (string, int set) dict \<Rightarrow> (string, int set) dict" where
  "add_cached_id rid i d = dict_set rid (insert i (case dict_get d rid of None \<Rightarrow> {} | Some s \<Rightarrow> s)) d"

definition check_and_update_cache :: "request \<Rightarrow> int \<Rightarrow> encoder_cache \<Rightarrow> (bool \<times> encoder_cache) result" where
  "check_and_update_cache r input_id c =
     res_bind (py_index (mm_features r) input_id) (\<lambda>f.
     let mm_hash = mm_identifier f in
     case dict_get (cached c) mm_hash of
       None \<Rightarrow> Inr (False, c)
     | Some refs \<Rightarrow>
         res_bind (if refs = {}
                   then (case dict_get (freeable c) mm_hash of
                           None \<Rightarrow> Inl KeyError
                         | Some n \<Rightarrow> Inr (c\<lparr>freeable := dict_pop mm_hash (freeable c),
                                         num_freeable_slots := num_freeable_slots c - n\<rparr>))
                   else Inr c) (\<lambda>c1.
         Inr (True, c1\<lparr>cached := dict_set mm_hash (insert (request_id r) refs) (cached c1),
            request_cached_ids := add_cached_id (request_id r) input_id (request_cached_ids c1)\<rparr>)))"

text \<open>The eviction loop of \<^verbatim>\<open>can_allocate\<close>: the oldest freeable entry is at the front.\<close>

function evict_loop :: "int \<Rightarrow> encoder_cache \<Rightarrow> encoder_cache result" where
  "evict_loop num_embeds c =
     (if num_embeds > num_free_slots c
      then (case freeable c of
              [] \<Rightarrow> Inl KeyError
            | (mm_hash, n) # rest \<Rightarrow>
                if dict_get (cached c) mm_hash = None then Inl KeyError
                else evict_loop num_embeds (c\<lparr>freeable := rest, cached := dict_pop mm_hash (cached c),
                       freed := freed c @ [mm_hash], num_free_slots := num_free_slots c + n\<rparr>))
      else Inr c)"
  by pat_completeness auto
termination
  by (relation "measure (\<lambda>(_, c). length (freeable c))") auto

declare evict_loop.simps [simp del]

definition can_allocate :: "request \<Rightarrow> int \<Rightarrow> int \<Rightarrow> int \<Rightarrow> encoder_cache \<Rightarrow> (bool \<times> encoder_cache) result" where
  "can_allocate r input_id encoder_compute_budget num_embeds_to_schedule c =
     res_bind (get_num_encoder_embeds r input_id) (\<lambda>n.
     if n > encoder_compute_budget then Inr (False, c)
     else let num_embeds = n + num_embeds_to_schedule in
       if num_embeds \<le> num_free_slots c then Inr (True, c)
       else if num_embeds > num_freeable_slots c then Inr (False, c)
       else res_bind (evict_loop num_embeds c) (\<lambda>c1. Inr (True, c1)))"

definition allocate :: "request \<Rightarrow> int \<Rightarrow> encoder_cache \<Rightarrow> encoder_cache result" where
  "allocate r input_id c =
     res_bind (py_index (mm_features r) input_id) (\<lambda>f.
     let mm_hash = mm_identifier f;
         refs = (case dict_get (cached c) mm_hash of None \<Rightarrow> {} | Some s \<Rightarrow> s)
     in res_bind (get_num_encoder_embeds r input_id) (\<lambda>n.
        res_bind (res_guard (num_free_slots c \<ge> n) AssertionError) (\<lambda>_.
        res_bind (res_guard (num_freeable_slots c \<ge> n) AssertionError) (\<lambda>_.
        Inr (c\<lparr>cached := dict_set mm_hash (insert (request_id r) refs) (cached c),
               request_cached_ids := add_cached_id (request_id r) input_id (request_cached_ids c),
               num_free_slots := num_free_slots c - n,
               num_freeable_slots := num_freeable_slots c - n\<rparr>)))))"

definition get_cached_input_ids :: "request \<Rightarrow> encoder_cache \<Rightarrow> int set" where
  "get_cached_input_ids r c = (case dict_get (request_cached_ids c) (request_id r) of None \<Rightarrow> {} | Some s \<Rightarrow> s)"

definition discard_cached_id :: "string \<Rightarrow> int \<Rightarrow> (string, int set) dict \<Rightarrow> (string, int set) dict" where
  "discard_cached_id rid i d =
     (case dict_get d rid of
        None \<Rightarrow> d
      | Some s \<Rightarrow> if s - {i} = {} then dict_pop rid d else dict_set rid (s - {i}) d)"

definition free_encoder_input :: "request \<Rightarrow> int \<Rightarrow> encoder_cache \<Rightarrow> encoder_cache result" where
  "free_encoder_input r input_id c =
     res_bind (py_index (mm_features r) input_id) (\<lambda>f.
     let mm_hash = mm_identifier f;
         c1 = c\<lparr>request_cached_ids := discard_cached_id (request_id r) input_id (request_cached_ids c)\<rparr>
     in case dict_get (cached c1) mm_hash of
          None \<Rightarrow> Inr c1
        | Some refs \<Rightarrow>
            if refs = {} then Inr c1
            else let c2 = c1\<lparr>cached := dict_set mm_hash (refs - {request_id r}) (cached c1)\<rparr> in
              if refs - {request_id r} \<noteq> {} then Inr c2
              else res_bind (get_num_encoder_embeds r input_id) (\<lambda>n.
                   Inr (c2\<lparr>freeable := dict_set mm_hash n (freeable c2),
                          num_freeable_slots := num_freeable_slots c2 + n\<rparr>)))"

definition encoder_free :: "(int set \<Rightarrow> int list) \<Rightarrow> request \<Rightarrow> encoder_cache \<Rightarrow> encoder_cache result" where
  "encoder_free iter_order r c = res_fold (free_encoder_input r) (iter_order (get_cached_input_ids r c)) c"

definition get_freed_mm_hashes :: "encoder_cache \<Rightarrow> string list \<times> encoder_cache" where
  "get_freed_mm_hashes c = (freed c, c\<lparr>freed := []\<rparr>)"

section \<open>Budgets\<close>

record scheduler_config =
  disable_chunked_mm_input :: bool
  sc_max_num_batched_tokens :: int
  sc_max_num_encoder_input_tokens :: int
  encoder_cache_size :: int

definition compute_mm_encoder_budget :: "scheduler_config \<Rightarrow> (string \<times> int) list \<Rightarrow> (int \<times> int) result" where
  "compute_mm_encoder_budget cfg mm_max_toks_per_item =
     (if mm_max_toks_per_item = [] then Inr (0, 0)
      else res_bind (py_max (map snd mm_max_toks_per_item)) (\<lambda>m.
        if disable_chunked_mm_input cfg \<and> m > sc_max_num_batched_tokens cfg then Inl ValueError
        else Inr (max (sc_max_num_encoder_input_tokens cfg) m, max (encoder_cache_size cfg) m)))"

section \<open>Encoder-decoder models\<close>

record encdec_cache =
  ed_cache_size :: int
  ed_num_free_slots :: int
  ed_allocated :: "string list"
  ed_to_free :: "string list"

definition ed_init :: "int \<Rightarrow> encdec_cache" where
  "ed_init n = \<lparr>ed_cache_size = n, ed_num_free_slots = n, ed_allocated = [], ed_to_free = []\<rparr>"

definition ed_reset :: "encdec_cache \<Rightarrow> encdec_cache" where
  "ed_reset c = c\<lparr>ed_num_free_slots := ed_cache_size c, ed_allocated := [], ed_to_free := []\<rparr>"

definition ed_can_allocate :: "request \<Rightarrow> int \<Rightarrow> int \<Rightarrow> int \<Rightarrow> encdec_cache \<Rightarrow> bool result" where
  "ed_can_allocate r input_id encoder_compute_budget num_embeds_to_schedule c =
     res_bind (get_num_encoder_embeds r input_id) (\<lambda>n.
       if n > encoder_compute_budget then Inr False
       else Inr (n + num_embeds_to_schedule \<le> ed_num_free_slots c))"

definition ed_allocate :: "request \<Rightarrow> int \<Rightarrow> encdec_cache \<Rightarrow> encdec_cache result" where
  "ed_allocate r input_id c =
     res_bind (get_num_encoder_embeds r input_id) (\<lambda>n.
     res_bind (py_index (mm_features r) input_id) (\<lambda>f.
       Inr (c\<lparr>ed_num_free_slots := ed_num_free_slots c - n, ed_allocated := ed_allocated c @ [mm_identifier f]\<rparr>)))"

definition ed_free_encoder_input :: "request \<Rightarrow> int \<Rightarrow> encdec_cache \<Rightarrow> encdec_cache result" where
  "ed_free_encoder_input r input_id c =
     res_bind (get_num_encoder_embeds r input_id) (\<lambda>n. Inr (c\<lparr>ed_num_free_slots := ed_num_free_slots c + n\<rparr>))"

definition ed_get_cached_input_ids :: "request \<Rightarrow> int list" where
  "ed_get_cached_input_ids r = map int [0..<length (mm_features r)]"

definition ed_free :: "request \<Rightarrow> encdec_cache \<Rightarrow> encdec_cache result" where
  "ed_free r c = res_fold (ed_free_encoder_input r) (map int [0..<length (mm_features r)]) c"

definition ed_get_freed_mm_hashes :: "encdec_cache \<Rightarrow> string list \<times> encdec_cache" where
  "ed_get_freed_mm_hashes c = (ed_to_free c, c\<lparr>ed_to_free := ed_allocated c, ed_allocated := []\<rparr>)"

section \<open>Accounting\<close>

text \<open>The number of embeddings of an input is determined by its hash.\<close>

definition sized :: "(string \<Rightarrow> int) \<Rightarrow> request \<Rightarrow> bool" where
  "sized sz r \<longleftrightarrow> (\<forall>f\<in>set (mm_features r). get_num_embeds (mm_position f) = sz (mm_identifier f))"

definition embeds :: "(string \<Rightarrow> int) \<Rightarrow> (string, 'v) dict \<Rightarrow> int" where
  "embeds sz d = (\<Sum>h\<leftarrow>map fst d. sz h)"

definition enc_inv :: "(string \<Rightarrow> int) \<Rightarrow> encoder_cache \<Rightarrow> bool" where
  "enc_inv sz c \<longleftrightarrow> dict_ok (cached c) \<and> dict_ok (freeable c)
     \<and> (\<forall>h n. dict_get (freeable c) h = Some n \<longrightarrow> n = sz h)
     \<and> (\<forall>h. dict_get (freeable c) h \<noteq> None \<longleftrightarrow> dict_get (cached c) h = Some {})
     \<and> num_free_slots c + embeds sz (cached c) = cache_size c
     \<and> num_freeable_slots c = num_free_slots c + embeds sz (freeable c)
     \<and> 0 \<le> num_free_slots c"

lemma embeds_set:
  "embeds sz (dict_set h v d) = (if dict_get d h = None then sz h else 0) + embeds sz d"
  using dict_set_absent [of d h v] dict_keys_set [of d h v] by (cases "dict_get d h") (simp_all add: embeds_def del: map_map)

lemma embeds_pop: "dict_ok d \<Longrightarrow> dict_get d h \<noteq> None \<Longrightarrow> embeds sz (dict_pop h d) = embeds sz d - sz h"
  unfolding embeds_def by (rule sum_keys_pop)

lemma embeds_Cons [simp]: "embeds sz ((h, v) # d) = sz h + embeds sz d" "embeds sz [] = 0"
  by (simp_all add: embeds_def)

lemma py_index_in_set: "py_index xs i = Inr x \<Longrightarrow> x \<in> set xs"
  by (auto simp: py_index_def split: if_splits)

lemma sized_input:
  assumes "sized sz r" and "py_index (mm_features r) i = Inr f" and "get_num_encoder_embeds r i = Inr n"
  shows "n = sz (mm_identifier f)"
  using assms py_index_in_set [OF assms(2)] by (auto simp: sized_def get_num_encoder_embeds_def res_bind_Inr_iff)

lemma enc_invI:
  assumes "dict_ok (cached c)" and "dict_ok (freeable c)"
    and "\<And>h n. dict_get (freeable c) h = Some n \<Longrightarrow> n = sz h"
    and "\<And>h. dict_get (freeable c) h \<noteq> None \<longleftrightarrow> dict_get (cached c) h = Some {}"
    and "num_free_slots c + embeds sz (cached c) = cache_size c"
    and "num_freeable_slots c = num_free_slots c + embeds sz (freeable c)"
    and "0 \<le> num_free_slots c"
  shows "enc_inv sz c"
  using assms by (simp add: enc_inv_def)

lemma enc_invD:
  assumes "enc_inv sz c"
  shows "dict_ok (cached c)" "dict_ok (freeable c)"
    and "dict_get (freeable c) h = Some n \<Longrightarrow> n = sz h"
    and "dict_get (freeable c) h \<noteq> None \<longleftrightarrow> dict_get (cached c) h = Some {}"
    and "num_free_slots c + embeds sz (cached c) = cache_size c"
    and "num_freeable_slots c = num_free_slots c + embeds sz (freeable c)"
    and "0 \<le> num_free_slots c"
  using assms unfolding enc_inv_def by blast+

lemma enc_inv_bookkeeping [simp]:
  "enc_inv sz (c\<lparr>request_cached_ids := ids\<rparr>) \<longleftrightarrow> enc_inv sz c" "enc_inv sz (c\<lparr>freed := hs\<rparr>) \<longleftrightarrow> enc_inv sz c"
  by (simp_all add: enc_inv_def)

lemma enc_init_inv: "0 \<le> n \<Longrightarrow> enc_inv sz (encoder_init n)"
  by (simp add: enc_inv_def encoder_init_def)

lemma reset_inv: "0 \<le> cache_size c \<Longrightarrow> enc_inv sz (encoder_reset c)"
  by (simp add: enc_inv_def encoder_reset_def)

text \<open>Taking a reference to a cached entry, and returning the last one.\<close>

lemma reference_inv:
  assumes inv: "enc_inv sz c" and h: "dict_get (cached c) h = Some refs" and ne: "new \<noteq> {}"
  shows "enc_inv sz (c\<lparr>freeable := dict_pop h (freeable c), cached := dict_set h new (cached c), request_cached_ids := ids,
    num_freeable_slots := num_freeable_slots c - (if refs = {} then sz h else 0)\<rparr>)"
proof (rule enc_invI)
  note d = enc_invD [OF inv]
  show "num_freeable_slots (c\<lparr>freeable := dict_pop h (freeable c), cached := dict_set h new (cached c), request_cached_ids := ids,
    num_freeable_slots := num_freeable_slots c - (if refs = {} then sz h else 0)\<rparr>)
    = num_free_slots (c\<lparr>freeable := dict_pop h (freeable c), cached := dict_set h new (cached c), request_cached_ids := ids,
    num_freeable_slots := num_freeable_slots c - (if refs = {} then sz h else 0)\<rparr>)
    + embeds sz (freeable (c\<lparr>freeable := dict_pop h (freeable c), cached := dict_set h new (cached c), request_cached_ids := ids,
    num_freeable_slots := num_freeable_slots c - (if refs = {} then sz h else 0)\<rparr>))"
  proof (cases "refs = {}")
    case True
    then show ?thesis using d(6) embeds_pop [OF d(2), of h sz] d(4) [of h] h by simp
  next
    case False
    then have "dict_get (freeable c) h = None" using d(4) [of h] h by simp
    then have "dict_pop h (freeable c) = freeable c" by (intro delete_id) (simp add: map_of_eq_None_iff)
    then show ?thesis using d(6) False by simp
  qed
qed (use enc_invD [OF inv] h ne in \<open>auto simp: embeds_set distinct_delete split: if_splits\<close>)

lemma check_inv:
  assumes inv: "enc_inv sz c" and ch: "check_and_update_cache r i c = Inr (b, c')"
  shows "enc_inv sz c'"
proof -
  obtain f where f: "py_index (mm_features r) i = Inr f"
    using ch by (auto simp: check_and_update_cache_def res_bind_Inr_iff)
  let ?h = "mm_identifier f"
  show ?thesis
  proof (cases "dict_get (cached c) ?h")
    case None
    then show ?thesis using inv ch f by (simp add: check_and_update_cache_def res_simps)
  next
    case (Some refs)
    have "c' = c\<lparr>freeable := dict_pop ?h (freeable c), cached := dict_set ?h (insert (request_id r) refs) (cached c),
        request_cached_ids := add_cached_id (request_id r) i (request_cached_ids c),
        num_freeable_slots := num_freeable_slots c - (if refs = {} then sz ?h else 0)\<rparr>"
    proof (cases "refs = {}")
      case True
      then obtain n where "dict_get (freeable c) ?h = Some n" using enc_invD(4) [OF inv, of ?h] Some by auto
      then have "c' = c\<lparr>freeable := dict_pop ?h (freeable c), num_freeable_slots := num_freeable_slots c - sz ?h,
          cached := dict_set ?h (insert (request_id r) refs) (cached c),
          request_cached_ids := add_cached_id (request_id r) i (request_cached_ids c)\<rparr>"
        using enc_invD(3) [OF inv, of ?h n] ch f Some True by (simp add: check_and_update_cache_def res_simps Let_def)
      then show ?thesis using True by (intro encoder_cache.equality) simp_all
    next
      case False
      then have "dict_get (freeable c) ?h = None" using enc_invD(4) [OF inv, of ?h] Some by simp
      then have "dict_pop ?h (freeable c) = freeable c" by (intro delete_id) (simp add: map_of_eq_None_iff)
      moreover have "c' = c\<lparr>cached := dict_set ?h (insert (request_id r) refs) (cached c),
          request_cached_ids := add_cached_id (request_id r) i (request_cached_ids c)\<rparr>"
        using ch f Some False by (simp add: check_and_update_cache_def res_simps Let_def)
      ultimately show ?thesis using False by (intro encoder_cache.equality) simp_all
    qed
    then show ?thesis using reference_inv [OF inv Some insert_not_empty] by simp
  qed
qed

lemma embeds_nonneg: "(\<And>h. 0 \<le> sz h) \<Longrightarrow> 0 \<le> embeds sz d"
  by (induction d) (auto simp: embeds_def)

text \<open>One eviction.\<close>

lemma evict_one_inv:
  assumes inv: "enc_inv sz c" and f: "freeable c = (h, n) # rest" and sz: "\<And>h. 0 \<le> sz h"
  shows "enc_inv sz (c\<lparr>freeable := rest, cached := dict_pop h (cached c), freed := freed c @ [h], num_free_slots := num_free_slots c + n\<rparr>)"
    and "n = sz h" and "dict_get (cached c) h = Some {}"
proof -
  note d = enc_invD [OF inv]
  show n: "n = sz h" using d(3) [of h n] f by simp
  show h: "dict_get (cached c) h = Some {}" using d(4) [of h] f by simp
  have notin: "dict_get rest h = None" using d(2) f by (simp add: map_of_eq_None_iff)
  have keys: "dict_get rest g \<noteq> None \<longleftrightarrow> dict_get (dict_pop h (cached c)) g = Some {}" for g
    using d(4) [of g] f notin by (cases "g = h") simp_all
  have vals: "m = sz g" if "dict_get rest g = Some m" for g m
    using d(3) [of g m] f that notin by (cases "g = h") simp_all
  have sums: "num_free_slots c + n + embeds sz (dict_pop h (cached c)) = cache_size c"
      "num_freeable_slots c = num_free_slots c + n + embeds sz rest" "0 \<le> num_free_slots c + n"
    using d(5-7) f n h sz [of h] embeds_pop [OF d(1), of h sz] by simp_all
  have oks: "dict_ok (dict_pop h (cached c))" "dict_ok rest" using d(1,2) f by (simp_all add: distinct_delete)
  show "enc_inv sz (c\<lparr>freeable := rest, cached := dict_pop h (cached c), freed := freed c @ [h], num_free_slots := num_free_slots c + n\<rparr>)"
    unfolding enc_inv_def using keys vals sums oks by (simp del: delete_conv')
qed

lemma evict_loop_spec:
  assumes "enc_inv sz c" and "need \<le> num_freeable_slots c" and "\<And>h. 0 \<le> sz h"
  shows "\<exists>c' k. evict_loop need c = Inr c' \<and> enc_inv sz c' \<and> need \<le> num_free_slots c'
    \<and> freeable c' = drop k (freeable c) \<and> freed c' = freed c @ map fst (take k (freeable c))
    \<and> (\<forall>h. dict_get (cached c') h = (if h \<in> set (map fst (take k (freeable c))) then None else dict_get (cached c) h))
    \<and> request_cached_ids c' = request_cached_ids c \<and> num_freeable_slots c' = num_freeable_slots c
    \<and> num_free_slots c' = num_free_slots c + embeds sz (take k (freeable c))
    \<and> (0 < k \<longrightarrow> num_free_slots c + embeds sz (take (k - 1) (freeable c)) < need)"
  using assms(1,2)
proof (induction "length (freeable c)" arbitrary: c)
  case 0
  then show ?case using enc_invD(6) [OF 0(2)] by (intro exI [of _ c] exI [of _ 0]) (simp add: evict_loop.simps [of need c])
next
  case (Suc m)
  show ?case
  proof (cases "need > num_free_slots c")
    case False
    then show ?thesis using Suc.prems by (intro exI [of _ c] exI [of _ 0]) (simp add: evict_loop.simps [of need c])
  next
    case True
    obtain h n rest where f: "freeable c = (h, n) # rest" using Suc.hyps(2) by (cases "freeable c") auto
    define c1 where "c1 = c\<lparr>freeable := rest, cached := dict_pop h (cached c), freed := freed c @ [h], num_free_slots := num_free_slots c + n\<rparr>"
    note e = evict_one_inv [OF Suc.prems(1) f assms(3)]
    have inv: "enc_inv sz c1" using e(1) by (simp add: c1_def)
    have "m = length (freeable c1)" "need \<le> num_freeable_slots c1" using Suc.hyps(2) Suc.prems(2) f by (simp_all add: c1_def)
    from Suc.hyps(1) [OF this(1) inv this(2)] obtain c' k where ih: "evict_loop need c1 = Inr c'" "enc_inv sz c'" "need \<le> num_free_slots c'"
      "freeable c' = drop k (freeable c1)" "freed c' = freed c1 @ map fst (take k (freeable c1))"
      "\<forall>g. dict_get (cached c') g = (if g \<in> set (map fst (take k (freeable c1))) then None else dict_get (cached c1) g)"
      "request_cached_ids c' = request_cached_ids c1" "num_freeable_slots c' = num_freeable_slots c1"
      "num_free_slots c' = num_free_slots c1 + embeds sz (take k (freeable c1))"
      "0 < k \<longrightarrow> num_free_slots c1 + embeds sz (take (k - 1) (freeable c1)) < need"
      by blast
    have ev: "evict_loop need c = Inr c'" using True f e(3) ih(1) by (simp add: evict_loop.simps [of need c] c1_def)
    have last: "num_free_slots c + embeds sz (take k (freeable c)) < need"
    proof (cases k)
      case 0
      then show ?thesis using True by simp
    next
      case (Suc j)
      then show ?thesis using ih(10) f e(2) by (simp add: c1_def)
    qed
    have keys: "\<forall>g. dict_get (cached c') g = (if g \<in> set (map fst (take (Suc k) (freeable c))) then None else dict_get (cached c) g)"
      using ih(6) f by (simp add: c1_def)
    have "freeable c' = drop (Suc k) (freeable c)" "freed c' = freed c @ map fst (take (Suc k) (freeable c))"
      using ih(4,5) f by (simp_all add: c1_def)
    moreover have "request_cached_ids c' = request_cached_ids c" "num_freeable_slots c' = num_freeable_slots c"
      using ih(7,8) by (simp_all add: c1_def)
    moreover have "num_free_slots c' = num_free_slots c + embeds sz (take (Suc k) (freeable c))"
      using ih(9) f e(2) by (simp add: c1_def)
    moreover have "0 < Suc k \<longrightarrow> num_free_slots c + embeds sz (take (Suc k - 1) (freeable c)) < need" using last by simp
    ultimately show ?thesis using ev ih(2,3) keys by (intro exI [of _ c'] exI [of _ "Suc k"] conjI)
  qed
qed


text \<open>Admission: the answer, and the oldest unreferenced entries evicted to make room.\<close>

lemma can_allocate_spec:
  assumes inv: "enc_inv sz c" and sz: "\<And>h. 0 \<le> sz h" and n: "get_num_encoder_embeds r i = Inr n"
  shows "\<exists>c' k. can_allocate r i budget sched c = Inr (n \<le> budget \<and> n + sched \<le> num_freeable_slots c, c')
    \<and> enc_inv sz c' \<and> freeable c' = drop k (freeable c) \<and> freed c' = freed c @ map fst (take k (freeable c))
    \<and> (\<forall>h. dict_get (cached c') h = (if h \<in> set (map fst (take k (freeable c))) then None else dict_get (cached c) h))
    \<and> request_cached_ids c' = request_cached_ids c \<and> num_freeable_slots c' = num_freeable_slots c
    \<and> (n \<le> budget \<and> n + sched \<le> num_freeable_slots c \<longrightarrow> n + sched \<le> num_free_slots c')
    \<and> (0 < k \<longrightarrow> num_free_slots c + embeds sz (take (k - 1) (freeable c)) < n + sched)"
proof (cases "n \<le> budget \<and> num_free_slots c < n + sched \<and> n + sched \<le> num_freeable_slots c")
  case True
  from evict_loop_spec [OF inv _ sz, of "n + sched"] True obtain c' k where
    "evict_loop (n + sched) c = Inr c'" "enc_inv sz c'" "n + sched \<le> num_free_slots c'"
    "freeable c' = drop k (freeable c)" "freed c' = freed c @ map fst (take k (freeable c))"
    "\<forall>h. dict_get (cached c') h = (if h \<in> set (map fst (take k (freeable c))) then None else dict_get (cached c) h)"
    "request_cached_ids c' = request_cached_ids c" "num_freeable_slots c' = num_freeable_slots c"
    "0 < k \<longrightarrow> num_free_slots c + embeds sz (take (k - 1) (freeable c)) < n + sched"
    by blast
  moreover from this(1) have "can_allocate r i budget sched c = Inr (n \<le> budget \<and> n + sched \<le> num_freeable_slots c, c')"
    using True n by (simp add: can_allocate_def res_simps Let_def)
  ultimately show ?thesis by (intro exI [of _ c'] exI [of _ k] conjI) simp_all
next
  case False
  have "num_free_slots c \<le> num_freeable_slots c" using enc_invD(6) [OF inv] embeds_nonneg [of sz "freeable c"] sz by simp
  then have "can_allocate r i budget sched c = Inr (n \<le> budget \<and> n + sched \<le> num_freeable_slots c, c)"
    using False n by (auto simp: can_allocate_def res_simps Let_def)
  then show ?thesis using inv False by (intro exI [of _ c] exI [of _ 0] conjI) auto
qed

lemma can_allocate_inv:
  assumes "enc_inv sz c" and "\<And>h. 0 \<le> sz h" and "can_allocate r i budget sched c = Inr (b, c')"
  shows "enc_inv sz c'"
proof -
  obtain n where n: "get_num_encoder_embeds r i = Inr n" using assms(3) by (auto simp: can_allocate_def res_bind_Inr_iff)
  from can_allocate_spec [OF assms(1,2) n, of budget sched] assms(3) show ?thesis by auto
qed

lemma allocate_inv:
  assumes inv: "enc_inv sz c" and sized: "sized sz r" and al: "allocate r i c = Inr c'"
    and f: "py_index (mm_features r) i = Inr f" and new: "dict_get (cached c) (mm_identifier f) = None"
  shows "enc_inv sz c'"
proof -
  obtain n where n: "get_num_encoder_embeds r i = Inr n" using al f by (auto simp: allocate_def res_bind_Inr_iff Let_def)
  let ?h = "mm_identifier f"
  have sz: "n = sz ?h" using sized_input [OF sized f n] .
  have room: "n \<le> num_free_slots c" and c': "c' = c\<lparr>cached := dict_set ?h {request_id r} (cached c),
      request_cached_ids := add_cached_id (request_id r) i (request_cached_ids c),
      num_free_slots := num_free_slots c - n, num_freeable_slots := num_freeable_slots c - n\<rparr>"
    using al f n new by (simp_all add: allocate_def res_simps Let_def res_guard_def split: if_splits)
  note d = enc_invD [OF inv]
  have "dict_get (freeable c) ?h = None" using d(4) [of ?h] new by simp
  then have "(dict_get (freeable c) h \<noteq> None) = (dict_get (dict_set ?h {request_id r} (cached c)) h = Some {})" for h
    using d(4) [of h] new by (cases "h = ?h") simp_all
  moreover have "num_free_slots c - n + embeds sz (dict_set ?h {request_id r} (cached c)) = cache_size c"
    using d(5) sz new by (simp add: embeds_set)
  moreover have "m = sz h" if "dict_get (freeable c) h = Some m" for h m using d(3) [OF that] .
  ultimately show ?thesis unfolding c' using d(1,2,6) room by (intro enc_invI) (simp_all add: distinct_update)
qed

lemma free_encoder_input_inv:
  assumes inv: "enc_inv sz c" and sized: "sized sz r" and fr: "free_encoder_input r i c = Inr c'"
  shows "enc_inv sz c'"
proof -
  obtain f where f: "py_index (mm_features r) i = Inr f"
    using fr by (auto simp: free_encoder_input_def res_bind_Inr_iff)
  let ?h = "mm_identifier f" and ?ids = "discard_cached_id (request_id r) i (request_cached_ids c)"
  note d = enc_invD [OF inv]
  have same: "enc_inv sz (c\<lparr>request_cached_ids := ids\<rparr>)" for ids using inv by simp
  show ?thesis
  proof (cases "dict_get (cached c) ?h")
    case None
    then show ?thesis using same fr f by (auto simp: free_encoder_input_def res_simps Let_def)
  next
    case (Some refs)
    let ?refs = "refs - {request_id r}"
    let ?cached = "dict_set ?h ?refs (cached c)"
    have total: "num_free_slots c + embeds sz ?cached = cache_size c" using d(5) Some by (simp add: embeds_set)
    consider "refs = {}" | "refs \<noteq> {}" "?refs \<noteq> {}" | "refs \<noteq> {}" "?refs = {}" by blast
    then show ?thesis
    proof cases
      case 1
      then show ?thesis using same fr f Some by (auto simp: free_encoder_input_def res_simps Let_def)
    next
      case 2
      then have c': "c' = c\<lparr>request_cached_ids := ?ids, cached := ?cached\<rparr>"
        using fr f Some by (simp add: free_encoder_input_def res_simps Let_def)
      have "(dict_get (freeable c) g \<noteq> None) = (dict_get ?cached g = Some {})" for g using d(4) [of g] Some 2 by auto
      moreover have "m = sz g" if "dict_get (freeable c) g = Some m" for g m using d(3) [OF that] .
      ultimately show ?thesis unfolding c' using d(1,2,6,7) total by (intro enc_invI) (simp_all add: distinct_update)
    next
      case 3
      then obtain n where n: "get_num_encoder_embeds r i = Inr n"
        using fr f Some by (auto simp: free_encoder_input_def res_simps Let_def res_bind_Inr_iff)
      then have c': "c' = c\<lparr>request_cached_ids := ?ids, cached := dict_set ?h {} (cached c), freeable := dict_set ?h n (freeable c),
          num_freeable_slots := num_freeable_slots c + n\<rparr>"
        using fr f Some 3 by (simp add: free_encoder_input_def res_simps Let_def)
      have sz: "n = sz ?h" using sized_input [OF sized f n] .
      have none: "dict_get (freeable c) ?h = None" using d(4) [of ?h] Some 3 by auto
      have "(dict_get (dict_set ?h n (freeable c)) g \<noteq> None) = (dict_get (dict_set ?h {} (cached c)) g = Some {})" for g
        using d(4) [of g] 3 by simp
      moreover have "m = sz g" if "dict_get (dict_set ?h n (freeable c)) g = Some m" for g m
        using d(3) [of g m] sz that by (cases "g = ?h") simp_all
      moreover have "num_freeable_slots c + n = num_free_slots c + embeds sz (dict_set ?h n (freeable c))"
        using d(6) none sz by (simp add: embeds_set)
      ultimately show ?thesis unfolding c' using d(1,2,7) total [unfolded 3(2)] by (intro enc_invI) (simp_all add: distinct_update)
    qed
  qed
qed

lemma encoder_free_inv:
  assumes "enc_inv sz c" and "sized sz r" and "encoder_free iter_order r c = Inr c'"
  shows "enc_inv sz c'"
  using assms(3) unfolding encoder_free_def
  by (rule res_fold_invariant [where P = "enc_inv sz"]) (use assms(1) free_encoder_input_inv [OF _ assms(2)] in blast)+

section \<open>Reachable caches\<close>

text \<open>
  The calls the scheduler makes: it allocates an input only when its hash is not cached, and the
  requests agree on the size of an input.
\<close>

inductive enc_reachable :: "(string \<Rightarrow> int) \<Rightarrow> encoder_cache \<Rightarrow> bool" for sz :: "string \<Rightarrow> int" where
  init: "0 \<le> n \<Longrightarrow> enc_reachable sz (encoder_init n)"
| reset: "enc_reachable sz c \<Longrightarrow> enc_reachable sz (encoder_reset c)"
| check: "enc_reachable sz c \<Longrightarrow> check_and_update_cache r i c = Inr (b, c') \<Longrightarrow> enc_reachable sz c'"
| can_allocate: "enc_reachable sz c \<Longrightarrow> can_allocate r i budget sched c = Inr (b, c') \<Longrightarrow> enc_reachable sz c'"
| allocate: "enc_reachable sz c \<Longrightarrow> sized sz r \<Longrightarrow> py_index (mm_features r) i = Inr f
    \<Longrightarrow> dict_get (cached c) (mm_identifier f) = None \<Longrightarrow> allocate r i c = Inr c' \<Longrightarrow> enc_reachable sz c'"
| free_input: "enc_reachable sz c \<Longrightarrow> sized sz r \<Longrightarrow> free_encoder_input r i c = Inr c' \<Longrightarrow> enc_reachable sz c'"
| free: "enc_reachable sz c \<Longrightarrow> sized sz r \<Longrightarrow> encoder_free iter_order r c = Inr c' \<Longrightarrow> enc_reachable sz c'"
| freed: "enc_reachable sz c \<Longrightarrow> enc_reachable sz (snd (get_freed_mm_hashes c))"

lemma cache_size_kept:
  assumes "enc_inv sz c" and "\<And>h. 0 \<le> sz h"
  shows "0 \<le> cache_size c"
  using enc_invD(5,7) [OF assms(1)] embeds_nonneg [of sz "cached c"] assms(2) by simp

lemma reachable_inv: "enc_reachable sz c \<Longrightarrow> (\<And>h. 0 \<le> sz h) \<Longrightarrow> enc_inv sz c"
proof (induction rule: enc_reachable.induct)
  case (init n)
  then show ?case by (simp add: enc_init_inv)
next
  case (reset c)
  then show ?case using cache_size_kept by (blast intro: reset_inv)
next
  case (freed c)
  then show ?case by (simp add: get_freed_mm_hashes_def)
qed (blast intro: check_inv can_allocate_inv allocate_inv free_encoder_input_inv encoder_free_inv)+

lemma embeds_as_sum: "dict_ok d \<Longrightarrow> embeds sz d = (\<Sum>h | dict_get d h \<noteq> None. sz h)"
  by (simp add: embeds_def sum_list_distinct_conv_sum_set dom_map_of_conv_image_fst [symmetric] dom_def del: map_map)

lemma referenced_embeds:
  assumes "enc_inv sz c"
  shows "embeds sz (cached c) = embeds sz (freeable c) + (\<Sum>h | \<exists>refs. dict_get (cached c) h = Some refs \<and> refs \<noteq> {}. sz h)"
proof -
  note d = enc_invD [OF assms]
  let ?A = "{h. dict_get (freeable c) h \<noteq> None}" and ?B = "{h. \<exists>refs. dict_get (cached c) h = Some refs \<and> refs \<noteq> {}}"
  have un: "{h. dict_get (cached c) h \<noteq> None} = ?A \<union> ?B" using d(4) by auto
  have fin: "finite {h. dict_get (cached c) h \<noteq> None}" using finite_dom_map_of [of "cached c"] by (simp add: dom_def)
  have "?A \<inter> ?B = {}" using d(4) by auto
  then show ?thesis using fin unfolding embeds_as_sum [OF d(1)] embeds_as_sum [OF d(2)] un
    by (simp add: sum.union_disjoint)
qed

text \<open>C25: In every cache the scheduler's calls reach, the two counters are exact: the free slots are the
  capacity less the embeddings of every cached entry, the freeable slots the capacity less those of
  the entries some request still references; the eviction order lists exactly the cached entries that
  no request references; and neither counter leaves the range from 0 to the capacity.\<close>

theorem encoder_cache_accounting:
  assumes "enc_reachable sz c" and "\<And>h. 0 \<le> sz h"
  shows "num_free_slots c = cache_size c - (\<Sum>h | dict_get (cached c) h \<noteq> None. sz h)
    \<and> num_freeable_slots c = cache_size c - (\<Sum>h | \<exists>refs. dict_get (cached c) h = Some refs \<and> refs \<noteq> {}. sz h)
    \<and> set (map fst (freeable c)) = {h. dict_get (cached c) h = Some {}}
    \<and> 0 \<le> num_free_slots c \<and> num_free_slots c \<le> num_freeable_slots c \<and> num_freeable_slots c \<le> cache_size c"
proof (intro conjI)
  have inv: "enc_inv sz c" using reachable_inv assms by blast
  note d = enc_invD [OF inv]
  have nn: "0 \<le> embeds sz (freeable c)" using embeds_nonneg [of sz "freeable c"] assms(2) by simp
  have rest: "0 \<le> (\<Sum>h | \<exists>refs. dict_get (cached c) h = Some refs \<and> refs \<noteq> {}. sz h)" using assms(2) by (intro sum_nonneg) simp
  show "num_free_slots c = cache_size c - (\<Sum>h | dict_get (cached c) h \<noteq> None. sz h)"
    using d(5) embeds_as_sum [OF d(1), of sz] by simp
  show "num_freeable_slots c = cache_size c - (\<Sum>h | \<exists>refs. dict_get (cached c) h = Some refs \<and> refs \<noteq> {}. sz h)"
    using d(5,6) referenced_embeds [OF inv] by simp
  show "set (map fst (freeable c)) = {h. dict_get (cached c) h = Some {}}"
    using d(4) by (auto simp: dom_map_of_conv_image_fst [symmetric] dom_def simp del: map_map)
  show "0 \<le> num_free_slots c" "num_free_slots c \<le> num_freeable_slots c" "num_freeable_slots c \<le> cache_size c"
    using d(5-7) nn rest referenced_embeds [OF inv] by linarith+
qed

lemma can_allocate_no:
  assumes "enc_inv sz c" and "\<And>h. 0 \<le> sz h" and "get_num_encoder_embeds r i = Inr n"
    and "\<not> (n \<le> budget \<and> n + sched \<le> num_freeable_slots c)"
  shows "can_allocate r i budget sched c = Inr (False, c)"
proof -
  have "num_free_slots c \<le> num_freeable_slots c"
    using enc_invD(6) [OF assms(1)] embeds_nonneg [of sz "freeable c"] assms(2) by simp
  then show ?thesis using assms(3,4) by (auto simp: can_allocate_def Let_def)
qed

text \<open>C31: In a reachable cache, asking for room for an input never raises. The answer is yes exactly
  when the input fits the compute budget and, with the embeddings already promised in this step, the
  slots that are free or can be freed. A yes leaves that many slots free; the entries dropped for it
  are the oldest unreferenced ones, reported as freed in that order, and no more than needed; every
  other entry stays. A no leaves the cache as it is.\<close>

theorem can_allocate_evicts_oldest:
  assumes "enc_reachable sz c" and "\<And>h. 0 \<le> sz h" and "get_num_encoder_embeds r i = Inr n"
  shows "\<exists>c' k. can_allocate r i budget sched c = Inr (n \<le> budget \<and> n + sched \<le> num_freeable_slots c, c')
    \<and> freeable c' = drop k (freeable c) \<and> freed c' = freed c @ map fst (take k (freeable c))
    \<and> (\<forall>h. dict_get (cached c') h = (if h \<in> set (map fst (take k (freeable c))) then None else dict_get (cached c) h))
    \<and> (n \<le> budget \<and> n + sched \<le> num_freeable_slots c \<longrightarrow> n + sched \<le> num_free_slots c')
    \<and> (0 < k \<longrightarrow> num_free_slots c + (\<Sum>h\<leftarrow>map fst (take (k - 1) (freeable c)). sz h) < n + sched)
    \<and> (\<not> (n \<le> budget \<and> n + sched \<le> num_freeable_slots c) \<longrightarrow> c' = c)"
proof -
  have inv: "enc_inv sz c" using reachable_inv [OF assms(1,2)] .
  obtain c' k where c': "can_allocate r i budget sched c = Inr (n \<le> budget \<and> n + sched \<le> num_freeable_slots c, c')"
    and rest: "freeable c' = drop k (freeable c)" "freed c' = freed c @ map fst (take k (freeable c))"
    "\<forall>h. dict_get (cached c') h = (if h \<in> set (map fst (take k (freeable c))) then None else dict_get (cached c) h)"
    "n \<le> budget \<and> n + sched \<le> num_freeable_slots c \<longrightarrow> n + sched \<le> num_free_slots c'"
    "0 < k \<longrightarrow> num_free_slots c + (\<Sum>h\<leftarrow>map fst (take (k - 1) (freeable c)). sz h) < n + sched"
    using can_allocate_spec [OF inv assms(2,3), of budget sched] unfolding embeds_def by blast
  have "\<not> (n \<le> budget \<and> n + sched \<le> num_freeable_slots c) \<longrightarrow> c' = c"
    using c' can_allocate_no [OF inv assms(2,3), of budget sched] by auto
  with c' rest show ?thesis by (intro exI [of _ c'] exI [of _ k]) (intro conjI)
qed

section \<open>Witnesses\<close>

definition demo_request :: "string \<Rightarrow> mm_feature list \<Rightarrow> request" where
  "demo_request rid fs = \<lparr>request_id = rid, object_id = 1, priority = 0, arrival_time = 0, status = RUNNING,
     req_stop_reason = None, req_sampling_params = None, req_pooling_params = None, req_lora = None,
     max_tokens = 1, prompt_token_ids = None, prompt_embeds = None, embeds_hash_memo = [], num_prompt_tokens = 0,
     output_token_ids = [], all_token_ids = [], spec_token_ids = [], num_computed_tokens = 0, cache_salt = None,
     mm_features = fs, block_hashes = [], skip_reading_prefix_cache = False\<rparr>"

definition demo_feature :: "string \<Rightarrow> int \<Rightarrow> int \<Rightarrow> mm_feature" where
  "demo_feature h off len = \<lparr>mm_identifier = h, mm_position = \<lparr>pr_offset = off, pr_length = len, is_embed = None\<rparr>\<rparr>"

text \<open>A cache of ten slots in which request \<open>r\<close> computed one input of four embeddings and let it go.\<close>

abbreviation demo_r :: request where
  "demo_r \<equiv> demo_request ''r'' [demo_feature ''a'' 0 4, demo_feature ''b'' 4 4]"

definition demo_cache :: encoder_cache where
  "demo_cache = \<lparr>cache_size = 10, num_free_slots = 6, num_freeable_slots = 10, cached = [(''a'', {})],
     request_cached_ids = [], freeable = [(''a'', 4)], freed = []\<rparr>"

lemmas demo_defs = demo_request_def demo_feature_def demo_cache_def encoder_init_def py_index_def get_num_encoder_embeds_def
  get_num_embeds_def embeds_cumsum_def add_cached_id_def discard_cached_id_def

lemma demo_sized: "sized (\<lambda>_. 4) demo_r"
  by (simp add: sized_def demo_defs)

lemma demo_cache_reachable: "enc_reachable (\<lambda>_. 4) demo_cache"
proof -
  have a: "\<exists>c. allocate demo_r 0 (encoder_init 10) = Inr c \<and> free_encoder_input demo_r 0 c = Inr demo_cache"
    by (simp add: allocate_def free_encoder_input_def demo_defs Let_def)
  obtain c where c: "allocate demo_r 0 (encoder_init 10) = Inr c" "free_encoder_input demo_r 0 c = Inr demo_cache" using a by blast
  have "enc_reachable (\<lambda>_. 4) c"
    by (rule enc_reachable.allocate [OF enc_reachable.init demo_sized _ _ c(1), where f = "demo_feature ''a'' 0 4"]) (simp_all add: demo_defs)
  then show ?thesis using c(2) demo_sized by (blast intro: enc_reachable.free_input)
qed

theorem encoder_cache_accounting_witness:
  "enc_reachable (\<lambda>_. 4) demo_cache
    \<and> num_free_slots demo_cache = cache_size demo_cache - (\<Sum>h | dict_get (cached demo_cache) h \<noteq> None. 4)"
  using encoder_cache_accounting [OF demo_cache_reachable] demo_cache_reachable by simp

theorem can_allocate_evicts_oldest_witness:
  "enc_reachable (\<lambda>_. 4) demo_cache \<and> get_num_encoder_embeds demo_r 1 = Inr 4
    \<and> (\<exists>c'. can_allocate demo_r 1 8 4 demo_cache = Inr (True, c') \<and> 8 \<le> num_free_slots c')"
proof -
  have n: "get_num_encoder_embeds demo_r 1 = Inr 4" by (simp add: demo_defs)
  have "num_freeable_slots demo_cache = 10" by (simp add: demo_cache_def)
  then show ?thesis using can_allocate_evicts_oldest [OF demo_cache_reachable _ n, of 8 4] demo_cache_reachable n by auto
qed

end
