(* ===== verification/EncoderScheduling.thy ===== *)
theory EncoderScheduling
  imports EncoderCache
begin

text \<open>
  How the scheduler spends the encoder budget: \<^verbatim>\<open>_try_schedule_encoder_inputs\<close> and
  \<^verbatim>\<open>_free_encoder_inputs\<close> of \<^verbatim>\<open>vllm/v1/core/sched/scheduler.py\<close>, the window search of
  \<^verbatim>\<open>vllm/multimodal/utils.py\<close>, and the reads of the encoder outputs by
  \<^verbatim>\<open>_gather_mm_embeddings\<close> of \<^verbatim>\<open>vllm/v1/worker/gpu_model_runner.py\<close>. The encoder-cache connector is a
  parameter: whether it holds an item.
\<close>

section \<open>The window of a step\<close>

text \<open>\<^verbatim>\<open>bisect.bisect_left(xs, x, key=key)\<close>.\<close>

function bisect_left_from :: "('a \<Rightarrow> int) \<Rightarrow> 'a list \<Rightarrow> int \<Rightarrow> nat \<Rightarrow> nat \<Rightarrow> nat" where
  "bisect_left_from key xs x lo hi =
     (if lo < hi
      then let mid = (lo + hi) div 2
           in if key (xs ! mid) < x then bisect_left_from key xs x (mid + 1) hi
              else bisect_left_from key xs x lo mid
      else lo)"
  by pat_completeness auto
termination
  by (relation "measure (\<lambda>(_, _, _, lo, hi). hi - lo)") auto

declare bisect_left_from.simps [simp del]

definition bisect_left :: "('a \<Rightarrow> int) \<Rightarrow> 'a list \<Rightarrow> int \<Rightarrow> nat" where
  "bisect_left key xs x = bisect_left_from key xs x 0 (length xs)"

definition get_mm_features_in_window :: "mm_feature list \<Rightarrow> int \<Rightarrow> int \<Rightarrow> nat \<times> nat" where
  "get_mm_features_in_window fs start end' =
     (bisect_left (\<lambda>f. pr_offset (mm_position f) + pr_length (mm_position f)) fs (start + 1),
      bisect_left (\<lambda>f. pr_offset (mm_position f)) fs end')"

definition get_embeds_indices_in_range :: "placeholder_range \<Rightarrow> int \<Rightarrow> int \<Rightarrow> (int \<times> int) result" where
  "get_embeds_indices_in_range p start_idx end_idx =
     (case embeds_cumsum p of
        None \<Rightarrow> Inr (start_idx, end_idx)
      | Some cs \<Rightarrow>
          res_bind (if start_idx > 0 then py_index cs (start_idx - 1) else Inr 0) (\<lambda>a.
          res_bind (if end_idx > 0 then py_index cs (end_idx - 1) else Inr 0) (\<lambda>b.
          Inr (a, b))))"

section \<open>Scheduling the encoder inputs of a request\<close>

text \<open>The scheduler picks one of the two managers once and for all.\<close>

datatype encoder_manager = CacheManager encoder_cache | EncDecManager encdec_cache

definition create_encoder_manager :: "bool \<Rightarrow> int \<Rightarrow> encoder_manager" where
  "create_encoder_manager is_encoder_decoder n =
     (if is_encoder_decoder then EncDecManager (ed_init n) else CacheManager (encoder_init n))"

fun manager_check_and_update_cache :: "request \<Rightarrow> int \<Rightarrow> encoder_manager \<Rightarrow> (bool \<times> encoder_manager) result" where
  "manager_check_and_update_cache r i (CacheManager c) =
     res_bind (check_and_update_cache r i c) (\<lambda>(b, c'). Inr (b, CacheManager c'))"
| "manager_check_and_update_cache r i (EncDecManager c) = Inr (False, EncDecManager c)"

fun manager_can_allocate :: "request \<Rightarrow> int \<Rightarrow> int \<Rightarrow> int \<Rightarrow> encoder_manager \<Rightarrow> (bool \<times> encoder_manager) result" where
  "manager_can_allocate r i budget sched (CacheManager c) =
     res_bind (can_allocate r i budget sched c) (\<lambda>(b, c'). Inr (b, CacheManager c'))"
| "manager_can_allocate r i budget sched (EncDecManager c) =
     res_bind (ed_can_allocate r i budget sched c) (\<lambda>b. Inr (b, EncDecManager c))"

fun manager_allocate :: "request \<Rightarrow> int \<Rightarrow> encoder_manager \<Rightarrow> encoder_manager result" where
  "manager_allocate r i (CacheManager c) = res_bind (allocate r i c) (\<lambda>c'. Inr (CacheManager c'))"
| "manager_allocate r i (EncDecManager c) = res_bind (ed_allocate r i c) (\<lambda>c'. Inr (EncDecManager c'))"

fun manager_free_encoder_input :: "request \<Rightarrow> int \<Rightarrow> encoder_manager \<Rightarrow> encoder_manager result" where
  "manager_free_encoder_input r i (CacheManager c) = res_bind (free_encoder_input r i c) (\<lambda>c'. Inr (CacheManager c'))"
| "manager_free_encoder_input r i (EncDecManager c) = res_bind (ed_free_encoder_input r i c) (\<lambda>c'. Inr (EncDecManager c'))"

record encoder_sched =
  is_encoder_decoder :: bool
  use_eagle :: bool
  no_chunked_mm_input :: bool
  ec_connector :: "(string \<Rightarrow> bool) option"

record enc_plan =
  to_schedule :: "int list"
  new_tokens :: int
  compute_budget :: int
  external_load :: "int list"
  hashes_to_schedule :: "string list"
  embeds_to_schedule :: int
  manager :: encoder_manager

text \<open>One iteration of the loop; the flag tells that it leaves the loop.\<close>

definition schedule_input ::
  "encoder_sched \<Rightarrow> request \<Rightarrow> int \<Rightarrow> int \<Rightarrow> int \<Rightarrow> enc_plan \<Rightarrow> (bool \<times> enc_plan) result" where
  "schedule_input cfg r computed shift i s =
     res_bind (py_index (mm_features r) i) (\<lambda>f.
     let start_pos = pr_offset (mm_position f);
         num_encoder_tokens = pr_length (mm_position f);
         num_encoder_embeds = get_num_embeds (mm_position f);
         h = mm_identifier f
     in
     if is_encoder_decoder cfg \<and> computed > 0
     then res_bind (res_guard (start_pos = 0) AssertionError) (\<lambda>_. Inr (False, s))
     else if \<not> is_encoder_decoder cfg \<and> h \<in> set (hashes_to_schedule s) then Inr (False, s)
     else
     res_bind (if is_encoder_decoder cfg then Inr (False, manager s)
               else manager_check_and_update_cache r i (manager s)) (\<lambda>(hit, m1).
     if hit then Inr (False, s\<lparr>manager := m1\<rparr>)
     else if no_chunked_mm_input cfg \<and> computed < start_pos
             \<and> computed + new_tokens s < start_pos + num_encoder_tokens
     then Inr (True, s\<lparr>manager := m1, new_tokens := max 0 (start_pos - (computed + shift))\<rparr>)
     else
     res_bind (manager_can_allocate r i (compute_budget s) (embeds_to_schedule s) m1) (\<lambda>(room, m2).
     if \<not> room
     then Inr (True, s\<lparr>manager := m2,
                      new_tokens := (if computed + shift < start_pos then start_pos - (computed + shift) else 0)\<rparr>)
     else
     res_bind (get_embeds_indices_in_range (mm_position f) (max 0 (computed - start_pos))
                 (min num_encoder_tokens (computed + new_tokens s - start_pos))) (\<lambda>(a, b).
     if b - a = 0 then Inr (False, s\<lparr>manager := m2\<rparr>)
     else if (case ec_connector cfg of None \<Rightarrow> False | Some has_cache_item \<Rightarrow> has_cache_item h)
     then Inr (False, s\<lparr>manager := m2, hashes_to_schedule := hashes_to_schedule s @ [h],
                       external_load := external_load s @ [i],
                       embeds_to_schedule := embeds_to_schedule s + num_encoder_embeds\<rparr>)
     else Inr (False, s\<lparr>manager := m2, embeds_to_schedule := embeds_to_schedule s + num_encoder_embeds,
                       compute_budget := compute_budget s - num_encoder_embeds,
                       hashes_to_schedule := hashes_to_schedule s @ [h],
                       to_schedule := to_schedule s @ [i]\<rparr>)))))"

fun schedule_inputs ::
  "encoder_sched \<Rightarrow> request \<Rightarrow> int \<Rightarrow> int \<Rightarrow> int list \<Rightarrow> enc_plan \<Rightarrow> enc_plan result" where
  "schedule_inputs cfg r computed shift [] s = Inr s"
| "schedule_inputs cfg r computed shift (i # is) s =
     res_bind (schedule_input cfg r computed shift i s) (\<lambda>(stop, s').
       if stop then Inr s' else schedule_inputs cfg r computed shift is s')"

definition try_schedule_encoder_inputs ::
  "encoder_sched \<Rightarrow> request \<Rightarrow> int \<Rightarrow> int \<Rightarrow> int \<Rightarrow> int \<Rightarrow> encoder_manager
    \<Rightarrow> ((int list \<times> int \<times> int \<times> int list) \<times> encoder_manager) result" where
  "try_schedule_encoder_inputs cfg r computed num_new_tokens budget shift m =
     (if num_new_tokens = 0 \<or> \<not> has_encoder_inputs r then Inr (([], num_new_tokens, budget, []), m)
      else
        let (lo, hi) = get_mm_features_in_window (mm_features r) computed (computed + num_new_tokens + shift);
            lo = (if is_encoder_decoder cfg then 0 else lo)
        in res_bind (schedule_inputs cfg r computed shift (map int [lo..<hi])
             \<lparr>to_schedule = [], new_tokens = num_new_tokens, compute_budget = budget, external_load = [],
              hashes_to_schedule = [], embeds_to_schedule = 0, manager = m\<rparr>) (\<lambda>s.
           Inr ((to_schedule s, new_tokens s, compute_budget s, external_load s), manager s)))"

text \<open>
  Once the step's blocks are allocated, every planned input is, those to load from the connector last.
\<close>

definition allocate_planned :: "request \<Rightarrow> int list \<Rightarrow> int list \<Rightarrow> encoder_manager \<Rightarrow> encoder_manager result" where
  "allocate_planned r inputs external m =
     res_bind (res_fold (manager_allocate r) inputs m) (res_fold (manager_allocate r) external)"

section \<open>Releasing the inputs that are processed\<close>

definition free_processed_input ::
  "encoder_sched \<Rightarrow> request \<Rightarrow> int \<Rightarrow> int \<Rightarrow> encoder_manager \<Rightarrow> encoder_manager result" where
  "free_processed_input cfg r num_output_placeholders i m =
     res_bind (py_index (mm_features r) i) (\<lambda>f.
     if is_encoder_decoder cfg \<and> num_computed_tokens r > 0 then manager_free_encoder_input r i m
     else if pr_offset (mm_position f) + pr_length (mm_position f) + (if use_eagle cfg then 1 else 0)
             \<le> num_computed_tokens r - num_output_placeholders
     then manager_free_encoder_input r i m
     else Inr m)"

fun manager_cached_input_ids :: "(int set \<Rightarrow> int list) \<Rightarrow> request \<Rightarrow> encoder_manager \<Rightarrow> int list" where
  "manager_cached_input_ids iter_order r (CacheManager c) = iter_order (get_cached_input_ids r c)"
| "manager_cached_input_ids iter_order r (EncDecManager c) = iter_order (set (ed_get_cached_input_ids r))"

definition free_encoder_inputs ::
  "encoder_sched \<Rightarrow> (int set \<Rightarrow> int list) \<Rightarrow> request \<Rightarrow> int \<Rightarrow> encoder_manager \<Rightarrow> encoder_manager result" where
  "free_encoder_inputs cfg iter_order r num_output_placeholders m =
     res_fold (free_processed_input cfg r num_output_placeholders) (manager_cached_input_ids iter_order r m) m"

section \<open>Reading the outputs in the worker\<close>

text \<open>
  For one request of the batch: the slice of each encoder output the step reads. \<open>stored\<close> is the set
  of hashes in the runner's \<^verbatim>\<open>encoder_cache\<close>.
\<close>

fun gather_inputs ::
  "(string \<Rightarrow> bool) \<Rightarrow> int \<Rightarrow> int \<Rightarrow> int \<Rightarrow> mm_feature list \<Rightarrow> (string \<times> int \<times> int) list result" where
  "gather_inputs stored req_computed computed num_scheduled [] = Inr []"
| "gather_inputs stored req_computed computed num_scheduled (f # fs) =
     (let start_pos = pr_offset (mm_position f);
          start_idx = max (computed - start_pos) 0;
          end_idx = min (computed - start_pos + num_scheduled) (pr_length (mm_position f));
          rest = gather_inputs stored req_computed computed num_scheduled fs
      in res_bind (res_guard (start_idx < end_idx) AssertionError) (\<lambda>_.
         res_bind (get_embeds_indices_in_range (mm_position f) start_idx end_idx) (\<lambda>(a, b).
         if a = b then rest
         else if \<not> stored (mm_identifier f)
         then (if start_pos \<ge> req_computed + num_scheduled then rest else Inl RuntimeError)
         else res_bind rest (\<lambda>items. Inr ((mm_identifier f, a, b) # items)))))"

definition gather_mm_embeddings ::
  "(string \<Rightarrow> bool) \<Rightarrow> mm_feature list \<Rightarrow> int \<Rightarrow> int \<Rightarrow> int \<Rightarrow> (string \<times> int \<times> int) list result" where
  "gather_mm_embeddings stored fs req_computed num_scheduled shift =
     (let computed = req_computed + shift;
          (lo, hi) = get_mm_features_in_window fs computed (computed + num_scheduled)
      in gather_inputs stored req_computed computed num_scheduled (drop lo (take hi fs)))"

section \<open>The window\<close>

lemma bisect_left_from_spec:
  assumes "sorted (map key xs)" and "lo \<le> hi" and "hi \<le> length xs"
    and "\<And>j. j < lo \<Longrightarrow> key (xs ! j) < x" and "\<And>j. hi \<le> j \<Longrightarrow> j < length xs \<Longrightarrow> x \<le> key (xs ! j)"
  shows "bisect_left_from key xs x lo hi \<le> length xs
    \<and> (\<forall>j<length xs. j < bisect_left_from key xs x lo hi \<longleftrightarrow> key (xs ! j) < x)"
  using assms
proof (induction key xs x lo hi rule: bisect_left_from.induct)
  case (1 key xs x lo hi)
  let ?mid = "(lo + hi) div 2"
  have mono: "key (xs ! i) \<le> key (xs ! j)" if "i \<le> j" "j < length xs" for i j
    using sorted_nth_mono [OF "1.prems"(1), of i j] that by simp
  show ?case
  proof (cases "lo < hi")
    case False
    then have "lo = hi" using "1.prems"(2) by simp
    then have "j < lo \<longleftrightarrow> key (xs ! j) < x" if "j < length xs" for j
      using "1.prems"(4) [of j] "1.prems"(5) [of j] that by (cases "j < lo") simp_all
    moreover have "bisect_left_from key xs x lo hi = lo" using False by (simp add: bisect_left_from.simps [of key xs x lo hi])
    ultimately show ?thesis using "1.prems"(2,3) by simp
  next
    case True
    then have m: "?mid < hi" "lo \<le> ?mid" by simp_all
    show ?thesis
    proof (cases "key (xs ! ?mid) < x")
      case less: True
      have "key (xs ! j) < x" if "j < ?mid + 1" for j using mono [of j ?mid] less that m "1.prems"(3) by simp
      then show ?thesis using "1.IH"(1) [OF True refl less] "1.prems" m True less
        by (simp add: bisect_left_from.simps [of key xs x lo hi] Let_def)
    next
      case ge: False
      have "x \<le> key (xs ! j)" if "?mid \<le> j" "j < length xs" for j using mono [of ?mid j] ge that by simp
      then show ?thesis using "1.IH"(2) [OF True refl ge] "1.prems" m True ge
        by (simp add: bisect_left_from.simps [of key xs x lo hi] Let_def)
    qed
  qed
qed

lemma bisect_left_spec:
  assumes "sorted (map key xs)"
  shows "bisect_left key xs x \<le> length xs" and "\<And>j. j < length xs \<Longrightarrow> j < bisect_left key xs x \<longleftrightarrow> key (xs ! j) < x"
  using bisect_left_from_spec [OF assms, of 0 "length xs" x] by (auto simp: bisect_left_def)

abbreviation feature_start :: "mm_feature \<Rightarrow> int" where
  "feature_start f \<equiv> pr_offset (mm_position f)"

abbreviation feature_end :: "mm_feature \<Rightarrow> int" where
  "feature_end f \<equiv> pr_offset (mm_position f) + pr_length (mm_position f)"

text \<open>Placeholders in the order of the prompt, apart from each other, with a mask of their length.\<close>

definition features_ok :: "mm_feature list \<Rightarrow> bool" where
  "features_ok fs \<longleftrightarrow> sorted_wrt (\<lambda>f g. feature_end f \<le> feature_start g) fs
     \<and> (\<forall>f\<in>set fs. 0 < pr_length (mm_position f)
          \<and> (case is_embed (mm_position f) of None \<Rightarrow> True | Some bs \<Rightarrow> int (length bs) = pr_length (mm_position f)))"

lemma features_sorted:
  assumes "features_ok fs"
  shows "sorted (map feature_start fs)" and "sorted (map feature_end fs)"
proof -
  have pos: "0 < pr_length (mm_position f)" if "f \<in> set fs" for f using assms that by (simp add: features_ok_def)
  have "sorted_wrt (\<lambda>f g. feature_start f \<le> feature_start g) fs" "sorted_wrt (\<lambda>f g. feature_end f \<le> feature_end g) fs"
    by (rule sorted_wrt_mono_rel [of fs "\<lambda>f g. feature_end f \<le> feature_start g"];
        use assms pos in \<open>force simp: features_ok_def\<close>)+
  then show "sorted (map feature_start fs)" "sorted (map feature_end fs)" by (simp_all add: sorted_map)
qed

lemma window_spec:
  assumes "features_ok fs" and "get_mm_features_in_window fs a b = (lo, hi)"
  shows "lo \<le> length fs" "hi \<le> length fs"
    and "j < length fs \<Longrightarrow> lo \<le> j \<longleftrightarrow> a < feature_end (fs ! j)"
    and "j < length fs \<Longrightarrow> j < hi \<longleftrightarrow> feature_start (fs ! j) < b"
proof -
  have lo: "lo = bisect_left feature_end fs (a + 1)" and hi: "hi = bisect_left feature_start fs b"
    using assms(2) by (simp_all add: get_mm_features_in_window_def)
  note s = bisect_left_spec [OF features_sorted(1) [OF assms(1)], where x = b]
    and e = bisect_left_spec [OF features_sorted(2) [OF assms(1)], where x = "a + 1"]
  show "lo \<le> length fs" "hi \<le> length fs" using s(1) e(1) lo hi by simp_all
  show "j < length fs \<Longrightarrow> lo \<le> j \<longleftrightarrow> a < feature_end (fs ! j)" using e(2) [of j] lo by (simp add: not_less [symmetric])
  show "j < length fs \<Longrightarrow> j < hi \<longleftrightarrow> feature_start (fs ! j) < b" using s(2) [of j] hi by simp
qed

text \<open>The embeddings in the first \<open>k\<close> places of a placeholder.\<close>

definition embeds_before :: "placeholder_range \<Rightarrow> int \<Rightarrow> int" where
  "embeds_before p k = (case is_embed p of None \<Rightarrow> k | Some bs \<Rightarrow> int (length (filter (\<lambda>b. b) (take (nat k) bs))))"

lemma cumsum_from_nth: "k < length bs \<Longrightarrow> cumsum_from n bs ! k = n + int (length (filter (\<lambda>b. b) (take (Suc k) bs)))"
  by (induction bs arbitrary: n k) (auto simp: Let_def nth_Cons split: nat.splits)

lemma length_cumsum_from [simp]: "length (cumsum_from n bs) = length bs"
  by (induction bs arbitrary: n) (simp_all add: Let_def)

lemma embeds_indices:
  assumes "case is_embed p of None \<Rightarrow> True | Some bs \<Rightarrow> int (length bs) = pr_length p"
    and "0 \<le> a" "a \<le> pr_length p" "0 \<le> b" "b \<le> pr_length p"
  shows "get_embeds_indices_in_range p a b = Inr (embeds_before p a, embeds_before p b)"
proof (cases "is_embed p")
  case None
  then show ?thesis by (simp add: get_embeds_indices_in_range_def embeds_cumsum_def embeds_before_def)
next
  case (Some bs)
  have "(if k > 0 then py_index (cumsum_from 0 bs) (k - 1) else Inr 0) = Inr (embeds_before p k)" if "0 \<le> k" "k \<le> pr_length p" for k
  proof (cases "k = 0")
    case True
    then show ?thesis using Some by (simp add: embeds_before_def)
  next
    case False
    then have "nat (k - 1) < length bs" "Suc (nat (k - 1)) = nat k" using that assms(1) Some by auto
    then show ?thesis using False that Some cumsum_from_nth [of "nat (k - 1)" bs 0] by (simp add: py_index_def embeds_before_def)
  qed
  then show ?thesis using assms Some by (simp add: get_embeds_indices_in_range_def embeds_cumsum_def)
qed

lemma embeds_before_mono:
  assumes "a \<le> b"
  shows "embeds_before p a \<le> embeds_before p b"
proof (cases "is_embed p")
  case None
  then show ?thesis using assms by (simp add: embeds_before_def)
next
  case (Some bs)
  have "take (nat b) bs = take (nat a) bs @ take (nat b - nat a) (drop (nat a) bs)"
    using assms by (metis le_add_diff_inverse nat_mono take_add)
  then show ?thesis using Some by (simp add: embeds_before_def)
qed

text \<open>The tokens from \<open>computed\<close> on, \<open>n\<close> of them, need an embedding of the feature.\<close>

definition needs :: "mm_feature \<Rightarrow> int \<Rightarrow> int \<Rightarrow> bool" where
  "needs f computed n \<longleftrightarrow>
     embeds_before (mm_position f) (max 0 (computed - feature_start f))
       \<noteq> embeds_before (mm_position f) (min (pr_length (mm_position f)) (computed + n - feature_start f))"

lemma needs_mono:
  assumes "needs f computed m" and "m \<le> n" and "computed < feature_end f" and "feature_start f < computed + m"
    and "0 \<le> m" and "0 < pr_length (mm_position f)"
  shows "needs f computed n"
proof -
  let ?p = "mm_position f" and ?a = "max 0 (computed - feature_start f)"
  let ?e = "\<lambda>k. min (pr_length ?p) (computed + k - feature_start f)"
  have "embeds_before ?p ?a \<le> embeds_before ?p (?e m)" by (rule embeds_before_mono) (use assms in auto)
  moreover have "embeds_before ?p (?e m) \<le> embeds_before ?p (?e n)" by (rule embeds_before_mono) (use assms in auto)
  ultimately show ?thesis using assms(1) by (simp add: needs_def)
qed

section \<open>Allocating what was planned\<close>

text \<open>
  The contract of a manager towards the scheduler: an entry that fits the free slots and is not held
  yet can be allocated. A batch that was admitted together then can be.
\<close>

locale encoder_store =
  fixes sz :: "string \<Rightarrow> int" and ok :: "'c \<Rightarrow> bool" and slots :: "'c \<Rightarrow> int"
    and holds :: "'c \<Rightarrow> string \<Rightarrow> bool" and alloc :: "request \<Rightarrow> int \<Rightarrow> 'c \<Rightarrow> 'c result"
  assumes alloc_fits: "ok c \<Longrightarrow> sized sz r \<Longrightarrow> py_index (mm_features r) i = Inr f \<Longrightarrow> i < int (length (mm_features r))
      \<Longrightarrow> \<not> holds c (mm_identifier f) \<Longrightarrow> sz (mm_identifier f) \<le> slots c
      \<Longrightarrow> \<exists>c'. alloc r i c = Inr c' \<and> ok c' \<and> slots c' = slots c - sz (mm_identifier f)
            \<and> (\<forall>h. holds c' h \<longleftrightarrow> holds c h \<or> h = mm_identifier f)"
    and sz_nonneg: "0 \<le> sz h"
begin

lemma alloc_batch:
  assumes "ok c" and "sized sz r" and "\<And>j. j \<in> set js \<Longrightarrow> j < length (mm_features r)"
    and "distinct (map (\<lambda>j. mm_identifier (mm_features r ! j)) js)"
    and "\<And>j. j \<in> set js \<Longrightarrow> \<not> holds c (mm_identifier (mm_features r ! j))"
    and "(\<Sum>j\<leftarrow>js. sz (mm_identifier (mm_features r ! j))) \<le> slots c"
  shows "\<exists>c'. res_fold (alloc r) (map int js) c = Inr c' \<and> ok c'
    \<and> slots c' = slots c - (\<Sum>j\<leftarrow>js. sz (mm_identifier (mm_features r ! j)))
    \<and> (\<forall>h. holds c' h \<longleftrightarrow> holds c h \<or> (\<exists>j\<in>set js. h = mm_identifier (mm_features r ! j)))"
  using assms
proof (induction js arbitrary: c)
  case (Cons j js)
  let ?h = "\<lambda>j. mm_identifier (mm_features r ! j)"
  have rest: "0 \<le> (\<Sum>j\<leftarrow>js. sz (?h j))" by (intro sum_list_nonneg) (auto simp: sz_nonneg)
  have j: "j < length (mm_features r)" "int j < int (length (mm_features r))" using Cons.prems(3) [of j] by simp_all
  then have f: "py_index (mm_features r) (int j) = Inr (mm_features r ! j)" by (simp add: py_index_def)
  have fits: "sz (?h j) \<le> slots c" using Cons.prems(6) rest by simp
  have "\<not> holds c (?h j)" using Cons.prems(5) by simp
  from alloc_fits [OF Cons.prems(1,2) f j(2) this fits] obtain c1 where c1: "alloc r (int j) c = Inr c1" "ok c1" "slots c1 = slots c - sz (?h j)"
      "\<forall>h. holds c1 h \<longleftrightarrow> holds c h \<or> h = ?h j"
    by blast
  have fresh: "\<not> holds c1 (?h k)" if "k \<in> set js" for k
  proof -
    have "?h k \<noteq> ?h j" using Cons.prems(4) that by (metis (no_types, lifting) distinct.simps(2) image_eqI list.set_map list.simps(9))
    then show ?thesis using c1(4) Cons.prems(5) [of k] that by simp
  qed
  obtain c' where "res_fold (alloc r) (map int js) c1 = Inr c'" "ok c'" "slots c' = slots c1 - (\<Sum>j\<leftarrow>js. sz (?h j))"
      "\<forall>h. holds c' h \<longleftrightarrow> holds c1 h \<or> (\<exists>j\<in>set js. h = ?h j)"
    using Cons.IH [OF c1(2) Cons.prems(2) _ _ fresh] Cons.prems(3,4,6) c1(3) by auto
  then show ?case using c1 by (intro exI [of _ c']) auto
qed simp

end

lemma allocate_fits:
  assumes "enc_reachable sz c" and "\<And>h. 0 \<le> sz h" and "sized sz r" and f: "py_index (mm_features r) i = Inr f"
    and "i < int (length (mm_features r))" and new: "dict_get (cached c) (mm_identifier f) = None"
    and fits: "sz (mm_identifier f) \<le> num_free_slots c"
  shows "\<exists>c'. allocate r i c = Inr c' \<and> enc_reachable sz c' \<and> num_free_slots c' = num_free_slots c - sz (mm_identifier f)
    \<and> (\<forall>h. dict_get (cached c') h \<noteq> None \<longleftrightarrow> dict_get (cached c) h \<noteq> None \<or> h = mm_identifier f)"
proof -
  have n: "get_num_encoder_embeds r i = Inr (get_num_embeds (mm_position f))" using f assms(5) by (simp add: get_num_encoder_embeds_def)
  have sz: "get_num_embeds (mm_position f) = sz (mm_identifier f)" using sized_input [OF assms(3) f n] .
  have "num_free_slots c \<le> num_freeable_slots c"
    using enc_invD(6) [OF reachable_inv [OF assms(1,2)]] embeds_nonneg [of sz "freeable c"] assms(2) by simp
  then have "\<exists>c'. allocate r i c = Inr c' \<and> num_free_slots c' = num_free_slots c - sz (mm_identifier f)
      \<and> (\<forall>h. dict_get (cached c') h \<noteq> None \<longleftrightarrow> dict_get (cached c) h \<noteq> None \<or> h = mm_identifier f)"
    using f n sz fits by (auto simp: allocate_def Let_def)
  then show ?thesis using enc_reachable.allocate [OF assms(1,3) f new] by blast
qed

text \<open>Both managers meet the contract.\<close>

interpretation cache_store: encoder_store "\<lambda>h. int (sizes h)" "enc_reachable (\<lambda>h. int (sizes h))" num_free_slots
  "\<lambda>c h. dict_get (cached c) h \<noteq> None" allocate for sizes :: "string \<Rightarrow> nat"
proof
  show "\<exists>c'. allocate r i c = Inr c' \<and> enc_reachable (\<lambda>h. int (sizes h)) c' \<and> num_free_slots c' = num_free_slots c - int (sizes (mm_identifier f))
      \<and> (\<forall>h. dict_get (cached c') h \<noteq> None \<longleftrightarrow> dict_get (cached c) h \<noteq> None \<or> h = mm_identifier f)"
    if "enc_reachable (\<lambda>h. int (sizes h)) c" "sized (\<lambda>h. int (sizes h)) r" "py_index (mm_features r) i = Inr f"
      "i < int (length (mm_features r))" "\<not> dict_get (cached c) (mm_identifier f) \<noteq> None" "int (sizes (mm_identifier f)) \<le> num_free_slots c"
    for c r i f
    by (rule allocate_fits) (use that in simp_all)
qed simp

interpretation encdec_store: encoder_store "\<lambda>h. int (sizes h)" "\<lambda>c. 0 \<le> ed_num_free_slots c" ed_num_free_slots
  "\<lambda>c h. h \<in> set (ed_allocated c)" ed_allocate for sizes :: "string \<Rightarrow> nat"
proof
  show "\<exists>c'. ed_allocate r i c = Inr c' \<and> 0 \<le> ed_num_free_slots c' \<and> ed_num_free_slots c' = ed_num_free_slots c - int (sizes (mm_identifier f))
      \<and> (\<forall>h. h \<in> set (ed_allocated c') \<longleftrightarrow> h \<in> set (ed_allocated c) \<or> h = mm_identifier f)"
    if "0 \<le> ed_num_free_slots c" "sized (\<lambda>h. int (sizes h)) r" "py_index (mm_features r) i = Inr f"
      "i < int (length (mm_features r))" "\<not> mm_identifier f \<in> set (ed_allocated c)" "int (sizes (mm_identifier f)) \<le> ed_num_free_slots c"
    for c r i f
  proof -
    have "get_num_encoder_embeds r i = Inr (get_num_embeds (mm_position f))" using that by (simp add: get_num_encoder_embeds_def)
    moreover from this have "get_num_embeds (mm_position f) = int (sizes (mm_identifier f))" using sized_input that(2,3) by blast
    ultimately show ?thesis using that by (auto simp: ed_allocate_def)
  qed
qed simp

end
