(* ===== verification/EncoderPlan.thy ===== *)
theory EncoderPlan
  imports EncoderScheduling
begin

text \<open>
  The invariant of the loop that plans the encoder inputs of a request, the loop itself, and what the
  worker reads when every planned input is stored.
\<close>

section \<open>The plan of a step\<close>

lemma check_spec:
  assumes "enc_inv sz c" and "py_index (mm_features r) i = Inr f"
  shows "\<exists>c'. check_and_update_cache r i c = Inr (dict_get (cached c) (mm_identifier f) \<noteq> None, c')
    \<and> num_free_slots c' = num_free_slots c
    \<and> (\<forall>h. dict_get (cached c') h = (if h = mm_identifier f then map_option (insert (request_id r)) (dict_get (cached c) h)
                                     else dict_get (cached c) h))"
proof (cases "dict_get (cached c) (mm_identifier f)")
  case None
  then show ?thesis using assms(2) by (simp add: check_and_update_cache_def)
next
  case (Some refs)
  show ?thesis
  proof (cases "refs = {}")
    case True
    then obtain n where "dict_get (freeable c) (mm_identifier f) = Some n" using enc_invD(4) [OF assms(1), of "mm_identifier f"] Some by auto
    then show ?thesis using assms(2) Some True by (simp add: check_and_update_cache_def Let_def)
  next
    case False
    then show ?thesis using assms(2) Some by (simp add: check_and_update_cache_def Let_def)
  qed
qed

text \<open>
  What holds of the plan while the inputs in \<open>seen\<close> are behind: the planned hashes are distinct, none
  of them is cached, the free slots hold them all, the budget paid for those to compute; and an input
  behind is planned, or cached and held by the request, or not needed.
\<close>

definition held :: "request \<Rightarrow> encoder_cache \<Rightarrow> string \<Rightarrow> bool" where
  "held r c h \<longleftrightarrow> (\<exists>refs. dict_get (cached c) h = Some refs \<and> request_id r \<in> refs)"

definition plan_ok ::
  "(string \<Rightarrow> int) \<Rightarrow> request \<Rightarrow> int \<Rightarrow> int \<Rightarrow> int \<Rightarrow> encoder_cache \<Rightarrow> enc_plan \<Rightarrow> nat list \<Rightarrow> nat list \<Rightarrow> nat set \<Rightarrow> bool" where
  "plan_ok sz r computed n budget c s js ks seen \<longleftrightarrow>
     manager s = CacheManager c \<and> enc_reachable sz c
     \<and> to_schedule s = map int js \<and> external_load s = map int ks
     \<and> (\<forall>j\<in>set (js @ ks). j < length (mm_features r))
     \<and> distinct (map (\<lambda>j. mm_identifier (mm_features r ! j)) (js @ ks))
     \<and> set (hashes_to_schedule s) = set (map (\<lambda>j. mm_identifier (mm_features r ! j)) (js @ ks))
     \<and> (\<forall>h\<in>set (hashes_to_schedule s). dict_get (cached c) h = None)
     \<and> embeds_to_schedule s = (\<Sum>j\<leftarrow>js @ ks. sz (mm_identifier (mm_features r ! j)))
     \<and> embeds_to_schedule s \<le> num_free_slots c
     \<and> compute_budget s = budget - (\<Sum>j\<leftarrow>js. sz (mm_identifier (mm_features r ! j))) \<and> 0 \<le> compute_budget s
     \<and> (\<forall>j\<in>seen. mm_identifier (mm_features r ! j) \<in> set (hashes_to_schedule s)
          \<or> held r c (mm_identifier (mm_features r ! j)) \<or> \<not> needs (mm_features r ! j) computed n)"

lemma plan_okD:
  assumes "plan_ok sz r computed n budget c s js ks seen"
  shows "manager s = CacheManager c" "enc_reachable sz c" "to_schedule s = map int js" "external_load s = map int ks"
    and "\<forall>j\<in>set (js @ ks). j < length (mm_features r)"
    and "distinct (map (\<lambda>j. mm_identifier (mm_features r ! j)) (js @ ks))"
    and "set (hashes_to_schedule s) = set (map (\<lambda>j. mm_identifier (mm_features r ! j)) (js @ ks))"
    and "\<forall>h\<in>set (hashes_to_schedule s). dict_get (cached c) h = None"
    and "embeds_to_schedule s = (\<Sum>j\<leftarrow>js @ ks. sz (mm_identifier (mm_features r ! j)))"
    and "embeds_to_schedule s \<le> num_free_slots c"
    and "compute_budget s = budget - (\<Sum>j\<leftarrow>js. sz (mm_identifier (mm_features r ! j)))" "0 \<le> compute_budget s"
    and "\<forall>j\<in>seen. mm_identifier (mm_features r ! j) \<in> set (hashes_to_schedule s)
          \<or> held r c (mm_identifier (mm_features r ! j)) \<or> \<not> needs (mm_features r ! j) computed n"
  using assms unfolding plan_ok_def by blast+

text \<open>The manager moves on, keeping what the request holds.\<close>

lemma plan_manager:
  assumes "plan_ok sz r computed n budget c s js ks seen" and "enc_reachable sz c'"
    and "\<And>h. dict_get (cached c) h = None \<Longrightarrow> dict_get (cached c') h = None" and "\<And>h. held r c h \<Longrightarrow> held r c' h"
    and "embeds_to_schedule s \<le> num_free_slots c'"
  shows "plan_ok sz r computed n budget c' (s\<lparr>manager := CacheManager c'\<rparr>) js ks seen"
proof -
  note d = plan_okD [OF assms(1)]
  have "\<forall>j\<in>seen. mm_identifier (mm_features r ! j) \<in> set (hashes_to_schedule s)
      \<or> held r c' (mm_identifier (mm_features r ! j)) \<or> \<not> needs (mm_features r ! j) computed n"
    using d(13) assms(4) by blast
  moreover have "\<forall>h\<in>set (hashes_to_schedule s). dict_get (cached c') h = None" using d(8) assms(3) by blast
  ultimately show ?thesis using d(3-7,9-12) assms(2,5) unfolding plan_ok_def by (intro conjI) simp_all
qed

lemma plan_seen:
  assumes "plan_ok sz r computed n budget c s js ks seen"
    and "mm_identifier (mm_features r ! j) \<in> set (hashes_to_schedule s) \<or> held r c (mm_identifier (mm_features r ! j))
      \<or> \<not> needs (mm_features r ! j) computed n"
  shows "plan_ok sz r computed n budget c s js ks (insert j seen)"
  using assms unfolding plan_ok_def ball_simps by blast

lemma plan_new_tokens [simp]:
  "plan_ok sz r computed n budget c (s\<lparr>new_tokens := k\<rparr>) js ks seen \<longleftrightarrow> plan_ok sz r computed n budget c s js ks seen"
  unfolding plan_ok_def by simp

text \<open>An input is planned, to be loaded or to be computed.\<close>

lemma plan_external:
  assumes p: "plan_ok sz r computed n budget c s js ks seen" and j: "j < length (mm_features r)"
    and h: "h = mm_identifier (mm_features r ! j)" "h \<notin> set (hashes_to_schedule s)" "dict_get (cached c) h = None"
    and fits: "sz h + embeds_to_schedule s \<le> num_free_slots c"
  shows "plan_ok sz r computed n budget c (s\<lparr>hashes_to_schedule := hashes_to_schedule s @ [h], external_load := external_load s @ [int j],
    embeds_to_schedule := embeds_to_schedule s + sz h\<rparr>) js (ks @ [j]) (insert j seen)"
  using plan_okD [OF p] j h fits unfolding plan_ok_def by (auto simp: add.commute)

lemma plan_compute:
  assumes p: "plan_ok sz r computed n budget c s js ks seen" and j: "j < length (mm_features r)"
    and h: "h = mm_identifier (mm_features r ! j)" "h \<notin> set (hashes_to_schedule s)" "dict_get (cached c) h = None"
    and fits: "sz h + embeds_to_schedule s \<le> num_free_slots c" and pay: "sz h \<le> compute_budget s"
  shows "plan_ok sz r computed n budget c (s\<lparr>embeds_to_schedule := embeds_to_schedule s + sz h,
    compute_budget := compute_budget s - sz h, hashes_to_schedule := hashes_to_schedule s @ [h],
    to_schedule := to_schedule s @ [int j]\<rparr>) (js @ [j]) ks (insert j seen)"
  using plan_okD [OF p] j h fits pay unfolding plan_ok_def by (auto simp: add.commute)

section \<open>The loop\<close>

lemma evict_frees:
  assumes "enc_inv sz c" and "enc_inv sz c'" and "freeable c' = drop m (freeable c)" and "num_freeable_slots c' = num_freeable_slots c"
    and "\<And>h. 0 \<le> sz h"
  shows "num_free_slots c \<le> num_free_slots c'"
proof -
  have "embeds sz (freeable c) = embeds sz (take m (freeable c)) + embeds sz (drop m (freeable c))"
    by (metis (no_types, lifting) append_take_drop_id embeds_def map_append sum_list_append)
  then show ?thesis
    using enc_invD(6) [OF assms(1)] enc_invD(6) [OF assms(2)] assms(3,4) embeds_nonneg [of sz "take m (freeable c)"] assms(5) by simp
qed

lemma evict_keeps:
  assumes "enc_inv sz c" and "h \<in> set (map fst (take m (freeable c)))"
  shows "dict_get (cached c) h = Some {}"
proof -
  have "h \<in> fst ` set (freeable c)" using assms(2) by (metis (no_types, lifting) image_mono list.set_map set_take_subset subsetD)
  then show ?thesis using enc_invD(4) [OF assms(1), of h] by (metis map_of_eq_None_iff)
qed

text \<open>The end of an iteration, for an input that is neither planned nor cached and may be split.\<close>

lemma schedule_input_asks:
  assumes cfg: "\<not> is_encoder_decoder cfg" and f: "py_index (mm_features r) i = Inr f" "get_num_embeds (mm_position f) = e"
    and s: "manager s = CacheManager c" "mm_identifier f \<notin> set (hashes_to_schedule s)"
    and c1: "check_and_update_cache r i c = Inr (False, c1)"
    and c2: "can_allocate r i (compute_budget s) (embeds_to_schedule s) c1 = Inr (room, c2)"
    and part: "\<not> (no_chunked_mm_input cfg \<and> computed < feature_start f \<and> computed + new_tokens s < feature_end f)"
    and ix: "get_embeds_indices_in_range (mm_position f) (max 0 (computed - feature_start f))
               (min (pr_length (mm_position f)) (computed + new_tokens s - feature_start f)) = Inr (a, b)"
  shows "schedule_input cfg r computed shift i s =
    (if \<not> room then Inr (True, s\<lparr>manager := CacheManager c2,
        new_tokens := (if computed + shift < feature_start f then feature_start f - (computed + shift) else 0)\<rparr>)
     else if a = b then Inr (False, s\<lparr>manager := CacheManager c2\<rparr>)
     else if (case ec_connector cfg of None \<Rightarrow> False | Some has_cache_item \<Rightarrow> has_cache_item (mm_identifier f))
     then Inr (False, s\<lparr>manager := CacheManager c2, hashes_to_schedule := hashes_to_schedule s @ [mm_identifier f],
            external_load := external_load s @ [i], embeds_to_schedule := embeds_to_schedule s + e\<rparr>)
     else Inr (False, s\<lparr>manager := CacheManager c2, embeds_to_schedule := embeds_to_schedule s + e,
            compute_budget := compute_budget s - e, hashes_to_schedule := hashes_to_schedule s @ [mm_identifier f],
            to_schedule := to_schedule s @ [i]\<rparr>))"
  using assms by (cases room) (auto simp: schedule_input_def Let_def)

lemma feature_indices:
  assumes "features_ok (mm_features r)" and "j < length (mm_features r)" and "computed < feature_end (mm_features r ! j)"
    and "feature_start (mm_features r ! j) < computed + n + shift" and "shift \<le> 1" and "0 < n"
  shows "\<exists>a b. get_embeds_indices_in_range (mm_position (mm_features r ! j)) (max 0 (computed - feature_start (mm_features r ! j)))
      (min (pr_length (mm_position (mm_features r ! j))) (computed + n - feature_start (mm_features r ! j))) = Inr (a, b)
    \<and> (a = b \<longleftrightarrow> \<not> needs (mm_features r ! j) computed n)"
proof -
  have f: "0 < pr_length (mm_position (mm_features r ! j))"
      "case is_embed (mm_position (mm_features r ! j)) of None \<Rightarrow> True | Some bs \<Rightarrow> int (length bs) = pr_length (mm_position (mm_features r ! j))"
    using assms(1,2) by (simp_all add: features_ok_def)
  then show ?thesis unfolding needs_def by (subst embeds_indices [OF f(2)]) (use f(1) assms(3-) in auto)
qed

text \<open>Asking for room keeps the plan, and a yes leaves room for one input more.\<close>

lemma plan_can_allocate:
  assumes p: "plan_ok sz r computed n budget c s js ks seen" and sz: "\<And>h. 0 \<le> sz h"
    and e: "get_num_encoder_embeds r i = Inr e"
  shows "\<exists>room c'. can_allocate r i (compute_budget s) (embeds_to_schedule s) c = Inr (room, c')
    \<and> plan_ok sz r computed n budget c' (s\<lparr>manager := CacheManager c'\<rparr>) js ks seen
    \<and> (\<forall>h. dict_get (cached c) h = None \<longrightarrow> dict_get (cached c') h = None)
    \<and> (room \<longrightarrow> e \<le> compute_budget s \<and> e + embeds_to_schedule s \<le> num_free_slots c')"
proof -
  note d = plan_okD [OF p]
  have inv: "enc_inv sz c" using reachable_inv [OF d(2) sz] .
  let ?room = "e \<le> compute_budget s \<and> e + embeds_to_schedule s \<le> num_freeable_slots c"
  from can_allocate_spec [OF inv sz e, of "compute_budget s" "embeds_to_schedule s"]
  obtain c' m where c': "can_allocate r i (compute_budget s) (embeds_to_schedule s) c = Inr (?room, c')"
      "enc_inv sz c'" "freeable c' = drop m (freeable c)" "num_freeable_slots c' = num_freeable_slots c"
      "\<forall>h. dict_get (cached c') h = (if h \<in> set (map fst (take m (freeable c))) then None else dict_get (cached c) h)"
      "?room \<longrightarrow> e + embeds_to_schedule s \<le> num_free_slots c'"
    by blast
  have "num_free_slots c \<le> num_free_slots c'" using evict_frees [OF inv c'(2-4)] sz .
  then have fits: "embeds_to_schedule s \<le> num_free_slots c'" using d(10) by simp
  have none: "dict_get (cached c') h = None" if "dict_get (cached c) h = None" for h using c'(5) that by simp
  have held: "held r c' h" if h: "held r c h" for h
  proof -
    obtain refs where refs: "dict_get (cached c) h = Some refs" "request_id r \<in> refs" using h by (auto simp: held_def)
    then have "h \<notin> set (map fst (take m (freeable c)))" using evict_keeps [OF inv, of h m] by force
    then show ?thesis using refs c'(5) by (auto simp: held_def)
  qed
  have "plan_ok sz r computed n budget c' (s\<lparr>manager := CacheManager c'\<rparr>) js ks seen"
    using plan_manager [OF p enc_reachable.can_allocate [OF d(2) c'(1)] none held fits] .
  then show ?thesis using c'(1,6) none by (intro exI [of _ ?room] exI [of _ c']) blast
qed

lemma plan_check:
  assumes p: "plan_ok sz r computed n budget c s js ks seen" and sz: "\<And>h. 0 \<le> sz h"
    and f: "py_index (mm_features r) i = Inr f"
  shows "\<exists>c'. check_and_update_cache r i c = Inr (dict_get (cached c) (mm_identifier f) \<noteq> None, c')
    \<and> plan_ok sz r computed n budget c' (s\<lparr>manager := CacheManager c'\<rparr>) js ks seen
    \<and> (dict_get (cached c) (mm_identifier f) \<noteq> None \<longrightarrow> held r c' (mm_identifier f))
    \<and> (dict_get (cached c) (mm_identifier f) = None \<longrightarrow> dict_get (cached c') (mm_identifier f) = None)"
proof -
  note d = plan_okD [OF p]
  obtain c' where c': "check_and_update_cache r i c = Inr (dict_get (cached c) (mm_identifier f) \<noteq> None, c')"
      "num_free_slots c' = num_free_slots c"
      "\<forall>h. dict_get (cached c') h = (if h = mm_identifier f then map_option (insert (request_id r)) (dict_get (cached c) h)
                                     else dict_get (cached c) h)"
    using check_spec [OF reachable_inv [OF d(2) sz] f] by blast
  have "plan_ok sz r computed n budget c' (s\<lparr>manager := CacheManager c'\<rparr>) js ks seen"
    by (rule plan_manager [OF p enc_reachable.check [OF d(2) c'(1)]]) (use c'(2,3) d(10) in \<open>auto simp: held_def\<close>)
  then show ?thesis using c' by (intro exI [of _ c']) (auto simp: held_def)
qed

text \<open>What an iteration leaves behind.\<close>

definition step_ok ::
  "(string \<Rightarrow> int) \<Rightarrow> request \<Rightarrow> int \<Rightarrow> int \<Rightarrow> int \<Rightarrow> nat \<Rightarrow> nat set \<Rightarrow> bool \<Rightarrow> enc_plan \<Rightarrow> bool" where
  "step_ok sz r computed n budget j seen stop s \<longleftrightarrow> (\<exists>c js ks.
     if stop then plan_ok sz r computed n budget c s js ks seen \<and> 0 \<le> new_tokens s \<and> new_tokens s \<le> n
       \<and> (0 < new_tokens s \<longrightarrow> computed + new_tokens s \<le> feature_start (mm_features r ! j))
     else plan_ok sz r computed n budget c s js ks (insert j seen) \<and> new_tokens s = n)"

lemma step_goI:
  "plan_ok sz r computed n budget c s js ks (insert j seen) \<Longrightarrow> new_tokens s = n \<Longrightarrow> step_ok sz r computed n budget j seen False s"
  unfolding step_ok_def by auto

lemma step_stopI:
  "plan_ok sz r computed n budget c s js ks seen \<Longrightarrow> 0 \<le> new_tokens s \<Longrightarrow> new_tokens s \<le> n
    \<Longrightarrow> (0 < new_tokens s \<Longrightarrow> computed + new_tokens s \<le> feature_start (mm_features r ! j))
    \<Longrightarrow> step_ok sz r computed n budget j seen True s"
  unfolding step_ok_def by auto

lemma schedule_uncached_step:
  assumes p1: "plan_ok sz r computed n budget c1 (s\<lparr>manager := CacheManager c1\<rparr>) js ks seen" and m: "manager s = CacheManager c"
    and check: "check_and_update_cache r (int j) c = Inr (False, c1)" and none: "dict_get (cached c1) (mm_identifier (mm_features r ! j)) = None"
    and new: "mm_identifier (mm_features r ! j) \<notin> set (hashes_to_schedule s)" and n: "new_tokens s = n" "0 < n"
    and part: "\<not> (no_chunked_mm_input cfg \<and> computed < feature_start (mm_features r ! j) \<and> computed + n < feature_end (mm_features r ! j))"
    and cfg: "\<not> is_encoder_decoder cfg" and sz: "\<And>h. 0 \<le> sz h" and sized: "sized sz r" and ok: "features_ok (mm_features r)"
    and j: "j < length (mm_features r)" "computed < feature_end (mm_features r ! j)"
      "feature_start (mm_features r ! j) < computed + n + shift"
    and shift: "0 \<le> shift" "shift \<le> 1"
  shows "\<exists>stop s'. schedule_input cfg r computed shift (int j) s = Inr (stop, s') \<and> step_ok sz r computed n budget j seen stop s'"
proof -
  let ?f = "mm_features r ! j"
  let ?h = "mm_identifier ?f" and ?k = "feature_start ?f - (computed + shift)"
  have f: "py_index (mm_features r) (int j) = Inr ?f" using j(1) by (simp add: py_index_def)
  have size: "get_num_embeds (mm_position ?f) = sz ?h" using sized j(1) by (simp add: sized_def)
  have e: "get_num_encoder_embeds r (int j) = Inr (sz ?h)" using f j(1) size by (simp add: get_num_encoder_embeds_def)
  from plan_can_allocate [OF p1 sz e] obtain room c2 where c2:
      "can_allocate r (int j) (compute_budget s) (embeds_to_schedule s) c1 = Inr (room, c2)"
      "plan_ok sz r computed n budget c2 (s\<lparr>manager := CacheManager c2\<rparr>) js ks seen" "dict_get (cached c2) ?h = None"
      "room \<longrightarrow> sz ?h \<le> compute_budget s \<and> sz ?h + embeds_to_schedule s \<le> num_free_slots c2"
    using none by auto
  obtain a b where ab: "get_embeds_indices_in_range (mm_position ?f) (max 0 (computed - feature_start ?f))
      (min (pr_length (mm_position ?f)) (computed + n - feature_start ?f)) = Inr (a, b)" "a = b \<longleftrightarrow> \<not> needs ?f computed n"
    using feature_indices [OF ok j shift(2) n(2)] by blast
  note run = schedule_input_asks [OF cfg f size m new check c2(1), unfolded n(1), OF part ab(1)]
  show ?thesis
  proof (cases "room \<and> a \<noteq> b")
    case True
    let ?load = "case ec_connector cfg of None \<Rightarrow> False | Some has_cache_item \<Rightarrow> has_cache_item ?h"
    have fits: "?h \<notin> set (hashes_to_schedule (s\<lparr>manager := CacheManager c2\<rparr>))"
        "sz ?h + embeds_to_schedule (s\<lparr>manager := CacheManager c2\<rparr>) \<le> num_free_slots c2"
        "sz ?h \<le> compute_budget (s\<lparr>manager := CacheManager c2\<rparr>)"
      using True new c2(4) by simp_all
    have "step_ok sz r computed n budget j seen False (s\<lparr>manager := CacheManager c2, hashes_to_schedule := hashes_to_schedule s @ [?h],
        external_load := external_load s @ [int j], embeds_to_schedule := embeds_to_schedule s + sz ?h\<rparr>)"
      using step_goI [OF plan_external [OF c2(2) j(1) refl fits(1) c2(3) fits(2)]] n(1) by simp
    moreover have "step_ok sz r computed n budget j seen False (s\<lparr>manager := CacheManager c2, embeds_to_schedule := embeds_to_schedule s + sz ?h,
        compute_budget := compute_budget s - sz ?h, hashes_to_schedule := hashes_to_schedule s @ [?h], to_schedule := to_schedule s @ [int j]\<rparr>)"
      using step_goI [OF plan_compute [OF c2(2) j(1) refl fits(1) c2(3) fits(2,3)]] n(1) by simp
    ultimately show ?thesis unfolding run using True by (cases ?load; simp; intro exI [of _ False]; simp)
  next
    case False
    have stop: "step_ok sz r computed n budget j seen True
        (s\<lparr>manager := CacheManager c2, new_tokens := (if computed + shift < feature_start ?f then ?k else 0)\<rparr>)"
      using c2(2) n(2) j(3) shift by (intro step_stopI [of _ _ _ _ _ c2 _ js ks]) (simp_all split: if_splits)
    have go: "step_ok sz r computed n budget j seen False (s\<lparr>manager := CacheManager c2\<rparr>)" if "a = b"
      using that ab(2) n(1) by (intro step_goI [OF plan_seen [OF c2(2)]]) simp_all
    show ?thesis
    proof (cases room)
      case True
      then have "a = b" using False by simp
      then show ?thesis unfolding run using True go by (intro exI [of _ False] exI [of _ "s\<lparr>manager := CacheManager c2\<rparr>"]) simp
    next
      case False
      then show ?thesis unfolding run if_P [OF False] using stop by blast
    qed
  qed
qed

lemma schedule_input_step:
  assumes p: "plan_ok sz r computed n budget c s js ks seen" and n: "new_tokens s = n" "0 < n"
    and cfg: "\<not> is_encoder_decoder cfg" and sz: "\<And>h. 0 \<le> sz h" and sized: "sized sz r" and ok: "features_ok (mm_features r)"
    and j: "j < length (mm_features r)" "computed < feature_end (mm_features r ! j)"
      "feature_start (mm_features r ! j) < computed + n + shift"
    and shift: "0 \<le> shift" "shift \<le> 1"
  shows "\<exists>stop s'. schedule_input cfg r computed shift (int j) s = Inr (stop, s') \<and> step_ok sz r computed n budget j seen stop s'"
proof -
  note m = plan_okD(1) [OF p]
  let ?f = "mm_features r ! j"
  let ?h = "mm_identifier ?f" and ?k = "feature_start ?f - (computed + shift)"
  have f: "py_index (mm_features r) (int j) = Inr ?f" using j(1) by (simp add: py_index_def)
  obtain c1 where c1: "check_and_update_cache r (int j) c = Inr (dict_get (cached c) ?h \<noteq> None, c1)"
      "plan_ok sz r computed n budget c1 (s\<lparr>manager := CacheManager c1\<rparr>) js ks seen"
      "dict_get (cached c) ?h \<noteq> None \<longrightarrow> held r c1 ?h" "dict_get (cached c) ?h = None \<longrightarrow> dict_get (cached c1) ?h = None"
    using plan_check [OF p sz f] by (elim exE conjE) (rule that)
  let ?whole = "no_chunked_mm_input cfg \<and> computed < feature_start ?f \<and> computed + n < feature_end ?f"
  consider (planned) "?h \<in> set (hashes_to_schedule s)"
    | (hit) "?h \<notin> set (hashes_to_schedule s)" "dict_get (cached c) ?h \<noteq> None"
    | (whole) "?h \<notin> set (hashes_to_schedule s)" "dict_get (cached c) ?h = None" ?whole
    | (ask) "?h \<notin> set (hashes_to_schedule s)" "dict_get (cached c) ?h = None" "\<not> ?whole"
    by blast
  then show ?thesis
  proof cases
    case planned
    then have "schedule_input cfg r computed shift (int j) s = Inr (False, s)" using f cfg by (simp add: schedule_input_def Let_def)
    then show ?thesis using step_goI [OF plan_seen [OF p disjI1 [OF planned]] n(1)] by blast
  next
    case hit
    then have "schedule_input cfg r computed shift (int j) s = Inr (False, s\<lparr>manager := CacheManager c1\<rparr>)"
      using f cfg m c1(1) by (simp add: schedule_input_def Let_def)
    moreover have "step_ok sz r computed n budget j seen False (s\<lparr>manager := CacheManager c1\<rparr>)"
      using c1(3) hit(2) n(1) by (intro step_goI [OF plan_seen [OF c1(2)]]) simp_all
    ultimately show ?thesis by blast
  next
    case whole
    then have "schedule_input cfg r computed shift (int j) s = Inr (True, s\<lparr>manager := CacheManager c1, new_tokens := max 0 ?k\<rparr>)"
      using f cfg m c1(1) n(1) by (simp add: schedule_input_def Let_def)
    moreover have "step_ok sz r computed n budget j seen True (s\<lparr>manager := CacheManager c1, new_tokens := max 0 ?k\<rparr>)"
      using c1(2) n(2) j(3) shift by (intro step_stopI [of _ _ _ _ _ c1 _ js ks]) simp_all
    ultimately show ?thesis by blast
  next
    case ask
    have "check_and_update_cache r (int j) c = Inr (False, c1)" "dict_get (cached c1) ?h = None" using c1(1,4) ask(2) by simp_all
    from schedule_uncached_step [OF c1(2) m this ask(1) n ask(3) cfg sz sized ok j shift] show ?thesis .
  qed
qed

lemma schedule_inputs_loop:
  assumes "plan_ok sz r computed n budget c s js ks {lo..<i}" and "new_tokens s = n" and "0 < n"
    and cfg: "\<not> is_encoder_decoder cfg" and sz: "\<And>h. 0 \<le> sz h" and sized: "sized sz r" and ok: "features_ok (mm_features r)"
    and shift: "0 \<le> shift" "shift \<le> 1" and "lo \<le> i" and "i \<le> hi" and "hi \<le> length (mm_features r)"
    and win: "\<And>j. lo \<le> j \<Longrightarrow> j < hi \<Longrightarrow> computed < feature_end (mm_features r ! j) \<and> feature_start (mm_features r ! j) < computed + n + shift"
  shows "\<exists>s' c' js' ks' k. schedule_inputs cfg r computed shift (map int [i..<hi]) s = Inr s' \<and> i \<le> k \<and> k \<le> hi
    \<and> plan_ok sz r computed n budget c' s' js' ks' {lo..<k} \<and> 0 \<le> new_tokens s' \<and> new_tokens s' \<le> n
    \<and> (if k = hi then new_tokens s' = n
       else 0 < new_tokens s' \<longrightarrow> computed + new_tokens s' \<le> feature_start (mm_features r ! k))"
  using assms(1,2,10,11)
proof (induction "hi - i" arbitrary: i s c js ks)
  case 0
  then show ?case using assms(3) by (intro exI [of _ s] exI [of _ c] exI [of _ js] exI [of _ ks] exI [of _ i] conjI) simp_all
next
  case (Suc d)
  then have i: "i < hi" "lo \<le> i" by simp_all
  then have up: "[i..<hi] = i # [Suc i..<hi]" by (simp add: upt_conv_Cons)
  have j: "i < length (mm_features r)" "computed < feature_end (mm_features r ! i)" "feature_start (mm_features r ! i) < computed + n + shift"
    using win [of i] i assms(12) by simp_all
  obtain stop s1 where s1: "schedule_input cfg r computed shift (int i) s = Inr (stop, s1)" "step_ok sz r computed n budget i {lo..<i} stop s1"
    using schedule_input_step [OF Suc.prems(1,2) assms(3) cfg sz sized ok j shift] by blast
  show ?case
  proof (cases stop)
    case True
    then obtain c' js' ks' where "plan_ok sz r computed n budget c' s1 js' ks' {lo..<i}" "0 \<le> new_tokens s1" "new_tokens s1 \<le> n"
        "0 < new_tokens s1 \<longrightarrow> computed + new_tokens s1 \<le> feature_start (mm_features r ! i)"
      using s1(2) unfolding step_ok_def by auto
    then show ?thesis using s1(1) True i up
      by (intro exI [of _ s1] exI [of _ c'] exI [of _ js'] exI [of _ ks'] exI [of _ i] conjI) simp_all
  next
    case False
    then obtain c' js' ks' where c': "plan_ok sz r computed n budget c' s1 js' ks' (insert i {lo..<i})" "new_tokens s1 = n"
      using s1(2) unfolding step_ok_def by auto
    have "insert i {lo..<i} = {lo..<Suc i}" using i by auto
    then have p': "plan_ok sz r computed n budget c' s1 js' ks' {lo..<Suc i}" using c'(1) by simp
    have "d = hi - Suc i" "lo \<le> Suc i" "Suc i \<le> hi" using Suc.hyps(2) i by simp_all
    from Suc.hyps(1) [OF this(1) p' c'(2) this(2,3)] obtain s' c'' js'' ks'' k where "schedule_inputs cfg r computed shift (map int [Suc i..<hi]) s1 = Inr s'" "Suc i \<le> k" "k \<le> hi"
      "plan_ok sz r computed n budget c'' s' js'' ks'' {lo..<k}" "0 \<le> new_tokens s'" "new_tokens s' \<le> n"
      "if k = hi then new_tokens s' = n else 0 < new_tokens s' \<longrightarrow> computed + new_tokens s' \<le> feature_start (mm_features r ! k)"
      by (elim exE conjE) (rule that)
    then show ?thesis using s1(1) False up
      by (intro exI [of _ s'] exI [of _ c''] exI [of _ js''] exI [of _ ks''] exI [of _ k] conjI) simp_all
  qed
qed

section \<open>Reading what was planned\<close>

text \<open>When every input the range needs is stored, the worker reads exactly those, each in its slice.\<close>

definition needed_slices :: "int \<Rightarrow> int \<Rightarrow> mm_feature list \<Rightarrow> (string \<times> int \<times> int) list" where
  "needed_slices computed n fs = map (\<lambda>f. (mm_identifier f, embeds_before (mm_position f) (max 0 (computed - feature_start f)),
     embeds_before (mm_position f) (min (pr_length (mm_position f)) (computed + n - feature_start f)))) (filter (\<lambda>f. needs f computed n) fs)"

lemma gather_inputs_stored:
  assumes "\<And>f. f \<in> set fs \<Longrightarrow> 0 < pr_length (mm_position f) \<and> computed < feature_end f \<and> feature_start f < computed + n
      \<and> (case is_embed (mm_position f) of None \<Rightarrow> True | Some bs \<Rightarrow> int (length bs) = pr_length (mm_position f))"
    and "\<And>f. f \<in> set fs \<Longrightarrow> needs f computed n \<Longrightarrow> stored (mm_identifier f)" and "0 < n"
  shows "gather_inputs stored q computed n fs = Inr (needed_slices computed n fs)"
  using assms
proof (induction fs)
  case (Cons f fs)
  let ?p = "mm_position f" and ?a = "max 0 (computed - feature_start f)"
  let ?b = "min (pr_length (mm_position f)) (computed + n - feature_start f)"
  have f: "0 < pr_length ?p" "computed < feature_end f" "feature_start f < computed + n"
      "case is_embed ?p of None \<Rightarrow> True | Some bs \<Rightarrow> int (length bs) = pr_length ?p"
    using Cons.prems(1) [of f] by simp_all
  have comm: "max (computed - feature_start f) 0 = ?a" "min (computed - feature_start f + n) (pr_length ?p) = ?b" by auto
  have ix: "get_embeds_indices_in_range ?p ?a ?b = Inr (embeds_before ?p ?a, embeds_before ?p ?b)"
    by (rule embeds_indices [OF f(4)]) (use f(1-3) in auto)
  have "?a < ?b" using f(1-3) Cons.prems(3) by auto
  moreover have "gather_inputs stored q computed n fs = Inr (needed_slices computed n fs)" using Cons by simp
  moreover have "needs f computed n \<longleftrightarrow> embeds_before ?p ?a \<noteq> embeds_before ?p ?b" by (simp add: needs_def)
  ultimately show ?case using Cons.prems(2) [of f] ix unfolding gather_inputs.simps comm Let_def
    by (cases "needs f computed n") (simp_all add: needed_slices_def)
qed (simp add: needed_slices_def)

lemma set_window:
  assumes "f \<in> set (drop lo (take hi fs))"
  shows "\<exists>j. lo \<le> j \<and> j < hi \<and> j < length fs \<and> f = fs ! j"
proof -
  obtain i where i: "i < length (drop lo (take hi fs))" "f = drop lo (take hi fs) ! i" using assms by (metis in_set_conv_nth)
  then have "lo + i < hi" "lo + i < length fs" by auto
  then show ?thesis using i(2) by (intro exI [of _ "lo + i"]) (simp add: nth_drop)
qed

lemma features_okD:
  "features_ok fs \<Longrightarrow> f \<in> set fs \<Longrightarrow> 0 < pr_length (mm_position f)
    \<and> (case is_embed (mm_position f) of None \<Rightarrow> True | Some bs \<Rightarrow> int (length bs) = pr_length (mm_position f))"
  by (simp add: features_ok_def)

lemma gather_stored:
  assumes ok: "features_ok fs" and "0 < n" and win: "get_mm_features_in_window fs computed (computed + n) = (lo, hi)"
    and stored: "\<And>j. lo \<le> j \<Longrightarrow> j < length fs \<Longrightarrow> computed < feature_end (fs ! j) \<Longrightarrow> feature_start (fs ! j) < computed + n
      \<Longrightarrow> needs (fs ! j) computed n \<Longrightarrow> stored (mm_identifier (fs ! j))"
  shows "gather_mm_embeddings stored fs computed n 0 = Inr (needed_slices computed n (drop lo (take hi fs)))"
proof -
  have w: "computed < feature_end (fs ! j) \<and> feature_start (fs ! j) < computed + n" if "lo \<le> j" "j < hi" "j < length fs" for j
    using window_spec(3,4) [OF ok win, of j] that by simp
  have "gather_inputs stored computed computed n (drop lo (take hi fs)) = Inr (needed_slices computed n (drop lo (take hi fs)))"
  proof (rule gather_inputs_stored)
    fix f assume f: "f \<in> set (drop lo (take hi fs))"
    obtain j where j: "lo \<le> j" "j < hi" "j < length fs" "f = fs ! j" using set_window [OF f] by (elim exE conjE) (rule that)
    then have in_fs: "f \<in> set fs" by simp
    show "0 < pr_length (mm_position f) \<and> computed < feature_end f \<and> feature_start f < computed + n
        \<and> (case is_embed (mm_position f) of None \<Rightarrow> True | Some bs \<Rightarrow> int (length bs) = pr_length (mm_position f))"
      using features_okD [OF ok in_fs] w [OF j(1-3), folded j(4)] by blast
    show "stored (mm_identifier f)" if "needs f computed n"
      using stored [OF j(1,3) conjunct1 [OF w [OF j(1-3)]] conjunct2 [OF w [OF j(1-3)]]] j(4) that by simp
  qed (rule assms(2))
  then show ?thesis using win by (simp add: gather_mm_embeddings_def)
qed

lemma manager_allocate_all:
  "res_fold (manager_allocate r) is (CacheManager c) = res_bind (res_fold (allocate r) is c) (\<lambda>c'. Inr (CacheManager c'))"
proof (induction "is" arbitrary: c)
  case (Cons i "is")
  then show ?case by (cases "allocate r i c") simp_all
qed simp

lemma plan_allocated:
  assumes p: "plan_ok sz r computed n budget c s js ks seen" and sz: "\<And>h. 0 \<le> sz h" and sized: "sized sz r"
  shows "\<exists>c'. allocate_planned r (to_schedule s) (external_load s) (CacheManager c) = Inr (CacheManager c') \<and> enc_reachable sz c'
    \<and> (\<forall>h. dict_get (cached c') h \<noteq> None \<longleftrightarrow> dict_get (cached c) h \<noteq> None \<or> h \<in> set (hashes_to_schedule s))"
proof -
  note d = plan_okD [OF p]
  have sz': "(\<lambda>h. int (nat (sz h))) = sz" using sz by auto
  have fresh: "\<not> dict_get (cached c) (mm_identifier (mm_features r ! j)) \<noteq> None" if "j \<in> set (js @ ks)" for j
    using d(7,8) that by auto
  have fits: "(\<Sum>j\<leftarrow>js @ ks. int (nat (sz (mm_identifier (mm_features r ! j))))) \<le> num_free_slots c" using d(9,10) sz by simp
  obtain c' where c': "res_fold (allocate r) (map int (js @ ks)) c = Inr c'" "enc_reachable sz c'"
      "\<forall>h. dict_get (cached c') h \<noteq> None \<longleftrightarrow> dict_get (cached c) h \<noteq> None \<or> (\<exists>j\<in>set (js @ ks). h = mm_identifier (mm_features r ! j))"
    using cache_store.alloc_batch [of "\<lambda>h. nat (sz h)" c r "js @ ks", unfolded sz', OF d(2) sized bspec [OF d(5)] d(6) fresh fits] by blast
  have "allocate_planned r (to_schedule s) (external_load s) (CacheManager c) = res_fold (manager_allocate r) (map int (js @ ks)) (CacheManager c)"
    using d(3,4) by (simp add: allocate_planned_def res_fold_append)
  then show ?thesis using c' d(7) by (auto simp: manager_allocate_all)
qed

end
