(* ===== verification/EncoderSpec.thy ===== *)
theory EncoderSpec
  imports EncoderPlan
begin

text \<open>
  The properties of encoder scheduling: a plan can be allocated and its outputs are found by the worker;
  the drafter's look-ahead is not covered; the slots of an encoder-decoder model are returned too often.
\<close>

section \<open>Properties\<close>

text \<open>The features behind the point where planning stopped are all that a step of \<open>n'\<close> tokens can need.\<close>

lemma planned_features_stored:
  assumes p: "plan_ok sz r computed n budget c s js ks {lo..<k}" and ok: "features_ok (mm_features r)"
    and stored: "\<And>h. dict_get (cached c) h \<noteq> None \<or> h \<in> set (hashes_to_schedule s) \<Longrightarrow> stored h"
    and n': "n' \<le> n" "0 < n'"
    and reach: "\<And>j. j < length (mm_features r) \<Longrightarrow> feature_start (mm_features r ! j) < computed + n' \<Longrightarrow> j < k"
    and j: "lo \<le> j" "j < length (mm_features r)" "computed < feature_end (mm_features r ! j)"
      "feature_start (mm_features r ! j) < computed + n'" "needs (mm_features r ! j) computed n'"
  shows "stored (mm_identifier (mm_features r ! j))"
proof -
  have "0 < pr_length (mm_position (mm_features r ! j))" using features_okD [OF ok, of "mm_features r ! j"] j(2) by simp
  then have need: "needs (mm_features r ! j) computed n" using needs_mono [OF j(5) n'(1) j(3,4)] n'(2) by simp
  have "j \<in> {lo..<k}" using reach [OF j(2,4)] j(1) by simp
  from bspec [OF plan_okD(13) [OF p] this] need stored show ?thesis unfolding held_def by blast
qed

lemma feature_start_mono:
  "features_ok fs \<Longrightarrow> i \<le> j \<Longrightarrow> j < length fs \<Longrightarrow> feature_start (fs ! i) \<le> feature_start (fs ! j)"
  using sorted_nth_mono [OF features_sorted(1), of fs i j] by simp

lemma window_ordered:
  assumes ok: "features_ok fs" and win: "get_mm_features_in_window fs a b = (lo, hi)" and "a \<le> b"
  shows "lo \<le> hi"
proof (rule ccontr)
  note w = window_spec [OF ok win]
  assume "\<not> lo \<le> hi"
  then have "hi < length fs" "hi < lo" using w(1) by simp_all
  then show False using w(3,4) [of hi] features_okD [OF ok, of "fs ! hi"] assms(3) by simp
qed

text \<open>With everything planned in the cache, the step gathers what it needs.\<close>

lemma plan_gathered:
  assumes p: "plan_ok sz r computed n budget c s js ks {lo..<k}" and ok: "features_ok (mm_features r)"
    and win: "get_mm_features_in_window (mm_features r) computed (computed + n + shift) = (lo, hi)" and n': "n' \<le> n"
    and stop: "if k = hi then n' = n else 0 < n' \<longrightarrow> computed + n' \<le> feature_start (mm_features r ! k)"
    and k: "k \<le> hi" and pos: "0 < n'" and shift: "0 \<le> shift"
    and stored: "\<And>h. dict_get (cached c) h \<noteq> None \<or> h \<in> set (hashes_to_schedule s) \<Longrightarrow> stored h"
  shows "gather_mm_embeddings stored (mm_features r) computed n' 0
    = Inr (needed_slices computed n' (case get_mm_features_in_window (mm_features r) computed (computed + n') of
             (lo, hi) \<Rightarrow> drop lo (take hi (mm_features r))))"
proof -
  let ?fs = "mm_features r"
  note w = window_spec [OF ok win]
  have before: "j < k" if "j < length ?fs" "feature_start (?fs ! j) < computed + n'" for j
    using stop k pos n' w(2) w(4) [of j] feature_start_mono [OF ok, of k j] that shift by (cases "k = hi") (force simp: not_less [symmetric])+
  obtain lo' hi' where win': "get_mm_features_in_window ?fs computed (computed + n') = (lo', hi')" by fastforce
  have "gather_mm_embeddings stored ?fs computed n' 0 = Inr (needed_slices computed n' (drop lo' (take hi' ?fs)))"
  proof (rule gather_stored [OF ok pos win'])
    fix j assume j: "j < length ?fs" "computed < feature_end (?fs ! j)" "feature_start (?fs ! j) < computed + n'"
      "needs (?fs ! j) computed n'"
    have "lo \<le> j" using w(3) [OF j(1)] j(2) by simp
    from planned_features_stored [OF p ok stored n' pos before this j] show "stored (mm_identifier (?fs ! j))" .
  qed
  then show ?thesis unfolding win' by simp
qed

text \<open>C24: Scheduling the multimodal inputs of a request is safe end to end. From any reachable encoder
  cache it returns a plan that never raises the number of tokens and never overspends the compute
  budget; every planned input, computed or loaded, can then be allocated without an assertion
  failing; and when tokens remain to be run, the worker finds every encoder output those tokens read,
  and reads exactly the slices that the placeholders in the range need.\<close>

theorem encoder_plan_safe:
  assumes reach: "enc_reachable sz c" and sz: "\<And>h. 0 \<le> sz h" and sized: "sized sz r" and ok: "features_ok (mm_features r)"
    and cfg: "\<not> is_encoder_decoder cfg" and shift: "0 \<le> shift" "shift \<le> 1" and n: "0 < n" and budget: "0 \<le> budget"
    and some: "mm_features r \<noteq> []"
  shows "\<exists>inputs n' budget' external c1 c2.
    try_schedule_encoder_inputs cfg r computed n budget shift (CacheManager c) = Inr ((inputs, n', budget', external), CacheManager c1)
    \<and> 0 \<le> n' \<and> n' \<le> n \<and> 0 \<le> budget' \<and> budget' \<le> budget
    \<and> allocate_planned r inputs external (CacheManager c1) = Inr (CacheManager c2) \<and> enc_reachable sz c2
    \<and> (0 < n' \<longrightarrow> gather_mm_embeddings (\<lambda>h. dict_get (cached c2) h \<noteq> None) (mm_features r) computed n' 0
         = Inr (needed_slices computed n' (case get_mm_features_in_window (mm_features r) computed (computed + n') of
                  (lo, hi) \<Rightarrow> drop lo (take hi (mm_features r)))))"
proof -
  let ?fs = "mm_features r"
  obtain lo hi where win: "get_mm_features_in_window ?fs computed (computed + n + shift) = (lo, hi)" by fastforce
  note w = window_spec [OF ok win]
  let ?s = "\<lparr>to_schedule = [], new_tokens = n, compute_budget = budget, external_load = [],
     hashes_to_schedule = [], embeds_to_schedule = 0, manager = CacheManager c\<rparr>"
  have "0 \<le> num_free_slots c" using enc_invD(7) [OF reachable_inv [OF reach sz]] .
  then have p0: "plan_ok sz r computed n budget c ?s [] [] {lo..<lo}" using reach budget by (simp add: plan_ok_def)
  have le: "lo \<le> hi" using window_ordered [OF ok win] n shift(1) by simp
  have inside: "computed < feature_end (?fs ! j) \<and> feature_start (?fs ! j) < computed + n + shift" if "lo \<le> j" "j < hi" for j
    using w(2) w(3,4) [of j] that by simp
  from schedule_inputs_loop [OF p0 _ n cfg sz sized ok shift le_refl le w(2) inside]
  obtain s c1 js ks k where s: "schedule_inputs cfg r computed shift (map int [lo..<hi]) ?s = Inr s"
      "plan_ok sz r computed n budget c1 s js ks {lo..<k}" "0 \<le> new_tokens s" "new_tokens s \<le> n"
      "if k = hi then new_tokens s = n else 0 < new_tokens s \<longrightarrow> computed + new_tokens s \<le> feature_start (?fs ! k)" "k \<le> hi"
    by auto
  note d = plan_okD [OF s(2)]
  obtain c2 where c2: "allocate_planned r (to_schedule s) (external_load s) (CacheManager c1) = Inr (CacheManager c2)" "enc_reachable sz c2"
      "\<forall>h. dict_get (cached c2) h \<noteq> None \<longleftrightarrow> dict_get (cached c1) h \<noteq> None \<or> h \<in> set (hashes_to_schedule s)"
    using plan_allocated [OF s(2) sz sized] by blast
  have run: "try_schedule_encoder_inputs cfg r computed n budget shift (CacheManager c)
      = Inr ((to_schedule s, new_tokens s, compute_budget s, external_load s), CacheManager c1)"
    using n some win cfg s(1) d(1) by (simp add: try_schedule_encoder_inputs_def has_encoder_inputs_def num_encoder_inputs_def)
  have "0 \<le> (\<Sum>j\<leftarrow>js. sz (mm_identifier (?fs ! j)))" using sz by (intro sum_list_nonneg) auto
  then have paid: "0 \<le> compute_budget s" "compute_budget s \<le> budget" using d(11,12) by simp_all
  have "gather_mm_embeddings (\<lambda>h. dict_get (cached c2) h \<noteq> None) ?fs computed (new_tokens s) 0
      = Inr (needed_slices computed (new_tokens s) (case get_mm_features_in_window ?fs computed (computed + new_tokens s) of
               (lo, hi) \<Rightarrow> drop lo (take hi ?fs)))" if "0 < new_tokens s"
    using plan_gathered [OF s(2) ok win s(4-6) that shift(1)] c2(3) by simp
  then have "0 < new_tokens s \<longrightarrow> gather_mm_embeddings (\<lambda>h. dict_get (cached c2) h \<noteq> None) ?fs computed (new_tokens s) 0
      = Inr (needed_slices computed (new_tokens s) (case get_mm_features_in_window ?fs computed (computed + new_tokens s) of
               (lo, hi) \<Rightarrow> drop lo (take hi ?fs)))" by blast
  then show ?thesis using run s(3,4) paid c2(1,2) by (intro exI conjI)
qed


theorem encoder_plan_safe_witness:
  "\<exists>inputs n' budget' external c1 c2.
    try_schedule_encoder_inputs \<lparr>is_encoder_decoder = False, use_eagle = False, no_chunked_mm_input = False, ec_connector = None\<rparr>
      demo_r 0 8 9 0 (CacheManager demo_cache) = Inr ((inputs, n', budget', external), CacheManager c1)
    \<and> n' \<le> 8 \<and> 0 \<le> budget' \<and> allocate_planned demo_r inputs external (CacheManager c1) = Inr (CacheManager c2)"
proof -
  have ok: "features_ok (mm_features demo_r)" by (simp add: features_ok_def demo_defs)
  show ?thesis
    using encoder_plan_safe [OF demo_cache_reachable _ demo_sized ok, of
        "\<lparr>is_encoder_decoder = False, use_eagle = False, no_chunked_mm_input = False, ec_connector = None\<rparr>" 0 8 9 0]
    by (auto simp: demo_request_def)
qed

text \<open>
  A placeholder of five tokens from position 10 on whose first token has no embedding, and a step that
  runs positions 0 to 10.
\<close>

definition marked_request :: request where
  "marked_request = demo_request ''r''
     [\<lparr>mm_identifier = ''img'', mm_position = \<lparr>pr_offset = 10, pr_length = 5, is_embed = Some [False, True, True, True, True]\<rparr>\<rparr>]"

text \<open>With a drafter that looks one token ahead, the scheduler may leave out an input that the
  drafter then reads: when a step ends right after the first token of a placeholder and that token has
  no embedding, the input is not scheduled, the target model reads nothing, and the drafter's gather,
  shifted by one, raises the cache-miss error, although the look-ahead is meant to be covered.\<close>

lemma lookahead_misses_unscheduled_input:
  "try_schedule_encoder_inputs \<lparr>is_encoder_decoder = False, use_eagle = True, no_chunked_mm_input = False, ec_connector = None\<rparr>
     marked_request 0 11 8 1 (CacheManager (encoder_init 8)) = Inr (([], 11, 8, []), CacheManager (encoder_init 8))
   \<and> gather_mm_embeddings (\<lambda>h. dict_get (cached (encoder_init 8)) h \<noteq> None) (mm_features marked_request) 0 11 0 = Inr []
   \<and> gather_mm_embeddings (\<lambda>h. dict_get (cached (encoder_init 8)) h \<noteq> None) (mm_features marked_request) 0 11 1 = Inl RuntimeError"
proof -
  have win: "get_mm_features_in_window (mm_features marked_request) a b = (0, 1)" if "a < 15" "10 < b" for a b
    using that by (simp add: get_mm_features_in_window_def bisect_left_def bisect_left_from.simps marked_request_def demo_request_def)
  show ?thesis
    by (simp add: try_schedule_encoder_inputs_def gather_mm_embeddings_def win,
        simp add: marked_request_def demo_request_def encoder_init_def has_encoder_inputs_def num_encoder_inputs_def
          schedule_input_def py_index_def check_and_update_cache_def can_allocate_def get_num_encoder_embeds_def get_num_embeds_def
          embeds_cumsum_def get_embeds_indices_in_range_def Let_def)
qed

section \<open>Encoder-decoder models\<close>

definition total_embeds :: "request \<Rightarrow> int" where
  "total_embeds r = (\<Sum>f\<leftarrow>mm_features r. get_num_embeds (mm_position f))"

abbreviation input_embeds :: "request \<Rightarrow> int \<Rightarrow> int" where
  "input_embeds r i \<equiv> get_num_embeds (mm_position (mm_features r ! nat i))"

lemma encdec_free_all:
  assumes cfg: "is_encoder_decoder cfg" and run: "0 < num_computed_tokens r"
    and is_in: "\<And>i. i \<in> set is \<Longrightarrow> 0 \<le> i \<and> i < int (length (mm_features r))"
  shows "res_fold (free_processed_input cfg r ph) is (EncDecManager c)
    = Inr (EncDecManager (c\<lparr>ed_num_free_slots := ed_num_free_slots c + (\<Sum>i\<leftarrow>is. input_embeds r i)\<rparr>))"
  using is_in
proof (induction "is" arbitrary: c)
  case (Cons i "is")
  have i: "0 \<le> i" "i < int (length (mm_features r))" "nat i < length (mm_features r)" using Cons.prems [of i] by auto
  then have "free_processed_input cfg r ph i (EncDecManager c)
      = Inr (EncDecManager (c\<lparr>ed_num_free_slots := ed_num_free_slots c + input_embeds r i\<rparr>))"
    using cfg run by (simp add: free_processed_input_def ed_free_encoder_input_def get_num_encoder_embeds_def py_index_def)
  then show ?case using Cons by (simp add: add.assoc)
qed simp

lemma sum_over_inputs:
  assumes "distinct xs" and "set xs = int ` {0..<length (mm_features r)}"
  shows "(\<Sum>i\<leftarrow>xs. input_embeds r i) = total_embeds r"
proof -
  have "(\<Sum>i\<leftarrow>xs. input_embeds r i) = (\<Sum>i\<in>int ` {0..<length (mm_features r)}. input_embeds r i)"
    using assms by (simp add: sum_list_distinct_conv_sum_set)
  also have "\<dots> = (\<Sum>i = 0..<length (mm_features r). get_num_embeds (mm_position (mm_features r ! i)))"
    by (simp add: sum.reindex)
  also have "\<dots> = total_embeds r" unfolding total_embeds_def by (simp add: sum_list_sum_nth)
  finally show ?thesis .
qed

lemma encdec_allocate_all:
  assumes "\<And>i. i \<in> set is \<Longrightarrow> 0 \<le> i \<and> i < int (length (mm_features r))"
  shows "\<exists>c'. res_fold (manager_allocate r) is (EncDecManager c) = Inr (EncDecManager c') \<and> ed_cache_size c' = ed_cache_size c
    \<and> ed_num_free_slots c' = ed_num_free_slots c - (\<Sum>i\<leftarrow>is. input_embeds r i)"
  using assms
proof (induction "is" arbitrary: c)
  case (Cons i "is")
  have i: "0 \<le> i" "i < int (length (mm_features r))" "nat i < length (mm_features r)" using Cons.prems [of i] by auto
  then obtain c1 where c1: "manager_allocate r i (EncDecManager c) = Inr (EncDecManager c1)" "ed_cache_size c1 = ed_cache_size c"
      "ed_num_free_slots c1 = ed_num_free_slots c - input_embeds r i"
    by (simp add: ed_allocate_def get_num_encoder_embeds_def py_index_def)
  obtain c' where "res_fold (manager_allocate r) is (EncDecManager c1) = Inr (EncDecManager c')" "ed_cache_size c' = ed_cache_size c1"
      "ed_num_free_slots c' = ed_num_free_slots c1 - (\<Sum>i\<leftarrow>is. input_embeds r i)"
    using Cons.IH [of c1] Cons.prems by auto
  then show ?case using c1 by simp
qed simp

text \<open>C35: For an encoder-decoder model the scheduler returns the slots of a request's inputs on every step
  after the first, not once: with a fresh manager of capacity \<open>n\<close>, after the inputs are allocated and
  \<open>k + 1\<close> steps have run, the manager counts \<open>n\<close> free slots and \<open>k\<close> times the size of the inputs more.
  From the second step on it offers more slots than the cache has.\<close>

theorem encdec_slots_exceed_capacity:
  assumes cfg: "is_encoder_decoder cfg" and run: "0 < num_computed_tokens r"
    and order: "\<And>S. finite S \<Longrightarrow> distinct (iter_order S) \<and> set (iter_order S) = S"
  shows "\<exists>m c. res_fold (manager_allocate r) (map int [0..<length (mm_features r)]) (create_encoder_manager True n) = Inr m
    \<and> res_fold (\<lambda>_. free_encoder_inputs cfg iter_order r ph) (replicate (Suc k) ()) m = Inr (EncDecManager c)
    \<and> ed_cache_size c = n \<and> ed_num_free_slots c = n + int k * total_embeds r"
proof -
  let ?ids = "map int [0..<length (mm_features r)]"
  let ?xs = "iter_order (set ?ids)"
  have xs: "distinct ?xs" "set ?xs = int ` {0..<length (mm_features r)}" using order [of "set ?ids"] by simp_all
  have ids: "0 \<le> i \<and> i < int (length (mm_features r))" if "i \<in> set ?ids" for i using that by auto
  obtain m where m: "res_fold (manager_allocate r) ?ids (EncDecManager (ed_init n)) = Inr (EncDecManager m)" "ed_cache_size m = n"
      "ed_num_free_slots m = n - total_embeds r"
    using encdec_allocate_all [of ?ids r "ed_init n", OF ids] sum_over_inputs [of ?ids r] by (auto simp: ed_init_def distinct_map)
  have xs_in: "0 \<le> i \<and> i < int (length (mm_features r))" if "i \<in> set ?xs" for i using that xs(2) by auto
  have round: "free_encoder_inputs cfg iter_order r ph (EncDecManager c)
      = Inr (EncDecManager (c\<lparr>ed_num_free_slots := ed_num_free_slots c + total_embeds r\<rparr>))" for c
    using encdec_free_all [of cfg r ?xs ph c, OF cfg run xs_in] sum_over_inputs [OF xs]
    by (simp add: free_encoder_inputs_def ed_get_cached_input_ids_def)
  have "res_fold (\<lambda>_. free_encoder_inputs cfg iter_order r ph) (replicate j ()) (EncDecManager c)
      = Inr (EncDecManager (c\<lparr>ed_num_free_slots := ed_num_free_slots c + int j * total_embeds r\<rparr>))" for j c
    by (induction j arbitrary: c) (simp_all add: round algebra_simps)
  from this [of "Suc k" m] m show ?thesis by (simp add: create_encoder_manager_def algebra_simps)
qed

theorem encdec_slots_exceed_capacity_witness:
  "\<exists>m c. res_fold (manager_allocate (demo_r\<lparr>num_computed_tokens := 1\<rparr>)) (map int [0..<2]) (create_encoder_manager True 10) = Inr m
    \<and> res_fold (\<lambda>_. free_encoder_inputs \<lparr>is_encoder_decoder = True, use_eagle = False, no_chunked_mm_input = False, ec_connector = None\<rparr>
         sorted_list_of_set (demo_r\<lparr>num_computed_tokens := 1\<rparr>) 0) (replicate 2 ()) m = Inr (EncDecManager c)
    \<and> ed_cache_size c = 10 \<and> ed_num_free_slots c = 18"
proof -
  let ?cfg = "\<lparr>is_encoder_decoder = True, use_eagle = False, no_chunked_mm_input = False, ec_connector = None\<rparr>"
  let ?r = "demo_r\<lparr>num_computed_tokens := 1\<rparr>"
  have "length (mm_features ?r) = 2" "total_embeds ?r = 8" by (simp_all add: total_embeds_def demo_defs)
  then show ?thesis using encdec_slots_exceed_capacity [of ?cfg ?r sorted_list_of_set 10 0 1]
    by (simp add: numeral_2_eq_2 del: replicate_Suc)
qed

end
