(* ===== verification/KvManager.thy ===== *)
theory KvManager
  imports BlockPoolSpec KvSpec
begin

text \<open>
  The managers of one KV cache group (\<^verbatim>\<open>vllm/v1/core/single_type_kv_cache_manager.py\<close>): the blocks of
  every request, what they need, and the operations that take blocks from the pool and give them back,
  for full, reference-sliding-window, sliding-window, chunked-local and cross attention. The pool is
  passed beside the manager that shares it. \<^verbatim>\<open>req_to_blocks\<close> is a \<^verbatim>\<open>defaultdict(list)\<close>: reading an absent
  request enters the empty list.
\<close>

section \<open>State\<close>

datatype attention =
    FullAttention
  | RSWA int
  | SlidingWindow int
  | ChunkedLocal int
  | CrossAttention

record kv_manager =
  attention :: attention
  m_block_size :: int
  scheduler_block_size :: int
  m_enable_caching :: bool
  max_admission_blocks_per_request :: "int option"
  zeroes_new_blocks :: bool
  kv_cache_group_id :: int
  m_use_eagle :: bool
  new_block_ids :: "int list"
  req_to_blocks :: "(string, block_ref list) dict"
  num_cached_block :: "(string, int) dict"

text \<open>
  \<^verbatim>\<open>get_manager_for_kv_cache_spec\<close> and the constructors. A specification without a registered manager
  fails the assertion; the attention-sink manager does not take the keyword \<^verbatim>\<open>scheduler_block_size\<close> that
  it is given. \<open>None\<close> stands for the Mamba manager, which is not modelled.
\<close>

fun attention_of :: "kv_cache_spec \<Rightarrow> attention result option" where
  "attention_of (FullAttentionSpec s) = Some (Inr FullAttention)"
| "attention_of (TQFullAttentionSpec s) = Some (Inr FullAttention)"
| "attention_of (TMHFullAttentionSpec s) = Some (Inr FullAttention)"
| "attention_of (MLAAttentionSpec s) = Some (Inr FullAttention)"
| "attention_of (HiddenStateCacheSpec s) = Some (Inr FullAttention)"
| "attention_of (RSWASpec s) = Some (Inr (RSWA (rswa_window s)))"
| "attention_of (SinkFullAttentionSpec s) = Some (Inl TypeError)"
| "attention_of (ChunkedLocalAttentionSpec s) = Some (Inr (ChunkedLocal (local_chunk_size s)))"
| "attention_of (SlidingWindowSpec s) = Some (Inr (SlidingWindow (window_size s)))"
| "attention_of (SlidingWindowMLASpec s) = Some (Inr (SlidingWindow (window_size s)))"
| "attention_of (MambaSpec s) = None"
| "attention_of (EncoderOnlyAttentionSpec s) = Some (Inl AssertionError)"
| "attention_of (CrossAttentionSpec s) = Some (Inr CrossAttention)"
| "attention_of (UniformTypeKVCacheSpecs n ss) = Some (Inl AssertionError)"

fun admission_cap :: "kv_cache_spec \<Rightarrow> int \<Rightarrow> int \<Rightarrow> int option result" where
  "admission_cap (SlidingWindowSpec s) batched model_len = res_bind (window_max_admission_blocks s batched model_len) (\<lambda>n. Inr (Some n))"
| "admission_cap (SlidingWindowMLASpec s) batched model_len = res_bind (window_max_admission_blocks s batched model_len) (\<lambda>n. Inr (Some n))"
| "admission_cap (ChunkedLocalAttentionSpec s) batched model_len = res_bind (chunked_max_admission_blocks s batched model_len) (\<lambda>n. Inr (Some n))"
| "admission_cap _ batched model_len = Inr None"

fun zeroing_spec :: "kv_cache_spec \<Rightarrow> bool" where
  "zeroing_spec (FullAttentionSpec s) = True"
| "zeroing_spec (TMHFullAttentionSpec s) = True"
| "zeroing_spec (TQFullAttentionSpec s) = True"
| "zeroing_spec (MLAAttentionSpec s) = True"
| "zeroing_spec (HiddenStateCacheSpec s) = True"
| "zeroing_spec _ = False"

definition create_manager ::
  "kv_cache_spec \<Rightarrow> int \<Rightarrow> int \<Rightarrow> bool \<Rightarrow> int \<Rightarrow> int \<Rightarrow> int \<Rightarrow> int \<Rightarrow> kv_manager result option" where
  "create_manager spec batched model_len caching gid sched_bs dcp pcp =
     map_option (\<lambda>kind. res_bind (admission_cap spec batched model_len) (\<lambda>cap. res_bind kind (\<lambda>a.
       Inr \<lparr>attention = a,
            m_block_size = (if dcp * pcp > 1 then spec_block_size spec * (dcp * pcp) else spec_block_size spec),
            scheduler_block_size = sched_bs, m_enable_caching = caching, max_admission_blocks_per_request = cap,
            zeroes_new_blocks = zeroing_spec spec, kv_cache_group_id = gid, m_use_eagle = False,
            new_block_ids = [], req_to_blocks = [], num_cached_block = []\<rparr>))) (attention_of spec)"

definition table_of :: "string \<Rightarrow> kv_manager \<Rightarrow> block_ref list" where
  "table_of rid m = (case dict_get (req_to_blocks m) rid of None \<Rightarrow> [] | Some t \<Rightarrow> t)"

definition set_table :: "string \<Rightarrow> block_ref list \<Rightarrow> kv_manager \<Rightarrow> kv_manager" where
  "set_table rid t m = m\<lparr>req_to_blocks := dict_set rid t (req_to_blocks m)\<rparr>"

text \<open>Reading \<^verbatim>\<open>self.req_to_blocks[request_id]\<close>.\<close>

definition enter_table :: "string \<Rightarrow> kv_manager \<Rightarrow> kv_manager" where
  "enter_table rid m = set_table rid (table_of rid m) m"

section \<open>What a request needs\<close>

definition get_num_skipped_tokens :: "attention \<Rightarrow> int \<Rightarrow> int result" where
  "get_num_skipped_tokens a n =
     (case a of
        SlidingWindow w \<Rightarrow> Inr (max 0 (n - w + 1))
      | ChunkedLocal c \<Rightarrow> res_bind (py_div n c) (\<lambda>k. Inr (k * c))
      | _ \<Rightarrow> Inr 0)"

definition get_num_evictable_blocks :: "block_pool \<Rightarrow> block_ref list \<Rightarrow> int" where
  "get_num_evictable_blocks p bs = int (length (filter (\<lambda>b. ref_cnt (blk p b) = 0 \<and> \<not> is_null (blk p b)) bs))"

definition get_num_blocks_to_allocate ::
  "string \<Rightarrow> int \<Rightarrow> block_ref list \<Rightarrow> int \<Rightarrow> bool \<Rightarrow> kv_manager \<Rightarrow> block_pool \<Rightarrow> int result" where
  "get_num_blocks_to_allocate rid n_tokens new_computed_blocks total_computed_tokens apply_admission_cap m p =
     res_bind (py_cdiv n_tokens (m_block_size m)) (\<lambda>required.
     let num_required_blocks =
           (case max_admission_blocks_per_request m of
              Some cap \<Rightarrow> if apply_admission_cap then min required cap else required
            | None \<Rightarrow> required);
         num_req_blocks = int (length (table_of rid m))
     in
     if dict_get (num_cached_block m) rid \<noteq> None
     then res_bind (res_guard (new_computed_blocks = []) AssertionError) (\<lambda>_.
            Inr (max (num_required_blocks - num_req_blocks) 0))
     else
       res_bind (get_num_skipped_tokens (attention m) total_computed_tokens) (\<lambda>num_skipped_tokens.
       res_bind (py_div num_skipped_tokens (m_block_size m)) (\<lambda>num_skipped_blocks.
       let num_local_computed_blocks = int (length new_computed_blocks) + num_req_blocks;
           num_new_blocks = max (num_required_blocks - max num_skipped_blocks num_local_computed_blocks) 0;
           num_skipped_new_computed_blocks = max 0 (num_skipped_blocks - num_req_blocks)
       in Inr (num_new_blocks
               + get_num_evictable_blocks p (drop (nat num_skipped_new_computed_blocks) new_computed_blocks)))))"

section \<open>Taking blocks\<close>

definition add_local_computed_blocks ::
  "string \<Rightarrow> block_ref list \<Rightarrow> int \<Rightarrow> int \<Rightarrow> kv_manager \<Rightarrow> block_pool \<Rightarrow> (kv_manager \<times> block_pool) result" where
  "add_local_computed_blocks rid new_computed_blocks num_local num_external m p =
     (if attention m = CrossAttention
      then res_bind (res_guard (new_computed_blocks = []) AssertionError) (\<lambda>_. Inr (m, p))
      else
        res_bind (res_guard (table_of rid m = []) AssertionError) (\<lambda>_.
        res_bind (get_num_skipped_tokens (attention m) (num_local + num_external)) (\<lambda>num_skipped_tokens.
        res_bind (py_div num_skipped_tokens (m_block_size m)) (\<lambda>num_skipped_blocks.
        let kept = (if num_skipped_blocks > 0 then drop (nat num_skipped_blocks) new_computed_blocks
                    else new_computed_blocks)
        in res_bind (if m_enable_caching m then touch kept p
                     else res_bind (res_guard (kept = []) AssertionError) (\<lambda>_. Inr p)) (\<lambda>p1.
           let t = replicate (nat num_skipped_blocks) (null_block p) @ kept;
               m1 = set_table rid t m
           in Inr (m1\<lparr>num_cached_block := dict_set rid (int (length t)) (num_cached_block m1)\<rparr>, p1))))))"

text \<open>Both allocators extend the table with new blocks and note the ids to be zeroed.\<close>

definition extend_table :: "string \<Rightarrow> block_ref list \<Rightarrow> kv_manager \<Rightarrow> kv_manager" where
  "extend_table rid bs m =
     (let m1 = set_table rid (table_of rid m @ bs) m
      in if zeroes_new_blocks m then m1\<lparr>new_block_ids := new_block_ids m1 @ map block_id bs\<rparr> else m1)"

definition allocate_external_computed_blocks ::
  "string \<Rightarrow> int \<Rightarrow> int \<Rightarrow> kv_manager \<Rightarrow> block_pool \<Rightarrow> (kv_manager \<times> block_pool) result" where
  "allocate_external_computed_blocks rid num_local num_external m p =
     (if attention m = CrossAttention then Inr (m, p)
      else
        let total = num_local + num_external in
        res_bind (get_num_skipped_tokens (attention m) total) (\<lambda>num_skipped_tokens.
        let external = (if num_skipped_tokens > 0 then min (total - num_skipped_tokens) num_external else num_external)
        in if external \<le> 0 then Inr (m, p)
           else
             res_bind (py_cdiv total (m_block_size m)) (\<lambda>n.
             res_bind (get_new_blocks (n - int (length (table_of rid m))) p) (\<lambda>(bs, p1).
               Inr (extend_table rid bs m, p1)))))"

definition allocate_new_blocks ::
  "string \<Rightarrow> int \<Rightarrow> kv_manager \<Rightarrow> block_pool \<Rightarrow> (block_ref list \<times> kv_manager \<times> block_pool) result" where
  "allocate_new_blocks rid n_tokens m p =
     res_bind (py_cdiv n_tokens (m_block_size m)) (\<lambda>num_required_blocks.
     let num_new_blocks = num_required_blocks - int (length (table_of rid m)) in
     if num_new_blocks \<le> 0 then Inr ([], enter_table rid m, p)
     else res_bind (get_new_blocks num_new_blocks p) (\<lambda>(bs, p1). Inr (bs, extend_table rid bs m, p1)))"

definition take_new_block_ids :: "kv_manager \<Rightarrow> int list \<times> kv_manager" where
  "take_new_block_ids m = (new_block_ids m, m\<lparr>new_block_ids := []\<rparr>)"

section \<open>Caching\<close>

definition contiguous_blocks_for_hit :: "int \<Rightarrow> int \<Rightarrow> bool \<Rightarrow> int result" where
  "contiguous_blocks_for_hit window bs use_eagle =
     res_bind (py_cdiv (window - 1) bs) (\<lambda>n. Inr (if use_eagle then n + 1 else n))"

definition window_block_mask ::
  "int \<Rightarrow> int \<Rightarrow> int \<Rightarrow> int \<Rightarrow> int \<Rightarrow> bool \<Rightarrow> int option \<Rightarrow> int \<Rightarrow> bool list option result" where
  "window_block_mask start_block end_block align bs window use_eagle retention prompt_tokens =
     res_bind (if bs = 0 then Inl ZeroDivisionError else res_guard (align mod bs = 0) AssertionError) (\<lambda>_.
     res_bind (contiguous_blocks_for_hit window bs use_eagle) (\<lambda>need.
     let shift = (if use_eagle then 1 else 0);
         segment_tokens = (case retention of None \<Rightarrow> Some align | Some k \<Rightarrow> if k = 0 then None else Some k);
         ids = [start_block..end_block - 1]
     in
     res_bind (case segment_tokens of
                 None \<Rightarrow> Inr (Some (\<lambda>i. False))
               | Some st \<Rightarrow>
                   res_bind (py_div st bs) (\<lambda>per_segment.
                   if need \<ge> per_segment then Inr None
                   else if per_segment = 0 \<and> (\<exists>i\<in>set ids. i \<ge> shift) then Inl ZeroDivisionError
                   else Inr (Some (\<lambda>i. i \<ge> shift \<and> (i - shift) mod per_segment \<ge> per_segment - need)))) (\<lambda>tails.
     case tails of
       None \<Rightarrow> Inr None
     | Some tail \<Rightarrow>
         (case retention of
            None \<Rightarrow> Inr (Some (map tail ids))
          | Some _ \<Rightarrow>
              res_bind (py_div (prompt_tokens - 1) align) (\<lambda>k.
              let prompt_end_block = k * align div bs + shift
              in Inr (Some (map (\<lambda>i. tail i \<or> (prompt_end_block - need \<le> i \<and> i < prompt_end_block)) ids)))))))"

definition reachable_block_mask :: "int \<Rightarrow> int \<Rightarrow> int option \<Rightarrow> int \<Rightarrow> kv_manager \<Rightarrow> bool list option result" where
  "reachable_block_mask start_block end_block retention num_prompt m =
     (case attention m of
        SlidingWindow w \<Rightarrow> window_block_mask start_block end_block (scheduler_block_size m) (m_block_size m) w (m_use_eagle m) retention num_prompt
      | _ \<Rightarrow> Inr None)"

definition cache_blocks ::
  "(bytes \<Rightarrow> bytes) \<Rightarrow> request \<Rightarrow> int \<Rightarrow> int option \<Rightarrow> kv_manager \<Rightarrow> block_pool \<Rightarrow> (request \<times> kv_manager \<times> block_pool) result" where
  "cache_blocks sha256 r n_tokens retention m p =
     (if attention m = CrossAttention then Inl ValueError
      else
        let num_cached_blocks = (case dict_get (num_cached_block m) (request_id r) of None \<Rightarrow> 0 | Some n \<Rightarrow> n) in
        res_bind (py_div n_tokens (m_block_size m)) (\<lambda>num_full_blocks.
        if num_cached_blocks \<ge> num_full_blocks then Inr (r, m, p)
        else
          res_bind (reachable_block_mask num_cached_blocks num_full_blocks retention (num_prompt_tokens r) m) (\<lambda>mask.
          let m1 = enter_table (request_id r) m in
          res_bind (cache_full_blocks sha256 r (table_of (request_id r) m1) num_cached_blocks num_full_blocks
                      (m_block_size m) (kv_cache_group_id m) mask p) (\<lambda>(r1, p1).
            Inr (r1, m1\<lparr>num_cached_block := dict_set (request_id r) num_full_blocks (num_cached_block m1)\<rparr>, p1)))))"

section \<open>Giving blocks back\<close>

definition pop_blocks_for_free :: "string \<Rightarrow> kv_manager \<Rightarrow> block_ref list \<times> kv_manager" where
  "pop_blocks_for_free rid m =
     (table_of rid m, m\<lparr>req_to_blocks := dict_pop rid (req_to_blocks m), num_cached_block := dict_pop rid (num_cached_block m)\<rparr>)"

definition manager_free :: "string \<Rightarrow> kv_manager \<Rightarrow> block_pool \<Rightarrow> (kv_manager \<times> block_pool) result" where
  "manager_free rid m p =
     (let (bs, m1) = pop_blocks_for_free rid m in res_bind (free_blocks (rev bs) p) (\<lambda>p1. Inr (m1, p1)))"

text \<open>The backward loop: the freed blocks, and the table in which they are null.\<close>

fun null_out :: "nat list \<Rightarrow> block_ref \<Rightarrow> block_ref list \<Rightarrow> block_ref list \<times> block_ref list" where
  "null_out [] nb t = ([], t)"
| "null_out (i # is) nb t =
     (if t ! i = nb then ([], t) else let (freed, t') = null_out is nb (t[i := nb]) in (t ! i # freed, t'))"

definition remove_blocks_in_range :: "string \<Rightarrow> int \<Rightarrow> int \<Rightarrow> kv_manager \<Rightarrow> block_pool \<Rightarrow> (kv_manager \<times> block_pool) result" where
  "remove_blocks_in_range rid first_block last_block m p =
     (if dict_get (req_to_blocks m) rid = None then Inr (m, p)
      else if first_block \<ge> last_block then Inr (m, p)
      else
        let t = table_of rid m;
            (freed, t') = null_out (rev [nat first_block..<nat (min last_block (int (length t)))]) (null_block p) t
        in res_bind (if freed \<noteq> [] then free_blocks freed p else Inr p) (\<lambda>p1. Inr (set_table rid t' m, p1)))"

definition remove_skipped_blocks :: "string \<Rightarrow> int \<Rightarrow> int option \<Rightarrow> kv_manager \<Rightarrow> block_pool \<Rightarrow> (kv_manager \<times> block_pool) result" where
  "remove_skipped_blocks rid total_computed_tokens prompt_tokens m p =
     (case (attention m, prompt_tokens) of
        (RSWA w, Some n) \<Rightarrow>
          res_bind (py_cdiv n (m_block_size m)) (\<lambda>first_gap_block.
          res_bind (py_div (max n (total_computed_tokens - w)) (m_block_size m)) (\<lambda>last_gap_block.
            remove_blocks_in_range rid first_gap_block last_gap_block m p))
      | _ \<Rightarrow>
          res_bind (get_num_skipped_tokens (attention m) total_computed_tokens) (\<lambda>num_skipped_tokens.
          if num_skipped_tokens \<le> 0 then Inr (m, p)
          else
            let m1 = enter_table rid m in
            res_bind (py_div num_skipped_tokens (m_block_size m)) (\<lambda>k.
              remove_blocks_in_range rid 0 (min k (int (length (table_of rid m1)))) m1 p)))"

fun count_common :: "block_pool \<Rightarrow> int \<Rightarrow> block_ref list \<Rightarrow> int" where
  "count_common p n [] = 0"
| "count_common p n (b # bs) = (if ref_cnt (blk p b) = n then 1 + count_common p n bs else 0)"

definition get_num_common_prefix_blocks :: "string \<Rightarrow> kv_manager \<Rightarrow> block_pool \<Rightarrow> int \<times> kv_manager" where
  "get_num_common_prefix_blocks rid m p =
     (case attention m of
        FullAttention \<Rightarrow> (let m1 = enter_table rid m in (count_common p (int (length (req_to_blocks m1))) (table_of rid m1), m1))
      | RSWA _ \<Rightarrow> (let m1 = enter_table rid m in (count_common p (int (length (req_to_blocks m1))) (table_of rid m1), m1))
      | _ \<Rightarrow> (0, m))"

end
