(* ===== verification/KvHits.thy ===== *)
theory KvHits
  imports KvManager
begin

text \<open>
  The prefix-cache lookup of each attention type (\<^verbatim>\<open>find_longest_cache_hit\<close> in
  \<^verbatim>\<open>vllm/v1/core/single_type_kv_cache_manager.py\<close>). Groups with one specification are looked up together:
  the loops collect one row of blocks per hash, the result is one list per group.
\<close>

section \<open>Rows and columns\<close>

definition columns :: "int list \<Rightarrow> block_ref list list \<Rightarrow> block_ref list list" where
  "columns gids rows = map (\<lambda>k. map (\<lambda>row. row ! k) rows) [0..<length gids]"

text \<open>A row of cached blocks; the empty row is falsy like a miss.\<close>

definition cached_row :: "block_pool \<Rightarrow> int list \<Rightarrow> bytes \<Rightarrow> block_ref list option result" where
  "cached_row p gids h =
     res_bind (get_cached_block p h gids) (\<lambda>found. Inr (if found = Some [] then None else found))"

text \<open>\<^verbatim>\<open>while block_size != alignment_tokens and len * block_size % alignment_tokens != 0: pop\<close>.\<close>

function align_rows :: "int \<Rightarrow> int \<Rightarrow> 'a list \<Rightarrow> 'a list" where
  "align_rows bs align rows =
     (if rows \<noteq> [] \<and> bs \<noteq> align \<and> int (length rows) * bs mod align \<noteq> 0 then align_rows bs align (butlast rows) else rows)"
  by pat_completeness auto
termination
  by (relation "measure (\<lambda>(_, _, rows). length rows)") auto

declare align_rows.simps [simp del]

definition aligned_rows :: "int \<Rightarrow> int \<Rightarrow> 'a list \<Rightarrow> 'a list result" where
  "aligned_rows bs align rows =
     (if bs \<noteq> align \<and> align = 0 then Inl ZeroDivisionError else Inr (align_rows bs align rows))"

section \<open>Full attention\<close>

fun full_hit_rows :: "block_pool \<Rightarrow> int list \<Rightarrow> bytes list \<Rightarrow> block_ref list list result" where
  "full_hit_rows p gids [] = Inr []"
| "full_hit_rows p gids (h # hs) =
     res_bind (cached_row p gids h) (\<lambda>found.
     case found of
       None \<Rightarrow> Inr []
     | Some row \<Rightarrow> res_bind (full_hit_rows p gids hs) (\<lambda>rows. Inr (row # rows)))"

definition find_full_hit ::
  "bytes list \<Rightarrow> int \<Rightarrow> int list \<Rightarrow> block_pool \<Rightarrow> int \<Rightarrow> bool \<Rightarrow> int \<Rightarrow> block_ref list list result" where
  "find_full_hit hashes max_length gids p bs drop_eagle align =
     res_bind (py_div max_length bs) (\<lambda>max_num_blocks.
     if max_num_blocks < 0 then Inl ValueError
     else
       res_bind (full_hit_rows p gids (take (nat max_num_blocks) hashes)) (\<lambda>rows.
       if gids = [] \<and> (drop_eagle \<or> bs \<noteq> align) then Inl IndexError
       else res_bind (aligned_rows bs align (if drop_eagle then butlast rows else rows)) (\<lambda>rows1.
         Inr (columns gids rows1))))"

section \<open>Sliding window\<close>

text \<open>
  The scan from right to left: \<open>i\<close> hashes are left, \<open>contiguous\<close> blocks match to the right of them. The
  flag tells that a full window was found and the trailing rows are trimmed.
\<close>

fun window_scan ::
  "block_pool \<Rightarrow> int list \<Rightarrow> bytes list \<Rightarrow> int \<Rightarrow> int \<Rightarrow> bool \<Rightarrow> int \<Rightarrow> nat \<Rightarrow> int \<Rightarrow> block_ref list list
    \<Rightarrow> (bool \<times> int \<times> block_ref list list) result" where
  "window_scan p gids hashes bs align drop_eagle need 0 contiguous rows = Inr (False, contiguous, rows)"
| "window_scan p gids hashes bs align drop_eagle need (Suc i) contiguous rows =
     res_bind (py_index hashes (int i)) (\<lambda>h.
     res_bind (cached_row p gids h) (\<lambda>found.
     case found of
       None \<Rightarrow> window_scan p gids hashes bs align drop_eagle need i 0 rows
     | Some row \<Rightarrow>
         res_bind (if contiguous = 0 \<and> bs \<noteq> align
                   then (if align = 0 then Inl ZeroDivisionError
                         else Inr ((if drop_eagle then int i else int i + 1) * bs mod align \<noteq> 0))
                   else Inr False) (\<lambda>unaligned.
         if unaligned then window_scan p gids hashes bs align drop_eagle need i contiguous rows
         else if contiguous + 1 \<ge> need
         then Inr (True, contiguous + 1, take (i + nat (contiguous + 1)) (rows[i := row]))
         else window_scan p gids hashes bs align drop_eagle need i (contiguous + 1) (rows[i := row]))))"

definition find_window_hit ::
  "bytes list \<Rightarrow> int \<Rightarrow> int list \<Rightarrow> block_pool \<Rightarrow> int \<Rightarrow> int \<Rightarrow> bool \<Rightarrow> int \<Rightarrow> int \<Rightarrow> int \<Rightarrow> block_ref list list result" where
  "find_window_hit hashes max_length gids p window bs drop_eagle align dcp pcp =
     res_bind (res_guard (dcp = 1) AssertionError) (\<lambda>_.
     res_bind (res_guard (pcp = 1) AssertionError) (\<lambda>_.
     res_bind (contiguous_blocks_for_hit window bs drop_eagle) (\<lambda>need.
     res_bind (py_div max_length bs) (\<lambda>max_num_blocks.
     res_bind (window_scan p gids hashes bs align drop_eagle need (nat max_num_blocks) 0
                 (replicate (nat max_num_blocks) (replicate (length gids) (null_block p)))) (\<lambda>(match_found, contiguous, rows).
     if gids = [] \<and> (\<not> match_found \<and> bs \<noteq> align \<or> drop_eagle) then Inl IndexError
     else
       res_bind (if match_found then Inr rows else aligned_rows bs align (take (nat contiguous) rows)) (\<lambda>rows1.
       res_bind (if drop_eagle \<and> rows1 \<noteq> [] then aligned_rows bs align (butlast rows1) else Inr rows1) (\<lambda>rows2.
         Inr (columns gids rows2))))))))"

section \<open>Chunked local attention\<close>

fun chunk_hit_rows :: "block_pool \<Rightarrow> int list \<Rightarrow> bytes list \<Rightarrow> int list \<Rightarrow> block_ref list list result" where
  "chunk_hit_rows p gids hashes [] = Inr []"
| "chunk_hit_rows p gids hashes (i # is) =
     res_bind (py_index hashes i) (\<lambda>h.
     res_bind (cached_row p gids h) (\<lambda>found.
     case found of
       None \<Rightarrow> Inr []
     | Some row \<Rightarrow> res_bind (chunk_hit_rows p gids hashes is) (\<lambda>rows. Inr (row # rows))))"

definition find_chunked_hit ::
  "bytes list \<Rightarrow> int \<Rightarrow> int list \<Rightarrow> block_pool \<Rightarrow> int \<Rightarrow> int \<Rightarrow> bool \<Rightarrow> int \<Rightarrow> int \<Rightarrow> int \<Rightarrow> block_ref list list result" where
  "find_chunked_hit hashes max_length gids p chunk bs drop_eagle align dcp pcp =
     res_bind (res_guard (\<not> drop_eagle) AssertionError) (\<lambda>_.
     res_bind (res_guard (dcp = 1) AssertionError) (\<lambda>_.
     res_bind (res_guard (pcp = 1) AssertionError) (\<lambda>_.
     res_bind (res_guard (bs = align) AssertionError) (\<lambda>_.
     res_bind (py_div max_length bs) (\<lambda>max_num_blocks.
     res_bind (if max_length > 0 then res_bind (py_div max_length chunk) (\<lambda>k. Inr (k * chunk)) else Inr 0) (\<lambda>start_idx.
     let start_block = start_idx div bs in
     res_bind (chunk_hit_rows p gids hashes [start_block..max_num_blocks - 1]) (\<lambda>rows.
       Inr (columns gids (replicate (nat start_block) (replicate (length gids) (null_block p)) @ rows)))))))))"

section \<open>By attention type\<close>

definition find_longest_cache_hit ::
  "attention \<Rightarrow> bytes list \<Rightarrow> int \<Rightarrow> int list \<Rightarrow> block_pool \<Rightarrow> int \<Rightarrow> bool \<Rightarrow> int \<Rightarrow> int \<Rightarrow> int \<Rightarrow> block_ref list list result" where
  "find_longest_cache_hit a hashes max_length gids p bs drop_eagle align dcp pcp =
     (case a of
        SlidingWindow w \<Rightarrow> find_window_hit hashes max_length gids p w bs drop_eagle align dcp pcp
      | ChunkedLocal c \<Rightarrow> find_chunked_hit hashes max_length gids p c bs drop_eagle align dcp pcp
      | CrossAttention \<Rightarrow> Inl NotImplementedError
      | _ \<Rightarrow> find_full_hit hashes max_length gids p (if dcp * pcp > 1 then bs * (dcp * pcp) else bs) drop_eagle align)"

end
