(* ===== verification/KvCoordinator.thy ===== *)
theory KvCoordinator
  imports KvHits TmhSpec
begin

text \<open>
  The coordinators of the KV cache groups (\<^verbatim>\<open>vllm/v1/core/kv_cache_coordinator.py\<close>): one pool, one
  manager per group, and the three ways to look up a prefix: none, one group, several groups by an
  iteration to a fixed point.
\<close>

section \<open>State\<close>

record spec_group =
  sg_spec :: kv_cache_spec
  sg_attention :: attention
  sg_group_ids :: "int list"
  sg_use_eagle :: bool

datatype coordinator_kind =
    NoPrefixCache
  | Unitary int int int
  | Hybrid int int "spec_group list"

record kv_coordinator =
  c_pool :: block_pool
  managers :: "kv_manager list"
  c_kind :: coordinator_kind
  eagle_group_ids :: "int list"
  retention_interval :: "int option"
  num_uncached_common_prefix_tokens :: int

text \<open>The block size of the unitary coordinator: that of the specification, times the context-parallel ranks.\<close>

definition unitary_block_size :: "int \<Rightarrow> int \<Rightarrow> int \<Rightarrow> int" where
  "unitary_block_size bs dcp pcp = (let b = (if dcp > 1 then bs * dcp else bs) in if pcp > 1 then b * pcp else b)"

section \<open>Over the managers\<close>

text \<open>Every manager in turn with the entry of its group, the pool passed along.\<close>

fun each_manager ::
  "('a \<Rightarrow> kv_manager \<Rightarrow> block_pool \<Rightarrow> ('b \<times> kv_manager \<times> block_pool) result) \<Rightarrow> 'a list \<Rightarrow> kv_manager list \<Rightarrow> block_pool
    \<Rightarrow> ('b list \<times> kv_manager list \<times> block_pool) result" where
  "each_manager f as [] p = Inr ([], [], p)"
| "each_manager f [] (m # ms) p = Inl IndexError"
| "each_manager f (a # as) (m # ms) p =
     res_bind (f a m p) (\<lambda>(x, m1, p1).
     res_bind (each_manager f as ms p1) (\<lambda>(xs, ms1, p2). Inr (x # xs, m1 # ms1, p2)))"

definition with_managers ::
  "('a \<Rightarrow> kv_manager \<Rightarrow> block_pool \<Rightarrow> ('b \<times> kv_manager \<times> block_pool) result) \<Rightarrow> 'a list \<Rightarrow> kv_coordinator
    \<Rightarrow> ('b list \<times> kv_coordinator) result" where
  "with_managers f as c =
     res_bind (each_manager f as (managers c) (c_pool c)) (\<lambda>(xs, ms, p). Inr (xs, c\<lparr>managers := ms, c_pool := p\<rparr>))"

abbreviation no_result :: "('m \<times> 'p) result \<Rightarrow> (unit \<times> 'm \<times> 'p) result" where
  "no_result r \<equiv> res_bind r (\<lambda>(m, p). Inr ((), m, p))"

definition per_group :: "kv_coordinator \<Rightarrow> unit list" where
  "per_group c = replicate (length (managers c)) ()"

definition coord_get_num_blocks_to_allocate ::
  "string \<Rightarrow> int \<Rightarrow> block_ref list list \<Rightarrow> int \<Rightarrow> int \<Rightarrow> bool \<Rightarrow> kv_coordinator \<Rightarrow> int result" where
  "coord_get_num_blocks_to_allocate rid n_tokens new_computed num_encoder_tokens total_computed cap c =
     res_bind (each_manager (\<lambda>blocks m p.
         res_bind (if attention m = CrossAttention
                   then get_num_blocks_to_allocate rid num_encoder_tokens [] 0 cap m p
                   else get_num_blocks_to_allocate rid n_tokens blocks total_computed cap m p) (\<lambda>n. Inr (n, m, p)))
       new_computed (managers c) (c_pool c)) (\<lambda>(ns, _, _). Inr (sum_list ns))"

definition coord_allocate_new_computed_blocks ::
  "string \<Rightarrow> block_ref list list \<Rightarrow> int \<Rightarrow> int \<Rightarrow> kv_coordinator \<Rightarrow> kv_coordinator result" where
  "coord_allocate_new_computed_blocks rid new_computed num_local num_external c =
     (if list_ex (\<lambda>m. dict_get (num_cached_block m) rid \<noteq> None) (managers c)
      then res_bind (res_guard (list_all (\<lambda>blocks. blocks = []) new_computed) AssertionError) (\<lambda>_. Inr c)
      else
        res_bind (with_managers (\<lambda>blocks m p. no_result (add_local_computed_blocks rid blocks num_local num_external m p))
                    new_computed c) (\<lambda>(_, c1).
        if num_external > 0
        then res_bind (with_managers (\<lambda>_ m p. no_result (allocate_external_computed_blocks rid num_local num_external m p))
                         (per_group c1) c1) (\<lambda>(_, c2). Inr c2)
        else Inr c1))"

definition coord_allocate_new_blocks ::
  "string \<Rightarrow> int \<Rightarrow> int \<Rightarrow> kv_coordinator \<Rightarrow> (block_ref list list \<times> kv_coordinator) result" where
  "coord_allocate_new_blocks rid n_tokens num_encoder_tokens c =
     with_managers (\<lambda>_ m. allocate_new_blocks rid (if attention m = CrossAttention then num_encoder_tokens else n_tokens) m)
       (per_group c) c"

text \<open>Caching passes the request along, whose memo of embedding hashes may grow.\<close>

fun cache_each ::
  "(bytes \<Rightarrow> bytes) \<Rightarrow> (kv_manager \<Rightarrow> int) \<Rightarrow> int option \<Rightarrow> request \<Rightarrow> kv_manager list \<Rightarrow> block_pool
    \<Rightarrow> (request \<times> kv_manager list \<times> block_pool) result" where
  "cache_each sha256 toks retention r [] p = Inr (r, [], p)"
| "cache_each sha256 toks retention r (m # ms) p =
     res_bind (cache_blocks sha256 r (toks m) retention m p) (\<lambda>(r1, m1, p1).
     res_bind (cache_each sha256 toks retention r1 ms p1) (\<lambda>(r2, ms1, p2). Inr (r2, m1 # ms1, p2)))"

definition tokens_to_cache :: "coordinator_kind \<Rightarrow> int \<Rightarrow> (kv_manager \<Rightarrow> int) result" where
  "tokens_to_cache k num_computed =
     (case k of
        Hybrid hash_bs sched_bs groups \<Rightarrow>
          res_bind (py_div num_computed sched_bs) (\<lambda>q.
          let aligned = q * sched_bs
          in Inr (\<lambda>m. if m_use_eagle m \<and> aligned > 0 then min num_computed (aligned + m_block_size m) else aligned))
      | _ \<Rightarrow> Inr (\<lambda>_. num_computed))"

definition coord_cache_blocks :: "(bytes \<Rightarrow> bytes) \<Rightarrow> request \<Rightarrow> int \<Rightarrow> kv_coordinator \<Rightarrow> (request \<times> kv_coordinator) result" where
  "coord_cache_blocks sha256 r num_computed c =
     res_bind (tokens_to_cache (c_kind c) num_computed) (\<lambda>toks.
     res_bind (cache_each sha256 toks (retention_interval c) r (managers c) (c_pool c)) (\<lambda>(r1, ms, p).
       Inr (r1, c\<lparr>managers := ms, c_pool := p\<rparr>)))"

definition coord_free :: "string \<Rightarrow> kv_coordinator \<Rightarrow> kv_coordinator result" where
  "coord_free rid c =
     res_bind (with_managers (\<lambda>_ m p. no_result (manager_free rid m p)) (per_group c) c) (\<lambda>(_, c1). Inr c1)"

definition coord_pop_blocks_for_free :: "string \<Rightarrow> kv_coordinator \<Rightarrow> block_ref list \<times> kv_coordinator" where
  "coord_pop_blocks_for_free rid c =
     (concat (map (\<lambda>m. fst (pop_blocks_for_free rid m)) (managers c)),
      c\<lparr>managers := map (\<lambda>m. snd (pop_blocks_for_free rid m)) (managers c)\<rparr>)"

definition coord_remove_skipped_blocks :: "string \<Rightarrow> int \<Rightarrow> int option \<Rightarrow> kv_coordinator \<Rightarrow> kv_coordinator result" where
  "coord_remove_skipped_blocks rid total_computed prompt_tokens c =
     res_bind (with_managers (\<lambda>_ m p. no_result (remove_skipped_blocks rid total_computed prompt_tokens m p)) (per_group c) c)
       (\<lambda>(_, c1). Inr c1)"

definition coord_get_num_common_prefix_blocks :: "string \<Rightarrow> kv_coordinator \<Rightarrow> int list \<times> kv_coordinator" where
  "coord_get_num_common_prefix_blocks rid c =
     (if c_kind c = NoPrefixCache then (replicate (length (managers c)) 0, c)
      else (map (\<lambda>m. fst (get_num_common_prefix_blocks rid m (c_pool c))) (managers c),
            c\<lparr>managers := map (\<lambda>m. snd (get_num_common_prefix_blocks rid m (c_pool c))) (managers c)\<rparr>))"

definition coord_get_blocks :: "string \<Rightarrow> kv_coordinator \<Rightarrow> block_ref list list" where
  "coord_get_blocks rid c = map (table_of rid) (managers c)"

section \<open>Looking up a prefix in several groups\<close>

text \<open>The hashes at the block size of a group, as the sequence its lookup reads.\<close>

definition group_hashes :: "bytes list \<Rightarrow> int \<Rightarrow> int \<Rightarrow> bytes list result" where
  "group_hashes hashes hash_bs bs =
     (if bs = hash_bs then Inr hashes
      else res_bind (block_hash_list_init hashes hash_bs bs) (\<lambda>l. hash_list_from (CoarseHashes l) 0))"

record hybrid_state =
  curr_hit :: int
  longest_hit :: int
  hits :: "block_ref list option list"
  eagle_verified :: "nat list"

definition is_full_spec :: "kv_cache_spec \<Rightarrow> bool" where
  "is_full_spec s \<longleftrightarrow> full_fields s \<noteq> None"

definition set_hits :: "int list \<Rightarrow> block_ref list list \<Rightarrow> block_ref list option list \<Rightarrow> block_ref list option list" where
  "set_hits gids bss hs = fold (\<lambda>(g, bs) hs. hs[nat g := Some bs]) (zip gids bss) hs"

definition lookup_group ::
  "bytes list \<Rightarrow> int \<Rightarrow> int \<Rightarrow> int \<Rightarrow> block_pool \<Rightarrow> nat \<times> spec_group \<Rightarrow> hybrid_state \<Rightarrow> hybrid_state result" where
  "lookup_group hashes hash_bs sched_bs max_hit p ig st =
     (let (idx, g) = ig; bs = spec_block_size (sg_spec g); gids = sg_group_ids g in
      res_bind (py_index gids 0) (\<lambda>g0.
      res_bind (py_index (hits st) g0) (\<lambda>cached.
      if is_full_spec (sg_spec g) \<and> cached \<noteq> None
      then res_bind (py_div (curr_hit st) bs) (\<lambda>q. Inr (st\<lparr>curr_hit := q * bs\<rparr>))
      else
        let drop_eagle = (sg_use_eagle g \<and> idx \<notin> set (eagle_verified st));
            max_len = (if drop_eagle then min (curr_hit st + bs) max_hit else curr_hit st)
        in
        res_bind (group_hashes hashes hash_bs bs) (\<lambda>hs.
        res_bind (find_longest_cache_hit (sg_attention g) hs max_len gids p bs drop_eagle sched_bs 1 1) (\<lambda>found.
        res_bind (py_index found 0) (\<lambda>first.
        let new_hit = int (length first) * bs in
        Inr (st\<lparr>eagle_verified := (if drop_eagle then idx # eagle_verified st
                                  else if new_hit < curr_hit st then [] else eagle_verified st),
               curr_hit := new_hit, hits := set_hits gids found (hits st),
               longest_hit := max (longest_hit st) new_hit\<rparr>)))))))"

text \<open>The outer loop: every group accepts the candidate length or shortens it.\<close>

partial_function (option) hybrid_loop ::
  "bytes list \<Rightarrow> int \<Rightarrow> int \<Rightarrow> int \<Rightarrow> block_pool \<Rightarrow> spec_group list \<Rightarrow> bool \<Rightarrow> int \<Rightarrow> hybrid_state
    \<Rightarrow> (int \<times> hybrid_state) result option" where
  "hybrid_loop hashes hash_bs sched_bs max_hit p groups simple hit st =
     (case res_fold (lookup_group hashes hash_bs sched_bs max_hit p) (List.enumerate 0 groups) (st\<lparr>curr_hit := hit\<rparr>) of
        Inl e \<Rightarrow> Some (Inl e)
      | Inr st1 \<Rightarrow>
          if curr_hit st1 \<ge> hit then Some (Inr (hit, st1))
          else if simple then Some (Inr (curr_hit st1, st1))
          else hybrid_loop hashes hash_bs sched_bs max_hit p groups simple (curr_hit st1) st1)"

definition truncate_first :: "spec_group list \<Rightarrow> int \<Rightarrow> block_ref list option list \<Rightarrow> block_ref list option list result" where
  "truncate_first groups hit hs =
     res_bind (py_index groups 0) (\<lambda>g.
     if is_full_spec (sg_spec g)
     then res_bind (py_div hit (spec_block_size (sg_spec g))) (\<lambda>n.
       Inr (fold (\<lambda>gid hs. hs[nat gid := map_option (take (nat n)) (hs ! nat gid)]) (sg_group_ids g) hs))
     else Inr hs)"

definition hybrid_find ::
  "bytes list \<Rightarrow> int \<Rightarrow> int \<Rightarrow> int \<Rightarrow> nat \<Rightarrow> spec_group list \<Rightarrow> block_pool
    \<Rightarrow> (block_ref list list \<times> int \<times> int) result option" where
  "hybrid_find hashes max_hit hash_bs sched_bs num_groups groups p =
     (let simple = (length groups = 2 \<and> is_full_spec (sg_spec (groups ! 0)));
          st = \<lparr>curr_hit = max_hit, longest_hit = 0, hits = replicate num_groups None, eagle_verified = []\<rparr>
      in map_option (\<lambda>r. res_bind r (\<lambda>(hit, st1).
           res_bind (truncate_first groups hit (hits st1)) (\<lambda>hs.
             Inr (map (\<lambda>h. case h of None \<Rightarrow> [] | Some bs \<Rightarrow> bs) hs, hit, longest_hit st1 - hit))))
         (hybrid_loop hashes hash_bs sched_bs max_hit p groups simple max_hit st))"

definition coord_find_longest_cache_hit ::
  "bytes list \<Rightarrow> int \<Rightarrow> kv_coordinator \<Rightarrow> ((block_ref list list \<times> int) \<times> kv_coordinator) result option" where
  "coord_find_longest_cache_hit hashes max_hit c =
     (case c_kind c of
        NoPrefixCache \<Rightarrow> Some (Inr ((replicate (length (managers c)) [], 0), c))
      | Unitary bs dcp pcp \<Rightarrow>
          Some (res_bind (py_index (managers c) 0) (\<lambda>m.
            res_bind (find_longest_cache_hit (attention m) hashes max_hit [0] (c_pool c) bs
                        (0 \<in> set (eagle_group_ids c)) (unitary_block_size bs dcp pcp) dcp pcp) (\<lambda>found.
            res_bind (py_index found 0) (\<lambda>first. Inr ((found, int (length first) * unitary_block_size bs dcp pcp), c)))))
      | Hybrid hash_bs sched_bs groups \<Rightarrow>
          map_option (\<lambda>r. res_bind r (\<lambda>(found, hit, uncached).
              Inr ((found, hit), c\<lparr>num_uncached_common_prefix_tokens := uncached\<rparr>)))
            (hybrid_find hashes max_hit hash_bs sched_bs (length (managers c)) groups (c_pool c)))"

section \<open>Construction\<close>

definition validate_retention :: "int option \<Rightarrow> int \<Rightarrow> kv_cache_group list \<Rightarrow> unit result" where
  "validate_retention retention sched_bs groups =
     (case retention of
        None \<Rightarrow> Inr ()
      | Some k \<Rightarrow>
          if \<not> list_ex (\<lambda>g. isinstance (group_spec g) C_SlidingWindowSpec \<or> isinstance (group_spec g) C_MambaSpec) groups
          then Inl ValueError
          else if k < 0 then Inl ValueError
          else if sched_bs = 0 then Inl ZeroDivisionError
          else res_guard (k mod sched_bs = 0) ValueError)"


text \<open>The managers of the groups from \<open>i\<close> on; \<open>None\<close> when one of them is a Mamba group.\<close>

fun create_managers ::
  "int \<Rightarrow> kv_cache_group list \<Rightarrow> int \<Rightarrow> int \<Rightarrow> bool \<Rightarrow> int \<Rightarrow> int \<Rightarrow> int \<Rightarrow> kv_manager list result option" where
  "create_managers i [] batched model_len caching sched_bs dcp pcp = Some (Inr [])"
| "create_managers i (g # gs) batched model_len caching sched_bs dcp pcp =
     (case (create_manager (group_spec g) batched model_len caching i sched_bs dcp pcp,
            create_managers (i + 1) gs batched model_len caching sched_bs dcp pcp) of
        (Some m, Some ms) \<Rightarrow> Some (res_bind m (\<lambda>m. res_bind ms (\<lambda>ms. Inr (m # ms))))
      | _ \<Rightarrow> None)"

definition eagle_ids :: "bool \<Rightarrow> kv_cache_group list \<Rightarrow> int list" where
  "eagle_ids use_eagle groups =
     (let flagged = map (\<lambda>(i, _). int i) (filter (\<lambda>(_, g). is_eagle_group g) (List.enumerate 0 groups))
      in if use_eagle \<and> flagged = [] then map int [0..<length groups] else flagged)"

text \<open>
  \<^verbatim>\<open>verify_and_split_kv_cache_groups\<close>. The manager class is a function of the specification, so groups with
  the same specification have the same class.
\<close>

fun add_to_spec_groups :: "int \<Rightarrow> kv_cache_spec \<Rightarrow> attention \<Rightarrow> bool \<Rightarrow> spec_group list \<Rightarrow> spec_group list" where
  "add_to_spec_groups i spec a eagle [] = [\<lparr>sg_spec = spec, sg_attention = a, sg_group_ids = [i], sg_use_eagle = eagle\<rparr>]"
| "add_to_spec_groups i spec a eagle (g # gs) =
     (if sg_spec g = spec then g\<lparr>sg_group_ids := sg_group_ids g @ [i], sg_use_eagle := sg_use_eagle g \<or> eagle\<rparr> # gs
      else g # add_to_spec_groups i spec a eagle gs)"

definition split_kv_cache_groups :: "int list \<Rightarrow> kv_cache_group list \<Rightarrow> kv_manager list \<Rightarrow> (spec_group list \<times> kv_manager list) result" where
  "split_kv_cache_groups eagles groups ms =
     (let gs = fold (\<lambda>(i, g, m). add_to_spec_groups (int i) (group_spec g) (attention m) (int i \<in> set eagles))
                 (List.enumerate 0 (zip groups ms)) [];
          sorted_gs = filter (\<lambda>g. is_full_spec (sg_spec g)) gs @ filter (\<lambda>g. \<not> is_full_spec (sg_spec g)) gs;
          eagle_members = concat (map sg_group_ids (filter sg_use_eagle sorted_gs))
      in res_bind (res_guard (length gs > 1) AssertionError) (\<lambda>_.
         Inr (sorted_gs, map (\<lambda>(i, m). if int i \<in> set eagle_members then m\<lparr>m_use_eagle := True\<rparr> else m) (List.enumerate 0 ms))))"

definition finish_coordinator ::
  "kv_cache_group list \<Rightarrow> bool \<Rightarrow> int \<Rightarrow> int \<Rightarrow> int \<Rightarrow> int \<Rightarrow> kv_coordinator \<Rightarrow> kv_coordinator result" where
  "finish_coordinator groups caching hash_bs sched_bs dcp pcp c =
     (if \<not> caching then Inr c
      else if length groups = 1
      then
        let bs = spec_block_size (group_spec (groups ! 0)) in
        res_bind (res_guard (hash_bs = unitary_block_size bs dcp pcp) AssertionError) (\<lambda>_.
          Inr (c\<lparr>c_kind := Unitary bs dcp pcp,
                 managers := map (\<lambda>m. m\<lparr>m_use_eagle := 0 \<in> set (eagle_group_ids c)\<rparr>) (managers c)\<rparr>))
      else
        res_bind (res_guard (list_all (\<lambda>g. spec_block_size (group_spec g) mod hash_bs = 0) groups) AssertionError) (\<lambda>_.
        res_bind (res_guard (dcp = 1) AssertionError) (\<lambda>_.
        res_bind (res_guard (pcp = 1) AssertionError) (\<lambda>_.
        res_bind (split_kv_cache_groups (eagle_group_ids c) groups (managers c)) (\<lambda>(gs, ms).
          Inr (c\<lparr>c_kind := Hybrid hash_bs sched_bs gs, managers := ms\<rparr>))))))"

fun block_sizes_divide :: "int \<Rightarrow> kv_cache_group list \<Rightarrow> bool result" where
  "block_sizes_divide sched_bs [] = Inr True"
| "block_sizes_divide sched_bs (g # gs) =
     (if spec_block_size (group_spec g) = 0 then Inl ZeroDivisionError
      else if sched_bs mod spec_block_size (group_spec g) \<noteq> 0 then Inr False
      else block_sizes_divide sched_bs gs)"

definition get_kv_cache_coordinator ::
  "int \<Rightarrow> kv_cache_group list \<Rightarrow> int \<Rightarrow> int \<Rightarrow> bool \<Rightarrow> bool \<Rightarrow> bool \<Rightarrow> int \<Rightarrow> int \<Rightarrow> int \<Rightarrow> int \<Rightarrow> bool \<Rightarrow> int option
    \<Rightarrow> kv_coordinator result option" where
  "get_kv_cache_coordinator n_blocks groups batched model_len use_eagle caching events dcp pcp sched_bs hash_bs int_hashes retention =
     map_option (\<lambda>ms.
       if hash_bs = 0 then Inl ZeroDivisionError
       else
         res_bind (if sched_bs mod hash_bs = 0 then block_sizes_divide sched_bs groups else Inr False) (\<lambda>ok.
         res_bind (res_guard ok AssertionError) (\<lambda>_.
         res_bind (block_pool_init n_blocks caching hash_bs int_hashes events) (\<lambda>p.
         res_bind ms (\<lambda>ms.
         res_bind (validate_retention retention sched_bs groups) (\<lambda>_.
           finish_coordinator groups caching hash_bs sched_bs dcp pcp
             \<lparr>c_pool = p, managers = ms, c_kind = NoPrefixCache, eagle_group_ids = eagle_ids use_eagle groups,
              retention_interval = retention, num_uncached_common_prefix_tokens = 0\<rparr>))))))
       (create_managers 0 groups batched model_len caching sched_bs dcp pcp)"

end
