(* ===== verification/KvCacheManager.thy ===== *)
theory KvCacheManager
  imports KvCoordinator TmhPolicy
begin

text \<open>
  The KV cache manager (\<^verbatim>\<open>vllm/v1/core/kv_cache_manager.py\<close>), the interface of the scheduler to the KV
  cache: prefix lookup, allocation of slots, release, and the tiered-memory policy that follows the
  allocations. Logging and prefix-cache statistics are left out.
\<close>

section \<open>State\<close>

record kv_cache =
  k_max_model_len :: int
  k_enable_caching :: bool
  coordinator :: kv_coordinator
  k_policy :: tmh_policy
  watermark_blocks :: int

definition kv_cache_init ::
  "kv_cache_config \<Rightarrow> int \<Rightarrow> int \<Rightarrow> int \<Rightarrow> int option \<Rightarrow> bool \<Rightarrow> bool \<Rightarrow> bool \<Rightarrow> int \<Rightarrow> int \<Rightarrow> bool \<Rightarrow> int option \<Rightarrow> rat
    \<Rightarrow> kv_cache result option" where
  "kv_cache_init cfg model_len sched_bs hash_bs batched caching use_eagle events dcp pcp int_hashes retention watermark =
     map_option (\<lambda>c. res_bind c (\<lambda>c.
       res_bind (from_kv_cache_config cfg sched_bs) (\<lambda>pol.
       res_bind (res_guard (watermark \<ge> 0) AssertionError) (\<lambda>_.
         Inr \<lparr>k_max_model_len = model_len, k_enable_caching = caching, coordinator = c, k_policy = pol,
              watermark_blocks = \<lfloor>fl (watermark * of_int (cfg_num_blocks cfg))\<rfloor>\<rparr>))))
       (get_kv_cache_coordinator (cfg_num_blocks cfg) (kv_cache_groups cfg)
          (case batched of None \<Rightarrow> model_len | Some n \<Rightarrow> n) model_len use_eagle caching events dcp pcp sched_bs hash_bs int_hashes retention)"

abbreviation pool :: "kv_cache \<Rightarrow> block_pool" where
  "pool k \<equiv> c_pool (coordinator k)"

section \<open>Prefix lookup\<close>

definition no_blocks :: "kv_cache \<Rightarrow> block_ref list list" where
  "no_blocks k = replicate (length (managers (coordinator k))) []"

definition get_computed_blocks :: "request \<Rightarrow> kv_cache \<Rightarrow> ((block_ref list list \<times> int) \<times> kv_cache) result option" where
  "get_computed_blocks r k =
     (if \<not> k_enable_caching k \<or> skip_reading_prefix_cache r then Some (Inr ((no_blocks k, 0), k))
      else map_option (\<lambda>res. res_bind res (\<lambda>(found, c). Inr (found, k\<lparr>coordinator := c\<rparr>)))
             (coord_find_longest_cache_hit (block_hashes r) (num_tokens r - 1) (coordinator k)))"

section \<open>Allocation\<close>

definition record_tmh_pressure :: "request \<Rightarrow> int \<Rightarrow> kv_cache \<Rightarrow> kv_cache result" where
  "record_tmh_pressure r total_tokens k =
     (if \<not> policy_enabled (k_policy k) then Inr k
      else res_bind (record_allocation (blk (pool k)) (request_id r) total_tokens (num_prompt_tokens r)
                       (coord_get_blocks (request_id r) (coordinator k)) (k_policy k)) (\<lambda>(_, pol).
             Inr (k\<lparr>k_policy := pol\<rparr>)))"

record slot_args =
  num_new_tokens :: int
  num_new_computed_tokens :: int
  new_computed_blocks :: "block_ref list list option"
  num_lookahead_tokens :: int
  num_external_computed_tokens :: int
  delay_cache_blocks :: bool
  num_encoder_tokens :: int
  full_sequence_must_fit :: bool
  reserved_blocks :: int
  has_scheduled_reqs :: bool

text \<open>
  \<open>computed_list\<close> is the tuple of hit blocks; it is the shared empty tuple exactly when no group has a
  hit. The watermark counts for requests that are not running, when others are scheduled.
\<close>

definition computed_list :: "slot_args \<Rightarrow> kv_cache \<Rightarrow> block_ref list list" where
  "computed_list a k = (case new_computed_blocks a of None \<Rightarrow> no_blocks k | Some bs \<Rightarrow> bs)"

definition applied_watermark :: "request \<Rightarrow> slot_args \<Rightarrow> kv_cache \<Rightarrow> int" where
  "applied_watermark r a k =
     (if has_scheduled_reqs a \<and> status r \<in> {WAITING, PREEMPTED} then watermark_blocks k else 0)"

definition full_sequence_fits :: "request \<Rightarrow> slot_args \<Rightarrow> int \<Rightarrow> kv_cache \<Rightarrow> bool result" where
  "full_sequence_fits r a total_computed k =
     (if \<not> full_sequence_must_fit a then Inr True
      else res_bind (coord_get_num_blocks_to_allocate (request_id r) (min (num_tokens r) (k_max_model_len k))
                       (computed_list a k) (num_encoder_tokens a) total_computed True (coordinator k)) (\<lambda>n.
             Inr (n + applied_watermark r a k \<le> get_num_free_blocks (pool k))))"

text \<open>The second and third stage: the hit blocks, the blocks of external tokens, the new blocks.\<close>

definition take_blocks ::
  "request \<Rightarrow> slot_args \<Rightarrow> int \<Rightarrow> int \<Rightarrow> kv_cache \<Rightarrow> (block_ref list list \<times> kv_cache) result" where
  "take_blocks r a num_local tokens_need_slot k =
     res_bind (if list_ex (\<lambda>bs. bs \<noteq> []) (computed_list a k) \<or> num_external_computed_tokens a > 0
               then coord_allocate_new_computed_blocks (request_id r) (computed_list a k) num_local
                      (num_external_computed_tokens a) (coordinator k)
               else Inr (coordinator k)) (\<lambda>c1.
     res_bind (coord_allocate_new_blocks (request_id r) tokens_need_slot (num_encoder_tokens a) c1) (\<lambda>(new_blocks, c2).
       Inr (new_blocks, k\<lparr>coordinator := c2\<rparr>)))"

definition allocate_slots ::
  "(bytes \<Rightarrow> bytes) \<Rightarrow> request \<Rightarrow> slot_args \<Rightarrow> kv_cache \<Rightarrow> (block_ref list list option \<times> request \<times> kv_cache) result" where
  "allocate_slots sha256 r a k =
     (if num_new_tokens a = 0 \<and> num_external_computed_tokens a = 0 then Inl ValueError
      else
        let num_local = num_computed_tokens r + num_new_computed_tokens a;
            total_computed = min (num_local + num_external_computed_tokens a) (k_max_model_len k)
        in
        res_bind (full_sequence_fits r a total_computed k) (\<lambda>fits.
        if \<not> fits then Inr (None, r, k)
        else
          let main_tokens = total_computed + num_new_tokens a;
              need_slot = min (main_tokens + num_lookahead_tokens a) (k_max_model_len k)
          in
          res_bind (coord_remove_skipped_blocks (request_id r) total_computed (Some (num_prompt_tokens r)) (coordinator k)) (\<lambda>c1.
          let k1 = k\<lparr>coordinator := c1\<rparr> in
          res_bind (coord_get_num_blocks_to_allocate (request_id r) need_slot (computed_list a k) (num_encoder_tokens a)
                      (num_local + num_external_computed_tokens a) False c1) (\<lambda>n.
          if n + applied_watermark r a k > get_num_free_blocks (pool k1) - reserved_blocks a then Inr (None, r, k1)
          else
            res_bind (take_blocks r a num_local need_slot k1) (\<lambda>(new_blocks, k2).
            if \<not> k_enable_caching k \<or> delay_cache_blocks a
            then res_bind (record_tmh_pressure r main_tokens k2) (\<lambda>k3. Inr (Some new_blocks, r, k3))
            else
              res_bind (coord_cache_blocks sha256 r (min (total_computed + num_new_tokens a) (num_tokens r)) (coordinator k2)) (\<lambda>(r1, c3).
              res_bind (record_tmh_pressure r1 main_tokens (k2\<lparr>coordinator := c3\<rparr>)) (\<lambda>k3.
                Inr (Some new_blocks, r1, k3))))))))"

section \<open>Release\<close>

definition kv_free :: "request \<Rightarrow> kv_cache \<Rightarrow> kv_cache result" where
  "kv_free r k =
     res_bind (coord_free (request_id r) (coordinator k)) (\<lambda>c.
       Inr (k\<lparr>k_policy := forget_request (request_id r) (k_policy k), coordinator := c\<rparr>))"

definition kv_remove_skipped_blocks :: "string \<Rightarrow> int \<Rightarrow> int option \<Rightarrow> kv_cache \<Rightarrow> kv_cache result" where
  "kv_remove_skipped_blocks rid total_computed prompt_tokens k =
     res_bind (coord_remove_skipped_blocks rid total_computed prompt_tokens (coordinator k)) (\<lambda>c. Inr (k\<lparr>coordinator := c\<rparr>))"

definition kv_pop_blocks_for_free :: "request \<Rightarrow> kv_cache \<Rightarrow> block_ref list \<times> kv_cache" where
  "kv_pop_blocks_for_free r k =
     (let (bs, c) = coord_pop_blocks_for_free (request_id r) (coordinator k) in (bs, k\<lparr>coordinator := c\<rparr>))"

definition upd_pool :: "(block_pool \<Rightarrow> block_pool) \<Rightarrow> kv_cache \<Rightarrow> kv_cache" where
  "upd_pool f k = k\<lparr>coordinator := (coordinator k)\<lparr>c_pool := f (pool k)\<rparr>\<rparr>"

definition kv_evict_blocks :: "int list \<Rightarrow> kv_cache \<Rightarrow> kv_cache result" where
  "kv_evict_blocks ids k = res_bind (evict_blocks ids (pool k)) (\<lambda>p. Inr (upd_pool (\<lambda>_. p) k))"

definition kv_reset_prefix_cache :: "kv_cache \<Rightarrow> bool \<times> kv_cache" where
  "kv_reset_prefix_cache k = (let (ok, p) = reset_prefix_cache (pool k) in (ok, if ok then upd_pool (\<lambda>_. p) k else k))"

definition kv_get_num_common_prefix_blocks :: "string \<Rightarrow> kv_cache \<Rightarrow> int list \<times> kv_cache" where
  "kv_get_num_common_prefix_blocks rid k =
     (let (ns, c) = coord_get_num_common_prefix_blocks rid (coordinator k) in (ns, k\<lparr>coordinator := c\<rparr>))"

definition get_block_ids :: "string \<Rightarrow> kv_cache \<Rightarrow> int list list" where
  "get_block_ids rid k = map (map block_id) (coord_get_blocks rid (coordinator k))"

definition kv_cache_blocks :: "(bytes \<Rightarrow> bytes) \<Rightarrow> request \<Rightarrow> int \<Rightarrow> kv_cache \<Rightarrow> (request \<times> kv_cache) result" where
  "kv_cache_blocks sha256 r num_computed k =
     (if k_enable_caching k
      then res_bind (coord_cache_blocks sha256 r num_computed (coordinator k)) (\<lambda>(r1, c). Inr (r1, k\<lparr>coordinator := c\<rparr>))
      else Inr (r, k))"

definition kv_take_new_block_ids :: "kv_cache \<Rightarrow> int list \<times> kv_cache" where
  "kv_take_new_block_ids k =
     (concat (map (\<lambda>m. fst (take_new_block_ids m)) (managers (coordinator k))),
      k\<lparr>coordinator := (coordinator k)\<lparr>managers := map (\<lambda>m. snd (take_new_block_ids m)) (managers (coordinator k))\<rparr>\<rparr>)"

definition take_tmh_physical_events :: "kv_cache \<Rightarrow> tmh_event list \<times> kv_cache" where
  "take_tmh_physical_events k = (let (es, pol) = take_physical_events (k_policy k) in (es, k\<lparr>k_policy := pol\<rparr>))"

text \<open>
  The scheduler's deferred release (\<^verbatim>\<open>_free_request_blocks\<close>, \<^verbatim>\<open>_drain_deferred_frees\<close> of
  \<^verbatim>\<open>vllm/v1/core/sched/scheduler.py\<close>): blocks still read by a step in flight are returned once it is done.
\<close>

definition free_request_blocks ::
  "bool \<Rightarrow> int \<Rightarrow> int \<Rightarrow> int \<Rightarrow> request \<Rightarrow> (int \<times> block_ref list) list \<Rightarrow> kv_cache
    \<Rightarrow> ((int \<times> block_ref list) list \<times> kv_cache) result" where
  "free_request_blocks defer last_sched_seq processed_seq sched_seq r deferred k =
     (if \<not> defer \<or> last_sched_seq \<le> processed_seq
      then res_bind (kv_free r k) (\<lambda>k1. Inr (deferred, k1))
      else let (bs, k1) = kv_pop_blocks_for_free r k
           in Inr (if bs \<noteq> [] then deferred @ [(sched_seq, bs)] else deferred, k1))"

fun drain_deferred_frees :: "int \<Rightarrow> (int \<times> block_ref list) list \<Rightarrow> kv_cache \<Rightarrow> ((int \<times> block_ref list) list \<times> kv_cache) result" where
  "drain_deferred_frees processed_seq [] k = Inr ([], k)"
| "drain_deferred_frees processed_seq ((fence, bs) # rest) k =
     (if fence > processed_seq then Inr ((fence, bs) # rest, k)
      else res_bind (free_blocks (rev bs) (pool k)) (\<lambda>p. drain_deferred_frees processed_seq rest (upd_pool (\<lambda>_. p) k)))"

end
