(* ===== verification/KvInv.thy ===== *)
theory KvInv
  imports KvCacheManager
begin

text \<open>
  The invariant of a manager beside its pool: the count of a block is the number of its occurrences in
  the tables of the requests and elsewhere. Every operation is given a total specification.
\<close>

section \<open>Occurrences\<close>

lemma sum_vals_set:
  "dict_ok d \<Longrightarrow> (\<Sum>v\<leftarrow>map snd (dict_set k w d). f v)
     = (\<Sum>v\<leftarrow>map snd d. f v) - (case dict_get d k of None \<Rightarrow> 0 | Some v \<Rightarrow> f v) + (f w :: int)"
  by (induction d) auto

lemma sum_vals_pop:
  "dict_ok d \<Longrightarrow> (\<Sum>v\<leftarrow>map snd (dict_pop k d). f v)
     = (\<Sum>v\<leftarrow>map snd d. f v) - (case dict_get d k of None \<Rightarrow> 0 | Some v \<Rightarrow> (f v :: int))"
proof (induction d)
  case (Cons e d)
  obtain h v where e: "e = (h, v)" by fastforce
  show ?case
  proof (cases "h = k")
    case True
    then have "dict_pop k d = d" using Cons.prems e by (intro delete_id) auto
    then show ?thesis using e True by simp
  next
    case False
    then show ?thesis using Cons e by simp
  qed
qed simp

lemma count_list_distinct: "distinct xs \<Longrightarrow> count_list xs b = (if b \<in> set xs then 1 else 0)"
  by (induction xs) (auto simp: count_list_0_iff)

definition occ :: "kv_manager \<Rightarrow> block_ref \<Rightarrow> int" where
  "occ m b = (\<Sum>t\<leftarrow>map snd (req_to_blocks m). int (count_list t b))"

lemma occ_nonneg: "0 \<le> occ m b"
  unfolding occ_def by (rule sum_list_nonneg) auto

lemma occ_set_table:
  "dict_ok (req_to_blocks m) \<Longrightarrow> occ (set_table rid t m) b = occ m b - int (count_list (table_of rid m) b) + int (count_list t b)"
  by (auto simp: occ_def set_table_def table_of_def sum_vals_set split: option.split simp del: map_map)

lemma table_le_occ:
  assumes "dict_ok (req_to_blocks m)"
  shows "int (count_list (table_of rid m) b) \<le> occ m b"
  using occ_nonneg [of "m\<lparr>req_to_blocks := dict_pop rid (req_to_blocks m)\<rparr>" b] sum_vals_pop [OF assms, of "\<lambda>t. int (count_list t b)" rid]
  by (auto simp: occ_def table_of_def split: option.splits simp del: map_map)

section \<open>The invariant\<close>

definition kind_ok :: "attention \<Rightarrow> bool" where
  "kind_ok a \<longleftrightarrow> (case a of ChunkedLocal c \<Rightarrow> 0 < c | SlidingWindow w \<Rightarrow> 0 < w | _ \<Rightarrow> True)"

text \<open>No block but the null block is twice in a table.\<close>

definition once :: "block_ref list \<Rightarrow> bool" where
  "once t \<longleftrightarrow> (\<forall>b. b \<noteq> Block 0 \<longrightarrow> count_list t b \<le> 1)"

lemma once_distinct: "once t \<Longrightarrow> distinct (filter (\<lambda>b. b \<noteq> Block 0) t)"
proof (induction t)
  case (Cons x t)
  have "once t" using Cons.prems unfolding once_def by (metis count_list.simps(2) le_add1 le_trans)
  moreover have "x \<noteq> Block 0 \<Longrightarrow> x \<notin> set t"
    using Cons.prems unfolding once_def by (auto simp: count_list_0_iff dest: spec [of _ x])
  ultimately show ?case using Cons.IH by simp
qed simp

definition tables_ok :: "kv_manager \<Rightarrow> block_ref set \<Rightarrow> bool" where
  "tables_ok m B \<longleftrightarrow> 0 < m_block_size m \<and> kind_ok (attention m) \<and> dict_ok (req_to_blocks m)
     \<and> (\<forall>rid. set (table_of rid m) \<subseteq> B \<and> once (table_of rid m))
     \<and> (\<forall>rid n. dict_get (num_cached_block m) rid = Some n \<longrightarrow> 0 \<le> n)"

definition refs_ok :: "(block_ref \<Rightarrow> int) \<Rightarrow> kv_manager \<Rightarrow> block_pool \<Rightarrow> bool" where
  "refs_ok others m p \<longleftrightarrow> (\<forall>b. 0 \<le> others b) \<and> (\<forall>b\<in>set (blocks p). b \<noteq> Block 0 \<longrightarrow> ref_cnt (blk p b) = others b + occ m b)"

definition mgr_ok :: "(block_ref \<Rightarrow> int) \<Rightarrow> kv_manager \<Rightarrow> block_pool \<Rightarrow> bool" where
  "mgr_ok others m p \<longleftrightarrow> pool_inv p \<and> tables_ok m (set (blocks p)) \<and> refs_ok others m p"

lemma mgr_okD:
  assumes "mgr_ok others m p"
  shows "pool_inv p" "tables_ok m (set (blocks p))" "refs_ok others m p"
  using assms by (auto simp: mgr_ok_def)

lemma tables_okD:
  assumes "tables_ok m B"
  shows "0 < m_block_size m" "kind_ok (attention m)" "dict_ok (req_to_blocks m)"
    and "set (table_of rid m) \<subseteq> B" "once (table_of rid m)"
    and "dict_get (num_cached_block m) rid = Some n \<Longrightarrow> 0 \<le> n"
  using assms by (auto simp: tables_ok_def)

lemma table_of_set [simp]: "table_of rid' (set_table rid t m) = (if rid' = rid then t else table_of rid' m)"
  by (simp add: table_of_def set_table_def)

lemma set_table_sel [simp]:
  "m_block_size (set_table rid t m) = m_block_size m" "attention (set_table rid t m) = attention m"
  "num_cached_block (set_table rid t m) = num_cached_block m" "m_enable_caching (set_table rid t m) = m_enable_caching m"
  "new_block_ids (set_table rid t m) = new_block_ids m" "zeroes_new_blocks (set_table rid t m) = zeroes_new_blocks m"
  "kv_cache_group_id (set_table rid t m) = kv_cache_group_id m"
  "dict_ok (req_to_blocks m) \<Longrightarrow> dict_ok (req_to_blocks (set_table rid t m))"
  by (simp_all add: set_table_def)

lemma tables_ok_set:
  assumes "tables_ok m B" and "set t \<subseteq> B" and "once t"
  shows "tables_ok (set_table rid t m) B"
  using assms unfolding tables_ok_def by simp

text \<open>A block that is free occurs in no table.\<close>

lemma free_not_held:
  assumes "mgr_ok others m p" and "b \<in> free_set p"
  shows "occ m b = 0" and "others b = 0" and "b \<notin> set (table_of rid m)" and "b \<noteq> Block 0"
proof -
  note d = mgr_okD [OF assms(1)]
  have null: "is_null (blk p b) \<longleftrightarrow> b = Block 0" using d(1) by (auto simp: pool_inv_def alloc_inv_def)
  have b: "b \<in> set (blocks p)" "b \<noteq> Block 0" "ref_cnt (blk p b) = 0" using assms(2) null by (auto simp: free_set_def)
  have "others b + occ m b = 0" "0 \<le> others b" using d(3) b by (auto simp: refs_ok_def)
  then show z: "occ m b = 0" "others b = 0" using occ_nonneg [of m b] by simp_all
  show "b \<notin> set (table_of rid m)"
    using table_le_occ [OF tables_okD(3) [OF d(2)], of rid b] z(1) count_list_0_iff [of "table_of rid m" b] by simp
  show "b \<noteq> Block 0" by (rule b(2))
qed

text \<open>What the operations leave: the configuration, and the tables of other requests.\<close>

definition config :: "kv_manager \<Rightarrow> kv_manager" where
  "config m = m\<lparr>new_block_ids := [], req_to_blocks := [], num_cached_block := []\<rparr>"

lemma config_eqD:
  assumes "config m' = config m"
  shows "attention m' = attention m" "m_block_size m' = m_block_size m" "m_enable_caching m' = m_enable_caching m"
    "zeroes_new_blocks m' = zeroes_new_blocks m" "kv_cache_group_id m' = kv_cache_group_id m"
    "max_admission_blocks_per_request m' = max_admission_blocks_per_request m" "m_use_eagle m' = m_use_eagle m"
    "scheduler_block_size m' = scheduler_block_size m"
  using assms by (auto simp: config_def dest: arg_cong [of _ _ attention] arg_cong [of _ _ m_block_size]
    arg_cong [of _ _ m_enable_caching] arg_cong [of _ _ zeroes_new_blocks] arg_cong [of _ _ kv_cache_group_id]
    arg_cong [of _ _ max_admission_blocks_per_request] arg_cong [of _ _ m_use_eagle] arg_cong [of _ _ scheduler_block_size])

definition only_table :: "string \<Rightarrow> kv_manager \<Rightarrow> kv_manager \<Rightarrow> bool" where
  "only_table rid m m' \<longleftrightarrow> config m' = config m \<and> (\<forall>rid'. rid' \<noteq> rid \<longrightarrow> table_of rid' m' = table_of rid' m)"

lemma config_set_table [simp]: "config (set_table rid t m) = config m"
  by (simp add: config_def set_table_def)

lemma only_table_refl [simp]: "only_table rid m m"
  by (simp add: only_table_def)

lemma only_table_trans: "only_table rid m m' \<Longrightarrow> only_table rid m' m'' \<Longrightarrow> only_table rid m m''"
  by (simp add: only_table_def)

lemma only_table_set [simp]: "only_table rid m (set_table rid t m)"
  by (simp add: only_table_def)

section \<open>Steps\<close>

text \<open>The table of a request and the counts change by the same blocks.\<close>

lemma mgr_ok_set:
  assumes ok: "mgr_ok others m p" and q: "pool_inv q" "blocks q = blocks p"
    and t: "set t \<subseteq> set (blocks p)" "once t"
    and refs: "\<And>b. b \<in> set (blocks p) \<Longrightarrow> b \<noteq> Block 0 \<Longrightarrow>
      ref_cnt (blk q b) = ref_cnt (blk p b) - int (count_list (table_of rid m) b) + int (count_list t b)"
  shows "mgr_ok others (set_table rid t m) q"
proof -
  note d = mgr_okD [OF ok]
  have "refs_ok others (set_table rid t m) q"
    using d(3) refs by (auto simp: refs_ok_def q(2) occ_set_table [OF tables_okD(3) [OF d(2)]])
  then show ?thesis using tables_ok_set [OF d(2) t] q by (simp add: mgr_ok_def)
qed

lemma mgr_ok_cong:
  assumes "mgr_ok others m p" and "config m' = config m" and "req_to_blocks m' = req_to_blocks m"
    and "\<And>rid n. dict_get (num_cached_block m') rid = Some n \<Longrightarrow> 0 \<le> n"
  shows "mgr_ok others m' p"
proof -
  have "table_of rid m' = table_of rid m" "occ m' b = occ m b" for rid b
    using assms(3) by (simp_all add: table_of_def occ_def)
  then show ?thesis
    using assms config_eqD [OF assms(2)] by (simp add: mgr_ok_def tables_ok_def refs_ok_def)
qed

lemma mgr_ok_enter: "mgr_ok others m p \<Longrightarrow> mgr_ok others (enter_table rid m) p"
  unfolding enter_table_def
  by (rule mgr_ok_set) (simp_all add: mgr_okD tables_okD [OF mgr_okD(2)])

text \<open>Looking for a free block costs nothing, taking one costs one.\<close>

lemma free_count:
  assumes "pool_inv p"
  shows "get_num_free_blocks p = int (card (free_set p))" and "finite (free_set p)"
proof -
  have "alloc_inv p" using assms by (simp add: pool_inv_def)
  then obtain fs where "get_num_free_blocks p = int (length fs)" "distinct fs" "set fs = free_set p"
    by (rule alloc_inv_free)
  then show "get_num_free_blocks p = int (card (free_set p))" "finite (free_set p)"
    by (auto simp: distinct_card simp flip: \<open>set fs = free_set p\<close>)
qed

lemma free_set_refs:
  "pool_inv p \<Longrightarrow> free_set p = {b \<in> set (blocks p). b \<noteq> Block 0 \<and> ref_cnt (blk p b) = 0}"
  by (auto simp: free_set_def pool_inv_def alloc_inv_def)

lemma new_blocks_taken:
  assumes inv: "pool_inv p" and n: "0 \<le> n" "n \<le> get_num_free_blocks p"
  obtains bs q where "get_new_blocks n p = Inr (bs, q)" "pool_inv q" "blocks q = blocks p" "int (length bs) = n" "distinct bs"
    "set bs \<subseteq> free_set p" "\<forall>b. ref_cnt (blk q b) = (if b \<in> set bs then 1 else ref_cnt (blk p b))"
    "free_set q = free_set p - set bs" "get_num_free_blocks q = get_num_free_blocks p - n"
proof -
  have "alloc_inv p" using inv by (simp add: pool_inv_def)
  then obtain fs where fs: "queue_rep (free_block_queue p) fs" "set fs = free_set p" "distinct fs"
    by (rule alloc_inv_free)
  let ?bs = "take (nat n) fs"
  obtain q where q: "get_new_blocks n p = Inr (?bs, q)" "pool_inv q" "blocks q = blocks p" "length ?bs = nat n"
    "\<forall>b. ref_cnt (blk q b) = (if b \<in> set ?bs then 1 else ref_cnt (blk p b))"
    using get_new_blocks_spec [OF inv fs(1) n] by (elim exE conjE) (rule that)
  have sub: "set ?bs \<subseteq> free_set p" using fs(2) set_take_subset by metis
  have fq: "free_set q = free_set p - set ?bs"
    using q(5) by (auto simp: free_set_refs [OF inv] free_set_refs [OF q(2)] q(3) split: if_splits)
  have "card (free_set p - set ?bs) = card (free_set p) - nat n"
    using sub fs(3) q(4) by (simp add: card_Diff_subset distinct_card)
  moreover have "nat n \<le> card (free_set p)" using n free_count(1) [OF inv] by simp
  ultimately have "get_num_free_blocks q = get_num_free_blocks p - n"
    using fq n(1) free_count(1) [OF inv] free_count(1) [OF q(2)] by simp
  moreover have "int (length ?bs) = n" using q(4) n(1) by linarith
  moreover have "distinct ?bs" using fs(3) by simp
  ultimately show ?thesis using that [OF q(1-3) _ _ sub _ fq] q(5) by simp
qed

text \<open>New blocks at the end of the table of a request.\<close>

lemma extend_table_sel [simp]:
  "table_of rid (extend_table rid bs m) = table_of rid m @ bs" "only_table rid m (extend_table rid bs m)"
  "num_cached_block (extend_table rid bs m) = num_cached_block m"
  by (auto simp: extend_table_def Let_def only_table_def config_def table_of_def set_table_def)

lemma extend_table_eq: "config (extend_table rid bs m) = config (set_table rid (table_of rid m @ bs) m)"
    "req_to_blocks (extend_table rid bs m) = req_to_blocks (set_table rid (table_of rid m @ bs) m)"
  by (simp_all add: extend_table_def Let_def config_def set_table_def)

lemma extend_ok:
  assumes ok: "mgr_ok others m p" and q: "pool_inv q" "blocks q = blocks p" and bs: "distinct bs" "set bs \<subseteq> free_set p"
    and refs: "\<forall>b. ref_cnt (blk q b) = (if b \<in> set bs then 1 else ref_cnt (blk p b))"
  shows "mgr_ok others (extend_table rid bs m) q"
proof -
  note d = mgr_okD [OF ok]
  note t = tables_okD [OF d(2)]
  have free: "set bs \<subseteq> set (blocks p)" "\<And>b. b \<in> set bs \<Longrightarrow> ref_cnt (blk p b) = 0"
    using bs(2) by (auto simp: free_set_def)
  have new: "count_list (table_of rid m) b = 0" if "b \<in> set bs" for b
    using free_not_held(3) [OF ok, of b rid] bs(2) that by (auto simp: count_list_0_iff)
  note cnt = count_list_distinct [OF bs(1)]
  have set: "mgr_ok others (set_table rid (table_of rid m @ bs) m) q"
  proof (rule mgr_ok_set [OF ok q])
    show "once (table_of rid m @ bs)" using t(5) new cnt by (auto simp: once_def)
  qed (use t(4) free new cnt refs in auto)
  show ?thesis
    by (rule mgr_ok_cong [OF set extend_table_eq]) (simp add: t(6))
qed

end
