(* ===== verification/KvTake.thy ===== *)
theory KvTake
  imports KvInv
begin

text \<open>
  The operations of a manager that take blocks: each succeeds when the free blocks cover its cost, hands
  out free blocks only and keeps the invariant.
\<close>

section \<open>Skipped tokens\<close>

definition skipped :: "attention \<Rightarrow> int \<Rightarrow> int" where
  "skipped a n = (case a of SlidingWindow w \<Rightarrow> max 0 (n - w + 1) | ChunkedLocal c \<Rightarrow> n div c * c | _ \<Rightarrow> 0)"

lemma skipped_eq [simp]: "kind_ok a \<Longrightarrow> get_num_skipped_tokens a n = Inr (skipped a n)"
  by (cases a) (auto simp: kind_ok_def get_num_skipped_tokens_def skipped_def)

lemma skipped_bounds:
  assumes "kind_ok a" and "0 \<le> n"
  shows "0 \<le> skipped a n" and "skipped a n \<le> n"
  using assms
  by (auto simp: kind_ok_def skipped_def pos_imp_zdiv_nonneg_iff minus_mod_eq_div_mult [symmetric] zmod_le_nonneg_dividend
      split: attention.splits)

definition skipped_blocks :: "kv_manager \<Rightarrow> int \<Rightarrow> int" where
  "skipped_blocks m n = skipped (attention m) n div m_block_size m"

lemma skipped_blocks_bounds:
  assumes "tables_ok m B" and "0 \<le> n"
  shows "0 \<le> skipped_blocks m n" and "skipped_blocks m n * m_block_size m \<le> n"
proof -
  note t = tables_okD(1,2) [OF assms(1)]
  note b = skipped_bounds [OF t(2) assms(2)]
  show "0 \<le> skipped_blocks m n" using b(1) t(1) by (simp add: skipped_blocks_def pos_imp_zdiv_nonneg_iff)
  show "skipped_blocks m n * m_block_size m \<le> n"
    using b(2) t(1) by (simp add: skipped_blocks_def minus_mod_eq_div_mult [symmetric] order_trans [OF _ b(2)])
qed

section \<open>The interface\<close>

text \<open>
  An operation over the managers that takes blocks: \<open>pre\<close> is what the call must satisfy, \<open>cost\<close> how many
  free blocks it may use up, \<open>out\<close> the new blocks in its result.
\<close>

locale manager_take =
  fixes f :: "'a \<Rightarrow> kv_manager \<Rightarrow> block_pool \<Rightarrow> ('b \<times> kv_manager \<times> block_pool) result"
    and pre :: "'a \<Rightarrow> kv_manager \<Rightarrow> block_ref set \<Rightarrow> bool"
    and cost :: "'a \<Rightarrow> kv_manager \<Rightarrow> block_ref set \<Rightarrow> int"
    and post :: "'a \<Rightarrow> kv_manager \<Rightarrow> 'b \<Rightarrow> kv_manager \<Rightarrow> bool"
    and out :: "'b \<Rightarrow> block_ref list"
  assumes take: "mgr_ok others m p \<Longrightarrow> pre a m (set (blocks p)) \<Longrightarrow> cost a m (free_set p) \<le> get_num_free_blocks p \<Longrightarrow>
      \<exists>x m' q. f a m p = Inr (x, m', q) \<and> mgr_ok others m' q \<and> blocks q = blocks p \<and> post a m x m' \<and> distinct (out x)
        \<and> set (out x) \<subseteq> free_set p - free_set q \<and> free_set q \<subseteq> free_set p
        \<and> get_num_free_blocks p - cost a m (free_set p) \<le> get_num_free_blocks q"
    and cost_mono: "F \<subseteq> G \<Longrightarrow> cost a m F \<le> cost a m G"
    and cost_nonneg: "0 \<le> cost a m F"

text \<open>All managers over one pool.\<close>

definition occs :: "kv_manager list \<Rightarrow> block_ref \<Rightarrow> int" where
  "occs ms b = (\<Sum>m\<leftarrow>ms. occ m b)"

definition mgrs_ok :: "(block_ref \<Rightarrow> int) \<Rightarrow> kv_manager list \<Rightarrow> block_pool \<Rightarrow> bool" where
  "mgrs_ok others ms p \<longleftrightarrow> pool_inv p \<and> (\<forall>m\<in>set ms. tables_ok m (set (blocks p))) \<and> (\<forall>b. 0 \<le> others b)
     \<and> (\<forall>b\<in>set (blocks p). b \<noteq> Block 0 \<longrightarrow> ref_cnt (blk p b) = others b + occs ms b)"

lemma occs_nonneg: "0 \<le> occs ms b"
  by (induction ms) (simp_all add: occs_def occ_nonneg)

lemma mgrs_tables: "mgrs_ok others ms p \<Longrightarrow> i < length ms \<Longrightarrow> tables_ok (ms ! i) (set (blocks p))"
  by (simp add: mgrs_ok_def)

lemma mgrs_ok_Cons:
  assumes "mgrs_ok others (m # ms) p"
  shows "mgr_ok (\<lambda>b. others b + occs ms b) m p"
  using assms by (auto simp: mgrs_ok_def mgr_ok_def refs_ok_def occs_nonneg) (simp add: occs_def)

lemma mgrs_ok_tail:
  assumes "mgrs_ok others (m # ms) p" and "mgr_ok (\<lambda>b. others b + occs ms b) m' q" and "blocks q = blocks p"
  shows "mgrs_ok (\<lambda>b. others b + occ m' b) ms q"
  using assms by (auto simp: mgrs_ok_def mgr_ok_def refs_ok_def occ_nonneg)

lemma mgrs_ok_join:
  assumes "mgrs_ok (\<lambda>b. others b + occ m b) ms p" and "tables_ok m (set (blocks p))" and "\<And>b. 0 \<le> others b"
  shows "mgrs_ok others (m # ms) p"
  using assms by (auto simp: mgrs_ok_def occs_def)

fun costs :: "('a \<Rightarrow> kv_manager \<Rightarrow> block_ref set \<Rightarrow> int) \<Rightarrow> 'a list \<Rightarrow> kv_manager list \<Rightarrow> block_ref set \<Rightarrow> int" where
  "costs cost (a # as) (m # ms) F = cost a m F + costs cost as ms F"
| "costs cost _ _ F = 0"

context manager_take
begin

lemma costs_mono: "F \<subseteq> G \<Longrightarrow> costs cost as ms F \<le> costs cost as ms G"
  by (induction as ms rule: list_induct2') (auto intro: add_mono cost_mono)

lemma costs_nonneg: "0 \<le> costs cost as ms F"
  by (induction as ms rule: list_induct2') (auto intro: add_nonneg_nonneg cost_nonneg)

theorem each_take:
  assumes "mgrs_ok others ms p" and "length as = length ms" and "list_all2 (\<lambda>a m. pre a m (set (blocks p))) as ms"
    and "costs cost as ms (free_set p) \<le> get_num_free_blocks p"
  shows "\<exists>xs ms' q. each_manager f as ms p = Inr (xs, ms', q) \<and> mgrs_ok others ms' q \<and> blocks q = blocks p
    \<and> length xs = length ms \<and> length ms' = length ms \<and> (\<forall>i<length ms. post (as ! i) (ms ! i) (xs ! i) (ms' ! i))
    \<and> distinct (concat (map out xs)) \<and> set (concat (map out xs)) \<subseteq> free_set p - free_set q \<and> free_set q \<subseteq> free_set p
    \<and> get_num_free_blocks p - costs cost as ms (free_set p) \<le> get_num_free_blocks q"
  using assms
proof (induction as ms arbitrary: others p rule: list_induct2')
  case (4 a as m ms)
  let ?o = "\<lambda>b. others b + occs ms b"
  note nn = costs_nonneg [of as ms "free_set p"] cost_nonneg [of a m "free_set p"]
  obtain x m' q where x: "f a m p = Inr (x, m', q)" "mgr_ok ?o m' q" "blocks q = blocks p" "post a m x m'" "distinct (out x)"
    "set (out x) \<subseteq> free_set p - free_set q" "free_set q \<subseteq> free_set p"
    "get_num_free_blocks p - cost a m (free_set p) \<le> get_num_free_blocks q"
    using take [OF mgrs_ok_Cons [OF "4.prems"(1)], of a] "4.prems"(3,4) nn by (auto simp: algebra_simps)
  have c: "costs cost as ms (free_set q) \<le> costs cost as ms (free_set p)" by (rule costs_mono [OF x(7)])
  have pre: "list_all2 (\<lambda>a m. pre a m (set (blocks q))) as ms" using "4.prems"(3) x(3) by simp
  have len: "length as = length ms" using "4.prems"(2) by simp
  have fit: "costs cost as ms (free_set q) \<le> get_num_free_blocks q" using "4.prems"(4) x(8) c by simp
  obtain xs ms' r where r: "each_manager f as ms q = Inr (xs, ms', r)" "mgrs_ok (\<lambda>b. others b + occ m' b) ms' r" "blocks r = blocks q"
    "length xs = length ms" "length ms' = length ms" "\<forall>i<length ms. post (as ! i) (ms ! i) (xs ! i) (ms' ! i)"
    "distinct (concat (map out xs))" "set (concat (map out xs)) \<subseteq> free_set q - free_set r" "free_set r \<subseteq> free_set q"
    "get_num_free_blocks q - costs cost as ms (free_set q) \<le> get_num_free_blocks r"
    using "4.IH" [OF mgrs_ok_tail [OF "4.prems"(1) x(2,3)] len pre fit] by (elim exE conjE) (rule that)
  have ok: "mgrs_ok others (m' # ms') r"
    using mgrs_ok_join [OF r(2)] mgr_okD(2) [OF x(2)] "4.prems"(1) r(3) by (simp add: mgrs_ok_def)
  have post: "\<forall>i<length (m # ms). post ((a # as) ! i) ((m # ms) ! i) ((x # xs) ! i) ((m' # ms') ! i)"
    using x(4) r(6) by (auto simp: less_Suc_eq_0_disj)
  show ?case
    apply (rule exI [of _ "x # xs"], rule exI [of _ "m' # ms'"], rule exI [of _ r])
    using x r ok post c by auto
qed auto

end

section \<open>The blocks of a prefix hit\<close>

definition local_pre :: "string \<Rightarrow> int \<Rightarrow> block_ref list \<Rightarrow> kv_manager \<Rightarrow> block_ref set \<Rightarrow> bool" where
  "local_pre rid tot bs m B \<longleftrightarrow>
     (if attention m = CrossAttention then bs = []
      else table_of rid m = [] \<and> 0 \<le> tot \<and> set bs \<subseteq> B \<and> once bs \<and> (m_enable_caching m \<or> bs = []))"

definition local_cost :: "int \<Rightarrow> block_ref list \<Rightarrow> kv_manager \<Rightarrow> block_ref set \<Rightarrow> int" where
  "local_cost tot bs m F =
     (if attention m = CrossAttention then 0
      else int (length (filter (\<lambda>b. b \<in> F) (drop (nat (skipped_blocks m tot)) bs))))"

definition local_post :: "string \<Rightarrow> int \<Rightarrow> block_ref list \<Rightarrow> kv_manager \<Rightarrow> kv_manager \<Rightarrow> bool" where
  "local_post rid tot bs m m' \<longleftrightarrow> only_table rid m m' \<and>
     (if attention m = CrossAttention then m' = m
      else let k = nat (skipped_blocks m tot) in table_of rid m' = replicate k (Block 0) @ drop k bs)"

lemma count_list_drop_le: "count_list (drop k xs) b \<le> count_list xs b"
  by (metis append_take_drop_id count_list_append le_add2)

lemma once_drop: "once xs \<Longrightarrow> once (drop k xs)"
  unfolding once_def by (meson count_list_drop_le le_trans)

lemma count_list_replicate_other: "x \<noteq> y \<Longrightarrow> count_list (replicate k x) y = 0"
  by (simp add: count_list_0_iff)

lemma length_filter_mono: "F \<subseteq> G \<Longrightarrow> length (filter (\<lambda>b. b \<in> F) xs) \<le> length (filter (\<lambda>b. b \<in> G) xs)"
  by (induction xs) auto

lemma touched_free:
  assumes "pool_inv p" and "set bs \<subseteq> set (blocks p)"
  obtains q where "touch bs p = Inr q" "pool_inv q" "blocks q = blocks p" "owned q = owned p"
    "\<And>c. ref_cnt (blk q c) = ref_cnt (blk p c) + int (count_list bs c)" "free_set q = free_set p - set bs"
    "get_num_free_blocks p - int (length (filter (\<lambda>b. b \<in> free_set p) bs)) \<le> get_num_free_blocks q"
proof -
  obtain q where q: "touch bs p = Inr q" "pool_inv q" "blocks q = blocks p" "owned q = owned p"
    "\<forall>c. ref_cnt (blk q c) = ref_cnt (blk p c) + int (count_list bs c)"
    using touch_spec [OF assms] by (elim exE conjE) (rule that)
  have pos: "b \<in> set (blocks p) \<Longrightarrow> b \<noteq> Block 0 \<Longrightarrow> 0 \<le> ref_cnt (blk p b)" for b
    using assms(1) by (auto simp: pool_inv_def alloc_inv_def)
  have "ref_cnt (blk q b) = 0 \<longleftrightarrow> ref_cnt (blk p b) = 0 \<and> b \<notin> set bs" if "b \<in> set (blocks p)" "b \<noteq> Block 0" for b
    using q(5) pos [OF that] count_list_0_iff [of bs b] by (auto simp: add_nonneg_eq_0_iff)
  then have free: "free_set q = free_set p - set bs"
    by (auto simp: free_set_refs [OF assms(1)] free_set_refs [OF q(2)] q(3))
  let ?hit = "filter (\<lambda>b. b \<in> free_set p) bs"
  have "free_set p - set bs = free_set p - set ?hit" by auto
  moreover have "card (set ?hit) \<le> length ?hit" by (rule card_length)
  moreover have "card (free_set p) - card (set ?hit) \<le> card (free_set p - set ?hit)" by (rule diff_card_le_card_Diff) simp
  ultimately have "get_num_free_blocks p - int (length ?hit) \<le> get_num_free_blocks q"
    using free free_count(1) [OF assms(1)] free_count(1) [OF q(2)] by simp
  then show ?thesis using that q free by blast
qed

lemma local_takes:
  assumes ok: "mgr_ok others m p" and pre: "local_pre rid (nl + ne) bs m (set (blocks p))"
  shows "\<exists>m' q. add_local_computed_blocks rid bs nl ne m p = Inr (m', q) \<and> mgr_ok others m' q \<and> blocks q = blocks p
    \<and> local_post rid (nl + ne) bs m m' \<and> free_set q \<subseteq> free_set p
    \<and> get_num_free_blocks p - local_cost (nl + ne) bs m (free_set p) \<le> get_num_free_blocks q"
proof (cases "attention m = CrossAttention")
  case True
  then show ?thesis using ok pre by (simp add: add_local_computed_blocks_def local_pre_def local_post_def local_cost_def res_simps)
next
  case False
  note d = mgr_okD [OF ok]
  note t = tables_okD [OF d(2)]
  have pre: "table_of rid m = []" "0 \<le> nl + ne" "set bs \<subseteq> set (blocks p)" "once bs" "m_enable_caching m \<or> bs = []"
    using pre False by (auto simp: local_pre_def)
  define k where "k = nat (skipped_blocks m (nl + ne))"
  have null: "null_block p = Block 0" "Block 0 \<in> set (blocks p)"
    using d(1) by (auto simp: pool_inv_def alloc_inv_def)
  have kept: "(if skipped_blocks m (nl + ne) > 0 then drop k bs else bs) = drop k bs"
    by (simp add: k_def)
  have skip: "get_num_skipped_tokens (attention m) (nl + ne) = Inr (skipped (attention m) (nl + ne))"
    "py_div (skipped (attention m) (nl + ne)) (m_block_size m) = Inr (skipped_blocks m (nl + ne))"
    using t(1,2) by (simp_all add: skipped_blocks_def)
  have sub: "set (drop k bs) \<subseteq> set (blocks p)" using pre(3) set_drop_subset by fast
  let ?t = "replicate k (Block 0) @ drop k bs"
  have touched: "\<exists>q. (if m_enable_caching m then touch (drop k bs) p
      else res_bind (res_guard (drop k bs = []) AssertionError) (\<lambda>_. Inr p)) = Inr q \<and> pool_inv q \<and> blocks q = blocks p
    \<and> (\<forall>c. ref_cnt (blk q c) = ref_cnt (blk p c) + int (count_list (drop k bs) c)) \<and> free_set q = free_set p - set (drop k bs)
    \<and> get_num_free_blocks p - int (length (filter (\<lambda>b. b \<in> free_set p) (drop k bs))) \<le> get_num_free_blocks q"
  proof (cases "m_enable_caching m")
    case True
    then show ?thesis using touched_free [OF d(1) sub] by (metis (no_types, lifting))
  next
    case False
    then show ?thesis using pre(5) d(1) by (simp add: res_simps)
  qed
  then obtain q where q: "(if m_enable_caching m then touch (drop k bs) p
      else res_bind (res_guard (drop k bs = []) AssertionError) (\<lambda>_. Inr p)) = Inr q" "pool_inv q" "blocks q = blocks p"
    "\<forall>c. ref_cnt (blk q c) = ref_cnt (blk p c) + int (count_list (drop k bs) c)" "free_set q = free_set p - set (drop k bs)"
    "get_num_free_blocks p - int (length (filter (\<lambda>b. b \<in> free_set p) (drop k bs))) \<le> get_num_free_blocks q"
    by (elim exE conjE)
  have set: "mgr_ok others (set_table rid ?t m) q"
  proof (rule mgr_ok_set [OF ok q(2,3)])
    show "once ?t" using once_drop [OF pre(4), of k] by (auto simp: once_def count_list_replicate_other)
  qed (use sub null(2) pre(1) q(4) in \<open>auto simp: count_list_replicate_other\<close>)
  let ?m = "(set_table rid ?t m)\<lparr>num_cached_block := dict_set rid (int (length ?t)) (num_cached_block (set_table rid ?t m))\<rparr>"
  have eq: "add_local_computed_blocks rid bs nl ne m p = Inr (?m, q)"
    unfolding add_local_computed_blocks_def Let_def
    by (simp only: False if_False pre(1) skip k_def [symmetric] kept q(1) res_bind_simps res_guard_simps null simp_thms)
  have ok': "mgr_ok others ?m q"
    by (rule mgr_ok_cong [OF set]) (auto simp: config_def t(6) split: if_splits)
  have post: "local_post rid (nl + ne) bs m ?m"
    using False by (simp add: local_post_def only_table_def config_def set_table_def table_of_def Let_def k_def)
  show ?thesis
    using eq ok' post q(3,5,6) False by (simp add: local_cost_def k_def)
qed

interpretation hit_blocks: manager_take "\<lambda>bs m p. no_result (add_local_computed_blocks rid bs nl ne m p)"
  "local_pre rid (nl + ne)" "local_cost (nl + ne)" "\<lambda>bs m x m'. local_post rid (nl + ne) bs m m'" "\<lambda>_. []"
  for rid nl ne
proof unfold_locales
  fix others m p bs
  assume "mgr_ok others m p" and "local_pre rid (nl + ne) bs m (set (blocks p))"
  from local_takes [OF this] obtain m' q where
    "add_local_computed_blocks rid bs nl ne m p = Inr (m', q) \<and> mgr_ok others m' q \<and> blocks q = blocks p
    \<and> local_post rid (nl + ne) bs m m' \<and> free_set q \<subseteq> free_set p
    \<and> get_num_free_blocks p - local_cost (nl + ne) bs m (free_set p) \<le> get_num_free_blocks q" by (elim exE)
  then show "\<exists>x m' q. no_result (add_local_computed_blocks rid bs nl ne m p) = Inr (x, m', q) \<and> mgr_ok others m' q
      \<and> blocks q = blocks p \<and> local_post rid (nl + ne) bs m m' \<and> distinct [] \<and> set [] \<subseteq> free_set p - free_set q
      \<and> free_set q \<subseteq> free_set p \<and> get_num_free_blocks p - local_cost (nl + ne) bs m (free_set p) \<le> get_num_free_blocks q"
    by simp
next
  fix F G :: "block_ref set" and bs m
  assume "F \<subseteq> G"
  then show "local_cost (nl + ne) bs m F \<le> local_cost (nl + ne) bs m G"
    by (simp add: local_cost_def length_filter_mono)
qed (simp add: local_cost_def)

section \<open>New blocks\<close>

definition new_cost :: "string \<Rightarrow> int \<Rightarrow> kv_manager \<Rightarrow> int" where
  "new_cost rid n m = max 0 (cdiv n (m_block_size m) - int (length (table_of rid m)))"

definition extended :: "string \<Rightarrow> int \<Rightarrow> kv_manager \<Rightarrow> block_ref list \<Rightarrow> kv_manager \<Rightarrow> bool" where
  "extended rid n m bs m' \<longleftrightarrow> only_table rid m m' \<and> table_of rid m' = table_of rid m @ bs \<and> int (length bs) = n"

lemma extend_takes:
  assumes ok: "mgr_ok others m p" and n: "0 \<le> n" "n \<le> get_num_free_blocks p"
  obtains bs q where "get_new_blocks n p = Inr (bs, q)" "mgr_ok others (extend_table rid bs m) q" "blocks q = blocks p"
    "extended rid n m bs (extend_table rid bs m)" "distinct bs" "set bs \<subseteq> free_set p - free_set q" "free_set q \<subseteq> free_set p"
    "get_num_free_blocks q = get_num_free_blocks p - n"
proof -
  obtain bs q where q: "get_new_blocks n p = Inr (bs, q)" "pool_inv q" "blocks q = blocks p" "int (length bs) = n" "distinct bs"
    "set bs \<subseteq> free_set p" "\<forall>b. ref_cnt (blk q b) = (if b \<in> set bs then 1 else ref_cnt (blk p b))"
    "free_set q = free_set p - set bs" "get_num_free_blocks q = get_num_free_blocks p - n"
    by (rule new_blocks_taken [OF mgr_okD(1) [OF ok] n])
  show ?thesis
    by (rule that [OF q(1) extend_ok [OF ok q(2,3,5,6,7)] q(3) _ q(5) _ _ q(9)]) (use q in \<open>auto simp: extended_def\<close>)
qed

definition slot_tokens :: "int \<Rightarrow> int \<Rightarrow> kv_manager \<Rightarrow> int" where
  "slot_tokens n enc m = (if attention m = CrossAttention then enc else n)"

lemma extended_none: "extended rid 0 m [] (enter_table rid m)"
  by (simp add: extended_def enter_table_def)

lemma new_takes:
  assumes ok: "mgr_ok others m p" and fit: "new_cost rid n m \<le> get_num_free_blocks p"
  shows "\<exists>bs m' q. allocate_new_blocks rid n m p = Inr (bs, m', q) \<and> mgr_ok others m' q \<and> blocks q = blocks p
    \<and> extended rid (new_cost rid n m) m bs m' \<and> distinct bs \<and> set bs \<subseteq> free_set p - free_set q \<and> free_set q \<subseteq> free_set p
    \<and> get_num_free_blocks p - new_cost rid n m \<le> get_num_free_blocks q"
proof (cases "cdiv n (m_block_size m) \<le> int (length (table_of rid m))")
  case True
  then show ?thesis
    using mgr_ok_enter [OF ok, of rid] extended_none [of rid m] tables_okD(1) [OF mgr_okD(2) [OF ok]]
    by (simp add: allocate_new_blocks_def new_cost_def max_def)
next
  case False
  then have n: "new_cost rid n m = cdiv n (m_block_size m) - int (length (table_of rid m))" "0 \<le> new_cost rid n m"
    by (simp_all add: new_cost_def)
  obtain bs q where "get_new_blocks (new_cost rid n m) p = Inr (bs, q)" "mgr_ok others (extend_table rid bs m) q" "blocks q = blocks p"
    "extended rid (new_cost rid n m) m bs (extend_table rid bs m)" "distinct bs" "set bs \<subseteq> free_set p - free_set q" "free_set q \<subseteq> free_set p"
    "get_num_free_blocks q = get_num_free_blocks p - new_cost rid n m"
    by (rule extend_takes [OF ok n(2) fit])
  then show ?thesis
    using False tables_okD(1) [OF mgr_okD(2) [OF ok]] by (simp add: allocate_new_blocks_def n(1))
qed

interpretation new_blocks: manager_take
  "\<lambda>_ m. allocate_new_blocks rid (if attention m = CrossAttention then enc else n) m" "\<lambda>_ _ _. True"
  "\<lambda>_ m _. new_cost rid (slot_tokens n enc m) m" "\<lambda>_ m bs m'. extended rid (new_cost rid (slot_tokens n enc m) m) m bs m'" "\<lambda>bs. bs"
  for rid n enc
  by unfold_locales (use new_takes in \<open>simp_all add: slot_tokens_def new_cost_def\<close>)

text \<open>The blocks of tokens computed elsewhere, when some of them are not skipped.\<close>

definition external :: "int \<Rightarrow> int \<Rightarrow> kv_manager \<Rightarrow> int" where
  "external nl ne m =
     (let s = skipped (attention m) (nl + ne) in if s > 0 then min (nl + ne - s) ne else ne)"

definition ext_cost :: "string \<Rightarrow> int \<Rightarrow> int \<Rightarrow> kv_manager \<Rightarrow> int" where
  "ext_cost rid nl ne m =
     (if attention m = CrossAttention \<or> external nl ne m \<le> 0 then 0
      else max 0 (cdiv (nl + ne) (m_block_size m) - int (length (table_of rid m))))"

definition ext_pre :: "string \<Rightarrow> int \<Rightarrow> kv_manager \<Rightarrow> bool" where
  "ext_pre rid tot m \<longleftrightarrow> attention m = CrossAttention \<or> int (length (table_of rid m)) \<le> cdiv tot (m_block_size m)"

lemma extended_nil: "extended rid 0 m [] m"
  by (simp add: extended_def)

lemma ext_takes:
  assumes ok: "mgr_ok others m p" and pre: "ext_pre rid (nl + ne) m" and fit: "ext_cost rid nl ne m \<le> get_num_free_blocks p"
  shows "\<exists>bs m' q. allocate_external_computed_blocks rid nl ne m p = Inr (m', q) \<and> mgr_ok others m' q \<and> blocks q = blocks p
    \<and> extended rid (ext_cost rid nl ne m) m bs m' \<and> free_set q \<subseteq> free_set p
    \<and> get_num_free_blocks p - ext_cost rid nl ne m \<le> get_num_free_blocks q"
proof (cases "attention m = CrossAttention \<or> external nl ne m \<le> 0")
  case True
  have "allocate_external_computed_blocks rid nl ne m p = Inr (m, p)"
    using True tables_okD(2) [OF mgr_okD(2) [OF ok]]
    by (auto simp: allocate_external_computed_blocks_def external_def Let_def)
  then show ?thesis using True ok extended_nil [of rid m] by (auto simp: ext_cost_def)
next
  case False
  have n: "ext_cost rid nl ne m = cdiv (nl + ne) (m_block_size m) - int (length (table_of rid m))" "0 \<le> ext_cost rid nl ne m"
    using False pre by (simp_all add: ext_cost_def ext_pre_def)
  obtain bs q where q: "get_new_blocks (ext_cost rid nl ne m) p = Inr (bs, q)" "mgr_ok others (extend_table rid bs m) q" "blocks q = blocks p"
    "extended rid (ext_cost rid nl ne m) m bs (extend_table rid bs m)" "distinct bs" "set bs \<subseteq> free_set p - free_set q" "free_set q \<subseteq> free_set p"
    "get_num_free_blocks q = get_num_free_blocks p - ext_cost rid nl ne m"
    by (rule extend_takes [OF ok n(2) fit])
  have "allocate_external_computed_blocks rid nl ne m p = Inr (extend_table rid bs m, q)"
    using False tables_okD(1,2) [OF mgr_okD(2) [OF ok]] q(1)
    by (auto simp: allocate_external_computed_blocks_def external_def Let_def n(1) split: if_splits)
  then show ?thesis using q by (intro exI [of _ bs]) simp
qed

interpretation external_blocks: manager_take "\<lambda>_ m p. no_result (allocate_external_computed_blocks rid nl ne m p)"
  "\<lambda>_ m _. ext_pre rid (nl + ne) m" "\<lambda>_ m _. ext_cost rid nl ne m"
  "\<lambda>_ m x m'. \<exists>bs. extended rid (ext_cost rid nl ne m) m bs m'" "\<lambda>_. []"
  for rid nl ne
proof unfold_locales
  fix others m p
  assume "mgr_ok others m p" "ext_pre rid (nl + ne) m" "ext_cost rid nl ne m \<le> get_num_free_blocks p"
  from ext_takes [OF this] show "\<exists>x m' q. no_result (allocate_external_computed_blocks rid nl ne m p) = Inr (x, m', q)
      \<and> mgr_ok others m' q \<and> blocks q = blocks p \<and> (\<exists>bs. extended rid (ext_cost rid nl ne m) m bs m') \<and> distinct []
      \<and> set [] \<subseteq> free_set p - free_set q \<and> free_set q \<subseteq> free_set p
      \<and> get_num_free_blocks p - ext_cost rid nl ne m \<le> get_num_free_blocks q"
    by (elim exE conjE) auto
qed (simp_all add: ext_cost_def)

end
