(* ===== verification/KvRelease.thy ===== *)
theory KvRelease
  imports KvTake
begin

text \<open>
  The operations of a manager that give blocks back or leave them: each succeeds, keeps the invariant and
  loses no free block.
\<close>

section \<open>The interface\<close>

locale manager_release =
  fixes f :: "'a \<Rightarrow> kv_manager \<Rightarrow> block_pool \<Rightarrow> ('b \<times> kv_manager \<times> block_pool) result"
    and post :: "'a \<Rightarrow> kv_manager \<Rightarrow> 'b \<Rightarrow> kv_manager \<Rightarrow> bool"
  assumes release: "mgr_ok others m p \<Longrightarrow>
      \<exists>x m' q. f a m p = Inr (x, m', q) \<and> mgr_ok others m' q \<and> blocks q = blocks p \<and> post a m x m' \<and> free_set p \<subseteq> free_set q"
begin

theorem each_release:
  assumes "mgrs_ok others ms p" and "length as = length ms"
  shows "\<exists>xs ms' q. each_manager f as ms p = Inr (xs, ms', q) \<and> mgrs_ok others ms' q \<and> blocks q = blocks p
    \<and> length xs = length ms \<and> length ms' = length ms \<and> (\<forall>i<length ms. post (as ! i) (ms ! i) (xs ! i) (ms' ! i))
    \<and> free_set p \<subseteq> free_set q"
  using assms
proof (induction as ms arbitrary: others p rule: list_induct2')
  case (4 a as m ms)
  let ?o = "\<lambda>b. others b + occs ms b"
  obtain x m' q where x: "f a m p = Inr (x, m', q)" "mgr_ok ?o m' q" "blocks q = blocks p" "post a m x m'" "free_set p \<subseteq> free_set q"
    using release [OF mgrs_ok_Cons [OF "4.prems"(1)], of a] by (elim exE conjE) (rule that)
  have len: "length as = length ms" using "4.prems"(2) by simp
  obtain xs ms' r where r: "each_manager f as ms q = Inr (xs, ms', r)" "mgrs_ok (\<lambda>b. others b + occ m' b) ms' r" "blocks r = blocks q"
    "length xs = length ms" "length ms' = length ms" "\<forall>i<length ms. post (as ! i) (ms ! i) (xs ! i) (ms' ! i)" "free_set q \<subseteq> free_set r"
    using "4.IH" [OF mgrs_ok_tail [OF "4.prems"(1) x(2,3)] len] by (elim exE conjE) (rule that)
  have ok: "mgrs_ok others (m' # ms') r"
    using mgrs_ok_join [OF r(2)] mgr_okD(2) [OF x(2)] "4.prems"(1) r(3) by (simp add: mgrs_ok_def)
  have post: "\<forall>i<length (m # ms). post ((a # as) ! i) ((m # ms) ! i) ((x # xs) ! i) ((m' # ms') ! i)"
    using x(4) r(6) by (auto simp: less_Suc_eq_0_disj)
  show ?case
    apply (rule exI [of _ "x # xs"], rule exI [of _ "m' # ms'"], rule exI [of _ r])
    using x r ok post by auto
qed auto

end

section \<open>Freeing\<close>

lemma freed_blocks:
  assumes inv: "pool_inv p" and sub: "set bs \<subseteq> set (blocks p)"
    and refs: "\<forall>b\<in>set bs. b \<noteq> Block 0 \<longrightarrow> int (count_list bs b) \<le> ref_cnt (blk p b)"
  obtains q where "free_blocks bs p = Inr q" "pool_inv q" "blocks q = blocks p" "owned q = owned p"
    "\<forall>c. ref_cnt (blk q c) = ref_cnt (blk p c) - int (count_list bs c)" "free_set p \<subseteq> free_set q"
proof -
  have "alloc_inv p" using inv by (simp add: pool_inv_def)
  then obtain fs where fs: "queue_rep (free_block_queue p) fs" by (rule alloc_inv_free)
  obtain q where q: "free_blocks bs p = Inr q" "pool_inv q" "blocks q = blocks p" "owned q = owned p"
    "\<forall>c. ref_cnt (blk q c) = ref_cnt (blk p c) - int (count_list bs c)"
    using free_blocks_spec [OF inv sub refs fs] by (elim exE conjE) (rule that)
  have "ref_cnt (blk q b) = 0" if "b \<in> set (blocks p)" "b \<noteq> Block 0" "ref_cnt (blk p b) = 0" for b
    using q(5) refs that count_list_0_iff [of bs b] by (cases "b \<in> set bs") fastforce+
  then have "free_set p \<subseteq> free_set q"
    by (auto simp: free_set_refs [OF inv] free_set_refs [OF q(2)] q(3))
  then show ?thesis using that q by blast
qed

lemma table_refs:
  assumes "mgr_ok others m p" and "b \<in> set (blocks p)" and "b \<noteq> Block 0"
  shows "int (count_list (table_of rid m) b) \<le> ref_cnt (blk p b)"
proof -
  have "0 \<le> others b" and "ref_cnt (blk p b) = others b + occ m b"
    using mgr_okD(3) [OF assms(1)] assms(2,3) by (simp_all add: refs_ok_def)
  then show ?thesis using table_le_occ [OF tables_okD(3) [OF mgr_okD(2) [OF assms(1)]], of rid b] by linarith
qed

text \<open>Removing the table of a request is the same as emptying it, up to the entry itself.\<close>

lemma pop_table:
  assumes "dict_ok (req_to_blocks m)"
  shows "occ (snd (pop_blocks_for_free rid m)) b = occ m b - int (count_list (table_of rid m) b)"
    and "table_of rid' (snd (pop_blocks_for_free rid m)) = (if rid' = rid then [] else table_of rid' m)"
  using assms sum_vals_pop [OF assms, of "\<lambda>t. int (count_list t b)" rid]
  by (auto simp: occ_def pop_blocks_for_free_def table_of_def split: option.splits simp del: map_map)

lemma pop_tables_ok:
  assumes "tables_ok m B"
  shows "tables_ok (snd (pop_blocks_for_free rid m)) B"
proof -
  note t = tables_okD [OF assms]
  note p = pop_table(2) [OF t(3), of _ rid]
  have "m_block_size (snd (pop_blocks_for_free rid m)) = m_block_size m" "attention (snd (pop_blocks_for_free rid m)) = attention m"
    "dict_ok (req_to_blocks (snd (pop_blocks_for_free rid m)))"
    "\<And>rid' n. dict_get (num_cached_block (snd (pop_blocks_for_free rid m))) rid' = Some n \<Longrightarrow> 0 \<le> n"
    using t(3,6) by (auto simp: pop_blocks_for_free_def split: if_splits)
  then show ?thesis using assms p by (auto simp: tables_ok_def once_def)
qed

lemma pop_only_table:
  assumes "tables_ok m B"
  shows "only_table rid m (snd (pop_blocks_for_free rid m))"
  using pop_table(2) [OF tables_okD(3) [OF assms], of _ rid] by (simp add: only_table_def config_def pop_blocks_for_free_def)

lemma free_releases:
  assumes ok: "mgr_ok others m p"
  shows "\<exists>m' q. manager_free rid m p = Inr (m', q) \<and> mgr_ok others m' q \<and> blocks q = blocks p
    \<and> (only_table rid m m' \<and> table_of rid m' = []) \<and> free_set p \<subseteq> free_set q"
proof -
  note d = mgr_okD [OF ok]
  note t = tables_okD [OF d(2)]
  let ?t = "table_of rid m" and ?m = "snd (pop_blocks_for_free rid m)"
  have cnt: "count_list (rev ?t) b = count_list ?t b" for b by (induction ?t) auto
  have "set (rev ?t) \<subseteq> set (blocks p)" using t(4) by simp
  moreover have "\<forall>b\<in>set (rev ?t). b \<noteq> Block 0 \<longrightarrow> int (count_list (rev ?t) b) \<le> ref_cnt (blk p b)"
    using table_refs [OF ok] t(4) cnt by auto
  ultimately obtain q where q: "free_blocks (rev ?t) p = Inr q" "pool_inv q" "blocks q = blocks p" "owned q = owned p"
    "\<forall>c. ref_cnt (blk q c) = ref_cnt (blk p c) - int (count_list (rev ?t) c)" "free_set p \<subseteq> free_set q"
    by (rule freed_blocks [OF d(1)])
  have "refs_ok others ?m q"
    using d(3) q(3,5) pop_table(1) [OF t(3), of rid] cnt by (auto simp: refs_ok_def)
  then have "mgr_ok others ?m q" using pop_tables_ok [OF d(2)] q by (simp add: mgr_ok_def)
  moreover have "manager_free rid m p = Inr (?m, q)"
    using q(1) by (simp add: manager_free_def pop_blocks_for_free_def)
  ultimately show ?thesis
    using q pop_only_table [OF d(2)] pop_table(2) [OF t(3), of rid rid] by (intro exI [of _ ?m] exI [of _ q]) simp
qed

interpretation free_tables: manager_release "\<lambda>_ m p. no_result (manager_free rid m p)"
  "\<lambda>_ m x m'. only_table rid m m' \<and> table_of rid m' = []" for rid
proof unfold_locales
  fix others m p
  assume "mgr_ok others m p"
  from free_releases [OF this, of rid] show "\<exists>x m' q. no_result (manager_free rid m p) = Inr (x, m', q) \<and> mgr_ok others m' q
      \<and> blocks q = blocks p \<and> (only_table rid m m' \<and> table_of rid m' = []) \<and> free_set p \<subseteq> free_set q"
    by (elim exE conjE) simp
qed

section \<open>Skipped blocks\<close>

lemma count_list_update:
  "i < length xs \<Longrightarrow> b \<noteq> y \<Longrightarrow> count_list (xs[i := y]) b + of_bool (xs ! i = b) = count_list xs b"
proof (induction xs arbitrary: i)
  case (Cons x xs)
  then show ?case by (cases i) fastforce+
qed simp

lemma null_out_spec:
  assumes "\<forall>i\<in>set is. i < length t" and "null_out is nb t = (freed, t')"
  shows "length t' = length t" "nb \<notin> set freed" "set t' \<subseteq> insert nb (set t)"
    "\<forall>b. b \<noteq> nb \<longrightarrow> count_list t' b + count_list freed b = count_list t b"
proof -
  have "length t' = length t \<and> nb \<notin> set freed \<and> set t' \<subseteq> insert nb (set t)
    \<and> (\<forall>b. b \<noteq> nb \<longrightarrow> count_list t' b + count_list freed b = count_list t b)"
    using assms
  proof (induction "is" arbitrary: t freed)
    case (Cons i "is")
    show ?case
    proof (cases "t ! i = nb")
      case False
      obtain fr t2 where r: "null_out is nb (t[i := nb]) = (fr, t2)" by fastforce
      then have e: "t2 = t'" "freed = t ! i # fr" using Cons.prems(2) False by simp_all
      note ih = Cons.IH [OF _ r [unfolded e(1)]]
      have i: "i < length t" "\<forall>j\<in>set is. j < length (t[i := nb])" using Cons.prems(1) by simp_all
      have sub: "set (t[i := nb]) \<subseteq> insert nb (set t)" by (rule set_update_subset_insert)
      have cnt: "count_list t' b + count_list freed b = count_list t b" if "b \<noteq> nb" for b
      proof -
        have "count_list t' b + count_list fr b = count_list (t[i := nb]) b" using ih [OF i(2)] that by simp
        then show ?thesis using count_list_update [OF i(1) that] e(2) by auto
      qed
      have "set t' \<subseteq> insert nb (set t)" using ih [OF i(2)] sub by blast
      then show ?thesis using ih [OF i(2)] e(2) False cnt by simp
    qed (use Cons.prems in \<open>simp add: subset_insertI\<close>)
  qed (simp add: subset_insertI)
  then show "length t' = length t" "nb \<notin> set freed" "set t' \<subseteq> insert nb (set t)"
    "\<forall>b. b \<noteq> nb \<longrightarrow> count_list t' b + count_list freed b = count_list t b" by simp_all
qed

text \<open>Blocks may be replaced by the null block, the slots stay.\<close>

definition slots_kept :: "string \<Rightarrow> kv_manager \<Rightarrow> kv_manager \<Rightarrow> bool" where
  "slots_kept rid m m' \<longleftrightarrow> only_table rid m m' \<and> length (table_of rid m') = length (table_of rid m)
     \<and> num_cached_block m' = num_cached_block m"

lemma slots_kept_refl [simp]: "slots_kept rid m m"
  by (simp add: slots_kept_def)

lemma range_releases:
  assumes ok: "mgr_ok others m p"
  shows "\<exists>m' q. remove_blocks_in_range rid i j m p = Inr (m', q) \<and> mgr_ok others m' q \<and> blocks q = blocks p
    \<and> slots_kept rid m m' \<and> free_set p \<subseteq> free_set q"
proof (cases "dict_get (req_to_blocks m) rid = None \<or> i \<ge> j")
  case True
  then show ?thesis using ok by (auto simp: remove_blocks_in_range_def)
next
  case False
  note d = mgr_okD [OF ok]
  note t = tables_okD [OF d(2)]
  let ?t = "table_of rid m" and ?is = "rev [nat i..<nat (min j (int (length (table_of rid m))))]"
  have null: "null_block p = Block 0" "Block 0 \<in> set (blocks p)"
    using d(1) by (auto simp: pool_inv_def alloc_inv_def)
  obtain freed t' where n: "null_out ?is (Block 0) ?t = (freed, t')" by fastforce
  have "\<forall>i\<in>set ?is. i < length ?t" by auto
  note s = null_out_spec [OF this n]
  have le: "count_list freed b \<le> count_list ?t b" if "b \<noteq> Block 0" for b using s(4) that by (metis le_add2)
  have "b \<in> set ?t" if "b \<in> set freed" for b
    using le [of b] s(2) that count_list_0_iff [of freed b] count_list_0_iff [of ?t b] by fastforce
  then have sub: "set freed \<subseteq> set (blocks p)" using t(4) by blast
  have refs: "\<forall>b\<in>set freed. b \<noteq> Block 0 \<longrightarrow> int (count_list freed b) \<le> ref_cnt (blk p b)"
    using table_refs [OF ok, of _ rid] le sub by (meson of_nat_mono order_trans subsetD)
  have "\<exists>q. (if freed \<noteq> [] then free_blocks freed p else Inr p) = Inr q \<and> pool_inv q \<and> blocks q = blocks p
    \<and> (\<forall>c. ref_cnt (blk q c) = ref_cnt (blk p c) - int (count_list freed c)) \<and> free_set p \<subseteq> free_set q"
  proof (cases "freed = []")
    case False
    obtain q where "free_blocks freed p = Inr q" "pool_inv q" "blocks q = blocks p" "owned q = owned p"
      "\<forall>c. ref_cnt (blk q c) = ref_cnt (blk p c) - int (count_list freed c)" "free_set p \<subseteq> free_set q"
      by (rule freed_blocks [OF d(1) sub refs])
    then show ?thesis using False by (intro exI [of _ q]) simp
  qed (use d(1) in simp)
  then obtain q where q: "(if freed \<noteq> [] then free_blocks freed p else Inr p) = Inr q" "pool_inv q" "blocks q = blocks p"
    "\<forall>c. ref_cnt (blk q c) = ref_cnt (blk p c) - int (count_list freed c)" "free_set p \<subseteq> free_set q"
    by (elim exE conjE)
  have "mgr_ok others (set_table rid t' m) q"
  proof (rule mgr_ok_set [OF ok q(2,3)])
    show "set t' \<subseteq> set (blocks p)" using s(3) t(4) null(2) by blast
    show "once t'" using t(5) s(4) unfolding once_def by (metis le_add1 le_trans)
    show "ref_cnt (blk q b) = ref_cnt (blk p b) - int (count_list ?t b) + int (count_list t' b)" if "b \<noteq> Block 0" for b
      using q(4) s(4) [rule_format, OF that] by simp
  qed
  moreover have "remove_blocks_in_range rid i j m p = Inr (set_table rid t' m, q)"
    using False n q(1) by (auto simp: remove_blocks_in_range_def Let_def null)
  ultimately show ?thesis using q s(1) by (intro exI [of _ "set_table rid t' m"] exI [of _ q]) (simp add: slots_kept_def)
qed

lemma enter_only [simp]: "only_table rid m (enter_table rid m)" "table_of rid' (enter_table rid m) = table_of rid' m"
  by (auto simp: enter_table_def)

lemma skipped_releases:
  assumes ok: "mgr_ok others m p"
  shows "\<exists>m' q. remove_skipped_blocks rid n np m p = Inr (m', q) \<and> mgr_ok others m' q \<and> blocks q = blocks p
    \<and> slots_kept rid m m' \<and> free_set p \<subseteq> free_set q"
proof -
  note t = tables_okD [OF mgr_okD(2) [OF ok]]
  show ?thesis
  proof (cases "\<exists>w k. attention m = RSWA w \<and> np = Some k")
    case True
    then show ?thesis using range_releases [OF ok, of rid] t(1) by (auto simp: remove_skipped_blocks_def)
  next
    case False
    then have eq: "remove_skipped_blocks rid n np m p =
       (if skipped (attention m) n \<le> 0 then Inr (m, p)
        else remove_blocks_in_range rid 0 (min (skipped_blocks m n) (int (length (table_of rid m)))) (enter_table rid m) p)"
      using t(1,2) by (auto simp: remove_skipped_blocks_def Let_def skipped_blocks_def split: attention.splits option.splits)
    show ?thesis
    proof (cases "skipped (attention m) n \<le> 0")
      case True
      then show ?thesis using eq ok by simp
    next
      case False
      obtain m' q where "remove_blocks_in_range rid 0 (min (skipped_blocks m n) (int (length (table_of rid m)))) (enter_table rid m) p = Inr (m', q)"
        "mgr_ok others m' q" "blocks q = blocks p" "slots_kept rid (enter_table rid m) m'" "free_set p \<subseteq> free_set q"
        using range_releases [OF mgr_ok_enter [OF ok, of rid], of rid 0 "min (skipped_blocks m n) (int (length (table_of rid m)))"] by (elim exE conjE) (rule that)
      then show ?thesis
        using eq False only_table_trans [OF enter_only(1), of rid m m']
        by (intro exI [of _ m'] exI [of _ q]) (simp add: slots_kept_def enter_table_def)
    qed
  qed
qed

interpretation skip_blocks: manager_release "\<lambda>_ m p. no_result (remove_skipped_blocks rid n np m p)"
  "\<lambda>_ m x m'. slots_kept rid m m'" for rid n np
proof unfold_locales
  fix others m p
  assume "mgr_ok others m p"
  from skipped_releases [OF this, of rid n np] show "\<exists>x m' q. no_result (remove_skipped_blocks rid n np m p) = Inr (x, m', q)
      \<and> mgr_ok others m' q \<and> blocks q = blocks p
      \<and> slots_kept rid m m' \<and> free_set p \<subseteq> free_set q"
    by (elim exE conjE) simp
qed

end
