(* ===== verification/KvAlloc.thy ===== *)
theory KvAlloc
  imports KvRelease
begin

text \<open>
  \<^verbatim>\<open>allocate_slots\<close>: the number of blocks predicted for a request covers what the three stages of the
  allocation take, so that a call that passes the check never fails.
\<close>

section \<open>The prediction\<close>

definition evictable :: "block_ref list \<Rightarrow> block_ref set \<Rightarrow> int" where
  "evictable bs F = int (length (filter (\<lambda>b. b \<in> F) bs))"

definition need :: "string \<Rightarrow> int \<Rightarrow> int \<Rightarrow> int \<Rightarrow> block_ref list \<Rightarrow> kv_manager \<Rightarrow> block_ref set \<Rightarrow> int" where
  "need rid n enc tot bs m F =
     (let len = int (length (table_of rid m)); req = cdiv (slot_tokens n enc m) (m_block_size m);
          sb = (if attention m = CrossAttention then 0 else skipped_blocks m tot);
          hit = (if attention m = CrossAttention then [] else bs)
      in if dict_get (num_cached_block m) rid \<noteq> None then max (req - len) 0
         else max (req - max sb (int (length hit) + len)) 0 + evictable (drop (nat (max 0 (sb - len))) hit) F)"

lemma evictable_eq:
  assumes "set bs \<subseteq> set (blocks p)"
  shows "get_num_evictable_blocks p bs = evictable bs (free_set p)"
  using assms unfolding get_num_evictable_blocks_def evictable_def free_set_def
  by (intro arg_cong [where f = int] arg_cong [where f = length] filter_cong) auto

lemma skipped_0: "kind_ok a \<Longrightarrow> skipped a 0 = 0"
  using skipped_bounds [of a 0] by simp

definition query :: "string \<Rightarrow> int \<Rightarrow> int \<Rightarrow> int \<Rightarrow> bool \<Rightarrow> block_ref list \<Rightarrow> kv_manager \<Rightarrow> block_pool
    \<Rightarrow> (int \<times> kv_manager \<times> block_pool) result" where
  "query rid n enc tot cap bs m p =
     res_bind (if attention m = CrossAttention then get_num_blocks_to_allocate rid enc [] 0 cap m p
               else get_num_blocks_to_allocate rid n bs tot cap m p) (\<lambda>k. Inr (k, m, p))"

definition hit_ok :: "string \<Rightarrow> block_ref list \<Rightarrow> kv_manager \<Rightarrow> block_ref set \<Rightarrow> bool" where
  "hit_ok rid bs m B \<longleftrightarrow> (if attention m = CrossAttention then bs = [] else set bs \<subseteq> B)
     \<and> (dict_get (num_cached_block m) rid \<noteq> None \<longrightarrow> bs = [])"

lemma query_eq:
  assumes "tables_ok m (set (blocks p))" and "hit_ok rid bs m (set (blocks p))"
  shows "query rid n enc tot False bs m p = Inr (need rid n enc tot bs m (free_set p), m, p)"
    and "\<exists>k. query rid n enc tot True bs m p = Inr (k, m, p)"
proof -
  note t = tables_okD(1,2) [OF assms(1)]
  have sub: "attention m \<noteq> CrossAttention \<Longrightarrow> set (drop k bs) \<subseteq> set (blocks p)" for k
    using assms(2) set_drop_subset [of k bs] by (auto simp: hit_ok_def)
  show "query rid n enc tot False bs m p = Inr (need rid n enc tot bs m (free_set p), m, p)"
    using t assms(2) evictable_eq [OF sub] evictable_eq [of "[]" p] skipped_0 [OF t(2)]
    by (auto simp: query_def need_def get_num_blocks_to_allocate_def Let_def slot_tokens_def hit_ok_def skipped_blocks_def
        split: option.splits)
  show "\<exists>k. query rid n enc tot True bs m p = Inr (k, m, p)"
    using t assms(2)
    by (auto simp: query_def get_num_blocks_to_allocate_def Let_def hit_ok_def split: option.splits)
qed

lemma each_query:
  assumes "length as = length ms" and "\<And>i. i < length ms \<Longrightarrow> \<exists>k. f (as ! i) (ms ! i) p = Inr (k, ms ! i, p)"
  shows "\<exists>ks. each_manager f as ms p = Inr (ks, ms, p) \<and> length ks = length ms
    \<and> (\<forall>i<length ms. f (as ! i) (ms ! i) p = Inr (ks ! i, ms ! i, p))"
  using assms
proof (induction as ms rule: list_induct2)
  case (Cons a as m ms)
  obtain k where k: "f a m p = Inr (k, m, p)" using Cons.prems [of 0] by auto
  obtain ks where ks: "each_manager f as ms p = Inr (ks, ms, p)" "length ks = length ms"
    "\<forall>i<length ms. f (as ! i) (ms ! i) p = Inr (ks ! i, ms ! i, p)"
    using Cons.IH Cons.prems [of "Suc _"] by auto
  show ?case
    using k ks by (intro exI [of _ "k # ks"]) (auto simp: less_Suc_eq_0_disj)
qed simp

lemma costs_sum: "length as = length ms \<Longrightarrow> costs c as ms F = (\<Sum>i<length ms. c (as ! i) (ms ! i) F)"
  by (induction as ms rule: list_induct2) (simp_all add: sum.lessThan_Suc_shift del: sum.lessThan_Suc)

definition hits_ok :: "string \<Rightarrow> block_ref list list \<Rightarrow> kv_manager list \<Rightarrow> block_ref set \<Rightarrow> bool" where
  "hits_ok rid bss ms B \<longleftrightarrow> length bss = length ms \<and> (\<forall>i<length ms. hit_ok rid (bss ! i) (ms ! i) B)"

lemma coord_need:
  assumes ok: "mgrs_ok others (managers c) (c_pool c)" and hits: "hits_ok rid bss (managers c) (set (blocks (c_pool c)))"
  shows "coord_get_num_blocks_to_allocate rid n bss enc tot False c
      = Inr (costs (need rid n enc tot) bss (managers c) (free_set (c_pool c)))"
    and "\<exists>k. coord_get_num_blocks_to_allocate rid n bss enc tot True c = Inr k"
proof -
  have len: "length bss = length (managers c)" using hits by (simp add: hits_ok_def)
  have t: "tables_ok (managers c ! i) (set (blocks (c_pool c)))" "hit_ok rid (bss ! i) (managers c ! i) (set (blocks (c_pool c)))"
    if "i < length (managers c)" for i
    using ok hits that by (auto simp: mgrs_ok_def hits_ok_def)
  have eq: "coord_get_num_blocks_to_allocate rid n bss enc tot cap c =
      res_bind (each_manager (query rid n enc tot cap) bss (managers c) (c_pool c)) (\<lambda>(ns, _, _). Inr (sum_list ns))" for cap
    by (simp add: coord_get_num_blocks_to_allocate_def query_def [abs_def])
  obtain ks where ks: "each_manager (query rid n enc tot False) bss (managers c) (c_pool c) = Inr (ks, managers c, c_pool c)"
    "length ks = length (managers c)"
    "\<forall>i<length (managers c). query rid n enc tot False (bss ! i) (managers c ! i) (c_pool c) = Inr (ks ! i, managers c ! i, c_pool c)"
    using each_query [OF len, of "query rid n enc tot False" "c_pool c"] query_eq(1) [OF t] by auto
  have "ks ! i = need rid n enc tot (bss ! i) (managers c ! i) (free_set (c_pool c))" if "i < length (managers c)" for i
    using ks(3) [rule_format, OF that] query_eq(1) [OF t [OF that], of n enc tot] by simp
  then have "sum_list ks = costs (need rid n enc tot) bss (managers c) (free_set (c_pool c))"
    using ks(2) by (simp add: costs_sum [OF len] sum_list_sum_nth atLeast0LessThan)
  then show "coord_get_num_blocks_to_allocate rid n bss enc tot False c
      = Inr (costs (need rid n enc tot) bss (managers c) (free_set (c_pool c)))" by (simp add: eq ks(1))
  show "\<exists>k. coord_get_num_blocks_to_allocate rid n bss enc tot True c = Inr k"
    using each_query [OF len, of "query rid n enc tot True" "c_pool c"] query_eq(2) [OF t] by (auto simp: eq)
qed

section \<open>The three stages\<close>

text \<open>
  A request enters with its prefix hit, or it runs: it has no hit, and its slots cover its computed tokens.
\<close>

definition enters :: "string \<Rightarrow> int \<Rightarrow> int \<Rightarrow> block_ref list \<Rightarrow> kv_manager \<Rightarrow> block_ref set \<Rightarrow> bool" where
  "enters rid nl ne bs m B \<longleftrightarrow> table_of rid m = [] \<and> dict_get (num_cached_block m) rid = None
     \<and> local_pre rid (nl + ne) bs m B \<and> int (length bs) * m_block_size m \<le> nl"

definition runs :: "string \<Rightarrow> int \<Rightarrow> block_ref list \<Rightarrow> kv_manager \<Rightarrow> bool" where
  "runs rid nl bs m \<longleftrightarrow> bs = [] \<and> (attention m \<noteq> CrossAttention \<longrightarrow> nl \<le> int (length (table_of rid m)) * m_block_size m)"

lemma local_length:
  assumes "local_post rid tot bs m m'" and "attention m \<noteq> CrossAttention" and "0 \<le> skipped_blocks m tot"
  shows "int (length (table_of rid m')) = max (skipped_blocks m tot) (int (length bs))"
  using assms by (auto simp: local_post_def Let_def)

lemma entering_cost:
  assumes t: "tables_ok m B" and e: "enters rid nl ne bs m B" and p: "0 \<le> nl" "0 \<le> ne" "nl + ne \<le> n"
    and m1: "local_post rid (nl + ne) bs m m1" and m2: "extended rid (ext_cost rid nl ne m1) m1 xs m2"
  shows "ext_pre rid (nl + ne) m1"
    and "local_cost (nl + ne) bs m F + ext_cost rid nl ne m1 + new_cost rid (slot_tokens n enc m2) m2 = need rid n enc (nl + ne) bs m F"
proof -
  have c1: "config m1 = config m" and c2: "config m2 = config m1" using m1 m2 by (auto simp: local_post_def extended_def only_table_def)
  note c = config_eqD [OF c1] config_eqD [OF c2]
  have new: "table_of rid m = []" "dict_get (num_cached_block m) rid = None" using e by (auto simp: enters_def)
  note bs = tables_okD(1) [OF t]
  have "ext_pre rid (nl + ne) m1 \<and>
    local_cost (nl + ne) bs m F + ext_cost rid nl ne m1 + new_cost rid (slot_tokens n enc m2) m2 = need rid n enc (nl + ne) bs m F"
  proof (cases "attention m = CrossAttention")
    case True
    then have "bs = []" "m1 = m" using e m1 by (auto simp: enters_def local_pre_def local_post_def)
    moreover from this have "table_of rid m2 = table_of rid m" using m2 True by (simp add: ext_cost_def extended_def)
    ultimately show ?thesis
      using True new c by (simp add: ext_pre_def local_cost_def ext_cost_def new_cost_def need_def slot_tokens_def Let_def evictable_def)
  next
    case False
    let ?tot = "cdiv (nl + ne) (m_block_size m)" and ?n = "cdiv n (m_block_size m)"
    note sb = skipped_blocks_bounds [OF t, of "nl + ne"]
    have len1: "int (length (table_of rid m1)) = max (skipped_blocks m (nl + ne)) (int (length bs))"
      using local_length [OF m1 False] sb(1) p by simp
    have "skipped_blocks m (nl + ne) * m_block_size m \<le> ?tot * m_block_size m" "int (length bs) * m_block_size m \<le> ?tot * m_block_size m"
      using sb(2) p e cdiv_bounds(1) [OF bs, of "nl + ne"] by (auto simp: enters_def)
    then have le: "int (length (table_of rid m1)) \<le> ?tot" using bs len1 by simp
    have tn: "?tot \<le> ?n" by (rule cdiv_mono [OF bs p(3)])
    have len2: "int (length (table_of rid m2)) = int (length (table_of rid m1)) + ext_cost rid nl ne m1"
      using m2 by (auto simp: extended_def)
    have sum: "ext_cost rid nl ne m1 + max 0 (?n - int (length (table_of rid m2))) = max 0 (?n - int (length (table_of rid m1)))"
      using le tn len2 False c by (auto simp: ext_cost_def)
    show ?thesis
      using False new le sum len1 c sb(1) p
      by (simp add: ext_pre_def local_cost_def new_cost_def need_def slot_tokens_def Let_def evictable_def max.commute)
  qed
  then show "ext_pre rid (nl + ne) m1"
    "local_cost (nl + ne) bs m F + ext_cost rid nl ne m1 + new_cost rid (slot_tokens n enc m2) m2 = need rid n enc (nl + ne) bs m F" by simp_all
qed

lemma running_cost:
  assumes t: "tables_ok m B" and r: "runs rid nl bs m" and nl: "0 \<le> nl"
  shows "new_cost rid (slot_tokens n enc m) m = need rid n enc nl bs m F"
proof (cases "attention m = CrossAttention")
  case True
  then show ?thesis using r by (simp add: new_cost_def need_def slot_tokens_def Let_def evictable_def runs_def max.commute)
next
  case False
  note bs = tables_okD(1) [OF t]
  have "skipped_blocks m nl * m_block_size m \<le> int (length (table_of rid m)) * m_block_size m"
    using skipped_blocks_bounds(2) [OF t nl] r False by (simp add: runs_def)
  then have "skipped_blocks m nl \<le> int (length (table_of rid m))" using bs by simp
  then show ?thesis using False r by (simp add: new_cost_def need_def slot_tokens_def Let_def evictable_def runs_def max.commute)
qed

text \<open>What a successful allocation gives: slots for the tokens, and new blocks that were free.\<close>

definition allocated :: "string \<Rightarrow> int \<Rightarrow> int \<Rightarrow> kv_coordinator \<Rightarrow> block_ref list list \<Rightarrow> kv_coordinator \<Rightarrow> bool" where
  "allocated rid n enc c news c' \<longleftrightarrow> length news = length (managers c) \<and> length (managers c') = length (managers c)
     \<and> blocks (c_pool c') = blocks (c_pool c)
     \<and> (\<forall>i<length (managers c). let m = managers c ! i; m' = managers c' ! i in only_table rid m m'
          \<and> (\<exists>old. table_of rid m' = old @ news ! i)
          \<and> slot_tokens n enc m \<le> int (length (table_of rid m')) * m_block_size m)
     \<and> distinct (concat news) \<and> set (concat news) \<subseteq> free_set (c_pool c)"

abbreviation coord_ok :: "(block_ref \<Rightarrow> int) \<Rightarrow> kv_coordinator \<Rightarrow> bool" where
  "coord_ok others c \<equiv> mgrs_ok others (managers c) (c_pool c)"

lemma extended_covers:
  assumes "extended rid (new_cost rid n m) m bs m'" and "0 < m_block_size m"
  shows "n \<le> int (length (table_of rid m')) * m_block_size m"
proof -
  have "cdiv n (m_block_size m) \<le> int (length (table_of rid m'))"
    using assms(1) by (auto simp: extended_def new_cost_def)
  then show ?thesis using cdiv_le_iff [OF assms(2)] by simp
qed

lemma new_stage:
  assumes ok: "coord_ok others c" and fit: "costs (\<lambda>_ m _. new_cost rid (slot_tokens n enc m) m) (per_group c) (managers c) (free_set (c_pool c))
      \<le> get_num_free_blocks (c_pool c)"
  obtains news c' where "coord_allocate_new_blocks rid n enc c = Inr (news, c')" "coord_ok others c'" "allocated rid n enc c news c'"
proof -
  have len: "length (per_group c) = length (managers c)" by (simp add: per_group_def)
  have pre: "list_all2 (\<lambda>_ _. True) (per_group c) (managers c)" using len by (simp add: list_all2_conv_all_nth)
  obtain xs ms q where r: "each_manager (\<lambda>_ m. allocate_new_blocks rid (if attention m = CrossAttention then enc else n) m)
      (per_group c) (managers c) (c_pool c) = Inr (xs, ms, q)" "mgrs_ok others ms q" "blocks q = blocks (c_pool c)"
    "length xs = length (managers c)" "length ms = length (managers c)"
    "\<forall>i<length (managers c). extended rid (new_cost rid (slot_tokens n enc (managers c ! i)) (managers c ! i)) (managers c ! i) (xs ! i) (ms ! i)"
    "distinct (concat (map (\<lambda>x. x) xs))" "set (concat (map (\<lambda>x. x) xs)) \<subseteq> free_set (c_pool c) - free_set q"
    using new_blocks.each_take [OF ok len pre fit] by (elim exE conjE) (rule that)
  have pos: "0 < m_block_size (managers c ! i)" if "i < length (managers c)" for i
    using tables_okD(1) [OF mgrs_tables [OF ok that]] .
  have "allocated rid n enc c xs (c\<lparr>managers := ms, c_pool := q\<rparr>)"
    using r extended_covers [OF r(6) [rule_format]] pos by (auto simp: allocated_def Let_def extended_def)
  moreover have "coord_allocate_new_blocks rid n enc c = Inr (xs, c\<lparr>managers := ms, c_pool := q\<rparr>)"
    by (simp add: coord_allocate_new_blocks_def with_managers_def r(1))
  ultimately show ?thesis using that r(2) by simp
qed

text \<open>The stages of a request that enters: its hits, its external tokens.\<close>

lemma hit_stage:
  assumes ok: "coord_ok others c" and len: "length bss = length (managers c)"
    and pre: "\<And>i. i < length (managers c) \<Longrightarrow> local_pre rid (nl + ne) (bss ! i) (managers c ! i) (set (blocks (c_pool c)))"
    and fit: "costs (local_cost (nl + ne)) bss (managers c) (free_set (c_pool c)) \<le> get_num_free_blocks (c_pool c)"
  obtains xs c' where
    "with_managers (\<lambda>bs m p. no_result (add_local_computed_blocks rid bs nl ne m p)) bss c = Inr (xs, c')" "coord_ok others c'"
    "blocks (c_pool c') = blocks (c_pool c)" "length (managers c') = length (managers c)"
    "\<forall>i<length (managers c). local_post rid (nl + ne) (bss ! i) (managers c ! i) (managers c' ! i)"
    "free_set (c_pool c') \<subseteq> free_set (c_pool c)"
    "get_num_free_blocks (c_pool c) - costs (local_cost (nl + ne)) bss (managers c) (free_set (c_pool c)) \<le> get_num_free_blocks (c_pool c')"
proof -
  have "list_all2 (\<lambda>bs m. local_pre rid (nl + ne) bs m (set (blocks (c_pool c)))) bss (managers c)"
    using pre len by (simp add: list_all2_conv_all_nth)
  from hit_blocks.each_take [OF ok len this fit] obtain xs ms q where
    "each_manager (\<lambda>bs m p. no_result (add_local_computed_blocks rid bs nl ne m p)) bss (managers c) (c_pool c) = Inr (xs, ms, q)"
    "mgrs_ok others ms q" "blocks q = blocks (c_pool c)" "length ms = length (managers c)"
    "\<forall>i<length (managers c). local_post rid (nl + ne) (bss ! i) (managers c ! i) (ms ! i)" "free_set q \<subseteq> free_set (c_pool c)"
    "get_num_free_blocks (c_pool c) - costs (local_cost (nl + ne)) bss (managers c) (free_set (c_pool c)) \<le> get_num_free_blocks q"
    by (elim exE conjE)
  then show ?thesis using that [of xs "c\<lparr>managers := ms, c_pool := q\<rparr>"] by (simp add: with_managers_def)
qed

lemma external_stage:
  assumes ok: "coord_ok others c" and pre: "\<And>i. i < length (managers c) \<Longrightarrow> ext_pre rid (nl + ne) (managers c ! i)"
    and fit: "(\<Sum>i<length (managers c). ext_cost rid nl ne (managers c ! i)) \<le> get_num_free_blocks (c_pool c)"
  obtains xs c' where
    "with_managers (\<lambda>_ m p. no_result (allocate_external_computed_blocks rid nl ne m p)) (per_group c) c = Inr (xs, c')" "coord_ok others c'"
    "blocks (c_pool c') = blocks (c_pool c)" "length (managers c') = length (managers c)"
    "\<forall>i<length (managers c). \<exists>bs. extended rid (ext_cost rid nl ne (managers c ! i)) (managers c ! i) bs (managers c' ! i)"
    "free_set (c_pool c') \<subseteq> free_set (c_pool c)"
    "get_num_free_blocks (c_pool c) - (\<Sum>i<length (managers c). ext_cost rid nl ne (managers c ! i)) \<le> get_num_free_blocks (c_pool c')"
proof -
  have len: "length (per_group c) = length (managers c)" by (simp add: per_group_def)
  have all: "list_all2 (\<lambda>_ m. ext_pre rid (nl + ne) m) (per_group c) (managers c)"
    using pre len by (simp add: list_all2_conv_all_nth)
  note sum = costs_sum [OF len, of "\<lambda>_ m _. ext_cost rid nl ne m"]
  obtain xs ms q where
    "each_manager (\<lambda>_ m p. no_result (allocate_external_computed_blocks rid nl ne m p)) (per_group c) (managers c) (c_pool c) = Inr (xs, ms, q)"
    "mgrs_ok others ms q" "blocks q = blocks (c_pool c)" "length ms = length (managers c)"
    "\<forall>i<length (managers c). \<exists>bs. extended rid (ext_cost rid nl ne (managers c ! i)) (managers c ! i) bs (ms ! i)" "free_set q \<subseteq> free_set (c_pool c)"
    "get_num_free_blocks (c_pool c) - (\<Sum>i<length (managers c). ext_cost rid nl ne (managers c ! i)) \<le> get_num_free_blocks q"
    using external_blocks.each_take [OF ok len all fit [folded sum [of "free_set (c_pool c)"]]] unfolding sum
    by (elim exE conjE) (rule that)
  then show ?thesis using that [of xs "c\<lparr>managers := ms, c_pool := q\<rparr>"] by (simp add: with_managers_def)
qed

text \<open>The predicted number of blocks is enough for all stages.\<close>

definition slots_ok :: "string \<Rightarrow> int \<Rightarrow> int \<Rightarrow> block_ref list list \<Rightarrow> kv_coordinator \<Rightarrow> bool" where
  "slots_ok rid nl ne bss c \<longleftrightarrow> 0 \<le> nl \<and> 0 \<le> ne \<and> length bss = length (managers c) \<and>
     (if (\<exists>bs\<in>set bss. bs \<noteq> []) \<or> ne > 0
      then \<forall>i<length (managers c). enters rid nl ne (bss ! i) (managers c ! i) (set (blocks (c_pool c)))
      else \<forall>i<length (managers c). runs rid nl (bss ! i) (managers c ! i))"

lemma slots_ok_hits: "slots_ok rid nl ne bss c \<Longrightarrow> hits_ok rid bss (managers c) (set (blocks (c_pool c)))"
  by (auto simp: slots_ok_def hits_ok_def hit_ok_def enters_def runs_def local_pre_def split: if_splits)

lemma extended_exists: "0 \<le> k \<Longrightarrow> \<exists>bs m'. extended rid k m bs m'"
  by (intro exI [of _ "replicate (nat k) (Block 0)"] exI [of _ "extend_table rid (replicate (nat k) (Block 0)) m"])
    (simp add: extended_def)

lemma ext_cost_nonneg: "0 \<le> ext_cost rid nl ne m"
  by (simp add: ext_cost_def)

lemma new_cost_nonneg: "0 \<le> new_cost rid n m"
  by (simp add: new_cost_def)

lemma ext_cost_0: "ext_cost rid nl 0 m = 0"
  by (simp add: ext_cost_def external_def Let_def)

lemma entering_parts:
  assumes "tables_ok m B" and "enters rid nl ne bs m B" and "0 \<le> nl" "0 \<le> ne" "nl + ne \<le> n"
    and "local_post rid (nl + ne) bs m m1"
  shows "ext_pre rid (nl + ne) m1" and "local_cost (nl + ne) bs m F + ext_cost rid nl ne m1 \<le> need rid n enc (nl + ne) bs m F"
proof -
  obtain xs m2 where "extended rid (ext_cost rid nl ne m1) m1 xs m2"
    using extended_exists [OF ext_cost_nonneg] by blast
  note c = entering_cost [OF assms this]
  show "ext_pre rid (nl + ne) m1" by (rule c(1))
  show "local_cost (nl + ne) bs m F + ext_cost rid nl ne m1 \<le> need rid n enc (nl + ne) bs m F"
    using c(2) [of F enc] new_cost_nonneg [of rid "slot_tokens n enc m2" m2] by linarith
qed

lemma local_le_need:
  assumes "tables_ok m B" and "enters rid nl ne bs m B" and "0 \<le> nl" "0 \<le> ne"
  shows "local_cost (nl + ne) bs m F \<le> need rid n enc (nl + ne) bs m F"
  using skipped_blocks_bounds(1) [OF assms(1), of "nl + ne"] assms(2-4)
  by (auto simp: local_cost_def need_def enters_def Let_def evictable_def)

definition external_step :: "string \<Rightarrow> int \<Rightarrow> int \<Rightarrow> kv_coordinator \<Rightarrow> kv_coordinator result" where
  "external_step rid nl ne c =
     (if ne > 0 then res_bind (with_managers (\<lambda>_ m p. no_result (allocate_external_computed_blocks rid nl ne m p)) (per_group c) c)
        (\<lambda>(_, c2). Inr c2)
      else Inr c)"

lemma external_step_ok:
  assumes ok: "coord_ok others c" and ne: "0 \<le> ne" and pre: "\<And>i. i < length (managers c) \<Longrightarrow> ext_pre rid (nl + ne) (managers c ! i)"
    and fit: "(\<Sum>i<length (managers c). ext_cost rid nl ne (managers c ! i)) \<le> get_num_free_blocks (c_pool c)"
  obtains c' where "external_step rid nl ne c = Inr c'" "coord_ok others c'"
    "blocks (c_pool c') = blocks (c_pool c)" "length (managers c') = length (managers c)"
    "\<forall>i<length (managers c). \<exists>bs. extended rid (ext_cost rid nl ne (managers c ! i)) (managers c ! i) bs (managers c' ! i)"
    "free_set (c_pool c') \<subseteq> free_set (c_pool c)"
    "get_num_free_blocks (c_pool c) - (\<Sum>i<length (managers c). ext_cost rid nl ne (managers c ! i)) \<le> get_num_free_blocks (c_pool c')"
proof (cases "ne > 0")
  case True
  obtain xs c' where "with_managers (\<lambda>_ m p. no_result (allocate_external_computed_blocks rid nl ne m p)) (per_group c) c = Inr (xs, c')"
    "coord_ok others c'" "blocks (c_pool c') = blocks (c_pool c)" "length (managers c') = length (managers c)"
    "\<forall>i<length (managers c). \<exists>bs. extended rid (ext_cost rid nl ne (managers c ! i)) (managers c ! i) bs (managers c' ! i)"
    "free_set (c_pool c') \<subseteq> free_set (c_pool c)"
    "get_num_free_blocks (c_pool c) - (\<Sum>i<length (managers c). ext_cost rid nl ne (managers c ! i)) \<le> get_num_free_blocks (c_pool c')"
    by (rule external_stage [OF ok pre fit])
  then show ?thesis using that [of c'] True by (simp add: external_step_def)
next
  case False
  then have "ne = 0" using ne by simp
  then show ?thesis using that [of c] ok extended_nil by (simp add: external_step_def ext_cost_0) blast
qed

lemma first_stages:
  assumes ok: "coord_ok others c" and p: "0 \<le> nl" "0 \<le> ne" "nl + ne \<le> n" "length bss = length (managers c)"
    and e: "\<forall>i<length (managers c). enters rid nl ne (bss ! i) (managers c ! i) (set (blocks (c_pool c)))"
    and fit: "costs (need rid n enc (nl + ne)) bss (managers c) (free_set (c_pool c)) \<le> get_num_free_blocks (c_pool c)"
  obtains c' where "coord_allocate_new_computed_blocks rid bss nl ne c = Inr c'" "coord_ok others c'"
    "blocks (c_pool c') = blocks (c_pool c)" "length (managers c') = length (managers c)"
    "\<forall>i<length (managers c). only_table rid (managers c ! i) (managers c' ! i)" "free_set (c_pool c') \<subseteq> free_set (c_pool c)"
    "(\<Sum>i<length (managers c). new_cost rid (slot_tokens n enc (managers c' ! i)) (managers c' ! i)) \<le> get_num_free_blocks (c_pool c')"
proof -
  let ?ms = "managers c" and ?F = "free_set (c_pool c)"
  let ?local = "\<lambda>i. local_cost (nl + ne) (bss ! i) (?ms ! i) ?F" and ?need = "\<lambda>i. need rid n enc (nl + ne) (bss ! i) (?ms ! i) ?F"
  note t = mgrs_tables [OF ok]
  note e = e [rule_format]
  have pre: "local_pre rid (nl + ne) (bss ! i) (?ms ! i) (set (blocks (c_pool c)))" if "i < length ?ms" for i
    using e [OF that] by (simp add: enters_def)
  have fit0: "(\<Sum>i<length ?ms. ?need i) \<le> get_num_free_blocks (c_pool c)" using fit by (simp add: costs_sum [OF p(4)])
  have "(\<Sum>i<length ?ms. ?local i) \<le> (\<Sum>i<length ?ms. ?need i)"
    by (rule sum_mono) (simp add: local_le_need [OF t e p(1,2)])
  then have fit1: "costs (local_cost (nl + ne)) bss ?ms ?F \<le> get_num_free_blocks (c_pool c)" using fit0 by (simp add: costs_sum [OF p(4)])
  obtain xs c1 where c1: "with_managers (\<lambda>bs m p. no_result (add_local_computed_blocks rid bs nl ne m p)) bss c = Inr (xs, c1)"
    "coord_ok others c1" "blocks (c_pool c1) = blocks (c_pool c)" "length (managers c1) = length ?ms"
    "\<forall>i<length ?ms. local_post rid (nl + ne) (bss ! i) (?ms ! i) (managers c1 ! i)" "free_set (c_pool c1) \<subseteq> ?F"
    "get_num_free_blocks (c_pool c) - costs (local_cost (nl + ne)) bss ?ms ?F \<le> get_num_free_blocks (c_pool c1)"
    by (rule hit_stage [OF ok p(4) pre fit1])
  note post = c1(5) [rule_format]
  note parts = entering_parts [OF t e p(1-3) post]
  let ?ext = "\<lambda>i. ext_cost rid nl ne (managers c1 ! i)"
  have free1: "get_num_free_blocks (c_pool c) - (\<Sum>i<length ?ms. ?local i) \<le> get_num_free_blocks (c_pool c1)"
    using c1(7) by (simp add: costs_sum [OF p(4)])
  have "(\<Sum>i<length ?ms. ?local i + ?ext i) \<le> (\<Sum>i<length ?ms. ?need i)" by (rule sum_mono) (simp add: parts(2))
  then have fit2: "(\<Sum>i<length (managers c1). ?ext i) \<le> get_num_free_blocks (c_pool c1)"
    using free1 fit0 by (simp add: sum.distrib c1(4))
  have pre1: "ext_pre rid (nl + ne) (managers c1 ! i)" if "i < length (managers c1)" for i
    using parts(1) that by (simp add: c1(4))
  obtain c2 where c2: "external_step rid nl ne c1 = Inr c2" "coord_ok others c2" "blocks (c_pool c2) = blocks (c_pool c1)"
    "length (managers c2) = length (managers c1)" "\<forall>i<length (managers c1). \<exists>bs. extended rid (?ext i) (managers c1 ! i) bs (managers c2 ! i)"
    "free_set (c_pool c2) \<subseteq> free_set (c_pool c1)"
    "get_num_free_blocks (c_pool c1) - (\<Sum>i<length (managers c1). ?ext i) \<le> get_num_free_blocks (c_pool c2)"
    by (rule external_step_ok [OF c1(2) p(2) pre1 fit2])
  let ?new = "\<lambda>i. new_cost rid (slot_tokens n enc (managers c2 ! i)) (managers c2 ! i)"
  have cost: "?local i + ?ext i + ?new i = ?need i" if i: "i < length ?ms" for i
  proof -
    obtain bs where "extended rid (?ext i) (managers c1 ! i) bs (managers c2 ! i)" using c2(5) i c1(4) by auto
    from entering_cost(2) [OF t [OF i] e [OF i] p(1-3) post [OF i] this] show ?thesis .
  qed
  have "(\<Sum>i<length ?ms. ?local i + ?ext i + ?new i) = (\<Sum>i<length ?ms. ?need i)" by (rule sum.cong) (simp_all add: cost)
  then have fit3: "(\<Sum>i<length ?ms. ?new i) \<le> get_num_free_blocks (c_pool c2)"
    using free1 fit0 c2(7) by (simp add: sum.distrib c1(4))
  have only: "only_table rid (?ms ! i) (managers c2 ! i)" if i: "i < length ?ms" for i
  proof -
    obtain bs where "extended rid (?ext i) (managers c1 ! i) bs (managers c2 ! i)" using c2(5) i c1(4) by auto
    then show ?thesis using post [OF i] only_table_trans [of rid "?ms ! i" "managers c1 ! i" "managers c2 ! i"]
      by (simp add: local_post_def extended_def)
  qed
  have "\<not> list_ex (\<lambda>m. dict_get (num_cached_block m) rid \<noteq> None) ?ms"
    using e by (auto simp: list_ex_iff in_set_conv_nth enters_def)
  then have "coord_allocate_new_computed_blocks rid bss nl ne c = Inr c2"
    using c1(1) c2(1) by (simp add: coord_allocate_new_computed_blocks_def external_step_def)
  then show ?thesis using that c2 c1 only fit3 by simp
qed

text \<open>All stages of a call whose prediction fits.\<close>

lemma allocated_later:
  assumes "allocated rid n enc c1 news c2" and "length (managers c1) = length (managers c)" and "blocks (c_pool c1) = blocks (c_pool c)"
    and "\<forall>i<length (managers c). only_table rid (managers c ! i) (managers c1 ! i)" and "free_set (c_pool c1) \<subseteq> free_set (c_pool c)"
  shows "allocated rid n enc c news c2"
proof -
  have "slot_tokens n enc (managers c1 ! i) = slot_tokens n enc (managers c ! i)" "m_block_size (managers c1 ! i) = m_block_size (managers c ! i)"
    if "i < length (managers c)" for i
    using assms(4) that config_eqD [of "managers c1 ! i" "managers c ! i"] by (auto simp: only_table_def slot_tokens_def)
  then show ?thesis
    using assms by (auto simp: allocated_def Let_def intro: only_table_trans)
qed

lemma take_blocks_ok:
  assumes ok: "coord_ok others (coordinator k)" and slots: "slots_ok (request_id r) nl ne bss (coordinator k)"
    and a: "bss = computed_list a k" "ne = num_external_computed_tokens a" "nl + ne \<le> n"
    and fit: "costs (need (request_id r) n (num_encoder_tokens a) (nl + ne)) bss (managers (coordinator k)) (free_set (pool k))
      \<le> get_num_free_blocks (pool k)"
  obtains news c' where "take_blocks r a nl n k = Inr (news, k\<lparr>coordinator := c'\<rparr>)" "coord_ok others c'"
    "allocated (request_id r) n (num_encoder_tokens a) (coordinator k) news c'"
proof -
  let ?c = "coordinator k" and ?rid = "request_id r" and ?enc = "num_encoder_tokens a"
  have s: "0 \<le> nl" "0 \<le> ne" "length bss = length (managers ?c)" using slots by (auto simp: slots_ok_def)
  have len: "length (per_group c) = length (managers c)" for c by (simp add: per_group_def)
  show ?thesis
  proof (cases "(\<exists>bs\<in>set bss. bs \<noteq> []) \<or> ne > 0")
    case True
    then have e: "\<forall>i<length (managers ?c). enters ?rid nl ne (bss ! i) (managers ?c ! i) (set (blocks (pool k)))"
      using slots by (auto simp: slots_ok_def)
    obtain c1 where c1: "coord_allocate_new_computed_blocks ?rid bss nl ne ?c = Inr c1" "coord_ok others c1"
      "blocks (c_pool c1) = blocks (pool k)" "length (managers c1) = length (managers ?c)"
      "\<forall>i<length (managers ?c). only_table ?rid (managers ?c ! i) (managers c1 ! i)" "free_set (c_pool c1) \<subseteq> free_set (pool k)"
      "(\<Sum>i<length (managers ?c). new_cost ?rid (slot_tokens n ?enc (managers c1 ! i)) (managers c1 ! i)) \<le> get_num_free_blocks (c_pool c1)"
      by (rule first_stages [OF ok s(1,2) a(3) s(3) e fit])
    have "costs (\<lambda>_ m _. new_cost ?rid (slot_tokens n ?enc m) m) (per_group c1) (managers c1) (free_set (c_pool c1)) \<le> get_num_free_blocks (c_pool c1)"
      using c1(4,7) by (simp add: costs_sum [OF len])
    then obtain news c2 where c2: "coord_allocate_new_blocks ?rid n ?enc c1 = Inr (news, c2)" "coord_ok others c2"
      "allocated ?rid n ?enc c1 news c2" by (rule new_stage [OF c1(2)])
    show ?thesis
      using that [OF _ c2(2) allocated_later [OF c2(3) c1(4,3,5,6)]] True c1(1) c2(1) a by (auto simp: take_blocks_def list_ex_iff)
  next
    case False
    have runs: "runs ?rid nl (bss ! i) (managers ?c ! i)" if "i < length (managers ?c)" for i
      using slots False that by (auto simp: slots_ok_def)
    have ne: "ne = 0" using False s(2) by simp
    have "new_cost ?rid (slot_tokens n ?enc (managers ?c ! i)) (managers ?c ! i) = need ?rid n ?enc (nl + ne) (bss ! i) (managers ?c ! i) (free_set (pool k))"
      if "i < length (managers ?c)" for i
      using running_cost [OF mgrs_tables [OF ok that] runs [OF that] s(1)] ne by simp
    then have "costs (\<lambda>_ m _. new_cost ?rid (slot_tokens n ?enc m) m) (per_group ?c) (managers ?c) (free_set (pool k)) \<le> get_num_free_blocks (pool k)"
      using fit by (simp add: costs_sum [OF len] costs_sum [OF s(3)])
    then obtain news c2 where c2: "coord_allocate_new_blocks ?rid n ?enc ?c = Inr (news, c2)" "coord_ok others c2"
      "allocated ?rid n ?enc ?c news c2" by (rule new_stage [OF ok])
    show ?thesis
      using that [OF _ c2(2,3)] False c2(1) a by (auto simp: take_blocks_def list_ex_iff)
  qed
qed

end
