(* ===== verification/KvSlots.thy ===== *)
theory KvSlots
  imports KvAlloc TmhPolicySpec
begin

text \<open>
  The stages of \<^verbatim>\<open>allocate_slots\<close> in order. Without caching of new blocks a well-formed call never fails; in
  every case a call that returns has declined, or has handed out free blocks.
\<close>

section \<open>The steps before the allocation\<close>

lemma skip_stage:
  assumes ok: "coord_ok others c"
  obtains c' where "coord_remove_skipped_blocks rid n np c = Inr c'" "coord_ok others c'" "blocks (c_pool c') = blocks (c_pool c)"
    "length (managers c') = length (managers c)" "\<forall>i<length (managers c). slots_kept rid (managers c ! i) (managers c' ! i)"
    "free_set (c_pool c) \<subseteq> free_set (c_pool c')" "c_kind c' = c_kind c"
proof -
  have len: "length (per_group c) = length (managers c)" by (simp add: per_group_def)
  obtain xs ms q where "each_manager (\<lambda>_ m p. no_result (remove_skipped_blocks rid n np m p)) (per_group c) (managers c) (c_pool c) = Inr (xs, ms, q)"
    "mgrs_ok others ms q" "blocks q = blocks (c_pool c)" "length ms = length (managers c)"
    "\<forall>i<length (managers c). slots_kept rid (managers c ! i) (ms ! i)" "free_set (c_pool c) \<subseteq> free_set q"
    using skip_blocks.each_release [OF ok len, of rid n np] by (elim exE conjE) (rule that)
  then show ?thesis
    using that [of "c\<lparr>managers := ms, c_pool := q\<rparr>"] by (simp add: coord_remove_skipped_blocks_def with_managers_def)
qed

lemma slots_ok_kept:
  assumes s: "slots_ok rid nl ne bss c" and c: "blocks (c_pool c') = blocks (c_pool c)" "length (managers c') = length (managers c)"
    and kept: "\<forall>i<length (managers c). slots_kept rid (managers c ! i) (managers c' ! i)"
  shows "slots_ok rid nl ne bss c'"
proof -
  have e: "config (managers c' ! i) = config (managers c ! i)" "length (table_of rid (managers c' ! i)) = length (table_of rid (managers c ! i))"
    "num_cached_block (managers c' ! i) = num_cached_block (managers c ! i)" if "i < length (managers c)" for i
    using kept that by (auto simp: slots_kept_def only_table_def)
  have "enters rid nl ne (bss ! i) (managers c' ! i) B = enters rid nl ne (bss ! i) (managers c ! i) B"
    "runs rid nl (bss ! i) (managers c' ! i) = runs rid nl (bss ! i) (managers c ! i)" if "i < length (managers c)" for i B
    using e [OF that] config_eqD [OF e(1) [OF that]] by (auto simp: enters_def runs_def local_pre_def)
  then show ?thesis using s c by (simp add: slots_ok_def)
qed

text \<open>The policy never stops an allocation when all its layers carry a value head size.\<close>

definition policy_total :: "tmh_policy \<Rightarrow> bool" where
  "policy_total pol \<longleftrightarrow> (policy_enabled pol \<and> layers pol \<noteq> [] \<longrightarrow>
     page_tokens pol \<noteq> 0 \<and> layers pol = early_layers pol @ late_layers pol \<and> (\<forall>l\<in>set (layers pol). ls_head_size_v l \<noteq> None))"

lemma pressure_recorded:
  assumes "policy_total (k_policy k)"
  obtains pol where "record_tmh_pressure r n k = Inr (k\<lparr>k_policy := pol\<rparr>)"
    "policy_enabled (k_policy k) \<longrightarrow> (\<exists>pr. record_allocation (blk (pool k)) (request_id r) n (num_prompt_tokens r)
       (coord_get_blocks (request_id r) (coordinator k)) (k_policy k) = Inr (pr, pol))"
    "\<not> policy_enabled (k_policy k) \<longrightarrow> pol = k_policy k"
proof (cases "policy_enabled (k_policy k)")
  case True
  let ?rec = "record_allocation (blk (pool k)) (request_id r) n (num_prompt_tokens r) (coord_get_blocks (request_id r) (coordinator k)) (k_policy k)"
  have "\<exists>pr pol. ?rec = Inr (pr, pol)"
  proof (cases "layers (k_policy k) = []")
    case False
    then show ?thesis
      using record_allocation_total [OF True False] assms True unfolding policy_total_def by metis
  qed (simp add: record_allocation_def)
  then obtain pr pol where "?rec = Inr (pr, pol)" by blast
  then show ?thesis using that [of pol] True by (simp add: record_tmh_pressure_def)
next
  case False
  then show ?thesis using that [of "k_policy k"] by (simp add: record_tmh_pressure_def)
qed

section \<open>The call\<close>

abbreviation local_tokens :: "request \<Rightarrow> slot_args \<Rightarrow> int" where
  "local_tokens r a \<equiv> num_computed_tokens r + num_new_computed_tokens a"

definition need_slots :: "request \<Rightarrow> slot_args \<Rightarrow> kv_cache \<Rightarrow> int" where
  "need_slots r a k = min (local_tokens r a + num_external_computed_tokens a + num_new_tokens a + num_lookahead_tokens a) (k_max_model_len k)"

definition call_ok :: "request \<Rightarrow> slot_args \<Rightarrow> kv_cache \<Rightarrow> bool" where
  "call_ok r a k \<longleftrightarrow> (num_new_tokens a \<noteq> 0 \<or> num_external_computed_tokens a \<noteq> 0)
     \<and> 0 \<le> num_new_tokens a \<and> 0 \<le> num_lookahead_tokens a \<and> 0 \<le> reserved_blocks a \<and> 0 \<le> watermark_blocks k
     \<and> local_tokens r a + num_external_computed_tokens a \<le> k_max_model_len k
     \<and> slots_ok (request_id r) (local_tokens r a) (num_external_computed_tokens a) (computed_list a k) (coordinator k)"

text \<open>What a call leaves of the other requests, and what it does for its own.\<close>

definition declined :: "string \<Rightarrow> kv_coordinator \<Rightarrow> kv_coordinator \<Rightarrow> bool" where
  "declined rid c c' \<longleftrightarrow> blocks (c_pool c') = blocks (c_pool c) \<and> free_set (c_pool c) \<subseteq> free_set (c_pool c') \<and> length (managers c') = length (managers c)
     \<and> (\<forall>i<length (managers c). slots_kept rid (managers c ! i) (managers c' ! i))"

definition granted :: "string \<Rightarrow> int \<Rightarrow> int \<Rightarrow> kv_coordinator \<Rightarrow> block_ref list list \<Rightarrow> kv_coordinator \<Rightarrow> bool" where
  "granted rid n enc c news c' \<longleftrightarrow> blocks (c_pool c') = blocks (c_pool c) \<and> length news = length (managers c) \<and> length (managers c') = length (managers c)
     \<and> (\<forall>i<length (managers c). let m = managers c ! i; m' = managers c' ! i in only_table rid m m'
          \<and> (\<exists>old. table_of rid m' = old @ news ! i)
          \<and> slot_tokens n enc m \<le> int (length (table_of rid m')) * m_block_size m)
     \<and> distinct (concat news)
     \<and> (\<forall>b\<in>set (concat news). b \<noteq> Block 0 \<and> (\<forall>m\<in>set (managers c). \<forall>rid'. rid' \<noteq> rid \<longrightarrow> b \<notin> set (table_of rid' m)))"

lemma free_in_no_table:
  assumes "mgrs_ok others ms p" and "b \<in> free_set p" and "m \<in> set ms"
  shows "b \<notin> set (table_of rid m)" "b \<noteq> Block 0"
proof -
  obtain xs ys where ms: "ms = xs @ m # ys" using split_list [OF assms(3)] by blast
  have "occs ms b = occs (xs @ ys) b + occ m b" for b by (simp add: ms occs_def)
  then have "mgr_ok (\<lambda>b. others b + occs (xs @ ys) b) m p"
    using assms(1,3) occs_nonneg by (auto simp: mgrs_ok_def mgr_ok_def refs_ok_def)
  from free_not_held(3,4) [OF this assms(2)] show "b \<notin> set (table_of rid m)" "b \<noteq> Block 0" .
qed

lemma free_held_by_none:
  assumes "mgrs_ok others ms p" and "b \<in> free_set p"
  shows "others b = 0"
  using assms occs_nonneg [of ms b] by (auto simp: mgrs_ok_def free_set_refs add_nonneg_eq_0_iff)

lemma granted_after_skip:
  assumes ok: "coord_ok others c1" and al: "allocated rid n enc c1 news c2" and len: "blocks (c_pool c1) = blocks (c_pool c)" "length (managers c1) = length (managers c)"
    and kept: "\<forall>i<length (managers c). slots_kept rid (managers c ! i) (managers c1 ! i)"
  shows "granted rid n enc c news c2"
proof -
  have only: "only_table rid (managers c ! i) (managers c1 ! i)" if "i < length (managers c)" for i
    using kept that by (simp add: slots_kept_def)
  have cfg: "slot_tokens n enc (managers c1 ! i) = slot_tokens n enc (managers c ! i)" "m_block_size (managers c1 ! i) = m_block_size (managers c ! i)"
    if "i < length (managers c)" for i
    using only [OF that] config_eqD [of "managers c1 ! i" "managers c ! i"] by (auto simp: only_table_def slot_tokens_def)
  have "b \<noteq> Block 0 \<and> (\<forall>m\<in>set (managers c). \<forall>rid'. rid' \<noteq> rid \<longrightarrow> b \<notin> set (table_of rid' m))" if b: "b \<in> set (concat news)" for b
  proof -
    have free: "b \<in> free_set (c_pool c1)" using al b by (auto simp: allocated_def)
    have "b \<notin> set (table_of rid' (managers c ! i))" if i: "i < length (managers c)" "rid' \<noteq> rid" for i rid'
      using free_in_no_table(1) [OF ok free, of "managers c1 ! i" rid'] only [OF i(1)] i len by (auto simp: only_table_def)
    moreover have "b \<noteq> Block 0"
      using free mgrs_ok_def ok free_set_refs by auto
    ultimately show ?thesis by (metis in_set_conv_nth)
  qed
  moreover have "only_table rid (managers c ! i) (managers c2 ! i)" if "i < length (managers c)" for i
    using only_table_trans [OF only [OF that]] al len that by (simp add: allocated_def Let_def)
  ultimately show ?thesis
    using al len cfg by (simp add: allocated_def granted_def Let_def)
qed

lemma fits_total:
  assumes "coord_ok others (coordinator k)" and "call_ok r a k"
  shows "\<exists>b. full_sequence_fits r a n k = Inr b"
proof -
  have "hits_ok (request_id r) (computed_list a k) (managers (coordinator k)) (set (blocks (pool k)))"
    using assms(2) by (intro slots_ok_hits) (auto simp: call_ok_def)
  from coord_need(2) [OF assms(1) this] show ?thesis by (auto simp: full_sequence_fits_def) (metis res_bind_simps(2))
qed

text \<open>What remains once the blocks are taken: caching, and the record of the pressure.\<close>

definition publish ::
  "(bytes \<Rightarrow> bytes) \<Rightarrow> request \<Rightarrow> slot_args \<Rightarrow> int \<Rightarrow> block_ref list list \<Rightarrow> kv_cache \<Rightarrow> (block_ref list list option \<times> request \<times> kv_cache) result" where
  "publish sha256 r a main news k =
     (if \<not> k_enable_caching k \<or> delay_cache_blocks a
      then res_bind (record_tmh_pressure r main k) (\<lambda>k3. Inr (Some news, r, k3))
      else res_bind (coord_cache_blocks sha256 r (min main (num_tokens r)) (coordinator k)) (\<lambda>(r1, c3).
        res_bind (record_tmh_pressure r1 main (k\<lparr>coordinator := c3\<rparr>)) (\<lambda>k3. Inr (Some news, r1, k3))))"

lemma with_managers_kind: "with_managers f as c = Inr (xs, c') \<Longrightarrow> c_kind c' = c_kind c"
  by (auto simp: with_managers_def res_bind_Inr_iff)

lemma computed_kind: "coord_allocate_new_computed_blocks rid bss nl ne c = Inr c' \<Longrightarrow> c_kind c' = c_kind c"
  by (auto simp: coord_allocate_new_computed_blocks_def res_bind_Inr_iff split: if_splits dest!: with_managers_kind)

lemma take_blocks_kind:
  assumes "take_blocks r a nl n k = Inr (news, k')"
  shows "c_kind (coordinator k') = c_kind (coordinator k)"
  using assms
  by (auto simp: take_blocks_def coord_allocate_new_blocks_def res_bind_Inr_iff split: if_splits
      dest!: with_managers_kind computed_kind)

lemma allocate_slots_cases:
  assumes ok: "coord_ok others (coordinator k)" and call: "call_ok r a k"
  obtains (declines) c' where "allocate_slots sha256 r a k = Inr (None, r, k\<lparr>coordinator := c'\<rparr>)" "coord_ok others c'"
      "declined (request_id r) (coordinator k) c'" "c_kind c' = c_kind (coordinator k)"
  | (grants) news c' where "allocate_slots sha256 r a k = publish sha256 r a
        (local_tokens r a + num_external_computed_tokens a + num_new_tokens a) news (k\<lparr>coordinator := c'\<rparr>)"
      "coord_ok others c'" "granted (request_id r) (need_slots r a k) (num_encoder_tokens a) (coordinator k) news c'"
      "c_kind c' = c_kind (coordinator k)" "\<forall>b\<in>set (concat news). others b = 0"
proof -
  let ?c = "coordinator k" and ?rid = "request_id r" and ?nl = "local_tokens r a" and ?ne = "num_external_computed_tokens a"
  let ?n = "need_slots r a k" and ?enc = "num_encoder_tokens a" and ?bss = "computed_list a k"
  have a: "num_new_tokens a \<noteq> 0 \<or> ?ne \<noteq> 0" "?nl + ?ne \<le> k_max_model_len k" "slots_ok ?rid ?nl ?ne ?bss ?c"
    "0 \<le> num_new_tokens a" "0 \<le> num_lookahead_tokens a" "0 \<le> reserved_blocks a" "0 \<le> watermark_blocks k"
    using call by (auto simp: call_ok_def)
  have tot: "min (?nl + ?ne) (k_max_model_len k) = ?nl + ?ne" using a(2) by simp
  have le: "?nl + ?ne \<le> ?n" using a by (simp add: need_slots_def)
  obtain fits where fits: "full_sequence_fits r a (?nl + ?ne) k = Inr fits" using fits_total [OF ok call] by blast
  show ?thesis
  proof (cases fits)
    case False
    then have "allocate_slots sha256 r a k = Inr (None, r, k\<lparr>coordinator := ?c\<rparr>)" using a(1) fits tot by (simp add: allocate_slots_def Let_def)
    then show ?thesis using ok by (rule declines) (simp_all add: declined_def)
  next
    case True
    obtain c1 where c1: "coord_remove_skipped_blocks ?rid (?nl + ?ne) (Some (num_prompt_tokens r)) ?c = Inr c1" "coord_ok others c1"
      "blocks (c_pool c1) = blocks (pool k)" "length (managers c1) = length (managers ?c)"
      "\<forall>i<length (managers ?c). slots_kept ?rid (managers ?c ! i) (managers c1 ! i)" "free_set (pool k) \<subseteq> free_set (c_pool c1)" "c_kind c1 = c_kind ?c"
      by (rule skip_stage [OF ok])
    let ?k1 = "k\<lparr>coordinator := c1\<rparr>"
    have s1: "slots_ok ?rid ?nl ?ne ?bss c1" by (rule slots_ok_kept [OF a(3) c1(3-5)])
    let ?need = "costs (need ?rid ?n ?enc (?nl + ?ne)) ?bss (managers c1) (free_set (c_pool c1))"
    note n = coord_need(1) [OF c1(2) slots_ok_hits [OF s1], of ?n ?enc "?nl + ?ne"]
    show ?thesis
    proof (cases "?need + applied_watermark r a k > get_num_free_blocks (c_pool c1) - reserved_blocks a")
      case full: True
      then have "allocate_slots sha256 r a k = Inr (None, r, ?k1)"
        using a(1) fits tot True c1(1) n by (simp add: allocate_slots_def Let_def need_slots_def)
      then show ?thesis using c1(2) by (rule declines) (simp_all add: declined_def c1)
    next
      case False
      have fit: "?need \<le> get_num_free_blocks (c_pool c1)" using False a(6,7) by (auto simp: applied_watermark_def split: if_splits)
      have cl: "computed_list a ?k1 = ?bss" using c1(4) by (simp add: computed_list_def no_blocks_def split: option.split)
      obtain news c2 where c2: "take_blocks r a ?nl ?n ?k1 = Inr (news, ?k1\<lparr>coordinator := c2\<rparr>)" "coord_ok others c2" "allocated ?rid ?n ?enc c1 news c2"
        using take_blocks_ok [where k = ?k1, simplified, OF c1(2) s1 cl [symmetric] refl le fit] by auto
      have "allocate_slots sha256 r a k = publish sha256 r a (?nl + ?ne + num_new_tokens a) news (k\<lparr>coordinator := c2\<rparr>)"
        using a(1) fits tot True c1(1) n False c2(1) by (auto simp: allocate_slots_def publish_def Let_def need_slots_def)
      then show ?thesis using c2(2) granted_after_skip [OF c1(2) c2(3) c1(3-5)]
        by (rule grants) (use take_blocks_kind [OF c2(1)] c1(7) free_held_by_none [OF c1(2)] c2(3) in \<open>auto simp: allocated_def\<close>)
    qed
  qed
qed

end
