(* ===== verification/KvReach.thy ===== *)
theory KvReach
  imports KvSlots
begin

text \<open>
  Caching keeps the invariant of the managers; so do the other calls of the KV cache manager and the
  deferred release of the scheduler. Hence the counts of the blocks are exact in every state.
\<close>

section \<open>Caching\<close>

lemma extra_keys_id: "generate_block_hash_extra_keys sha256 r s e i = Inr (x, r') \<Longrightarrow> request_id r' = request_id r"
  by (auto simp: generate_block_hash_extra_keys_def gen_prompt_embeds_extra_hash_keys_def res_bind_Inr_iff Let_def
      split: option.splits prod.splits)

lemma collect_id:
  assumes "collect_extra_keys sha256 p bs nc bsz bm i st = Inr st'"
  shows "request_id (fst st') = request_id (fst st)"
  using assms by (auto simp: collect_extra_keys_def Let_def res_bind_Inr_iff split: prod.splits if_splits dest: extra_keys_id)

lemma cache_full_blocks_id:
  assumes "cache_full_blocks sha256 r bs nc nf bsz g bm p = Inr (r', q)"
  shows "request_id r' = request_id r"
proof -
  have "request_id r' = request_id r" if "emit_stored_event sha256 r bs nc nf bsz g bm hl st = Inr (r', q)" for hl st
  proof (cases "enable_kv_cache_events (fst st)")
    case True
    with that obtain n ks where "res_fold (collect_extra_keys sha256 (fst st) bs nc bsz bm) [nc..nf - 1] (r, 0, []) = Inr (r', n, ks)"
      by (auto simp: emit_stored_event_def Let_def res_bind_Inr_iff split: prod.splits)
    then have "request_id (fst (r', n, ks)) = request_id r"
      by (rule res_fold_invariant [where P = "\<lambda>st. request_id (fst st) = request_id r"]) (auto dest: collect_id)
    then show ?thesis by simp
  qed (use that in \<open>auto simp: emit_stored_event_def split: prod.splits\<close>)
  with assms show ?thesis
    by (auto simp: cache_full_blocks_def Let_def res_bind_Inr_iff split: if_splits)
qed

definition cached_ok :: "kv_manager \<Rightarrow> kv_manager \<Rightarrow> bool" where
  "cached_ok m m' \<longleftrightarrow> config m' = config m \<and> (\<forall>rid. table_of rid m' = table_of rid m)"

lemma cache_blocks_ok:
  assumes ok: "mgr_ok others m p" and eq: "cache_blocks sha256 r n ret m p = Inr (r', m', q)"
    and n: "n \<le> int (length (table_of (request_id r) m)) * m_block_size m"
  shows "mgr_ok others m' q" "alloc_eq p q" "cached_ok m m'" "request_id r' = request_id r"
proof -
  note d = mgr_okD [OF ok]
  note t = tables_okD [OF d(2)]
  let ?rid = "request_id r"
  let ?nc = "case dict_get (num_cached_block m) ?rid of None \<Rightarrow> 0 | Some n \<Rightarrow> n" and ?nf = "n div m_block_size m"
  have cross: "attention m \<noteq> CrossAttention" using eq by (auto simp: cache_blocks_def)
  have "mgr_ok others m' q \<and> alloc_eq p q \<and> cached_ok m m' \<and> request_id r' = request_id r"
  proof (cases "?nc \<ge> ?nf")
    case True
    then have "r' = r" "m' = m" "q = p" using eq t(1) cross by (auto simp: cache_blocks_def Let_def)
    then show ?thesis using ok by (simp add: cached_ok_def)
  next
    case False
    let ?m = "enter_table ?rid m"
    obtain bm where c: "cache_full_blocks sha256 r (table_of ?rid m) ?nc ?nf (m_block_size m) (kv_cache_group_id m) bm p = Inr (r', q)"
      and m': "m' = ?m\<lparr>num_cached_block := dict_set ?rid ?nf (num_cached_block ?m)\<rparr>"
      using eq t(1) cross False by (auto simp: cache_blocks_def Let_def res_bind_Inr_iff split: prod.splits)
    have nc: "0 \<le> ?nc" using t(6) by (simp split: option.split)
    have "?nf \<le> int (length (table_of ?rid m))" using n t(1) by (metis zdiv_mono1 nonzero_mult_div_cancel_right less_irrefl)
    with cache_full_blocks_spec [OF d(1) t(4) once_distinct [OF t(5)] nc _ _ c] False have q: "pool_inv q" "alloc_eq p q" by auto
    have ok1: "mgr_ok others ?m q"
      unfolding enter_table_def by (rule mgr_ok_set [OF ok q(1)]) (use q(2) t in \<open>auto simp: eq_defs\<close>)
    have "mgr_ok others m' q"
      by (rule mgr_ok_cong [OF ok1]) (use m' t(6) nc False in \<open>auto simp: config_def enter_table_def split: if_splits\<close>)
    moreover have "cached_ok m m'"
      using m' by (simp add: cached_ok_def config_def enter_table_def set_table_def table_of_def)
    ultimately show ?thesis using q(2) cache_full_blocks_id [OF c] by simp
  qed
  then show "mgr_ok others m' q" "alloc_eq p q" "cached_ok m m'" "request_id r' = request_id r" by simp_all
qed

lemma cache_each_ok:
  assumes "mgrs_ok others ms p" and "cache_each sha256 toks ret r ms p = Inr (r', ms', q)"
    and "\<forall>m\<in>set ms. toks m \<le> int (length (table_of (request_id r) m)) * m_block_size m"
  shows "mgrs_ok others ms' q \<and> alloc_eq p q \<and> list_all2 cached_ok ms ms' \<and> request_id r' = request_id r"
  using assms
proof (induction ms arbitrary: others p r ms')
  case (Cons m ms)
  obtain r1 m1 p1 ms1 where e: "cache_blocks sha256 r (toks m) ret m p = Inr (r1, m1, p1)" "cache_each sha256 toks ret r1 ms p1 = Inr (r', ms1, q)"
    "ms' = m1 # ms1"
    using Cons.prems(2) by (auto simp: res_bind_Inr_iff)
  note c = cache_blocks_ok [OF mgrs_ok_Cons [OF Cons.prems(1)] e(1)]
  have c: "mgr_ok (\<lambda>b. others b + occs ms b) m1 p1" "alloc_eq p p1" "cached_ok m m1" "request_id r1 = request_id r"
    using c Cons.prems(3) by simp_all
  have b: "blocks p1 = blocks p" using c(2) by (simp add: eq_defs)
  have ih: "mgrs_ok (\<lambda>b. others b + occ m1 b) ms1 q" "alloc_eq p1 q" "list_all2 cached_ok ms ms1" "request_id r' = request_id r1"
    using Cons.IH [OF mgrs_ok_tail [OF Cons.prems(1) c(1) b] e(2)] Cons.prems(3) c(4) by auto
  have "mgrs_ok others (m1 # ms1) q"
    using mgrs_ok_join [OF ih(1)] mgr_okD(2) [OF c(1)] ih(2) Cons.prems(1) by (auto simp: mgrs_ok_def eq_defs)
  then show ?case using c ih e(3) by (auto simp: eq_defs)
qed simp

definition kind_sizes_ok :: "coordinator_kind \<Rightarrow> bool" where
  "kind_sizes_ok kind \<longleftrightarrow> (case kind of Hybrid hash_bs sched_bs groups \<Rightarrow> 0 < sched_bs | _ \<Rightarrow> True)"

lemma toks_le:
  assumes "tokens_to_cache kind n = Inr toks" and "kind_sizes_ok kind"
  shows "toks m \<le> n"
proof (cases kind)
  case (Hybrid a s g)
  then have "0 < s" and toks: "toks = (\<lambda>m. if m_use_eagle m \<and> n div s * s > 0 then min n (n div s * s + m_block_size m) else n div s * s)"
    using assms by (auto simp: tokens_to_cache_def kind_sizes_ok_def Let_def)
  moreover have "n div s * s \<le> n" using \<open>0 < s\<close> pos_mod_sign [of s n] by (simp add: minus_mod_eq_div_mult [symmetric])
  ultimately show ?thesis by simp
qed (use assms in \<open>auto simp: tokens_to_cache_def\<close>)

lemma coord_cache_ok:
  assumes ok: "coord_ok others c" and eq: "coord_cache_blocks sha256 r n c = Inr (r', c')" and kind: "kind_sizes_ok (c_kind c)"
    and n: "\<forall>m\<in>set (managers c). attention m \<noteq> CrossAttention \<longrightarrow> n \<le> int (length (table_of (request_id r) m)) * m_block_size m"
  shows "coord_ok others c'" "alloc_eq (c_pool c) (c_pool c')" "list_all2 cached_ok (managers c) (managers c')" "request_id r' = request_id r"
    "c_kind c' = c_kind c"
proof -
  obtain toks ms p where e: "tokens_to_cache (c_kind c) n = Inr toks"
    "cache_each sha256 toks (retention_interval c) r (managers c) (c_pool c) = Inr (r', ms, p)" "c' = c\<lparr>managers := ms, c_pool := p\<rparr>"
    using eq by (auto simp: coord_cache_blocks_def res_bind_Inr_iff)
  have no_cross: "\<forall>m\<in>set ms'. attention m \<noteq> CrossAttention"
    if "cache_each sha256 toks ret r0 ms' p0 = Inr (r1, ms1, p1)" for ret r0 ms' p0 r1 ms1 p1
    using that by (induction ms' arbitrary: r0 p0 ms1) (auto simp: res_bind_Inr_iff cache_blocks_def split: if_splits)
  have "\<forall>m\<in>set (managers c). toks m \<le> int (length (table_of (request_id r) m)) * m_block_size m"
    using n toks_le [OF e(1) kind] no_cross [OF e(2)] order_trans by blast
  from cache_each_ok [OF ok e(2) this]
  show "coord_ok others c'" "alloc_eq (c_pool c) (c_pool c')" "list_all2 cached_ok (managers c) (managers c')" "request_id r' = request_id r"
    "c_kind c' = c_kind c" using e(3) by simp_all
qed

section \<open>The other calls\<close>

lemma mgrs_ok_pool:
  assumes "mgrs_ok others ms p" and "pool_inv q" and "alloc_eq p q"
  shows "mgrs_ok others ms q"
  using assms by (auto simp: mgrs_ok_def eq_defs)

lemma mgrs_ok_map:
  assumes "mgrs_ok others ms p" and "\<And>m B. tables_ok m B \<Longrightarrow> tables_ok (g m) B" and "\<And>m b B. tables_ok m B \<Longrightarrow> occ (g m) b = occ m b"
  shows "mgrs_ok others (map g ms) p"
proof -
  have "\<forall>m\<in>set ms. occ (g m) b = occ m b" for b using assms(1,3) by (auto simp: mgrs_ok_def)
  then have "occs (map g ms) b = occs ms b" for b by (simp add: occs_def cong: map_cong)
  then show ?thesis using assms(1,2) by (auto simp: mgrs_ok_def)
qed

lemma coord_free_ok:
  assumes ok: "coord_ok others c"
  obtains c' where "coord_free rid c = Inr c'" "coord_ok others c'" "blocks (c_pool c') = blocks (c_pool c)" "c_kind c' = c_kind c"
    "length (managers c') = length (managers c)"
    "\<forall>i<length (managers c). only_table rid (managers c ! i) (managers c' ! i) \<and> table_of rid (managers c' ! i) = []"
    "free_set (c_pool c) \<subseteq> free_set (c_pool c')"
proof -
  have len: "length (per_group c) = length (managers c)" by (simp add: per_group_def)
  obtain xs ms q where "each_manager (\<lambda>_ m p. no_result (manager_free rid m p)) (per_group c) (managers c) (c_pool c) = Inr (xs, ms, q)"
    "mgrs_ok others ms q" "blocks q = blocks (c_pool c)" "length ms = length (managers c)"
    "\<forall>i<length (managers c). only_table rid (managers c ! i) (ms ! i) \<and> table_of rid (ms ! i) = []" "free_set (c_pool c) \<subseteq> free_set q"
    using free_tables.each_release [OF ok len, of rid] by (elim exE conjE) (rule that)
  then show ?thesis
    using that [of "c\<lparr>managers := ms, c_pool := q\<rparr>"] by (simp add: coord_free_def with_managers_def)
qed

text \<open>Blocks popped from the tables stay counted, as held elsewhere.\<close>

lemma coord_pop_ok:
  assumes ok: "coord_ok others c" and eq: "coord_pop_blocks_for_free rid c = (bs, c')"
  shows "coord_ok (\<lambda>b. others b + int (count_list bs b)) c'" "set bs \<subseteq> set (blocks (c_pool c))" "c_pool c' = c_pool c" "c_kind c' = c_kind c"
proof -
  have bs: "bs = concat (map (table_of rid) (managers c))"
    and c': "c' = c\<lparr>managers := map (\<lambda>m. snd (pop_blocks_for_free rid m)) (managers c)\<rparr>"
    using eq by (auto simp: coord_pop_blocks_for_free_def pop_blocks_for_free_def)
  have t: "\<forall>m\<in>set (managers c). tables_ok m (set (blocks (c_pool c)))" using ok by (simp add: mgrs_ok_def)
  have sum: "occs (map (\<lambda>m. snd (pop_blocks_for_free rid m)) ms) b + int (count_list (concat (map (table_of rid) ms)) b) = occs ms b"
    if "\<forall>m\<in>set ms. tables_ok m B" for ms b B
    using that
  proof (induction ms)
    case (Cons m ms)
    then show ?case using pop_table(1) [OF tables_okD(3), of m B rid b] by (simp add: occs_def)
  qed (simp add: occs_def)
  have "\<forall>m\<in>set (managers c'). tables_ok m (set (blocks (c_pool c)))" using t pop_tables_ok by (auto simp: c')
  then show "coord_ok (\<lambda>b. others b + int (count_list bs b)) c'"
    using ok sum [OF t, symmetric] by (auto simp: mgrs_ok_def c' bs)
  show "set bs \<subseteq> set (blocks (c_pool c))" using t tables_okD(4) by (fastforce simp: bs)
  show "c_pool c' = c_pool c" "c_kind c' = c_kind c" by (simp_all add: c')
qed

text \<open>The blocks whose release is deferred.\<close>

definition held :: "(int \<times> block_ref list) list \<Rightarrow> block_ref \<Rightarrow> int" where
  "held D b = (\<Sum>d\<leftarrow>D. int (count_list (snd d) b))"

definition kv_ok :: "(int \<times> block_ref list) list \<Rightarrow> kv_cache \<Rightarrow> bool" where
  "kv_ok D k \<longleftrightarrow> coord_ok (held D) (coordinator k) \<and> kind_sizes_ok (c_kind (coordinator k)) \<and> (\<forall>d\<in>set D. set (snd d) \<subseteq> set (blocks (pool k)))"

lemma count_list_rev [simp]: "count_list (rev xs) b = count_list xs b"
  by (induction xs) auto

lemma held_nonneg: "0 \<le> held D b"
  unfolding held_def by (rule sum_list_nonneg) auto

lemma drain_ok:
  assumes "kv_ok D k" and "drain_deferred_frees seq D k = Inr (D', k')"
  shows "kv_ok D' k'"
  using assms
proof (induction seq D k rule: drain_deferred_frees.induct)
  case (2 seq fence bs rest k)
  show ?case
  proof (cases "fence > seq")
    case False
    then obtain p where p: "free_blocks (rev bs) (pool k) = Inr p" "drain_deferred_frees seq rest (upd_pool (\<lambda>_. p) k) = Inr (D', k')"
      using "2.prems"(2) by (auto simp: res_bind_Inr_iff)
    have ok: "mgrs_ok (held ((fence, bs) # rest)) (managers (coordinator k)) (pool k)" and sub: "set (rev bs) \<subseteq> set (blocks (pool k))"
      using "2.prems"(1) by (auto simp: kv_ok_def)
    have refs: "\<forall>b\<in>set (rev bs). b \<noteq> Block 0 \<longrightarrow> int (count_list (rev bs) b) \<le> ref_cnt (blk (pool k) b)"
      using ok sub held_nonneg [of rest] occs_nonneg [of "managers (coordinator k)"]
      by (auto simp: mgrs_ok_def held_def intro!: order_trans [OF _ add_mono])
    obtain q where q: "free_blocks (rev bs) (pool k) = Inr q" "pool_inv q" "blocks q = blocks (pool k)"
      "\<forall>c. ref_cnt (blk q c) = ref_cnt (blk (pool k) c) - int (count_list (rev bs) c)"
      by (rule freed_blocks [OF _ sub refs]) (use ok in \<open>auto simp: mgrs_ok_def\<close>)
    have "mgrs_ok (held rest) (managers (coordinator k)) q"
      using ok q(2-4) held_nonneg by (auto simp: mgrs_ok_def held_def)
    then have "kv_ok rest (upd_pool (\<lambda>_. p) k)"
      using p(1) q "2.prems"(1) by (auto simp: kv_ok_def upd_pool_def)
    then show ?thesis using "2.IH" [OF False] p(2) by blast
  qed (use "2.prems" in simp)
qed simp

section \<open>Reachable states\<close>

text \<open>
  The KV cache with the deferred frees of the scheduler. The scheduler asks for slots with well-formed
  calls, and caches tokens that have slots.
\<close>

inductive kv_step :: "(bytes \<Rightarrow> bytes) \<Rightarrow> kv_cache \<times> (int \<times> block_ref list) list \<Rightarrow> kv_cache \<times> (int \<times> block_ref list) list \<Rightarrow> bool"
  for sha256 where
  allocate: "call_ok r a k \<Longrightarrow> local_tokens r a + num_external_computed_tokens a + num_new_tokens a \<le> k_max_model_len k \<Longrightarrow>
    allocate_slots sha256 r a k = Inr (res, r', k') \<Longrightarrow> kv_step sha256 (k, D) (k', D)"
| lookup: "get_computed_blocks r k = Some (Inr (found, k')) \<Longrightarrow> kv_step sha256 (k, D) (k', D)"
| cache: "\<forall>m\<in>set (managers (coordinator k)). attention m \<noteq> CrossAttention \<longrightarrow>
      n \<le> int (length (table_of (request_id r) m)) * m_block_size m \<Longrightarrow>
    kv_cache_blocks sha256 r n k = Inr (r', k') \<Longrightarrow> kv_step sha256 (k, D) (k', D)"
| release: "free_request_blocks defer last_seq done_seq seq r D k = Inr (D', k') \<Longrightarrow> kv_step sha256 (k, D) (k', D')"
| drain: "drain_deferred_frees done_seq D k = Inr (D', k') \<Longrightarrow> kv_step sha256 (k, D) (k', D')"
| skip: "kv_remove_skipped_blocks rid n np k = Inr k' \<Longrightarrow> kv_step sha256 (k, D) (k', D)"
| evict: "\<forall>i\<in>set ids. 0 \<le> i \<and> i < int (length (blocks (pool k))) \<Longrightarrow> kv_evict_blocks ids k = Inr k' \<Longrightarrow> kv_step sha256 (k, D) (k', D)"
| reset: "kv_step sha256 (k, D) (snd (kv_reset_prefix_cache k), D)"
| common: "kv_step sha256 (k, D) (snd (kv_get_num_common_prefix_blocks rid k), D)"
| new_ids: "kv_step sha256 (k, D) (snd (kv_take_new_block_ids k), D)"
| events: "kv_step sha256 (k, D) (snd (take_tmh_physical_events k), D)"

lemma pressure_coord: "record_tmh_pressure r n k = Inr k' \<Longrightarrow> coordinator k' = coordinator k"
  by (auto simp: record_tmh_pressure_def res_bind_Inr_iff split: if_splits)

lemma granted_covers:
  assumes "granted rid n enc c news c'" and "t \<le> n" and "m \<in> set (managers c')" and "attention m \<noteq> CrossAttention"
  shows "t \<le> int (length (table_of rid m)) * m_block_size m"
proof -
  obtain i where i: "i < length (managers c)" "m = managers c' ! i"
    using assms(1,3) by (auto simp: granted_def in_set_conv_nth)
  then have "only_table rid (managers c ! i) m" "slot_tokens n enc (managers c ! i) \<le> int (length (table_of rid m)) * m_block_size (managers c ! i)"
    using assms(1) by (auto simp: granted_def Let_def)
  then show ?thesis
    using assms(2,4) config_eqD(1,2) [of m "managers c ! i"] by (auto simp: only_table_def slot_tokens_def)
qed

lemma allocate_slots_ok:
  assumes ok: "coord_ok others (coordinator k)" and kind: "kind_sizes_ok (c_kind (coordinator k))" and call: "call_ok r a k"
    and len: "local_tokens r a + num_external_computed_tokens a + num_new_tokens a \<le> k_max_model_len k"
    and eq: "allocate_slots sha256 r a k = Inr (res, r', k')"
  shows "coord_ok others (coordinator k') \<and> blocks (pool k') = blocks (pool k) \<and> c_kind (coordinator k') = c_kind (coordinator k)"
proof (cases rule: allocate_slots_cases [OF ok call, of sha256, case_names declines grants])
  case (declines c')
  then show ?thesis using eq by (auto simp: declined_def)
next
  case (grants news c')
  let ?main = "local_tokens r a + num_external_computed_tokens a + num_new_tokens a"
  have b: "blocks (c_pool c') = blocks (pool k)" using grants(3) by (simp add: granted_def)
  show ?thesis
  proof (cases "\<not> k_enable_caching k \<or> delay_cache_blocks a")
    case True
    then show ?thesis
      using eq grants b by (auto simp: publish_def res_bind_Inr_iff dest!: pressure_coord split: if_splits)
  next
    case False
    obtain r1 c3 where c3: "coord_cache_blocks sha256 r (min ?main (num_tokens r)) c' = Inr (r1, c3)"
      and k': "record_tmh_pressure r1 ?main (k\<lparr>coordinator := c3\<rparr>) = Inr k'"
      using eq grants(1) False by (auto simp: publish_def res_bind_Inr_iff)
    have "0 \<le> num_lookahead_tokens a" using call by (simp add: call_ok_def)
    then have "min ?main (num_tokens r) \<le> need_slots r a k" using len by (auto simp: need_slots_def)
    then have cov: "\<forall>m\<in>set (managers c'). attention m \<noteq> CrossAttention \<longrightarrow>
        min ?main (num_tokens r) \<le> int (length (table_of (request_id r) m)) * m_block_size m"
      using granted_covers [OF grants(3)] by blast
    have "kind_sizes_ok (c_kind c')" using kind grants(4) by simp
    from coord_cache_ok [OF grants(2) c3 this cov] show ?thesis
      using pressure_coord [OF k'] b grants(4) by (simp add: eq_defs)
  qed
qed

lemma free_request_ok:
  assumes ok: "kv_ok D k" and eq: "free_request_blocks defer last_seq done_seq seq r D k = Inr (D', k')"
  shows "kv_ok D' k'"
proof (cases "\<not> defer \<or> last_seq \<le> done_seq")
  case True
  obtain c' where c': "coord_free (request_id r) (coordinator k) = Inr c'" "coord_ok (held D) c'" "blocks (c_pool c') = blocks (pool k)"
    "c_kind c' = c_kind (coordinator k)"
    by (rule coord_free_ok [where rid = "request_id r"]) (use ok in \<open>auto simp: kv_ok_def\<close>)
  then have "D' = D" "coordinator k' = c'" using eq True by (auto simp: free_request_blocks_def kv_free_def)
  then show ?thesis using ok c' by (simp add: kv_ok_def)
next
  case False
  obtain bs c' where pop: "coord_pop_blocks_for_free (request_id r) (coordinator k) = (bs, c')" by fastforce
  have c': "coord_ok (\<lambda>b. held D b + int (count_list bs b)) c'" "set bs \<subseteq> set (blocks (pool k))" "c_pool c' = pool k" "c_kind c' = c_kind (coordinator k)"
    using coord_pop_ok [OF _ pop, of "held D"] ok by (auto simp: kv_ok_def)
  have D': "D' = (if bs \<noteq> [] then D @ [(seq, bs)] else D)" "coordinator k' = c'"
    using eq False pop by (auto simp: free_request_blocks_def kv_pop_blocks_for_free_def)
  have "held D' = (\<lambda>b. held D b + int (count_list bs b))" by (auto simp: D' held_def)
  then show ?thesis using ok c' D' by (auto simp: kv_ok_def)
qed

lemma tables_ok_enter: "tables_ok m B \<Longrightarrow> tables_ok (enter_table rid m) B"
  unfolding enter_table_def by (rule tables_ok_set) (auto dest: tables_okD)

lemma occ_enter: "tables_ok m B \<Longrightarrow> occ (enter_table rid m) b = occ m b"
  by (simp add: enter_table_def occ_set_table tables_okD(3))

lemma tables_ok_ids: "tables_ok (snd (take_new_block_ids m)) B = tables_ok m B" "occ (snd (take_new_block_ids m)) b = occ m b"
  by (simp_all add: take_new_block_ids_def tables_ok_def occ_def table_of_def)

lemma find_coord:
  assumes "coord_find_longest_cache_hit hs n c = Some (Inr (found, c'))"
  shows "\<exists>u. c' = c\<lparr>num_uncached_common_prefix_tokens := u\<rparr>"
proof (cases "c_kind c")
  case (Hybrid a b g)
  then show ?thesis using assms by (auto simp: coord_find_longest_cache_hit_def res_bind_Inr_iff)
next
  case NoPrefixCache
  then have "c' = c" using assms by (simp add: coord_find_longest_cache_hit_def)
  then show ?thesis by (intro exI [of _ "num_uncached_common_prefix_tokens c"]) simp
next
  case (Unitary a b g)
  then have "c' = c" using assms by (auto simp: coord_find_longest_cache_hit_def elim!: res_bind_InrE)
  then show ?thesis by (intro exI [of _ "num_uncached_common_prefix_tokens c"]) simp
qed

lemma lookup_coord:
  assumes "get_computed_blocks r k = Some (Inr (found, k'))"
  shows "managers (coordinator k') = managers (coordinator k)" "pool k' = pool k" "c_kind (coordinator k') = c_kind (coordinator k)"
proof -
  have "k' = k \<or> (\<exists>u. coordinator k' = (coordinator k)\<lparr>num_uncached_common_prefix_tokens := u\<rparr>)"
    using assms by (auto simp: get_computed_blocks_def split: if_splits elim!: res_bind_InrE dest!: find_coord)
  then show "managers (coordinator k') = managers (coordinator k)" "pool k' = pool k" "c_kind (coordinator k') = c_kind (coordinator k)"
    by auto
qed

lemma kv_ok_update:
  assumes "kv_ok D k" and "coord_ok (held D) (coordinator k')" and "blocks (pool k') = blocks (pool k)"
    and "c_kind (coordinator k') = c_kind (coordinator k)"
  shows "kv_ok D k'"
  using assms by (simp add: kv_ok_def)

theorem kv_step_ok:
  assumes "kv_step sha256 s s'" and "kv_ok (snd s) (fst s)"
  shows "kv_ok (snd s') (fst s')"
  using assms
proof cases
  case (allocate r a k res r' k' D)
  then show ?thesis using allocate_slots_ok [OF _ _ allocate(3-5), of "held D"] assms(2) by (auto simp: kv_ok_def)
next
  case (lookup r k found k' D)
  then show ?thesis using lookup_coord [OF lookup(3)] assms(2) by (simp add: kv_ok_def)
next
  case (cache k n r r' k' D)
  show ?thesis
  proof (cases "k_enable_caching k")
    case True
    then obtain c where c: "coord_cache_blocks sha256 r n (coordinator k) = Inr (r', c)" "k' = k\<lparr>coordinator := c\<rparr>"
      using cache(4) by (auto simp: kv_cache_blocks_def res_bind_Inr_iff)
    show ?thesis
      using coord_cache_ok [OF _ c(1), of "held D"] cache(1-3) c(2) assms(2) by (simp add: kv_ok_def eq_defs)
  qed (use cache assms(2) in \<open>simp add: kv_cache_blocks_def\<close>)
next
  case (skip rid n np k k' D)
  obtain c' where "coord_remove_skipped_blocks rid n np (coordinator k) = Inr c'" "coord_ok (held D) c'" "blocks (c_pool c') = blocks (pool k)"
    "c_kind c' = c_kind (coordinator k)"
    by (rule skip_stage [where rid = rid and n = n and np = np]) (use skip(1) assms(2) in \<open>auto simp: kv_ok_def\<close>)
  then show ?thesis using skip assms(2) kv_ok_update [of D k k'] by (auto simp: kv_remove_skipped_blocks_def)
next
  case (evict ids k k' D)
  have "pool_inv (pool k)" using assms(2) evict(1) by (simp add: kv_ok_def mgrs_ok_def)
  then obtain q where q: "evict_blocks ids (pool k) = Inr q" "pool_inv q" "alloc_eq (pool k) q"
    using evict_blocks_spec [OF _ evict(3)] by blast
  have k': "k' = upd_pool (\<lambda>_. q) k" using evict(4) q(1) by (simp add: kv_evict_blocks_def)
  have "kv_ok D k'"
    by (rule kv_ok_update [of D k]) (use evict(1) assms(2) mgrs_ok_pool [OF _ q(2,3)] q(3) in \<open>auto simp: k' kv_ok_def upd_pool_def eq_defs\<close>)
  then show ?thesis using evict(2) by simp
next
  case (reset k D)
  have inv: "pool_inv (pool k)" using assms(2) reset(1) by (simp add: kv_ok_def mgrs_ok_def)
  note q = reset_prefix_cache_spec(2,3) [OF inv]
  have "kv_ok D (upd_pool (\<lambda>_. snd (reset_prefix_cache (pool k))) k)"
    by (rule kv_ok_update [of D k]) (use reset(1) assms(2) mgrs_ok_pool [OF _ q] q(2) in \<open>auto simp: kv_ok_def upd_pool_def eq_defs\<close>)
  then show ?thesis using reset assms(2) by (simp add: kv_reset_prefix_cache_def case_prod_beta Let_def)
next
  case (common k D rid)
  have "mgrs_ok (held D) (map (\<lambda>m. snd (get_num_common_prefix_blocks rid m (pool k))) (managers (coordinator k))) (pool k)"
    by (rule mgrs_ok_map)
      (use common(1) assms(2) in \<open>auto simp: kv_ok_def get_num_common_prefix_blocks_def Let_def tables_ok_enter occ_enter split: attention.splits\<close>)
  then show ?thesis
    using common assms(2) by (simp add: kv_ok_def kind_sizes_ok_def kv_get_num_common_prefix_blocks_def coord_get_num_common_prefix_blocks_def)
next
  case (new_ids k D)
  have "mgrs_ok (held D) (map (\<lambda>m. snd (take_new_block_ids m)) (managers (coordinator k))) (pool k)"
    by (rule mgrs_ok_map) (use new_ids(1) assms(2) in \<open>auto simp: kv_ok_def tables_ok_ids\<close>)
  then show ?thesis using new_ids assms(2) by (simp add: kv_ok_def kv_take_new_block_ids_def)
next
  case (events k D)
  then show ?thesis using assms(2) by (simp add: kv_ok_def take_tmh_physical_events_def case_prod_beta)
next
  case (release dfr last_seq done_seq seq r D k D' k')
  then show ?thesis using free_request_ok [OF _ release(3)] assms(2) by simp
next
  case (drain done_seq D k D' k')
  then show ?thesis using drain_ok [OF _ drain(3)] assms(2) by simp
qed

end
