(* ===== verification/KvCacheSpec.thy ===== *)
theory KvCacheSpec
  imports KvReach
begin

text \<open>
  The properties of the KV cache manager: block counts are exact in every state it reaches together with
  the deferred frees of the scheduler, and what an allocation does when it declines and when it grants.
\<close>

section \<open>The initial state\<close>

definition spec_sizes_ok :: "kv_cache_spec \<Rightarrow> bool" where
  "spec_sizes_ok s \<longleftrightarrow> 0 < spec_block_size s \<and> (\<forall>a. attention_of s = Some (Inr a) \<longrightarrow> kind_ok a)"

lemma new_manager_ok:
  assumes "create_manager spec batched model_len caching gid sched_bs dcp pcp = Some (Inr m)" and "spec_sizes_ok spec" and "1 \<le> dcp" "1 \<le> pcp"
  shows "tables_ok m B" "occ m b = 0" "num_cached_block m = []"
proof -
  obtain a cap where a: "attention_of spec = Some (Inr a)"
    and m: "m = \<lparr>attention = a, m_block_size = (if dcp * pcp > 1 then spec_block_size spec * (dcp * pcp) else spec_block_size spec),
            scheduler_block_size = sched_bs, m_enable_caching = caching, max_admission_blocks_per_request = cap,
            zeroes_new_blocks = zeroing_spec spec, kv_cache_group_id = gid, m_use_eagle = False,
            new_block_ids = [], req_to_blocks = [], num_cached_block = []\<rparr>"
    using assms(1) unfolding create_manager_def by (auto elim!: res_bind_InrE)
  have "kind_ok a" "0 < spec_block_size spec" using assms(2) a by (auto simp: spec_sizes_ok_def)
  moreover have "0 < spec_block_size spec * (dcp * pcp)" using calculation assms(3,4) by simp
  ultimately show "tables_ok m B" "occ m b = 0" "num_cached_block m = []"
    by (simp_all add: m tables_ok_def table_of_def once_def occ_def)
qed

lemma new_managers_ok:
  assumes "create_managers i gs batched model_len caching sched_bs dcp pcp = Some (Inr ms)" and "\<forall>g\<in>set gs. spec_sizes_ok (group_spec g)"
    and "1 \<le> dcp" "1 \<le> pcp"
  shows "\<forall>m\<in>set ms. tables_ok m B \<and> occ m b = 0"
  using assms
proof (induction gs arbitrary: i ms)
  case (Cons g gs)
  obtain m ms' where "create_manager (group_spec g) batched model_len caching i sched_bs dcp pcp = Some (Inr m)"
    "create_managers (i + 1) gs batched model_len caching sched_bs dcp pcp = Some (Inr ms')" "ms = m # ms'"
    using Cons.prems(1) by (auto split: option.splits elim!: res_bind_InrE)
  then show ?case using Cons.IH [of "i + 1" ms'] new_manager_ok [of "group_spec g" batched model_len caching i sched_bs dcp pcp m] Cons.prems(2-4) by simp
qed simp

lemma new_managers_mgrs_ok:
  assumes "pool_inv p" and "\<forall>b\<in>set (blocks p). ref_cnt (blk p b) = 0" and "\<And>m b. m \<in> set ms \<Longrightarrow> tables_ok m (set (blocks p)) \<and> occ m b = 0"
  shows "mgrs_ok (held []) ms p"
proof -
  have "occs ms b = 0" for b using assms(3) by (induction ms) (auto simp: occs_def)
  then show ?thesis using assms by (simp add: mgrs_ok_def held_def)
qed

lemma eagle_ok: "tables_ok (m\<lparr>m_use_eagle := e\<rparr>) B = tables_ok m B" "occ (m\<lparr>m_use_eagle := e\<rparr>) b = occ m b"
  by (simp_all add: tables_ok_def occ_def table_of_def)

lemma finish_ok:
  assumes "finish_coordinator groups caching hash_bs sched_bs dcp pcp c = Inr c'" and "kind_sizes_ok (c_kind c)" and "0 < sched_bs"
    and "\<forall>m\<in>set (managers c). tables_ok m B \<and> occ m b = 0"
  shows "c_pool c' = c_pool c \<and> kind_sizes_ok (c_kind c') \<and> (\<forall>m\<in>set (managers c'). tables_ok m B \<and> occ m b = 0)"
  using assms
  by (auto simp: finish_coordinator_def split_kv_cache_groups_def Let_def kind_sizes_ok_def eagle_ok in_set_enumerate_eq
      split: if_splits elim!: res_bind_InrE)

lemma kv_init_ok:
  assumes init: "kv_cache_init cfg model_len sched_bs hash_bs batched caching use_eagle ev dcp pcp int_hashes retention watermark = Some (Inr k)"
    and ok: "\<forall>g\<in>set (kv_cache_groups cfg). spec_sizes_ok (group_spec g)" "0 < sched_bs" "1 \<le> dcp" "1 \<le> pcp"
  shows "kv_ok [] k \<and> from_kv_cache_config cfg sched_bs = Inr (k_policy k)"
proof -
  obtain c where c: "get_kv_cache_coordinator (cfg_num_blocks cfg) (kv_cache_groups cfg)
      (case batched of None \<Rightarrow> model_len | Some n \<Rightarrow> n) model_len use_eagle caching ev dcp pcp sched_bs hash_bs int_hashes retention = Some (Inr c)"
    and k: "coordinator k = c" "from_kv_cache_config cfg sched_bs = Inr (k_policy k)"
    using init unfolding kv_cache_init_def by (auto elim!: res_bind_InrE)
  obtain ms p where ms: "create_managers 0 (kv_cache_groups cfg) (case batched of None \<Rightarrow> model_len | Some n \<Rightarrow> n) model_len caching sched_bs dcp pcp = Some (Inr ms)"
    and p: "block_pool_init (cfg_num_blocks cfg) caching hash_bs int_hashes ev = Inr p"
    and fin: "finish_coordinator (kv_cache_groups cfg) caching hash_bs sched_bs dcp pcp
             \<lparr>c_pool = p, managers = ms, c_kind = NoPrefixCache, eagle_group_ids = eagle_ids use_eagle (kv_cache_groups cfg),
              retention_interval = retention, num_uncached_common_prefix_tokens = 0\<rparr> = Inr c"
    using c unfolding get_kv_cache_coordinator_def by (auto split: if_splits elim!: res_bind_InrE)
  have n: "0 < cfg_num_blocks cfg" using p by (auto simp: block_pool_init_def res_guard_Inr_iff elim!: res_bind_InrE)
  have inv: "pool_inv p" "\<forall>b\<in>set (blocks p). ref_cnt (blk p b) = 0"
    using block_pool_init_spec [OF n, of caching hash_bs int_hashes ev] p by auto
  have new: "\<forall>m\<in>set ms. tables_ok m B \<and> occ m b = 0" for B b by (rule new_managers_ok [OF ms ok(1,3,4)])
  have f: "c_pool c = p \<and> kind_sizes_ok (c_kind c) \<and> (\<forall>m\<in>set (managers c). tables_ok m B \<and> occ m b = 0)" for B b
    using finish_ok [OF fin _ ok(2), of B b] new by (simp add: kind_sizes_ok_def)
  have "mgrs_ok (held []) (managers c) p" by (rule new_managers_mgrs_ok [OF inv]) (use f in auto)
  then show ?thesis using f k by (simp add: kv_ok_def)
qed

section \<open>Reachable states\<close>

inductive kv_reachable :: "(bytes \<Rightarrow> bytes) \<Rightarrow> kv_cache \<times> (int \<times> block_ref list) list \<Rightarrow> bool" for sha256 where
  start: "kv_cache_init cfg model_len sched_bs hash_bs batched caching use_eagle ev dcp pcp int_hashes retention watermark = Some (Inr k) \<Longrightarrow>
    \<forall>g\<in>set (kv_cache_groups cfg). spec_sizes_ok (group_spec g) \<Longrightarrow> 0 < sched_bs \<Longrightarrow> 1 \<le> dcp \<Longrightarrow> 1 \<le> pcp \<Longrightarrow> kv_reachable sha256 (k, [])"
| next_state: "kv_reachable sha256 s \<Longrightarrow> kv_step sha256 s s' \<Longrightarrow> kv_reachable sha256 s'"

text \<open>The policy of a reachable KV cache is one that the policy's own steps reach.\<close>

lemma pressure_step: "record_tmh_pressure r n k = Inr k' \<Longrightarrow> k_policy k' = k_policy k \<or> policy_step (k_policy k) (k_policy k')"
  by (auto simp: record_tmh_pressure_def split: if_splits elim!: res_bind_InrE intro: policy_step.alloc)

lemma take_blocks_policy: "take_blocks r a nl n k = Inr (news, k') \<Longrightarrow> k_policy k' = k_policy k"
  by (auto simp: take_blocks_def split: if_splits elim!: res_bind_InrE)

lemma allocate_policy:
  assumes "allocate_slots sha256 r a k = Inr (res, r', k')"
  shows "k_policy k' = k_policy k \<or> policy_step (k_policy k) (k_policy k')"
  using assms unfolding allocate_slots_def Let_def
  by (auto split: if_splits elim!: res_bind_InrE dest!: take_blocks_policy pressure_step)

lemma drain_policy: "drain_deferred_frees seq D k = Inr (D', k') \<Longrightarrow> k_policy k' = k_policy k"
  by (induction seq D k rule: drain_deferred_frees.induct) (auto simp: upd_pool_def split: if_splits elim!: res_bind_InrE)

lemma kv_step_policy:
  assumes "kv_step sha256 s s'"
  shows "k_policy (fst s') = k_policy (fst s) \<or> policy_step (k_policy (fst s)) (k_policy (fst s'))"
  using assms
proof cases
  case (allocate r a k res r' k' D)
  then show ?thesis using allocate_policy [OF allocate(5)] by simp
next
  case (lookup r k found k' D)
  then show ?thesis by (auto simp: get_computed_blocks_def split: if_splits elim!: res_bind_InrE)
next
  case (release dfr last_seq done_seq seq r D k D' k')
  then show ?thesis
    by (auto simp: free_request_blocks_def kv_free_def kv_pop_blocks_for_free_def case_prod_beta split: if_splits
        elim!: res_bind_InrE intro: policy_step.forget)
next
  case (drain done_seq D k D' k')
  then show ?thesis using drain_policy by simp
next
  case (events k D)
  then show ?thesis by (simp add: take_tmh_physical_events_def case_prod_beta policy_step.take_events)
qed (auto simp: kv_cache_blocks_def kv_remove_skipped_blocks_def kv_evict_blocks_def kv_reset_prefix_cache_def upd_pool_def
    kv_get_num_common_prefix_blocks_def kv_take_new_block_ids_def case_prod_beta Let_def split: if_splits elim!: res_bind_InrE)

lemma kv_reachable_ok:
  assumes "kv_reachable sha256 s"
  shows "kv_ok (snd s) (fst s) \<and> policy_reachable (k_policy (fst s))"
  using assms
proof induction
  case start
  from kv_init_ok [OF start] show ?case by (auto intro: policy_reachable.init)
next
  case (next_state s s')
  then show ?case using kv_step_ok [of sha256 s s'] kv_step_policy [of sha256 s s'] by (auto intro: policy_reachable.step)
qed

lemma occs_pos:
  assumes "\<forall>m\<in>set ms. tables_ok m B"
  shows "occs ms b = 0 \<longleftrightarrow> (\<forall>m\<in>set ms. \<forall>rid. b \<notin> set (table_of rid m))"
proof -
  have one: "occ m b = 0 \<longleftrightarrow> (\<forall>rid. b \<notin> set (table_of rid m))" if t: "tables_ok m B" for m
  proof
    assume "occ m b = 0"
    then show "\<forall>rid. b \<notin> set (table_of rid m)"
      using table_le_occ [OF tables_okD(3) [OF t], of _ b] by (metis count_list_0_iff of_nat_le_0_iff)
  next
    assume no: "\<forall>rid. b \<notin> set (table_of rid m)"
    have "int (count_list t b) = 0" if "t \<in> set (map snd (req_to_blocks m))" for t
    proof -
      obtain rid where "(rid, t) \<in> set (req_to_blocks m)" using \<open>t \<in> set (map snd (req_to_blocks m))\<close> by auto
      then have "table_of rid m = t" using tables_okD(3) [OF t] by (simp add: table_of_def)
      then show ?thesis using no count_list_0_iff by fastforce
    qed
    then show "occ m b = 0" unfolding occ_def by (subst sum_list_nonneg_eq_0_iff) auto
  qed
  show ?thesis
    using assms by (induction ms) (auto simp: occs_def one add_nonneg_eq_0_iff occ_nonneg occs_nonneg [unfolded occs_def])
qed

lemma held_pos: "held D b = 0 \<longleftrightarrow> (\<forall>d\<in>set D. b \<notin> set (snd d))"
proof (induction D)
  case (Cons d D)
  have "held (d # D) b = int (count_list (snd d) b) + held D b" by (simp add: held_def)
  then show ?case using Cons.IH held_nonneg [of D b] by (auto simp: add_nonneg_eq_0_iff count_list_0_iff)
qed (simp add: held_def)

text \<open>
  C1: in every state that the KV cache manager reaches with the scheduler's deferred frees, whatever calls
  are made, the reference count of a block is the number of its entries in the block tables of all groups
  plus its entries in the deferred frees; a block is free exactly when nothing holds it; and no table has a
  block twice. The tiered-memory policy is then in a state that its own operations reach.
\<close>

theorem kv_blocks_accounted:
  assumes "kv_reachable sha256 (k, D)"
  shows "(\<forall>b\<in>set (blocks (pool k)). b \<noteq> null_block (pool k) \<longrightarrow>
      ref_cnt (blk (pool k) b) = occs (managers (coordinator k)) b + held D b \<and>
      (b \<in> free_set (pool k) \<longleftrightarrow>
         (\<forall>m\<in>set (managers (coordinator k)). \<forall>rid. b \<notin> set (table_of rid m)) \<and> (\<forall>d\<in>set D. b \<notin> set (snd d))) \<and>
      (\<forall>m\<in>set (managers (coordinator k)). \<forall>rid. count_list (table_of rid m) b \<le> 1)) \<and>
    policy_reachable (k_policy k)"
proof -
  have ok: "mgrs_ok (held D) (managers (coordinator k)) (pool k)" and pol: "policy_reachable (k_policy k)"
    using kv_reachable_ok [OF assms] by (simp_all add: kv_ok_def)
  have inv: "pool_inv (pool k)" and t: "\<forall>m\<in>set (managers (coordinator k)). tables_ok m (set (blocks (pool k)))" using ok by (auto simp: mgrs_ok_def)
  have null: "null_block (pool k) = Block 0" using inv by (simp add: pool_inv_def alloc_inv_def)
  have "ref_cnt (blk (pool k) b) = occs (managers (coordinator k)) b + held D b \<and>
      (b \<in> free_set (pool k) \<longleftrightarrow>
         (\<forall>m\<in>set (managers (coordinator k)). \<forall>rid. b \<notin> set (table_of rid m)) \<and> (\<forall>d\<in>set D. b \<notin> set (snd d))) \<and>
      (\<forall>m\<in>set (managers (coordinator k)). \<forall>rid. count_list (table_of rid m) b \<le> 1)"
    if b: "b \<in> set (blocks (pool k))" "b \<noteq> Block 0" for b
  proof -
    have ref: "ref_cnt (blk (pool k) b) = occs (managers (coordinator k)) b + held D b" using ok b by (simp add: mgrs_ok_def)
    have "b \<in> free_set (pool k) \<longleftrightarrow> occs (managers (coordinator k)) b = 0 \<and> held D b = 0"
      using b occs_nonneg [of "managers (coordinator k)" b] held_nonneg [of D b] by (simp add: free_set_refs [OF inv] ref add_nonneg_eq_0_iff)
    then show ?thesis using ref t tables_okD(5) b(2) by (simp add: occs_pos [OF t] held_pos once_def) metis
  qed
  then show ?thesis using pol by (simp add: null)
qed

lemma granted_cached:
  assumes "granted rid n enc c news c'" and "list_all2 cached_ok (managers c') (managers c3)" and "blocks (c_pool c3) = blocks (c_pool c')"
  shows "granted rid n enc c news c3"
proof -
  have "length (managers c3) = length (managers c')" using assms(2) by (simp add: list_all2_lengthD)
  moreover have "config (managers c3 ! i) = config (managers c' ! i)" "table_of x (managers c3 ! i) = table_of x (managers c' ! i)"
    if "i < length (managers c')" for i x
    using list_all2_nthD [OF assms(2) that] by (simp_all add: cached_ok_def)
  ultimately show ?thesis using assms(1,3) unfolding granted_def Let_def only_table_def by simp
qed

text \<open>
  C2: \<^verbatim>\<open>allocate_slots\<close> on a well-formed call in a reachable state. Without a prefix cache, or with caching
  delayed, it never raises: the number of blocks it predicts covers what its three stages take, over all
  groups. Whenever it returns, with or without caching: if it declines, no free block is lost and every
  table keeps its slots; if it grants, every group has slots for the tokens of the request, the tables of
  other requests are untouched, and the new blocks are pairwise distinct real blocks that no other request
  and no deferred free holds.
\<close>

theorem allocate_slots_safe:
  assumes "kv_reachable sha256 (k, D)" and "call_ok r a k"
    and "local_tokens r a + num_external_computed_tokens a + num_new_tokens a \<le> k_max_model_len k"
  shows "(policy_total (k_policy k) \<longrightarrow> \<not> k_enable_caching k \<or> delay_cache_blocks a \<longrightarrow>
      (\<exists>res k'. allocate_slots sha256 r a k = Inr (res, r, k')))
    \<and> (\<forall>res r' k'. allocate_slots sha256 r a k = Inr (res, r', k') \<longrightarrow>
        (case res of
           None \<Rightarrow> declined (request_id r) (coordinator k) (coordinator k')
         | Some news \<Rightarrow> granted (request_id r) (need_slots r a k) (num_encoder_tokens a) (coordinator k) news (coordinator k')
             \<and> (\<forall>b\<in>set (concat news). \<forall>d\<in>set D. b \<notin> set (snd d))))"
proof -
  have ok: "coord_ok (held D) (coordinator k)" "kind_sizes_ok (c_kind (coordinator k))"
    using kv_reachable_ok [OF assms(1)] by (simp_all add: kv_ok_def)
  show ?thesis
  proof (cases rule: allocate_slots_cases [OF ok(1) assms(2), of sha256, case_names declines grants])
    case (declines c')
    then show ?thesis by simp
  next
    case (grants news c')
    let ?k = "k\<lparr>coordinator := c'\<rparr>" and ?main = "local_tokens r a + num_external_computed_tokens a + num_new_tokens a"
    have total: "\<exists>res k'. allocate_slots sha256 r a k = Inr (res, r, k')"
      if "policy_total (k_policy k)" "\<not> k_enable_caching k \<or> delay_cache_blocks a"
    proof -
      obtain pol where "record_tmh_pressure r ?main ?k = Inr (?k\<lparr>k_policy := pol\<rparr>)"
        by (rule pressure_recorded [of ?k r]) (use \<open>policy_total (k_policy k)\<close> in simp)
      then show ?thesis using grants(1) that(2) by (simp add: publish_def)
    qed
    have "granted (request_id r) (need_slots r a k) (num_encoder_tokens a) (coordinator k) news (coordinator k') \<and> res = Some news"
      if eq: "allocate_slots sha256 r a k = Inr (res, r', k')" for res r' k'
    proof (cases "\<not> k_enable_caching k \<or> delay_cache_blocks a")
      case True
      then show ?thesis
        using eq grants(1,3) by (auto simp: publish_def res_bind_Inr_iff dest!: pressure_coord split: if_splits)
    next
      case False
      obtain r1 c3 where c3: "coord_cache_blocks sha256 r (min ?main (num_tokens r)) c' = Inr (r1, c3)"
        and k': "record_tmh_pressure r1 ?main (k\<lparr>coordinator := c3\<rparr>) = Inr k'" "res = Some news"
        using eq grants(1) False by (auto simp: publish_def res_bind_Inr_iff)
      have "0 \<le> num_lookahead_tokens a" using assms(2) by (simp add: call_ok_def)
      then have "min ?main (num_tokens r) \<le> need_slots r a k" using assms(3) by (auto simp: need_slots_def)
      then have cov: "\<forall>m\<in>set (managers c'). attention m \<noteq> CrossAttention \<longrightarrow>
          min ?main (num_tokens r) \<le> int (length (table_of (request_id r) m)) * m_block_size m"
        using granted_covers [OF grants(3)] by blast
      have "kind_sizes_ok (c_kind c')" using ok(2) grants(4) by simp
      note cached = coord_cache_ok [OF grants(2) c3 this cov]
      have "granted (request_id r) (need_slots r a k) (num_encoder_tokens a) (coordinator k) news c3"
        by (rule granted_cached [OF grants(3) cached(3)]) (use cached(2) in \<open>simp add: eq_defs\<close>)
      then show ?thesis using pressure_coord [OF k'(1)] k'(2) by simp
    qed
    then show ?thesis using total grants(5) by (fastforce simp: held_pos)
  qed
qed

section \<open>Release without the policy\<close>

text \<open>
  When the scheduler defers the release of a request because a step is in flight, neither the deferral
  nor the later drain tells the tiered-memory policy: it keeps every page descriptor, count and record of
  the request, which the immediate release forgets.
\<close>

lemma deferred_free_keeps_policy:
  assumes "last_seq > done_seq" and "free_request_blocks True last_seq done_seq seq r D k = Inr (D1, k1)"
    and "drain_deferred_frees done_seq' D1 k1 = Inr (D2, k2)"
  shows "k_policy k2 = k_policy k \<and>
    (\<forall>D' k'. free_request_blocks False last_seq done_seq seq r D k = Inr (D', k') \<longrightarrow> k_policy k' = forget_request (request_id r) (k_policy k))"
proof -
  have "k_policy k1 = k_policy k"
    using assms(1,2) by (auto simp: free_request_blocks_def kv_pop_blocks_for_free_def case_prod_beta)
  then show ?thesis
    using drain_policy [OF assms(3)] by (auto simp: free_request_blocks_def kv_free_def elim!: res_bind_InrE)
qed

section \<open>Witnesses\<close>

definition kv_request :: "string \<Rightarrow> request" where
  "kv_request rid = \<lparr>request_id = rid, object_id = 1, priority = 0, arrival_time = 0, status = RUNNING,
    req_stop_reason = None, req_sampling_params = None, req_pooling_params = None, req_lora = None, max_tokens = 16,
    prompt_token_ids = Some (replicate 20 1), prompt_embeds = None, embeds_hash_memo = [], num_prompt_tokens = 20,
    output_token_ids = [], all_token_ids = replicate 20 1, spec_token_ids = [], num_computed_tokens = 0, cache_salt = None,
    mm_features = [], block_hashes = [], skip_reading_prefix_cache = False\<rparr>"

definition kv_args :: slot_args where
  "kv_args = \<lparr>num_new_tokens = 20, num_new_computed_tokens = 0, new_computed_blocks = None, num_lookahead_tokens = 0,
    num_external_computed_tokens = 0, delay_cache_blocks = False, num_encoder_tokens = 0, full_sequence_must_fit = True,
    reserved_blocks = 0, has_scheduled_reqs = False\<rparr>"

definition plain_config :: kv_cache_config where
  "plain_config = \<lparr>cfg_num_blocks = 4, kv_cache_tensors = [], kv_cache_groups =
     [\<lparr>layer_names = [''l.0''], group_spec = FullAttentionSpec sample_full, is_eagle_group = False\<rparr>],
     tmh_kv_policy = ''off'', kv_layout = ''paged_kv'', cfg_tmh_hot_budget_pct = 25\<rparr>"

definition plain_init :: "kv_cache result option" where
  "plain_init = kv_cache_init plain_config 64 16 16 None False False False 1 1 False None 0"

lemma plain_facts:
  "case plain_init of Some (Inr k) \<Rightarrow> k_max_model_len k = 64 \<and> watermark_blocks k = 0 \<and> \<not> k_enable_caching k \<and> policy (k_policy k) = ''off''
     \<and> (case allocate_slots id (kv_request ''r'') kv_args k of
          Inr (Some news, _, k') \<Rightarrow> news = [ [Block 1, Block 2] ]
            \<and> map (table_of ''r'') (managers (coordinator k')) = [ [Block 1, Block 2] ] \<and> Block 1 \<in> set (blocks (pool k'))
        | _ \<Rightarrow> False)
   | _ \<Rightarrow> False"
  by code_simp

lemma plain_reachable:
  obtains k r' k' where "kv_reachable id (k, [])" "k_max_model_len k = 64" "watermark_blocks k = 0" "\<not> k_enable_caching k"
    "policy_total (k_policy k)" "allocate_slots id (kv_request ''r'') kv_args k = Inr (Some [ [Block 1, Block 2] ], r', k')"
    "map (table_of ''r'') (managers (coordinator k')) = [ [Block 1, Block 2] ]" "Block 1 \<in> set (blocks (pool k'))"
proof -
  obtain k where k: "plain_init = Some (Inr k)" using plain_facts by (auto split: option.splits sum.splits)
  have "\<forall>g\<in>set (kv_cache_groups plain_config). spec_sizes_ok (group_spec g)"
    by (simp add: plain_config_def spec_sizes_ok_def kind_ok_def sample_full_def)
  then have "kv_reachable id (k, [])"
    using kv_reachable.start [OF k [unfolded plain_init_def]] by simp
  moreover have "policy_total (k_policy k)" using plain_facts by (simp add: k policy_total_def policy_enabled_def)
  ultimately show ?thesis
    using plain_facts that by (auto simp: k split: sum.splits option.splits prod.splits)
qed

lemma sample_call:
  assumes "kv_ok D k" and "k_max_model_len k = 64" and "watermark_blocks k = 0"
  shows "call_ok (kv_request rid) kv_args k"
proof -
  have "0 \<le> m_block_size (managers (coordinator k) ! i)" if "i < length (managers (coordinator k))" for i
    using tables_okD(1) [OF mgrs_tables [OF _ that]] assms(1) by (auto simp: kv_ok_def less_imp_le)
  then show ?thesis
    using assms(2,3) by (auto simp: call_ok_def slots_ok_def runs_def kv_request_def kv_args_def computed_list_def no_blocks_def)
qed

theorem allocate_slots_safe_witness:
  "\<exists>k k' news. kv_reachable id (k, []) \<and> call_ok (kv_request ''r'') kv_args k \<and> policy_total (k_policy k) \<and> \<not> k_enable_caching k
     \<and> allocate_slots id (kv_request ''r'') kv_args k = Inr (Some news, kv_request ''r'', k')
     \<and> granted ''r'' 20 0 (coordinator k) news (coordinator k')"
proof -
  obtain k r' k' where k: "kv_reachable id (k, [])" "k_max_model_len k = 64" "watermark_blocks k = 0" "\<not> k_enable_caching k"
    "policy_total (k_policy k)" "allocate_slots id (kv_request ''r'') kv_args k = Inr (Some [ [Block 1, Block 2] ], r', k')"
    by (rule plain_reachable)
  have call: "call_ok (kv_request ''r'') kv_args k"
    by (rule sample_call [of "[]"]) (use kv_reachable_ok [OF k(1)] k(2,3) in simp_all)
  have "local_tokens (kv_request ''r'') kv_args + num_external_computed_tokens kv_args + num_new_tokens kv_args \<le> k_max_model_len k"
    by (simp add: k(2) kv_request_def kv_args_def)
  note safe = allocate_slots_safe [OF k(1) call this]
  have "r' = kv_request ''r''" using safe k(4-6) by auto
  moreover have "granted ''r'' 20 0 (coordinator k) [ [Block 1, Block 2] ] (coordinator k')"
    using safe k(2,6) by (auto simp: kv_request_def kv_args_def need_slots_def)
  ultimately show ?thesis using k call by blast
qed

theorem kv_blocks_accounted_witness:
  "\<exists>k. kv_reachable id (k, []) \<and> ref_cnt (blk (pool k) (Block 1)) = occs (managers (coordinator k)) (Block 1)
     \<and> (\<exists>m\<in>set (managers (coordinator k)). Block 1 \<in> set (table_of ''r'' m))"
proof -
  obtain k r' k' where k: "kv_reachable id (k, [])" "k_max_model_len k = 64" "watermark_blocks k = 0" "\<not> k_enable_caching k"
    "policy_total (k_policy k)" "allocate_slots id (kv_request ''r'') kv_args k = Inr (Some [ [Block 1, Block 2] ], r', k')"
    "map (table_of ''r'') (managers (coordinator k')) = [ [Block 1, Block 2] ]" "Block 1 \<in> set (blocks (pool k'))"
    by (rule plain_reachable)
  have "call_ok (kv_request ''r'') kv_args k"
    by (rule sample_call [of "[]"]) (use kv_reachable_ok [OF k(1)] k(2,3) in simp_all)
  then have "kv_step id (k, []) (k', [])"
    by (rule kv_step.allocate [OF _ _ k(6)]) (simp add: k(2) kv_request_def kv_args_def)
  then have reach: "kv_reachable id (k', [])" by (rule kv_reachable.next_state [OF k(1)])
  have "pool_inv (pool k')" using kv_reachable_ok [OF reach] by (simp add: kv_ok_def mgrs_ok_def)
  then have "null_block (pool k') = Block 0" by (simp add: pool_inv_def alloc_inv_def)
  then have "ref_cnt (blk (pool k') (Block 1)) = occs (managers (coordinator k')) (Block 1)"
    using kv_blocks_accounted [OF reach] k(8) by (simp add: held_def)
  moreover have "\<exists>m\<in>set (managers (coordinator k')). Block 1 \<in> set (table_of ''r'' m)" using k(7) by auto
  ultimately show ?thesis using reach by blast
qed

end
