(* ===== verification/KvHitSpec.thy ===== *)
theory KvHitSpec
  imports KvCacheSpec
begin

text \<open>
  The lookups compared with what they look for: the longest cached prefix for full attention, the longest
  prefix whose last window is cached for sliding-window attention.
\<close>

section \<open>Rows of cached blocks\<close>

definition in_cache :: "block_pool \<Rightarrow> int list \<Rightarrow> bytes \<Rightarrow> bool" where
  "in_cache p gids h \<longleftrightarrow> (\<forall>g\<in>set gids. \<forall>key. make_block_hash_with_group_id h g = Inr key \<longrightarrow> (\<exists>b\<in>set (blocks p). key \<in> owned p b))"

definition row_of :: "block_pool \<Rightarrow> int list \<Rightarrow> bytes \<Rightarrow> block_ref list \<Rightarrow> bool" where
  "row_of p gids h row \<longleftrightarrow> length row = length gids \<and>
     (\<forall>k<length gids. row ! k \<in> set (blocks p) \<and> (\<exists>key. make_block_hash_with_group_id h (gids ! k) = Inr key \<and> key \<in> owned p (row ! k)))"

lemma cached_row_spec:
  assumes inv: "pool_inv p" and g: "gids \<noteq> []" "\<forall>g\<in>set gids. 0 \<le> g \<and> g < 2 ^ 32"
  shows "if in_cache p gids h then \<exists>row. cached_row p gids h = Inr (Some row) \<and> row_of p gids h row else cached_row p gids h = Inr None"
proof -
  have I: "cache_inv p" using inv by (simp add: pool_inv_def)
  from get_cached_block_spec [OF I g(2), of h] show ?thesis
  proof (elim disjE exE conjE)
    fix bs
    assume e: "get_cached_block p h gids = Inr (Some bs)"
      and all: "list_all2 (\<lambda>g b. b \<in> set (blocks p) \<and> (\<exists>key. make_block_hash_with_group_id h g = Inr key \<and> key \<in> owned p b)) gids bs"
    have "in_cache p gids h"
      unfolding in_cache_def
    proof (intro ballI allI impI)
      fix g key
      assume "g \<in> set gids" and key: "make_block_hash_with_group_id h g = Inr key"
      then obtain i where i: "i < length gids" "g = gids ! i" by (auto simp: in_set_conv_nth)
      have "bs ! i \<in> set (blocks p)" "\<exists>key. make_block_hash_with_group_id h (gids ! i) = Inr key \<and> key \<in> owned p (bs ! i)"
        using all i(1) unfolding list_all2_conv_all_nth by blast+
      then show "\<exists>b\<in>set (blocks p). key \<in> owned p b" using key i(2) by auto
    qed
    moreover have "bs \<noteq> []" using all g(1) by auto
    moreover have "row_of p gids h bs" using all by (simp add: row_of_def list_all2_conv_all_nth)
    ultimately show ?thesis using e by (simp add: cached_row_def)
  next
    assume e: "get_cached_block p h gids = Inr None"
      and no: "\<exists>g\<in>set gids. \<exists>key. make_block_hash_with_group_id h g = Inr key \<and> (\<forall>b\<in>set (blocks p). key \<notin> owned p b)"
    then have "\<not> in_cache p gids h" unfolding in_cache_def by blast
    then show ?thesis using e by (simp add: cached_row_def)
  qed
qed

lemma cached_row_cases:
  assumes "pool_inv p" and "gids \<noteq> []" "\<forall>g\<in>set gids. 0 \<le> g \<and> g < 2 ^ 32"
  obtains (hit) row where "in_cache p gids h" "cached_row p gids h = Inr (Some row)" "row_of p gids h row"
  | (miss) "\<not> in_cache p gids h" "cached_row p gids h = Inr None"
  using cached_row_spec [OF assms, of h] by (auto split: if_splits)

section \<open>Full attention\<close>

lemma full_hit_rows_spec:
  assumes "pool_inv p" and "gids \<noteq> []" "\<forall>g\<in>set gids. 0 \<le> g \<and> g < 2 ^ 32"
  shows "\<exists>rows. full_hit_rows p gids hs = Inr rows \<and> list_all2 (row_of p gids) (takeWhile (in_cache p gids) hs) rows"
proof (induction hs)
  case (Cons h hs)
  from cached_row_cases [OF assms, of h] Cons.IH show ?case by cases auto
qed simp

lemma columns_nth:
  "k < length gids \<Longrightarrow> columns gids rows ! k = map (\<lambda>row. row ! k) rows" "length (columns gids rows) = length gids"
  by (simp_all add: columns_def)

lemma aligned_same [simp]: "aligned_rows bs bs rows = Inr rows"
  by (simp add: aligned_rows_def align_rows.simps)

text \<open>
  C6: in a reachable state, when the lookup needs no alignment beyond the block size and no block is
  dropped for EAGLE, the lookup for full attention finds the longest prefix of the hashes, within the
  given length, that is cached for every group, and for each hash and group a block that owns the key.
\<close>

theorem full_hit_is_longest_prefix:
  assumes "kv_reachable sha256 (k, D)" and "gids \<noteq> []" and "\<forall>g\<in>set gids. 0 \<le> g \<and> g < 2 ^ 32" and "0 < bs" and "0 \<le> max_length"
  shows "\<exists>cols. find_full_hit hashes max_length gids (pool k) bs False bs = Inr cols \<and> length cols = length gids \<and>
    (let prefix = takeWhile (in_cache (pool k) gids) (take (nat (max_length div bs)) hashes) in
     \<forall>j<length gids. length (cols ! j) = length prefix \<and>
       (\<forall>i<length prefix. cols ! j ! i \<in> set (blocks (pool k)) \<and>
          (\<exists>key. make_block_hash_with_group_id (hashes ! i) (gids ! j) = Inr key \<and> key \<in> owned (pool k) (cols ! j ! i))))"
proof -
  let ?p = "pool k" and ?hs = "take (nat (max_length div bs)) hashes"
  have inv: "pool_inv ?p" using kv_reachable_ok [OF assms(1)] by (simp add: kv_ok_def mgrs_ok_def)
  obtain rows where rows: "full_hit_rows ?p gids ?hs = Inr rows" "list_all2 (row_of ?p gids) (takeWhile (in_cache ?p gids) ?hs) rows"
    using full_hit_rows_spec [OF inv assms(2,3)] by blast
  have nth: "takeWhile P xs ! i = xs ! i" if "i < length (takeWhile P xs)" for P i and xs :: "bytes list"
    using that by (metis takeWhile_nth)
  have row: "row_of ?p gids (hashes ! i) (rows ! i)" if "i < length (takeWhile (in_cache ?p gids) ?hs)" for i
  proof -
    have "row_of ?p gids (takeWhile (in_cache ?p gids) ?hs ! i) (rows ! i)" using rows(2) that by (simp add: list_all2_conv_all_nth)
    moreover have "i < length ?hs" using that length_takeWhile_le [of "in_cache ?p gids" ?hs] by linarith
    ultimately show ?thesis using nth [OF that] by simp
  qed
  have "find_full_hit hashes max_length gids ?p bs False bs = Inr (columns gids rows)"
    using assms(2,4,5) rows(1) by (simp add: find_full_hit_def pos_imp_zdiv_neg_iff)
  then show ?thesis
    using rows(2) row by (intro exI [of _ "columns gids rows"]) (auto simp: columns_nth Let_def row_of_def list_all2_lengthD)
qed

section \<open>Sliding window\<close>

text \<open>A prefix of \<open>n\<close> blocks can be used when its last \<open>win\<close> blocks are cached.\<close>

definition usable :: "(nat \<Rightarrow> bool) \<Rightarrow> nat \<Rightarrow> nat \<Rightarrow> bool" where
  "usable C win n \<longleftrightarrow> (\<forall>j<n. n - win \<le> j \<longrightarrow> C j)"

definition window_row :: "block_pool \<Rightarrow> int list \<Rightarrow> bytes list \<Rightarrow> nat \<Rightarrow> nat \<Rightarrow> nat \<Rightarrow> block_ref list \<Rightarrow> bool" where
  "window_row p gids hashes win n j row \<longleftrightarrow>
     (if j < n - win then row = replicate (length gids) (null_block p) else row_of p gids (hashes ! j) row)"

definition scan_result :: "block_pool \<Rightarrow> int list \<Rightarrow> bytes list \<Rightarrow> nat \<Rightarrow> nat \<Rightarrow> bool \<times> int \<times> block_ref list list \<Rightarrow> bool" where
  "scan_result p gids hashes win M res =
     (let (found, c, rows) = res; rows1 = (if found then rows else take (nat c) rows); n = length rows1;
          C = (\<lambda>j. in_cache p gids (hashes ! j)) in
      n \<le> M \<and> usable C win n \<and> (\<forall>n'. n < n' \<and> n' \<le> M \<longrightarrow> \<not> usable C win n') \<and>
      (\<forall>j<n. window_row p gids hashes win n j (rows1 ! j)))"

lemma window_scan_spec:
  assumes inv: "pool_inv p" and g: "gids \<noteq> []" "\<forall>g\<in>set gids. 0 \<le> g \<and> g < 2 ^ 32"
    and M: "M \<le> length hashes" "length rows = M" "i + c \<le> M" "c < win"
    and run: "\<forall>j. i \<le> j \<and> j < i + c \<longrightarrow> in_cache p gids (hashes ! j) \<and> row_of p gids (hashes ! j) (rows ! j)"
    and null: "\<forall>j<i. rows ! j = replicate (length gids) (null_block p)"
    and above: "\<forall>n. i + c < n \<and> n \<le> M \<longrightarrow> \<not> usable (\<lambda>j. in_cache p gids (hashes ! j)) win n"
  shows "\<exists>res. window_scan p gids hashes bs bs False (int win) i (int c) rows = Inr res \<and> scan_result p gids hashes win M res"
  using M run null above
proof (induction i arbitrary: c rows)
  case 0
  then show ?case by (auto simp: scan_result_def Let_def usable_def window_row_def)
next
  case (Suc i)
  let ?C = "\<lambda>j. in_cache p gids (hashes ! j)"
  have idx: "py_index hashes (int i) = Inr (hashes ! i)" using Suc.prems by (simp add: py_index_def)
  show ?case
  proof (cases rule: cached_row_cases [OF inv g, of "hashes ! i", case_names hit miss])
    case (hit row)
    show ?thesis
    proof (cases "c + 1 \<ge> win")
      case True
      then have win: "win = Suc c" using Suc.prems(4) by simp
      let ?rows = "take (i + Suc c) (rows[i := row])"
      have len: "length ?rows = i + win" using Suc.prems win by simp
      have "window_scan p gids hashes bs bs False (int win) (Suc i) (int c) rows = Inr (True, int c + 1, ?rows)"
        using idx hit(2) True by (simp add: nat_add_distrib)
      moreover have "usable ?C win (i + win)"
        unfolding usable_def
      proof (intro allI impI)
        fix j
        assume "j < i + win" "i + win - win \<le> j"
        then show "?C j" using Suc.prems(5) [rule_format, of j] hit(1) win by (cases "j = i") auto
      qed
      moreover have "window_row p gids hashes win (i + win) j (?rows ! j)" if "j < i + win" for j
      proof (cases "j < i")
        case True
        then show ?thesis using Suc.prems win that by (simp add: window_row_def)
      next
        case False
        then show ?thesis using Suc.prems(2,3,5) hit(3) win that by (cases "j = i") (auto simp: window_row_def)
      qed
      ultimately show ?thesis
        using Suc.prems win len by (intro exI [of _ "(True, int c + 1, ?rows)"]) (simp add: scan_result_def Let_def)
    next
      case False
      have "window_scan p gids hashes bs bs False (int win) (Suc i) (int c) rows = window_scan p gids hashes bs bs False (int win) i (int (Suc c)) (rows[i := row])"
        using idx hit(2) False by (simp add: add.commute)
      moreover have "\<forall>j. i \<le> j \<and> j < i + Suc c \<longrightarrow> ?C j \<and> row_of p gids (hashes ! j) (rows[i := row] ! j)"
        using Suc.prems(2,3,5) hit(1,3) by (auto simp: nth_list_update)
      moreover from this have "\<exists>res. window_scan p gids hashes bs bs False (int win) i (int (Suc c)) (rows[i := row]) = Inr res \<and> scan_result p gids hashes win M res"
        by (intro Suc.IH) (use Suc.prems False in auto)
      ultimately show ?thesis by (simp only:)
    qed
  next
    case miss
    have no: "\<not> usable ?C win n" if "i < n" "n \<le> M" for n
      using Suc.prems(4,7) miss(1) that by (cases "Suc i + c < n") (auto simp: usable_def intro!: exI [of _ i])
    have "window_scan p gids hashes bs bs False (int win) (Suc i) (int c) rows = window_scan p gids hashes bs bs False (int win) i (int 0) rows"
      using idx miss(2) by simp
    moreover have "\<exists>res. window_scan p gids hashes bs bs False (int win) i (int 0) rows = Inr res \<and> scan_result p gids hashes win M res"
      by (rule Suc.IH) (use Suc.prems no in auto)
    ultimately show ?thesis by (simp only:)
  qed
qed

text \<open>
  C7: under the same conditions, with a window of more than one token and hashes for the given length, the
  right-to-left scan for sliding-window attention finds the longest usable prefix: the largest
  number of blocks, within the given length, whose last blocks up to the window are all cached. The blocks
  before that window are null, and each block in it owns the key of its hash.
\<close>

theorem window_hit_is_longest_usable:
  assumes "kv_reachable sha256 (k, D)" and "gids \<noteq> []" and "\<forall>g\<in>set gids. 0 \<le> g \<and> g < 2 ^ 32" and "0 < bs" and "1 < w"
    and "0 \<le> max_length" and "nat (max_length div bs) \<le> length hashes"
  shows "\<exists>cols n. find_window_hit hashes max_length gids (pool k) w bs False bs 1 1 = Inr cols \<and> length cols = length gids \<and>
    (let win = nat (cdiv (w - 1) bs); C = (\<lambda>j. in_cache (pool k) gids (hashes ! j)) in
     n \<le> nat (max_length div bs) \<and> usable C win n \<and> (\<forall>n'. n < n' \<and> n' \<le> nat (max_length div bs) \<longrightarrow> \<not> usable C win n') \<and>
     (\<forall>j<length gids. length (cols ! j) = n \<and>
        (\<forall>i<n. if i < n - win then cols ! j ! i = null_block (pool k)
               else \<exists>key. make_block_hash_with_group_id (hashes ! i) (gids ! j) = Inr key \<and> key \<in> owned (pool k) (cols ! j ! i))))"
proof -
  let ?p = "pool k" and ?M = "nat (max_length div bs)" and ?win = "nat (cdiv (w - 1) bs)"
  let ?C = "\<lambda>j. in_cache ?p gids (hashes ! j)" and ?rows = "replicate (nat (max_length div bs)) (replicate (length gids) (null_block (pool k)))"
  have inv: "pool_inv ?p" using kv_reachable_ok [OF assms(1)] by (simp add: kv_ok_def mgrs_ok_def)
  have "0 < cdiv (w - 1) bs" using cdiv_le_iff [OF assms(4), of "w - 1" 0] assms(5) by simp
  then have win: "0 < ?win" "int ?win = cdiv (w - 1) bs" by simp_all
  have "\<exists>res. window_scan ?p gids hashes bs bs False (int ?win) ?M (int 0) ?rows = Inr res \<and> scan_result ?p gids hashes ?win ?M res"
    by (rule window_scan_spec [OF inv assms(2,3)]) (use assms(7) win(1) in auto)
  then obtain found c rows where scan: "window_scan ?p gids hashes bs bs False (cdiv (w - 1) bs) ?M 0 ?rows = Inr (found, c, rows)"
    "scan_result ?p gids hashes ?win ?M (found, c, rows)"
    unfolding win(2) by auto
  define rows1 where "rows1 = (if found then rows else take (nat c) rows)"
  let ?n = "length rows1"
  have r: "?n \<le> ?M" "usable ?C ?win ?n" "\<forall>n'. ?n < n' \<and> n' \<le> ?M \<longrightarrow> \<not> usable ?C ?win n'"
    "\<forall>j<?n. window_row ?p gids hashes ?win ?n j (rows1 ! j)"
    using scan(2) by (simp_all add: scan_result_def Let_def rows1_def)
  have "find_window_hit hashes max_length gids ?p w bs False bs 1 1 = Inr (columns gids rows1)"
    using scan(1) assms(2,4) by (simp add: find_window_hit_def contiguous_blocks_for_hit_def rows1_def)
  moreover have "if i < ?n - ?win then columns gids rows1 ! j ! i = null_block ?p
      else \<exists>key. make_block_hash_with_group_id (hashes ! i) (gids ! j) = Inr key \<and> key \<in> owned ?p (columns gids rows1 ! j ! i)"
    if "j < length gids" "i < ?n" for i j
    using r(4) that by (auto simp: columns_nth window_row_def row_of_def split: if_splits)
  moreover have "length (columns gids rows1 ! j) = ?n" if "j < length gids" for j using that by (simp add: columns_nth)
  ultimately show ?thesis
    using r(1-3) by (intro exI [of _ "columns gids rows1"] exI [of _ ?n]) (simp add: Let_def columns_nth(2))
qed

section \<open>Several groups\<close>

lemma lookup_group_nonneg:
  assumes "lookup_group hashes hash_bs sched_bs max_hit p (i, g) st = Inr st'" and "0 < spec_block_size (sg_spec g)" and "0 \<le> curr_hit st"
  shows "0 \<le> curr_hit st'"
  using assms
  by (auto simp: lookup_group_def Let_def pos_imp_zdiv_nonneg_iff split: if_splits elim!: res_bind_InrE)

text \<open>
  The iteration over the groups of a hybrid coordinator terminates: every pass accepts the candidate
  length or shortens it, and it never gets negative.
\<close>

lemma hybrid_find_terminates:
  assumes "\<forall>g\<in>set groups. 0 < spec_block_size (sg_spec g)" and "0 \<le> max_hit"
  shows "\<exists>r. hybrid_find hashes max_hit hash_bs sched_bs num_groups groups p = Some r \<and>
    (\<forall>found hit u. r = Inr (found, hit, u) \<longrightarrow> 0 \<le> hit \<and> hit \<le> max_hit)"
proof -
  have fold: "0 \<le> curr_hit st'"
    if "res_fold (lookup_group hashes hash_bs sched_bs max_hit p) (List.enumerate 0 groups) st = Inr st'" "0 \<le> curr_hit st" for st st'
    using that(1)
  proof (rule res_fold_invariant [where P = "\<lambda>st. 0 \<le> curr_hit st"])
    fix ig s s'
    assume "ig \<in> set (List.enumerate 0 groups)" "0 \<le> curr_hit s" "lookup_group hashes hash_bs sched_bs max_hit p ig s = Inr s'"
    then show "0 \<le> curr_hit s'"
      using lookup_group_nonneg [of hashes hash_bs sched_bs max_hit p "fst ig" "snd ig" s s'] assms(1) nth_mem [of "fst ig" groups]
      by (auto simp: in_set_enumerate_eq)
  qed (rule that(2))
  have "\<exists>r. hybrid_loop hashes hash_bs sched_bs max_hit p groups simple hit st = Some r \<and>
      (\<forall>n st'. r = Inr (n, st') \<longrightarrow> 0 \<le> n \<and> n \<le> hit)" if "0 \<le> hit" for simple hit st
    using that
  proof (induction "nat hit" arbitrary: hit st rule: less_induct)
    case less
    show ?case
    proof (cases "res_fold (lookup_group hashes hash_bs sched_bs max_hit p) (List.enumerate 0 groups) (st\<lparr>curr_hit := hit\<rparr>)")
      case (Inl e)
      then show ?thesis by (subst hybrid_loop.simps) simp
    next
      case (Inr st1)
      show ?thesis
      proof (cases "curr_hit st1 \<ge> hit \<or> simple")
        case True
        then show ?thesis using Inr fold [OF Inr] less.prems by (subst hybrid_loop.simps) auto
      next
        case False
        have "\<exists>r. hybrid_loop hashes hash_bs sched_bs max_hit p groups simple (curr_hit st1) st1 = Some r \<and>
            (\<forall>n st'. r = Inr (n, st') \<longrightarrow> 0 \<le> n \<and> n \<le> curr_hit st1)"
          by (rule less) (use False fold [OF Inr] less.prems in auto)
        then show ?thesis using Inr False by (subst hybrid_loop.simps) fastforce
      qed
    qed
  qed
  note loop = this [OF assms(2)]
  define st where "st = \<lparr>curr_hit = max_hit, longest_hit = 0, hits = replicate num_groups None, eagle_verified = []\<rparr>"
  obtain r where r: "hybrid_loop hashes hash_bs sched_bs max_hit p groups (length groups = 2 \<and> is_full_spec (sg_spec (groups ! 0))) max_hit st = Some r"
    "\<forall>n st'. r = Inr (n, st') \<longrightarrow> 0 \<le> n \<and> n \<le> max_hit" using loop by blast
  show ?thesis
    unfolding hybrid_find_def Let_def st_def [symmetric] r(1) using r(2) by (auto elim!: res_bind_InrE)
qed

section \<open>Witnesses\<close>

definition caching_init :: "kv_cache result option" where
  "caching_init = kv_cache_init plain_config 64 16 16 None True False False 1 1 False None 0"

definition hashed_request :: request where
  "hashed_request = (kv_request ''r'')\<lparr>block_hashes := [ [7] ]\<rparr>"

lemma caching_facts:
  "case caching_init of Some (Inr k) \<Rightarrow> k_max_model_len k = 64 \<and> watermark_blocks k = 0
     \<and> (case allocate_slots id hashed_request kv_args k of
          Inr (Some news, _, k') \<Rightarrow> find_full_hit [ [7] ] 16 [0] (pool k') 16 False 16 = Inr [ [Block 1] ]
            \<and> find_window_hit [ [7] ] 16 [0] (pool k') 17 16 False 16 1 1 = Inr [ [Block 1] ]
        | _ \<Rightarrow> False)
   | _ \<Rightarrow> False"
  by code_simp

lemma cached_state:
  obtains k where "kv_reachable id (k, [])" "find_full_hit [ [7] ] 16 [0] (pool k) 16 False 16 = Inr [ [Block 1] ]"
    "find_window_hit [ [7] ] 16 [0] (pool k) 17 16 False 16 1 1 = Inr [ [Block 1] ]"
proof -
  obtain k where k: "caching_init = Some (Inr k)" using caching_facts by (auto split: option.splits sum.splits)
  have len: "k_max_model_len k = 64" "watermark_blocks k = 0" using caching_facts by (simp_all add: k)
  obtain news r' k' where a: "allocate_slots id hashed_request kv_args k = Inr (Some news, r', k')"
    "find_full_hit [ [7] ] 16 [0] (pool k') 16 False 16 = Inr [ [Block 1] ]"
    "find_window_hit [ [7] ] 16 [0] (pool k') 17 16 False 16 1 1 = Inr [ [Block 1] ]"
    using caching_facts by (auto simp: k split: sum.splits option.splits prod.splits)
  have "\<forall>g\<in>set (kv_cache_groups plain_config). spec_sizes_ok (group_spec g)"
    by (simp add: plain_config_def spec_sizes_ok_def kind_ok_def sample_full_def)
  then have reach: "kv_reachable id (k, [])"
    using kv_reachable.start [OF k [unfolded caching_init_def]] by simp
  have "call_ok (kv_request ''r'') kv_args k"
    by (rule sample_call [of "[]"]) (use kv_reachable_ok [OF reach] len in simp_all)
  then have "call_ok hashed_request kv_args k" by (simp add: call_ok_def hashed_request_def)
  then have "kv_step id (k, []) (k', [])"
    by (rule kv_step.allocate [OF _ _ a(1)]) (simp add: len hashed_request_def kv_request_def kv_args_def)
  then show ?thesis using that kv_reachable.next_state [OF reach] a(2,3) by blast
qed

theorem full_hit_is_longest_prefix_witness:
  "\<exists>k. kv_reachable id (k, []) \<and> find_full_hit [ [7] ] 16 [0] (pool k) 16 False 16 = Inr [ [Block 1] ] \<and> in_cache (pool k) [0] [7]"
proof -
  obtain k where k: "kv_reachable id (k, [])" "find_full_hit [ [7] ] 16 [0] (pool k) 16 False 16 = Inr [ [Block 1] ]" by (rule cached_state)
  from full_hit_is_longest_prefix [OF k(1), of "[0]" 16 16 "[ [7] ]"] k(2)
  have "length (takeWhile (in_cache (pool k) [0]) [ [7] ]) = 1" by (auto simp: Let_def)
  then have "in_cache (pool k) [0] [7]" by (simp split: if_splits)
  then show ?thesis using k by blast
qed

theorem window_hit_is_longest_usable_witness:
  "\<exists>k. kv_reachable id (k, []) \<and> find_window_hit [ [7] ] 16 [0] (pool k) 17 16 False 16 1 1 = Inr [ [Block 1] ] \<and> in_cache (pool k) [0] [7]"
proof -
  obtain k where k: "kv_reachable id (k, [])" "find_window_hit [ [7] ] 16 [0] (pool k) 17 16 False 16 1 1 = Inr [ [Block 1] ]" by (rule cached_state)
  have one: "cdiv 16 16 = 1" by (simp add: cdiv_def)
  from window_hit_is_longest_usable [OF k(1), of "[0]" 16 17 16 "[ [7] ]"] k(2)
  have "usable (\<lambda>j. in_cache (pool k) [0] ([ [7] ] ! j)) 1 1" by (auto simp: Let_def one)
  then have "in_cache (pool k) [0] [7]" by (auto simp: usable_def)
  then show ?thesis using k by blast
qed

end
