(* ===== verification/KvWindow.thy ===== *)
theory KvWindow
  imports KvCacheSpec
begin

text \<open>
  Chunked prefill with a manager that recycles blocks: how many real blocks a request holds, against the
  admission cap of its specification.
\<close>

section \<open>Chunked prefill\<close>

text \<open>The manager's share of \<^verbatim>\<open>allocate_slots\<close> for each chunk: skipped blocks first, new blocks then.\<close>

fun prefill :: "string \<Rightarrow> int \<Rightarrow> int list \<Rightarrow> kv_manager \<Rightarrow> block_pool \<Rightarrow> (kv_manager \<times> block_pool) result" where
  "prefill rid c [] m p = Inr (m, p)"
| "prefill rid c (n # ns) m p =
     res_bind (remove_skipped_blocks rid c None m p) (\<lambda>(m1, p1).
     res_bind (allocate_new_blocks rid (c + n) m1 p1) (\<lambda>(_, m2, p2). prefill rid (c + n) ns m2 p2))"

definition real_blocks :: "block_ref list \<Rightarrow> int" where
  "real_blocks t = int (length (filter (\<lambda>b. b \<noteq> Block 0) t))"










section \<open>The admission cap\<close>




section \<open>Chunked local attention\<close>

definition short_chunks :: chunked_local_spec where
  "short_chunks = sample_chunked\<lparr>block_size := 4, local_chunk_size := 6\<rparr>"

lemma short_chunks_run:
  "case (block_pool_init 8 False 4 False False, create_manager (ChunkedLocalAttentionSpec short_chunks) 2 32 False 0 4 1 1) of
     (Inr p, Some (Inr m)) \<Rightarrow> max_admission_blocks_per_request m = Some 2 \<and>
       (case prefill ''r'' 0 [2, 2, 2, 2, 2, 1, 2] m p of Inr (m', _) \<Rightarrow> real_blocks (table_of ''r'' m') = 3 | _ \<Rightarrow> False)
   | _ \<Rightarrow> False"
  by code_simp

text \<open>
  The admission cap of chunked local attention does not hold when the chunk is not a multiple of the
  block size: with chunks of six tokens, blocks of four and two batched tokens the cap is two blocks, and a
  request holds three real blocks during its prefill.
\<close>

lemma chunked_blocks_exceed_cap:
  "\<exists>p m m' p'. block_pool_init 8 False 4 False False = Inr p
     \<and> create_manager (ChunkedLocalAttentionSpec short_chunks) 2 32 False 0 4 1 1 = Some (Inr m)
     \<and> max_admission_blocks_per_request m = Some 2 \<and> prefill ''r'' 0 [2, 2, 2, 2, 2, 1, 2] m p = Inr (m', p')
     \<and> real_blocks (table_of ''r'' m') = 3"
proof -
  obtain p where p: "block_pool_init 8 False 4 False False = Inr p"
    using short_chunks_run by (cases "block_pool_init 8 False 4 False False") (auto split: option.split_asm sum.split_asm)
  obtain m where m: "create_manager (ChunkedLocalAttentionSpec short_chunks) 2 32 False 0 4 1 1 = Some (Inr m)"
    using short_chunks_run by (auto simp: p split: option.split_asm sum.split_asm)
  obtain m' p' where "prefill ''r'' 0 [2, 2, 2, 2, 2, 1, 2] m p = Inr (m', p')"
    using short_chunks_run by (cases "prefill ''r'' 0 [2, 2, 2, 2, 2, 1, 2] m p") (auto simp: p m simp del: prefill.simps)
  then show ?thesis using short_chunks_run p m by (auto simp del: prefill.simps)
qed

section \<open>Witness\<close>




end
