(* ===== verification/Spec2Isabelle.thy ===== *)
theory Spec2Isabelle
  imports BlockPoolSpec SpecRegistry TmhPhysicalSpec RequestQueue EncoderSpec KvHitSpec KvWindow
begin

text \<open>
  A verification development for the KV-cache core of sock: a fork of the vLLM inference engine (under
  \<^verbatim>\<open>src/vllm/vllm\<close>) whose KV pages can be kept in a tiered memory hierarchy (TMH) of raw and quantised
  pages. Paths below are relative to \<^verbatim>\<open>src/vllm/vllm\<close>.

  \<^bold>\<open>The program.\<close> The scheduler keeps requests in waiting queues (\<^verbatim>\<open>v1/core/sched/request_queue.py\<close>) and asks the
  KV cache manager (\<^verbatim>\<open>v1/core/kv_cache_manager.py\<close>) for slots. The manager hands the call to a coordinator
  (\<^verbatim>\<open>kv_cache_coordinator.py\<close>) over one manager per group of layers (\<^verbatim>\<open>single_type_kv_cache_manager.py\<close>); these
  keep the block tables of the requests and share one block pool (\<^verbatim>\<open>block_pool.py\<close>), which counts references,
  evicts from a linked free list and finds cached prefixes by chained block hashes (\<^verbatim>\<open>kv_cache_utils.py\<close>).
  What a group stores is described by a specification (\<^verbatim>\<open>v1/kv_cache_interface.py\<close>). The TMH policy
  (\<^verbatim>\<open>tmh_policy.py\<close>) gives every page of a request a role and sends descriptor events to the worker, whose
  runtime (\<^verbatim>\<open>v1/tmh_physical.py\<close>) places pages into slots of the raw and the warm pool. Encoder outputs of
  multimodal inputs have a cache and a budget of their own (\<^verbatim>\<open>encoder_cache_manager.py\<close>, \<^verbatim>\<open>sched/scheduler.py\<close>).

  \<^bold>\<open>Conventions.\<close> A Python exception is a value: an operation returns \<open>'a result\<close>, \<open>Inl\<close> the exception class,
  and every raise, assertion, index or key error of the source is a branch. State is passed explicitly in
  records with the fields of the classes. Dictionaries are association lists in insertion order, integers
  are unbounded as in Python, floats are rationals rounded to 53 bits after each operation, bytes are
  8-bit words. Hash functions, the platform hook for specifications, the encoder-cache connector and the
  iteration order of Python sets are arguments of the definitions that use them.

  \<^bold>\<open>Theories and what they model.\<close>
  \<^item> \<open>Prelude\<close>: results, their bind, fold and map, dictionaries, indexing, slicing, ceiling division
    (\<^verbatim>\<open>utils/math_utils.py\<close>). \<open>Float64\<close>: rounding, behind the locale \<open>fp_rounding\<close>.
  \<^item> \<open>FreeBlockQueue\<close>: \<^verbatim>\<open>FreeKVCacheBlockQueue\<close>, the intrusive doubly linked list, as an explicit store of links.
    It refines a plain list (locale \<open>free_list\<close>).
  \<^item> \<open>Request\<close>: \<^verbatim>\<open>v1/request.py\<close> and the stop conditions of \<^verbatim>\<open>v1/core/sched/utils.py\<close>.
  \<^item> \<open>BlockHashing\<close>: extra keys, chained hashes, the request hasher and the coarser view of the hashes. The
    stored hashes are the chain of the full blocks, and a hash identifies its prefix.
  \<^item> \<open>HashIndex\<close>: \<^verbatim>\<open>BlockHashToBlockMap\<close> behind the locale \<open>hash_index\<close>. \<open>BlockPool\<close>: every operation of \<^verbatim>\<open>BlockPool\<close>.
    \<open>BlockPoolInv\<close>: its invariant, one lemma per operation. \<open>BlockPoolSpec\<close>: the step relation \<open>pool_step\<close>,
    reachable pools and the properties of the pool.
  \<^item> \<open>KvSpec\<close>, \<open>SpecMerge\<close>, \<open>SpecRegistry\<close>: the specification classes with page sizes and memory bounds, their
    merging, and the registry \<^verbatim>\<open>v1/kv_cache_spec_registry.py\<close> with the built-in registrations.
  \<^item> \<open>TmhSpec\<close>: how many blocks of the tiered layout fit the memory (\<^verbatim>\<open>_tmh_physical_num_blocks_for_memory\<close>,
    \<^verbatim>\<open>_get_tmh_physical_kv_cache_config\<close>): the search ends, is maximal, and the tensors fit.
  \<^item> \<open>TmhPolicy\<close>: the policy with its accounting, descriptors and events. \<open>TmhPolicyInv\<close>, \<open>TmhPolicySpec\<close>:
    reference counts, releases, roles, idempotence. \<open>TmhAccounting\<close>: the sums of \<^verbatim>\<open>record_allocation\<close>, exact
    page counts and bounds in spite of rounding.
  \<^item> \<open>TmhPhysical\<close>: the worker runtime and the byte layout of its pools. \<open>TmhPhysicalInv\<close>: slots are neither
    shared nor lost. \<open>TmhPhysicalTables\<close>: shapes of the tables and totality of the operations.
    \<open>TmhPhysicalRows\<close>: what an event does to the row of a request. \<open>TmhPhysicalSpec\<close>: the properties.
  \<^item> \<open>KvManager\<close>: the managers of one group (full, R-SWA, sliding-window, chunked-local, cross attention).
    \<open>KvHits\<close>: their prefix lookups. \<open>KvCoordinator\<close>: the three coordinators and their construction.
    \<open>KvCacheManager\<close>: \<^verbatim>\<open>KVCacheManager\<close> and the scheduler's deferred frees.
  \<^item> \<open>KvInv\<close>: the invariant of a manager beside its pool: the count of a block is the number of its entries in
    the tables and elsewhere. \<open>KvTake\<close>, \<open>KvRelease\<close>: the locales \<open>manager_take\<close> and \<open>manager_release\<close> carry one
    manager's contract over all groups; the operations of the managers interpret them. \<open>KvAlloc\<close>, \<open>KvSlots\<close>:
    the predicted number of blocks covers what an allocation takes. \<open>KvReach\<close>: every call keeps the
    invariant. \<open>KvCacheSpec\<close>: reachable states and the properties of the whole manager. \<open>KvHitSpec\<close>: lookups
    find the longest prefix; the hybrid iteration ends. \<open>KvWindow\<close>: chunked prefill against the admission cap.
  \<^item> \<open>Heapq\<close>, \<open>RequestQueue\<close>: the standard library's binary heap (locale \<open>heap_order\<close>) and both waiting queues,
    which refine a list in the order of the policy.
  \<^item> \<open>EncoderCache\<close>, \<open>EncoderScheduling\<close>, \<open>EncoderPlan\<close>, \<open>EncoderSpec\<close>: both encoder cache managers, the planning
    of encoder inputs (locale \<open>encoder_store\<close>), and the outputs the model runner gathers.

  \<^bold>\<open>How the parts are tied together.\<close> \<open>kv_step\<close> (\<open>KvReach\<close>) is one call of the KV cache manager or of the deferred
  frees; it is composed of the operations of the pool and of the policy, and a reachable KV cache
  has a pool with the pool's invariant and a policy that the steps \<open>policy_step\<close> reach. The events of a reachable policy are what
  \<open>apply_events\<close> consumes; \<open>runtime_reachable\<close> closes the worker under them.

  \<^bold>\<open>Loops.\<close> No definition uses fuel. Loops are structural recursion or have a termination proof; the four that
  may diverge on bad input are partial functions into \<open>option\<close>: the walk over the links of the free list
  (\<open>FreeBlockQueue.walk_free\<close>), the doubling of the block count (\<open>TmhSpec.double_hi\<close>), the hybrid iteration
  (\<open>KvCoordinator.hybrid_loop\<close>) and the hasher's loop (\<open>BlockHashing.hasher_loop\<close>). For each it is proved under
  which conditions it returns.

  \<^bold>\<open>Where the code falls short.\<close> Lemmas record behaviour that differs from what the code means to do: an event
  clears pages it does not describe, a demoted overlay keeps its slot, a deferred free never reaches the
  policy, the first page is counted twice, the resumed hasher skips an earlier image, a look-ahead misses
  an unscheduled input, encoder-decoder slots are returned too often, the chunked-local cap is too small
  for unaligned chunks, and an int4 cache does not fit its tiered plan.

  \<^bold>\<open>Not modelled.\<close> The scheduler's main loop beyond the parts above; the Mamba manager, whose state depends on
  the model runner, and the sink manager; the heuristics that group layers at start-up; KV connectors and offloading, which
  enter as numbers of external tokens; metrics and log output; and everything on tensors: attention kernels,
  model runners, models, samplers, servers. The contents of KV pages are not modelled, only their placement.
\<close>

end
